(* ===== verification/Voting_Effects.thy ===== *)
theory Voting_Effects
  imports Voting_Prelude
begin

text \<open>
  Programs that read and change a world and may fail: the asynchronous functions of the crate are
  modelled as such programs, one world per pass. The weakest precondition of a program is a
  predicate of the world it starts in; the rules below compute it along the program text.
\<close>

type_synonym ('w, 'e, 'a) prog = "'w \<Rightarrow> ('e + 'a) \<times> 'w"

named_theorems prog_simps

section \<open>Combinators\<close>

definition ret :: "'a \<Rightarrow> ('w, 'e, 'a) prog" where
  "ret x w = (Inr x, w)"

definition raise :: "'e \<Rightarrow> ('w, 'e, 'a) prog" where
  "raise e w = (Inl e, w)"

text \<open>The \<open>?\<close> operator: the second program runs on the value of the first.\<close>

definition seq :: "('w, 'e, 'a) prog \<Rightarrow> ('a \<Rightarrow> ('w, 'e, 'b) prog) \<Rightarrow> ('w, 'e, 'b) prog" where
  "seq m f w = (case m w of (Inl e, w') \<Rightarrow> (Inl e, w') | (Inr x, w') \<Rightarrow> f x w')"

definition from_result :: "'e + 'a \<Rightarrow> ('w, 'e, 'a) prog" where
  "from_result r w = (r, w)"

definition on_error :: "('e \<Rightarrow> 'e) \<Rightarrow> ('w, 'e, 'a) prog \<Rightarrow> ('w, 'e, 'a) prog" where
  "on_error g m w = (case m w of (r, w') \<Rightarrow> (map_err g r, w'))"

text \<open>A \<open>match\<close> on the result of a call: the error becomes a value.\<close>

definition attempt :: "('w, 'e, 'a) prog \<Rightarrow> ('w, 'e, 'e + 'a) prog" where
  "attempt m w = (case m w of (r, w') \<Rightarrow> (Inr r, w'))"

text \<open>A destructor: it runs when the program leaves its scope, with a value or an error.\<close>

definition and_drop :: "('w \<Rightarrow> 'w) \<Rightarrow> ('w, 'e, 'a) prog \<Rightarrow> ('w, 'e, 'a) prog" where
  "and_drop g m w = (case m w of (r, w') \<Rightarrow> (r, g w'))"

lemma seq_assoc: "seq (seq m f) g = seq m (\<lambda>x. seq (f x) g)"
  by (intro ext) (simp add: seq_def split: prod.split sum.split)

lemma on_error_seq: "on_error g (seq m f) = seq (on_error g m) (\<lambda>x. on_error g (f x))"
  by (intro ext) (simp add: on_error_def seq_def split: prod.split sum.split)

lemma on_error_ret [simp]: "on_error g (ret x) = ret x"
  by (intro ext) (simp add: on_error_def ret_def)

section \<open>Weakest preconditions\<close>

definition wp :: "('w, 'e, 'a) prog \<Rightarrow> ('e + 'a \<Rightarrow> 'w \<Rightarrow> bool) \<Rightarrow> 'w \<Rightarrow> bool" where
  "wp m Q w \<longleftrightarrow> (case m w of (r, w') \<Rightarrow> Q r w')"

lemma wp_ret [prog_simps]: "wp (ret x) Q w \<longleftrightarrow> Q (Inr x) w"
  by (simp add: wp_def ret_def)

lemma wp_raise [prog_simps]: "wp (raise e) Q w \<longleftrightarrow> Q (Inl e) w"
  by (simp add: wp_def raise_def)

lemma wp_from_result [prog_simps]: "wp (from_result r) Q w \<longleftrightarrow> Q r w"
  by (simp add: wp_def from_result_def)

lemma wp_seq [prog_simps]:
  "wp (seq m f) Q w \<longleftrightarrow> wp m (\<lambda>r w'. case r of Inl e \<Rightarrow> Q (Inl e) w' | Inr x \<Rightarrow> wp (f x) Q w') w"
  by (auto simp: wp_def seq_def split: prod.splits sum.splits)

lemma wp_on_error [prog_simps]: "wp (on_error g m) Q w \<longleftrightarrow> wp m (\<lambda>r. Q (map_err g r)) w"
  by (auto simp: wp_def on_error_def split: prod.splits)

lemma wp_attempt [prog_simps]: "wp (attempt m) Q w \<longleftrightarrow> wp m (\<lambda>r. Q (Inr r)) w"
  by (auto simp: wp_def attempt_def split: prod.splits)

lemma wp_and_drop [prog_simps]: "wp (and_drop g m) Q w \<longleftrightarrow> wp m (\<lambda>r w'. Q r (g w')) w"
  by (auto simp: wp_def and_drop_def split: prod.splits)

lemma wp_mono: "wp m P w \<Longrightarrow> (\<And>r w'. P r w' \<Longrightarrow> Q r w') \<Longrightarrow> wp m Q w"
  by (auto simp: wp_def split: prod.splits)

lemma wp_conj: "wp m P w \<Longrightarrow> wp m Q w \<Longrightarrow> wp m (\<lambda>r w'. P r w' \<and> Q r w') w"
  by (auto simp: wp_def split: prod.splits)

lemma wp_seqI:
  assumes "wp m R w" and "\<And>e w'. R (Inl e) w' \<Longrightarrow> Q (Inl e) w'"
    and "\<And>x w'. R (Inr x) w' \<Longrightarrow> wp (f x) Q w'"
  shows "wp (seq m f) Q w"
  using assms by (auto simp: wp_seq elim!: wp_mono split: sum.splits)

end
