(* ===== verification/Submission_Result.thy ===== *)
theory Submission_Result
  imports Voting_Prelude
begin

text \<open>
  The durable vocabulary of the chain-submission lifecycle
  (\<open>zcash_voting/src/chain_submission/result.rs\<close>, the transaction hash of \<open>identity.rs\<close> and the
  transport error of \<open>transport.rs\<close>): durable states, bounded redacted diagnostics, validated
  confirmations, public results and operational failures. A Rust \<open>&str\<close> is the list of its
  Unicode scalar values; the escaped text a diagnostic stores is plain ASCII, a \<open>string\<close>.
\<close>

section \<open>Text\<close>

type_synonym rust_str = "nat list"

definition lit :: "string \<Rightarrow> rust_str" where
  "lit s = map of_char s"

definition hex_char :: "nat \<Rightarrow> char" where
  "hex_char k = (if k < 10 then char_of (48 + k) else char_of (87 + k))"

fun hex_digits :: "nat \<Rightarrow> string" where
  "hex_digits n = (if n < 16 then [hex_char n] else hex_digits (n div 16) @ [hex_char (n mod 16)])"

declare hex_digits.simps [simp del]

text \<open>The standard library's \<open>char::escape_default\<close>.\<close>

definition escape_default :: "nat \<Rightarrow> string" where
  "escape_default c =
     (if c = 9 then [CHR 0x5C, CHR ''t'']
      else if c = 13 then [CHR 0x5C, CHR ''r'']
      else if c = 10 then [CHR 0x5C, CHR ''n'']
      else if c = 39 \<or> c = 34 \<or> c = 92 then [CHR 0x5C, char_of c]
      else if 32 \<le> c \<and> c \<le> 126 then [char_of c]
      else [CHR 0x5C, CHR ''u'', CHR ''{''] @ hex_digits c @ [CHR ''}''])"

definition MAX_CHAIN_SUBMISSION_DIAGNOSTIC_BYTES :: nat where
  "MAX_CHAIN_SUBMISSION_DIAGNOSTIC_BYTES = 512"

text \<open>The loop of \<open>bounded_redacted_text\<close>; the first argument is the text built so far.\<close>

fun bounded_redacted_loop :: "string \<Rightarrow> rust_str \<Rightarrow> string" where
  "bounded_redacted_loop bounded [] = bounded"
| "bounded_redacted_loop bounded (character # rest) =
     (let escaped = escape_default character in
      if length bounded + length escaped > MAX_CHAIN_SUBMISSION_DIAGNOSTIC_BYTES then bounded
      else bounded_redacted_loop (bounded @ escaped) rest)"

definition bounded_redacted_text :: "rust_str \<Rightarrow> string" where
  "bounded_redacted_text redacted_message = bounded_redacted_loop [] redacted_message"

section \<open>Durable states and diagnostics\<close>

datatype ChainSubmissionState =
    DurableSubmitting
  | DurableTracking
  | DurableRecovering
  | DurableSubmittedWithoutHash
  | DurableConfirmed
  | DurableRejected

datatype ChainSubmissionDiagnosticKind =
    AmbiguousDispatch
  | AmbiguousAttemptsExhausted
  | NullifierAlreadySpent
  | TrackingWindowExpired
  | ChainRejected
  | ReconciliationPending
  | InvalidProtocolResponse
  | StorageFailure
  | EndpointUnsupported
  | RouteAnswerReplaced

fun kind_as_str :: "ChainSubmissionDiagnosticKind \<Rightarrow> string" where
  "kind_as_str AmbiguousDispatch = ''ambiguous_dispatch''"
| "kind_as_str AmbiguousAttemptsExhausted = ''ambiguous_attempts_exhausted''"
| "kind_as_str NullifierAlreadySpent = ''nullifier_already_spent''"
| "kind_as_str TrackingWindowExpired = ''tracking_window_expired''"
| "kind_as_str ChainRejected = ''chain_rejected''"
| "kind_as_str ReconciliationPending = ''reconciliation_pending''"
| "kind_as_str InvalidProtocolResponse = ''invalid_protocol_response''"
| "kind_as_str StorageFailure = ''storage_failure''"
| "kind_as_str EndpointUnsupported = ''endpoint_unsupported''"
| "kind_as_str RouteAnswerReplaced = ''route_answer_replaced''"

definition kind_from_stable_name :: "string \<Rightarrow> ChainSubmissionDiagnosticKind option" where
  "kind_from_stable_name v =
     (if v = ''ambiguous_dispatch'' then Some AmbiguousDispatch
      else if v = ''ambiguous_attempts_exhausted'' then Some AmbiguousAttemptsExhausted
      else if v = ''nullifier_already_spent'' then Some NullifierAlreadySpent
      else if v = ''tracking_window_expired'' then Some TrackingWindowExpired
      else if v = ''chain_rejected'' then Some ChainRejected
      else if v = ''reconciliation_pending'' then Some ReconciliationPending
      else if v = ''invalid_protocol_response'' then Some InvalidProtocolResponse
      else if v = ''storage_failure'' then Some StorageFailure
      else if v = ''endpoint_unsupported'' then Some EndpointUnsupported
      else if v = ''route_answer_replaced'' then Some RouteAnswerReplaced
      else None)"

record ChainSubmissionDiagnostic =
  diagnostic_kind :: ChainSubmissionDiagnosticKind
  diagnostic_message :: string

definition from_redacted_message ::
  "ChainSubmissionDiagnosticKind \<Rightarrow> rust_str \<Rightarrow> ChainSubmissionDiagnostic" where
  "from_redacted_message kind redacted_message =
     \<lparr>diagnostic_kind = kind, diagnostic_message = bounded_redacted_text redacted_message\<rparr>"

section \<open>Confirmations\<close>

type_synonym CandidateTransactionHash = bytes

datatype ChainSubmissionConfirmationSource = SourceHash | SourceTree

record ChainSubmissionConfirmation =
  source :: ChainSubmissionConfirmationSource
  transaction_hash :: "CandidateTransactionHash option"
  final_van_position :: u64
  vote_commitment_positions :: "u64 list"

datatype ValidatedChainSubmissionConfirmation =
    ConfirmationByHash ChainSubmissionConfirmation
  | ConfirmationByTree ChainSubmissionConfirmation

datatype ChainSubmissionConfirmationError = PositionOutOfRange

fun confirmation :: "ValidatedChainSubmissionConfirmation \<Rightarrow> ChainSubmissionConfirmation" where
  "confirmation (ConfirmationByHash c) = c"
| "confirmation (ConfirmationByTree c) = c"

definition validate_sqlite_positions ::
  "u64 \<Rightarrow> u64 list \<Rightarrow> ChainSubmissionConfirmationError + unit" where
  "validate_sqlite_positions final_van positions =
     (if final_van > i64_max \<or> (\<exists>position \<in> set positions. position > i64_max)
      then Inl PositionOutOfRange else Inr ())"

definition confirmation_from_hash ::
  "CandidateTransactionHash \<Rightarrow> u64 \<Rightarrow> u64 list \<Rightarrow>
   ChainSubmissionConfirmationError + ValidatedChainSubmissionConfirmation" where
  "confirmation_from_hash hash final_van positions =
     and_then (validate_sqlite_positions final_van positions) (\<lambda>_.
       Inr (ConfirmationByHash
         \<lparr>source = SourceHash, transaction_hash = Some hash,
          final_van_position = final_van, vote_commitment_positions = positions\<rparr>))"

definition confirmation_from_tree ::
  "u64 \<Rightarrow> u64 list \<Rightarrow>
   ChainSubmissionConfirmationError + ValidatedChainSubmissionConfirmation" where
  "confirmation_from_tree final_van positions =
     and_then (validate_sqlite_positions final_van positions) (\<lambda>_.
       Inr (ConfirmationByTree
         \<lparr>source = SourceTree, transaction_hash = None,
          final_van_position = final_van, vote_commitment_positions = positions\<rparr>))"

section \<open>Public results and failures\<close>

datatype ChainSubmissionPending =
    PendingTracking CandidateTransactionHash
  | PendingRecovering "CandidateTransactionHash option" ChainSubmissionDiagnostic

datatype ChainSubmissionResult =
    ResultConfirmed ChainSubmissionConfirmation
  | ResultPending ChainSubmissionPending
  | ResultSubmittedWithoutHash ChainSubmissionDiagnostic
  | ResultRejected ChainSubmissionDiagnostic
  | ResultCancelled

fun result_durable_state :: "ChainSubmissionResult \<Rightarrow> ChainSubmissionState option" where
  "result_durable_state (ResultConfirmed _) = Some DurableConfirmed"
| "result_durable_state (ResultPending (PendingTracking _)) = Some DurableTracking"
| "result_durable_state (ResultPending (PendingRecovering _ _)) = Some DurableRecovering"
| "result_durable_state (ResultSubmittedWithoutHash _) = Some DurableSubmittedWithoutHash"
| "result_durable_state (ResultRejected _) = Some DurableRejected"
| "result_durable_state ResultCancelled = None"

datatype ChainSubmissionFailureKind =
    InvalidInput | InvariantViolation | Storage | Transport | Protocol

datatype ChainSubmissionStateEvidence = Durable | KnownPossiblyDispatched

record ChainSubmissionFailureState =
  failure_state :: ChainSubmissionState
  evidence :: ChainSubmissionStateEvidence

record ChainSubmissionFailure =
  failure_kind :: ChainSubmissionFailureKind
  strongest_state :: "ChainSubmissionFailureState option"
  failure_message :: string

definition without_state :: "ChainSubmissionFailureKind \<Rightarrow> rust_str \<Rightarrow> ChainSubmissionFailure" where
  "without_state kind message =
     \<lparr>failure_kind = kind, strongest_state = None,
      failure_message = bounded_redacted_text message\<rparr>"

definition with_durable_state ::
  "ChainSubmissionFailureKind \<Rightarrow> ChainSubmissionState \<Rightarrow> rust_str \<Rightarrow> ChainSubmissionFailure" where
  "with_durable_state kind durable message =
     \<lparr>failure_kind = kind,
      strongest_state = Some \<lparr>failure_state = durable, evidence = Durable\<rparr>,
      failure_message = bounded_redacted_text message\<rparr>"

definition with_known_possible_dispatch ::
  "ChainSubmissionFailureKind \<Rightarrow> rust_str \<Rightarrow> ChainSubmissionFailure" where
  "with_known_possible_dispatch kind message =
     \<lparr>failure_kind = kind,
      strongest_state =
        Some \<lparr>failure_state = DurableRecovering, evidence = KnownPossiblyDispatched\<rparr>,
      failure_message = bounded_redacted_text message\<rparr>"

text \<open>A failure re-wrapped by a caller carries the already escaped message of the first one.\<close>

definition message_of :: "ChainSubmissionFailure \<Rightarrow> rust_str" where
  "message_of e = lit (failure_message e)"

datatype ChainTransportFailureKind = TransportDefinitelyUnsent | TransportPossiblyDispatched

record ChainTransportError =
  transport_kind :: ChainTransportFailureKind
  transport_message :: string

definition transport_error :: "ChainTransportFailureKind \<Rightarrow> rust_str \<Rightarrow> ChainTransportError" where
  "transport_error kind message =
     \<lparr>transport_kind = kind, transport_message = bounded_redacted_text message\<rparr>"

section \<open>Lemmas on the redacted text\<close>

text \<open>The characters a stored message can hold, and the ones that are escaped again.\<close>

definition printable :: "char \<Rightarrow> bool" where
  "printable c \<longleftrightarrow> 32 \<le> (of_char c :: nat) \<and> (of_char c :: nat) \<le> 126"

definition reescaped :: "char \<Rightarrow> bool" where
  "reescaped c \<longleftrightarrow> c = CHR 0x5C \<or> c = CHR 0x27 \<or> c = CHR 0x22"

lemma printable_hex_char: "k < 16 \<Longrightarrow> printable (hex_char k)"
  by (auto simp: printable_def hex_char_def)

lemma printable_hex_digits: "c \<in> set (hex_digits n) \<Longrightarrow> printable c"
proof (induction n rule: hex_digits.induct)
  case (1 n)
  then show ?case
    by (cases "n < 16") (auto simp: hex_digits.simps [of n] printable_hex_char)
qed

lemma printable_escape_default: "d \<in> set (escape_default c) \<Longrightarrow> printable d"
  by (auto simp: escape_default_def printable_hex_digits split: if_splits)
    (auto simp: printable_def)

lemma escape_default_nonempty: "escape_default c \<noteq> []"
  by (simp add: escape_default_def)

lemma bounded_redacted_loop_spec:
  assumes "length acc \<le> MAX_CHAIN_SUBMISSION_DIAGNOSTIC_BYTES"
  shows "\<exists>k \<le> length cs.
    bounded_redacted_loop acc cs = acc @ concat (map escape_default (take k cs)) \<and>
    length (bounded_redacted_loop acc cs) \<le> MAX_CHAIN_SUBMISSION_DIAGNOSTIC_BYTES \<and>
    (k < length cs \<longrightarrow>
      MAX_CHAIN_SUBMISSION_DIAGNOSTIC_BYTES <
        length (acc @ concat (map escape_default (take (Suc k) cs))))"
  using assms
proof (induction acc cs rule: bounded_redacted_loop.induct)
  case (1 acc)
  then show ?case by simp
next
  case (2 acc c cs)
  show ?case
  proof (cases "length acc + length (escape_default c) > MAX_CHAIN_SUBMISSION_DIAGNOSTIC_BYTES")
    case True
    with "2.prems" show ?thesis
      by (intro exI [of _ 0]) (simp add: Let_def)
  next
    case False
    then have "length (acc @ escape_default c) \<le> MAX_CHAIN_SUBMISSION_DIAGNOSTIC_BYTES"
      by simp
    from "2.IH" [OF refl False this] obtain k where "k \<le> length cs"
      and "bounded_redacted_loop (acc @ escape_default c) cs =
             (acc @ escape_default c) @ concat (map escape_default (take k cs))"
      and "length (bounded_redacted_loop (acc @ escape_default c) cs)
             \<le> MAX_CHAIN_SUBMISSION_DIAGNOSTIC_BYTES"
      and "k < length cs \<longrightarrow> MAX_CHAIN_SUBMISSION_DIAGNOSTIC_BYTES <
             length ((acc @ escape_default c) @ concat (map escape_default (take (Suc k) cs)))"
      by blast
    with False show ?thesis
      by (intro exI [of _ "Suc k"]) (simp add: Let_def add.assoc)
  qed
qed

lemma bounded_redacted_text_printable: "c \<in> set (bounded_redacted_text t) \<Longrightarrow> printable c"
proof -
  assume c: "c \<in> set (bounded_redacted_text t)"
  obtain k where "bounded_redacted_text t = concat (map escape_default (take k t))"
    using bounded_redacted_loop_spec [of "[]" t] by (auto simp: bounded_redacted_text_def)
  with c show "printable c"
    by (auto simp: printable_escape_default)
qed

lemma length_bounded_redacted_text:
  "length (bounded_redacted_text t) \<le> MAX_CHAIN_SUBMISSION_DIAGNOSTIC_BYTES"
  using bounded_redacted_loop_spec [of "[]" t] by (auto simp: bounded_redacted_text_def)

lemma of_char_eq_iff: "(of_char c :: nat) = of_char d \<longleftrightarrow> c = d"
  by (metis char_of_char)

lemma lit_inject [simp]: "lit s = lit t \<longleftrightarrow> s = t"
  unfolding lit_def by (rule inj_map_eq_map) (simp add: inj_def of_char_eq_iff)

lemma lit_eq_Nil [simp]: "lit s = [] \<longleftrightarrow> s = []" "[] = lit s \<longleftrightarrow> s = []"
  by (auto simp: lit_def)

lemma reescaped_code:
  "reescaped c \<longleftrightarrow> (of_char c :: nat) = 92 \<or> (of_char c :: nat) = 39 \<or> (of_char c :: nat) = 34"
  using of_char_eq_iff [of c "CHR 0x5C"] of_char_eq_iff [of c "CHR 0x27"]
    of_char_eq_iff [of c "CHR 0x22"]
  by (auto simp: reescaped_def)

lemma escape_default_plain:
  "printable c \<Longrightarrow> \<not> reescaped c \<Longrightarrow> escape_default (of_char c) = [c]"
  by (simp add: escape_default_def printable_def reescaped_code)

lemma escape_default_reescaped:
  "reescaped c \<Longrightarrow> escape_default (of_char c) = [CHR 0x5C, c]"
  by (auto simp: reescaped_def escape_default_def)

lemma bounded_redacted_loop_plain:
  assumes "\<forall>c \<in> set s. printable c \<and> \<not> reescaped c"
    and "length acc + length s \<le> MAX_CHAIN_SUBMISSION_DIAGNOSTIC_BYTES"
  shows "bounded_redacted_loop acc (lit s) = acc @ s"
  using assms
proof (induction s arbitrary: acc)
  case Nil
  then show ?case by (simp add: lit_def)
next
  case (Cons c s)
  then have "escape_default (of_char c) = [c]"
    by (simp add: escape_default_plain)
  with Cons show ?case
    by (simp add: lit_def Let_def)
qed

lemma bounded_redacted_loop_fits:
  assumes "length acc + length (concat (map escape_default cs))
    \<le> MAX_CHAIN_SUBMISSION_DIAGNOSTIC_BYTES"
  shows "bounded_redacted_loop acc cs = acc @ concat (map escape_default cs)"
  using assms by (induction acc cs rule: bounded_redacted_loop.induct) (auto simp: Let_def)

lemma length_escape_lit:
  assumes "\<forall>c \<in> set s. printable c"
  shows "length (concat (map escape_default (lit s))) = length s + length (filter reescaped s)"
  using assms
proof (induction s)
  case Nil
  then show ?case by (simp add: lit_def)
next
  case (Cons c s)
  then show ?case
    by (cases "reescaped c")
      (auto simp: lit_def escape_default_reescaped escape_default_plain)
qed

section \<open>Simplification rules for the vocabulary\<close>

lemma kind_name_roundtrip [simp]: "kind_from_stable_name (kind_as_str k) = Some k"
  by (cases k) (simp_all add: kind_from_stable_name_def)

lemma kind_from_stable_name_Some:
  "kind_from_stable_name v = Some k \<Longrightarrow> v = kind_as_str k"
  by (auto simp: kind_from_stable_name_def split: if_splits)

lemma from_redacted_message_sel [simp]:
  "diagnostic_kind (from_redacted_message k m) = k"
  "diagnostic_message (from_redacted_message k m) = bounded_redacted_text m"
  by (simp_all add: from_redacted_message_def)

lemma failure_sel [simp]:
  "failure_kind (without_state k m) = k"
  "strongest_state (without_state k m) = None"
  "failure_kind (with_durable_state k d m) = k"
  "strongest_state (with_durable_state k d m) = Some \<lparr>failure_state = d, evidence = Durable\<rparr>"
  "failure_kind (with_known_possible_dispatch k m) = k"
  "strongest_state (with_known_possible_dispatch k m) =
     Some \<lparr>failure_state = DurableRecovering, evidence = KnownPossiblyDispatched\<rparr>"
  by (simp_all add: without_state_def with_durable_state_def with_known_possible_dispatch_def)

definition sqlite_positions :: "u64 \<Rightarrow> u64 list \<Rightarrow> bool" where
  "sqlite_positions final_van positions \<longleftrightarrow>
     final_van \<le> i64_max \<and> (\<forall>p \<in> set positions. p \<le> i64_max)"

lemma validate_sqlite_positions_iff [simp]:
  "validate_sqlite_positions v ps = Inr u \<longleftrightarrow> sqlite_positions v ps"
  by (auto simp: validate_sqlite_positions_def sqlite_positions_def simp flip: linorder_not_less)

lemma confirmation_from_hash_Inr:
  "confirmation_from_hash h v ps = Inr c \<longleftrightarrow>
     sqlite_positions v ps \<and>
     c = ConfirmationByHash \<lparr>source = SourceHash, transaction_hash = Some h,
           final_van_position = v, vote_commitment_positions = ps\<rparr>"
  by (auto simp: confirmation_from_hash_def and_then_eq_Inr)

lemma confirmation_from_tree_Inr:
  "confirmation_from_tree v ps = Inr c \<longleftrightarrow>
     sqlite_positions v ps \<and>
     c = ConfirmationByTree \<lparr>source = SourceTree, transaction_hash = None,
           final_van_position = v, vote_commitment_positions = ps\<rparr>"
  by (auto simp: confirmation_from_tree_def and_then_eq_Inr)

text \<open>The shape every validated confirmation has: the variant fixes source and hash.\<close>

fun valid_confirmation :: "ValidatedChainSubmissionConfirmation \<Rightarrow> bool" where
  "valid_confirmation (ConfirmationByHash c) \<longleftrightarrow>
     source c = SourceHash \<and> transaction_hash c \<noteq> None \<and>
     sqlite_positions (final_van_position c) (vote_commitment_positions c)"
| "valid_confirmation (ConfirmationByTree c) \<longleftrightarrow>
     source c = SourceTree \<and> transaction_hash c = None \<and>
     sqlite_positions (final_van_position c) (vote_commitment_positions c)"

lemma confirmation_from_hash_valid:
  "confirmation_from_hash h v ps = Inr c \<Longrightarrow> valid_confirmation c"
  by (auto simp: confirmation_from_hash_Inr)

lemma confirmation_from_tree_valid:
  "confirmation_from_tree v ps = Inr c \<Longrightarrow> valid_confirmation c"
  by (auto simp: confirmation_from_tree_Inr)

section \<open>Properties of the redacted text\<close>

text \<open>
  Bounded redaction. The stored text is the escaped form of the longest prefix of the message
  whose escaped form fits in 512 bytes; it holds printable ASCII only and no escape is cut short.
\<close>

lemma bounded_redacted_text_longest_prefix:
  "\<exists>k \<le> length t.
     bounded_redacted_text t = concat (map escape_default (take k t)) \<and>
     length (bounded_redacted_text t) \<le> MAX_CHAIN_SUBMISSION_DIAGNOSTIC_BYTES \<and>
     list_all printable (bounded_redacted_text t) \<and>
     (k < length t \<longrightarrow>
        MAX_CHAIN_SUBMISSION_DIAGNOSTIC_BYTES <
          length (concat (map escape_default (take (Suc k) t))))"
proof -
  have "list_all printable (bounded_redacted_text t)"
    by (simp add: list_all_iff bounded_redacted_text_printable)
  then show ?thesis
    using bounded_redacted_loop_spec [of "[]" t] by (simp add: bounded_redacted_text_def)
qed

text \<open>
  C24: Escaping a stored text again. A diagnostic read back from storage is escaped a second time. A
  text without backslash or quote comes back unchanged. Any other text grows by one byte for each
  backslash and quote in it when the result still fits in 512 bytes; when it does not, only a proper
  prefix of the stored text is kept, and escaped.
\<close>

theorem reescaping_stored_text:
  "let s = bounded_redacted_text t; again = bounded_redacted_text (lit s);
       size = length s + length (filter reescaped s)
   in (\<not> list_ex reescaped s \<longrightarrow> again = s) \<and>
      (size \<le> MAX_CHAIN_SUBMISSION_DIAGNOSTIC_BYTES \<longrightarrow> length again = size) \<and>
      (MAX_CHAIN_SUBMISSION_DIAGNOSTIC_BYTES < size \<longrightarrow>
         (\<exists>k<length s. again = concat (map escape_default (lit (take k s)))))"
proof -
  let ?s = "bounded_redacted_text t" and ?max = MAX_CHAIN_SUBMISSION_DIAGNOSTIC_BYTES
  let ?size = "length ?s + length (filter reescaped ?s)"
  have p: "\<forall>c \<in> set ?s. printable c"
    using bounded_redacted_text_printable by blast
  have len: "length (concat (map escape_default (lit ?s))) = ?size"
    by (rule length_escape_lit [OF p])
  have lits: "length (lit ?s) = length ?s" "take k (lit ?s) = lit (take k ?s)" for k
    by (simp_all add: lit_def take_map)
  obtain k where k: "k \<le> length ?s" "bounded_redacted_text (lit ?s) = concat (map escape_default (lit (take k ?s)))"
      "length (bounded_redacted_text (lit ?s)) \<le> ?max"
    using bounded_redacted_text_longest_prefix [of "lit ?s"] unfolding lits by blast
  have "\<exists>k<length ?s. bounded_redacted_text (lit ?s) = concat (map escape_default (lit (take k ?s)))" if "?max < ?size"
  proof -
    have "k \<noteq> length ?s"
      using that k(2,3) len by auto
    then show ?thesis
      using k(1,2) by (intro exI [of _ k]) simp
  qed
  moreover have "bounded_redacted_text (lit ?s) = ?s" if "\<not> list_ex reescaped ?s"
  proof -
    have "length ?s \<le> ?max"
      using bounded_redacted_text_longest_prefix [of t] by blast
    then show ?thesis
      using that p bounded_redacted_loop_plain [of ?s "[]"] by (simp add: bounded_redacted_text_def list_ex_iff)
  qed
  moreover have "length (bounded_redacted_text (lit ?s)) = ?size" if "?size \<le> ?max"
    using that len bounded_redacted_loop_fits [of "[]" "lit ?s"] by (simp add: bounded_redacted_text_def)
  ultimately show ?thesis
    unfolding Let_def by blast
qed

theorem reescaping_stored_text_witness:
  "bounded_redacted_text [34] = [CHR 0x5C, CHR 0x22] \<and>
   length (bounded_redacted_text (lit (bounded_redacted_text [34]))) = 4"
proof -
  have t: "bounded_redacted_text [34] = [CHR 0x5C, CHR 0x22]"
    by (simp add: bounded_redacted_text_def escape_default_def char_of_def bit_Suc_0_iff
        MAX_CHAIN_SUBMISSION_DIAGNOSTIC_BYTES_def)
  then show ?thesis
    using reescaping_stored_text [of "[34]"]
    by (simp add: reescaped_def MAX_CHAIN_SUBMISSION_DIAGNOSTIC_BYTES_def)
qed

end
