(* ===== verification/Submission_State.thy ===== *)
theory Submission_State
  imports Submission_Result
begin

text \<open>
  The pure transition function of one submission row
  (\<open>zcash_voting/src/chain_submission/state.rs\<close>): the typed record state, the classified
  observations, and \<open>apply_submission_observation\<close> with the source's match arms in the
  source's order. An absent row is \<open>None\<close>. The lemmas relate it to an abstract graph on the
  public durable states and follow sequences of observations from an absent row.
\<close>

section \<open>Data\<close>

datatype SubmissionRecordState =
    Submitting
  | Tracking CandidateTransactionHash
  | Recovering "CandidateTransactionHash option" ChainSubmissionDiagnostic
  | SubmittedWithoutHash ChainSubmissionDiagnostic
  | Confirmed ValidatedChainSubmissionConfirmation
  | Rejected ChainSubmissionDiagnostic

definition ambiguous_kind :: "ChainSubmissionDiagnosticKind \<Rightarrow> bool" where
  "ambiguous_kind k \<longleftrightarrow>
     k \<in> {AmbiguousDispatch, InvalidProtocolResponse, EndpointUnsupported, RouteAnswerReplaced}"

fun permits_ambiguous_retry :: "SubmissionRecordState \<Rightarrow> bool" where
  "permits_ambiguous_retry (Recovering None diagnostic) =
     ambiguous_kind (diagnostic_kind diagnostic)"
| "permits_ambiguous_retry _ = False"

fun has_unresolved_dispatch :: "SubmissionRecordState \<Rightarrow> bool" where
  "has_unresolved_dispatch (Recovering _ diagnostic) =
     (ambiguous_kind (diagnostic_kind diagnostic) \<or>
      diagnostic_kind diagnostic = TrackingWindowExpired)"
| "has_unresolved_dispatch _ = False"

fun durable_state :: "SubmissionRecordState \<Rightarrow> ChainSubmissionState" where
  "durable_state Submitting = DurableSubmitting"
| "durable_state (Tracking _) = DurableTracking"
| "durable_state (Recovering _ _) = DurableRecovering"
| "durable_state (SubmittedWithoutHash _) = DurableSubmittedWithoutHash"
| "durable_state (Confirmed _) = DurableConfirmed"
| "durable_state (Rejected _) = DurableRejected"

text \<open>Observations whose names are also states carry the prefix \<open>Obs\<close>.\<close>

datatype SubmissionObservation =
    ReserveFreshSubmission
  | DefinitelyUnsent
  | UsableCandidateHash CandidateTransactionHash
  | PossiblyDispatched ChainSubmissionDiagnostic
  | DefiniteRejection ChainSubmissionDiagnostic
  | TerminalRejection ChainSubmissionDiagnostic
  | ObsSubmittedWithoutHash ChainSubmissionDiagnostic
  | CandidatePending
  | ObsTrackingWindowExpired ChainSubmissionDiagnostic
  | CandidateCommittedFailure ChainSubmissionDiagnostic
  | TerminalCandidateFailure ChainSubmissionDiagnostic
  | ObsConfirmed ValidatedChainSubmissionConfirmation
  | ContinueRecovery
  | AbandonedSubmitting ChainSubmissionDiagnostic

fun observation_name :: "SubmissionObservation \<Rightarrow> string" where
  "observation_name ReserveFreshSubmission = ''reserve_fresh_submission''"
| "observation_name DefinitelyUnsent = ''definitely_unsent''"
| "observation_name (UsableCandidateHash _) = ''usable_candidate_hash''"
| "observation_name (PossiblyDispatched _) = ''possibly_dispatched''"
| "observation_name (DefiniteRejection _) = ''definite_rejection''"
| "observation_name (TerminalRejection _) = ''terminal_rejection''"
| "observation_name (ObsSubmittedWithoutHash _) = ''submitted_without_hash''"
| "observation_name CandidatePending = ''candidate_pending''"
| "observation_name (ObsTrackingWindowExpired _) = ''tracking_window_expired''"
| "observation_name (CandidateCommittedFailure _) = ''candidate_committed_failure''"
| "observation_name (TerminalCandidateFailure _) = ''terminal_candidate_failure''"
| "observation_name (ObsConfirmed _) = ''confirmed''"
| "observation_name ContinueRecovery = ''continue_recovery''"
| "observation_name (AbandonedSubmitting _) = ''abandoned_submitting''"

datatype SubmissionTransitionError =
    IllegalTransition "ChainSubmissionState option" string
  | ConflictingCandidateHash
  | ConfirmationDoesNotMatchCandidate
  | ConflictingConfirmation

section \<open>The transition function\<close>

definition require_hash_confirmation_for_candidate ::
  "ValidatedChainSubmissionConfirmation \<Rightarrow> CandidateTransactionHash \<Rightarrow>
   SubmissionTransitionError + unit" where
  "require_hash_confirmation_for_candidate conf candidate =
     (case conf of
        ConfirmationByHash c \<Rightarrow>
          if transaction_hash c = Some candidate then Inr ()
          else Inl ConfirmationDoesNotMatchCandidate
      | ConfirmationByTree _ \<Rightarrow> Inl ConfirmationDoesNotMatchCandidate)"

definition require_valid_recovery_confirmation ::
  "ValidatedChainSubmissionConfirmation \<Rightarrow> CandidateTransactionHash option \<Rightarrow>
   SubmissionTransitionError + unit" where
  "require_valid_recovery_confirmation conf candidate =
     (case conf of
        ConfirmationByHash _ \<Rightarrow>
          (case candidate of
             None \<Rightarrow> Inl ConfirmationDoesNotMatchCandidate
           | Some h \<Rightarrow> require_hash_confirmation_for_candidate conf h)
      | ConfirmationByTree _ \<Rightarrow> Inr ())"

definition apply_submission_observation ::
  "SubmissionRecordState option \<Rightarrow> SubmissionObservation \<Rightarrow>
   SubmissionTransitionError + SubmissionRecordState option" where
  "apply_submission_observation current observation =
     (case (current, observation) of
        (None, ReserveFreshSubmission) \<Rightarrow> Inr (Some Submitting)
      | (Some Submitting, DefinitelyUnsent) \<Rightarrow> Inr None
      | (Some Submitting, UsableCandidateHash candidate) \<Rightarrow> Inr (Some (Tracking candidate))
      | (Some Submitting, PossiblyDispatched diagnostic) \<Rightarrow> Inr (Some (Recovering None diagnostic))
      | (Some Submitting, AbandonedSubmitting diagnostic) \<Rightarrow>
          Inr (Some (Recovering None diagnostic))
      | (Some Submitting, DefiniteRejection diagnostic) \<Rightarrow> Inr (Some (Recovering None diagnostic))
      | (Some Submitting, TerminalRejection diagnostic) \<Rightarrow> Inr (Some (Rejected diagnostic))
      | (Some Submitting, ObsSubmittedWithoutHash diagnostic) \<Rightarrow>
          Inr (Some (SubmittedWithoutHash diagnostic))
      | (Some (Recovering c d), ObsSubmittedWithoutHash diagnostic) \<Rightarrow>
          Inr (Some (SubmittedWithoutHash diagnostic))
      | (Some (Tracking h), CandidatePending) \<Rightarrow> Inr (Some (Tracking h))
      | (Some (Tracking h), ObsTrackingWindowExpired diagnostic) \<Rightarrow>
          Inr (Some (Recovering (Some h) diagnostic))
      | (Some (Tracking h), CandidateCommittedFailure diagnostic) \<Rightarrow>
          Inr (Some (Recovering None diagnostic))
      | (Some (Tracking h), TerminalCandidateFailure diagnostic) \<Rightarrow>
          Inr (Some (Rejected diagnostic))
      | (Some (Recovering c d), TerminalCandidateFailure diagnostic) \<Rightarrow>
          Inr (Some (Rejected diagnostic))
      | (Some (Tracking h), ObsConfirmed conf) \<Rightarrow>
          and_then (require_hash_confirmation_for_candidate conf h) (\<lambda>_. Inr (Some (Confirmed conf)))
      | (Some (Recovering None d), UsableCandidateHash candidate) \<Rightarrow>
          Inr (Some (Tracking candidate))
      | (Some (Recovering (Some existing) d), UsableCandidateHash candidate) \<Rightarrow>
          (if existing \<noteq> candidate then Inl ConflictingCandidateHash
           else Inr (Some (Recovering (Some existing) d)))
      | (Some (Recovering None d), PossiblyDispatched diagnostic) \<Rightarrow>
          Inr (Some (Recovering None diagnostic))
      | (Some (Recovering c d), ContinueRecovery) \<Rightarrow> Inr (Some (Recovering c d))
      | (Some (Recovering c d), PossiblyDispatched diagnostic) \<Rightarrow> Inr (Some (Recovering c d))
      | (Some (Recovering c d), DefiniteRejection diagnostic) \<Rightarrow> Inr (Some (Recovering c d))
      | (Some (Recovering c d), DefinitelyUnsent) \<Rightarrow> Inr (Some (Recovering c d))
      | (Some (Recovering (Some h) d), CandidatePending) \<Rightarrow> Inr (Some (Recovering (Some h) d))
      | (Some (Recovering (Some h) d), CandidateCommittedFailure diagnostic) \<Rightarrow>
          Inr (Some (Recovering None diagnostic))
      | (Some (Recovering c d), ObsConfirmed conf) \<Rightarrow>
          and_then (require_valid_recovery_confirmation conf c) (\<lambda>_. Inr (Some (Confirmed conf)))
      | (Some (Confirmed existing), ObsConfirmed replayed) \<Rightarrow>
          (if existing = replayed then Inr (Some (Confirmed existing))
           else Inl ConflictingConfirmation)
      | _ \<Rightarrow>
          Inl (IllegalTransition (map_option durable_state current) (observation_name observation)))"

section \<open>Confirmation guards\<close>

lemma require_hash_confirmation_Inr [simp]:
  "require_hash_confirmation_for_candidate conf h = Inr u \<longleftrightarrow>
     (\<exists>c. conf = ConfirmationByHash c \<and> transaction_hash c = Some h)"
  by (cases conf) (auto simp: require_hash_confirmation_for_candidate_def)

lemma require_recovery_confirmation_Inr [simp]:
  "require_valid_recovery_confirmation conf cand = Inr u \<longleftrightarrow>
     (\<exists>c. conf = ConfirmationByTree c) \<or>
     (\<exists>h c. cand = Some h \<and> conf = ConfirmationByHash c \<and> transaction_hash c = Some h)"
  by (cases conf; cases cand) (auto simp: require_valid_recovery_confirmation_def)

section \<open>Case analysis of an accepted observation\<close>

definition terminal_state :: "SubmissionRecordState \<Rightarrow> bool" where
  "terminal_state s \<longleftrightarrow>
     durable_state s \<in> {DurableSubmittedWithoutHash, DurableConfirmed, DurableRejected}"

fun candidate_of :: "SubmissionRecordState \<Rightarrow> CandidateTransactionHash option" where
  "candidate_of (Tracking h) = Some h"
| "candidate_of (Recovering c _) = c"
| "candidate_of _ = None"

lemma apply_None:
  "apply_submission_observation None ob = Inr r \<longleftrightarrow>
     ob = ReserveFreshSubmission \<and> r = Some Submitting"
  by (cases ob) (auto simp: apply_submission_observation_def)

lemma apply_Submitting:
  "apply_submission_observation (Some Submitting) ob = Inr r \<longleftrightarrow>
     (case ob of
        DefinitelyUnsent \<Rightarrow> r = None
      | UsableCandidateHash h \<Rightarrow> r = Some (Tracking h)
      | PossiblyDispatched d \<Rightarrow> r = Some (Recovering None d)
      | AbandonedSubmitting d \<Rightarrow> r = Some (Recovering None d)
      | DefiniteRejection d \<Rightarrow> r = Some (Recovering None d)
      | TerminalRejection d \<Rightarrow> r = Some (Rejected d)
      | ObsSubmittedWithoutHash d \<Rightarrow> r = Some (SubmittedWithoutHash d)
      | _ \<Rightarrow> False)"
  by (cases ob) (auto simp: apply_submission_observation_def)

lemma apply_Tracking:
  "apply_submission_observation (Some (Tracking h)) ob = Inr r \<longleftrightarrow>
     (case ob of
        CandidatePending \<Rightarrow> r = Some (Tracking h)
      | ObsTrackingWindowExpired d \<Rightarrow> r = Some (Recovering (Some h) d)
      | CandidateCommittedFailure d \<Rightarrow> r = Some (Recovering None d)
      | TerminalCandidateFailure d \<Rightarrow> r = Some (Rejected d)
      | ObsConfirmed conf \<Rightarrow> r = Some (Confirmed conf) \<and>
          (\<exists>c. conf = ConfirmationByHash c \<and> transaction_hash c = Some h)
      | _ \<Rightarrow> False)"
  by (cases ob) (auto simp: apply_submission_observation_def and_then_eq_Inr)

lemma apply_Recovering:
  "apply_submission_observation (Some (Recovering cand d)) ob = Inr r \<longleftrightarrow>
     (case ob of
        ObsSubmittedWithoutHash d' \<Rightarrow> r = Some (SubmittedWithoutHash d')
      | TerminalCandidateFailure d' \<Rightarrow> r = Some (Rejected d')
      | UsableCandidateHash h \<Rightarrow>
          if cand = None then r = Some (Tracking h)
          else cand = Some h \<and> r = Some (Recovering cand d)
      | PossiblyDispatched d' \<Rightarrow>
          r = Some (Recovering cand (if cand = None then d' else d))
      | ContinueRecovery \<Rightarrow> r = Some (Recovering cand d)
      | DefiniteRejection _ \<Rightarrow> r = Some (Recovering cand d)
      | DefinitelyUnsent \<Rightarrow> r = Some (Recovering cand d)
      | CandidatePending \<Rightarrow> cand \<noteq> None \<and> r = Some (Recovering cand d)
      | CandidateCommittedFailure d' \<Rightarrow> cand \<noteq> None \<and> r = Some (Recovering None d')
      | ObsConfirmed conf \<Rightarrow> r = Some (Confirmed conf) \<and>
          ((\<exists>c. conf = ConfirmationByTree c) \<or>
           (\<exists>h c. cand = Some h \<and> conf = ConfirmationByHash c \<and> transaction_hash c = Some h))
      | _ \<Rightarrow> False)"
  by (cases ob; cases cand) (auto simp: apply_submission_observation_def and_then_eq_Inr)

lemma apply_terminal:
  "terminal_state s \<Longrightarrow>
   apply_submission_observation (Some s) ob = Inr r \<longleftrightarrow>
     (\<exists>conf. s = Confirmed conf \<and> ob = ObsConfirmed conf \<and> r = Some s)"
  by (cases s; cases ob) (auto simp: apply_submission_observation_def terminal_state_def)

lemmas apply_accepted = apply_None apply_Submitting apply_Tracking apply_Recovering

lemma record_state_cases [case_names submitting tracking recovering terminal]:
  assumes "s = Submitting \<Longrightarrow> P"
    and "\<And>h. s = Tracking h \<Longrightarrow> P"
    and "\<And>c d. s = Recovering c d \<Longrightarrow> P"
    and "terminal_state s \<Longrightarrow> P"
  shows P
  using assms by (cases s) (auto simp: terminal_state_def)

section \<open>The abstract durable graph\<close>

text \<open>
  What the lifecycle promises to its clients, on the public durable states alone: the edges a
  stored row may take. Only a fresh reservation creates a row and only an unsent first attempt
  removes it.
\<close>

inductive durable_step :: "ChainSubmissionState option \<Rightarrow> ChainSubmissionState option \<Rightarrow> bool" where
  reserve: "durable_step None (Some DurableSubmitting)"
| release: "durable_step (Some DurableSubmitting) None"
| dispatched: "durable_step (Some DurableSubmitting) (Some b)"
    if "b \<in> {DurableTracking, DurableRecovering, DurableSubmittedWithoutHash, DurableRejected}"
| tracked: "durable_step (Some DurableTracking) (Some b)"
    if "b \<in> {DurableTracking, DurableRecovering, DurableConfirmed, DurableRejected}"
| recovered: "durable_step (Some DurableRecovering) (Some b)"
    if "b \<noteq> DurableSubmitting"
| replayed: "durable_step (Some DurableConfirmed) (Some DurableConfirmed)"

inductive_simps durable_step_simps:
  "durable_step None b"
  "durable_step (Some DurableSubmitting) b"
  "durable_step (Some DurableTracking) b"
  "durable_step (Some DurableRecovering) b"
  "durable_step (Some DurableConfirmed) b"
  "durable_step (Some DurableSubmittedWithoutHash) b"
  "durable_step (Some DurableRejected) b"

abbreviation abs_row :: "SubmissionRecordState option \<Rightarrow> ChainSubmissionState option" where
  "abs_row \<equiv> map_option durable_state"

lemma apply_simulates:
  assumes "apply_submission_observation s ob = Inr s'"
  shows "durable_step (abs_row s) (abs_row s')"
proof (cases s)
  case None
  with assms show ?thesis by (simp add: apply_None durable_step_simps)
next
  case (Some t)
  with assms show ?thesis
    by (cases t rule: record_state_cases)
      (auto simp: apply_accepted apply_terminal durable_step_simps
        split: SubmissionObservation.splits if_splits)
qed

lemma apply_realises_recovering:
  assumes "b \<noteq> DurableSubmitting"
  shows "\<exists>ob s'. apply_submission_observation (Some (Recovering None d)) ob = Inr (Some s') \<and>
           durable_state s' = b"
proof (cases b)
  case DurableTracking
  then show ?thesis
    by (intro exI [of _ "UsableCandidateHash []"]) (simp add: apply_Recovering)
next
  case DurableRecovering
  then show ?thesis
    by (intro exI [of _ ContinueRecovery]) (simp add: apply_Recovering)
next
  case DurableSubmittedWithoutHash
  then show ?thesis
    by (intro exI [of _ "ObsSubmittedWithoutHash d"]) (simp add: apply_Recovering)
next
  case DurableConfirmed
  then show ?thesis
    by (intro exI [of _ "ObsConfirmed (ConfirmationByTree undefined)"])
      (simp add: apply_Recovering)
next
  case DurableRejected
  then show ?thesis
    by (intro exI [of _ "TerminalCandidateFailure d"]) (simp add: apply_Recovering)
qed (use assms in simp)

definition edge_realised :: "ChainSubmissionState option \<Rightarrow> ChainSubmissionState option \<Rightarrow> bool" where
  "edge_realised a b \<longleftrightarrow>
     (\<exists>s ob s'. apply_submission_observation s ob = Inr s' \<and> abs_row s = a \<and> abs_row s' = b)"

lemma edge_realisedI:
  "apply_submission_observation s ob = Inr s' \<Longrightarrow> abs_row s = a \<Longrightarrow> abs_row s' = b \<Longrightarrow>
   edge_realised a b"
  unfolding edge_realised_def by blast

lemma submitting_edges_realised:
  "edge_realised (Some DurableSubmitting) (Some DurableTracking)"
  "edge_realised (Some DurableSubmitting) (Some DurableRecovering)"
  "edge_realised (Some DurableSubmitting) (Some DurableSubmittedWithoutHash)"
  "edge_realised (Some DurableSubmitting) (Some DurableRejected)"
  subgoal by (rule edge_realisedI [of "Some Submitting" "UsableCandidateHash []" "Some (Tracking [])"])
      (simp_all add: apply_Submitting)
  subgoal by (rule edge_realisedI [of "Some Submitting" "PossiblyDispatched undefined"
        "Some (Recovering None undefined)"]) (simp_all add: apply_Submitting)
  subgoal by (rule edge_realisedI [of "Some Submitting" "ObsSubmittedWithoutHash undefined"
        "Some (SubmittedWithoutHash undefined)"]) (simp_all add: apply_Submitting)
  subgoal by (rule edge_realisedI [of "Some Submitting" "TerminalRejection undefined"
        "Some (Rejected undefined)"]) (simp_all add: apply_Submitting)
  done

lemma tracking_edges_realised:
  "edge_realised (Some DurableTracking) (Some DurableTracking)"
  "edge_realised (Some DurableTracking) (Some DurableRecovering)"
  "edge_realised (Some DurableTracking) (Some DurableRejected)"
  "edge_realised (Some DurableTracking) (Some DurableConfirmed)"
  subgoal by (rule edge_realisedI [of "Some (Tracking [])" CandidatePending "Some (Tracking [])"])
      (simp_all add: apply_Tracking)
  subgoal by (rule edge_realisedI [of "Some (Tracking [])" "CandidateCommittedFailure undefined"
        "Some (Recovering None undefined)"]) (simp_all add: apply_Tracking)
  subgoal by (rule edge_realisedI [of "Some (Tracking [])" "TerminalCandidateFailure undefined"
        "Some (Rejected undefined)"]) (simp_all add: apply_Tracking)
  subgoal by (rule edge_realisedI [of "Some (Tracking [])" "ObsConfirmed (ConfirmationByHash
        \<lparr>source = SourceHash, transaction_hash = Some [], final_van_position = 0,
         vote_commitment_positions = []\<rparr>)"])
      (auto simp: apply_Tracking)
  done

lemma edges_realised:
  assumes "durable_step a b"
  shows "edge_realised a b"
  using assms
proof cases
  case reserve
  then show ?thesis
    using edge_realisedI [of None ReserveFreshSubmission "Some Submitting"]
    by (simp add: apply_None)
next
  case release
  then show ?thesis
    using edge_realisedI [of "Some Submitting" DefinitelyUnsent None]
    by (simp add: apply_Submitting)
next
  case (dispatched c)
  then show ?thesis using submitting_edges_realised by auto
next
  case (tracked c)
  then show ?thesis using tracking_edges_realised by auto
next
  case (recovered c)
  then obtain d ob s' where
    "apply_submission_observation (Some (Recovering None d)) ob = Inr (Some s')" "durable_state s' = c"
    using apply_realises_recovering by blast
  from edge_realisedI [OF this(1)] this(2) recovered show ?thesis by simp
next
  case replayed
  have "apply_submission_observation (Some (Confirmed undefined)) (ObsConfirmed undefined) =
      Inr (Some (Confirmed undefined))"
    by (simp add: apply_terminal terminal_state_def)
  from edge_realisedI [OF this] replayed show ?thesis by simp
qed

text \<open>
  C22: Refinement of the durable graph. The transition function accepts an observation that takes
  a row from one public durable state to another exactly along the edges of the abstract graph:
  every accepted observation is an edge, and every edge is taken by some observation.
\<close>

theorem apply_refines_durable_graph:
  "durable_step a b \<longleftrightarrow>
     (\<exists>s ob s'. apply_submission_observation s ob = Inr s' \<and> abs_row s = a \<and> abs_row s' = b)"
proof
  assume "durable_step a b"
  from edges_realised [OF this] show "\<exists>s ob s'.
      apply_submission_observation s ob = Inr s' \<and> abs_row s = a \<and> abs_row s' = b"
    by (simp only: edge_realised_def)
qed (elim exE conjE, drule apply_simulates, simp)

section \<open>Sequences of observations\<close>

fun observe_all ::
  "SubmissionRecordState option \<Rightarrow> SubmissionObservation list \<Rightarrow>
   SubmissionTransitionError + SubmissionRecordState option" where
  "observe_all s [] = Inr s"
| "observe_all s (ob # obs) = and_then (apply_submission_observation s ob) (\<lambda>t. observe_all t obs)"

lemma observe_all_append:
  "observe_all s (xs @ ys) = and_then (observe_all s xs) (\<lambda>t. observe_all t ys)"
  by (induction xs arbitrary: s) (simp_all add: and_then_assoc)

lemma observe_all_invariant:
  assumes "observe_all s obs = Inr r" and "P s"
    and "\<And>t ob t'. P t \<Longrightarrow> ob \<in> set obs \<Longrightarrow> apply_submission_observation t ob = Inr t' \<Longrightarrow> P t'"
  shows "P r"
  using assms
proof (induction obs arbitrary: s)
  case Nil
  from Nil.prems(1,2) show ?case by simp
next
  case (Cons ob obs)
  from Cons.prems(1) obtain t where
    t: "apply_submission_observation s ob = Inr t" and r: "observe_all t obs = Inr r"
    by (auto simp: and_then_eq_Inr)
  have "P t"
    by (rule Cons.prems(3) [OF Cons.prems(2) _ t]) simp
  from Cons.IH [OF r this] show ?case
    using Cons.prems(3) by (meson list.set_intros(2))
qed

text \<open>Once a row has left \<open>Submitting\<close> it exists forever and is never \<open>Submitting\<close> again.\<close>

definition past_reservation :: "SubmissionRecordState option \<Rightarrow> bool" where
  "past_reservation r \<longleftrightarrow> r \<noteq> None \<and> r \<noteq> Some Submitting"

lemma past_reservation_step:
  assumes "apply_submission_observation s ob = Inr s'" and "past_reservation s"
  shows "past_reservation s'"
proof -
  obtain t where "s = Some t" "t \<noteq> Submitting"
    using assms(2) by (cases s) (auto simp: past_reservation_def)
  with assms show ?thesis
    by (cases t rule: record_state_cases)
      (auto simp: apply_accepted apply_terminal past_reservation_def
        split: SubmissionObservation.splits if_splits)
qed

lemma past_reservation_run:
  "observe_all s obs = Inr r \<Longrightarrow> past_reservation s \<Longrightarrow> past_reservation r"
  by (erule observe_all_invariant) (auto intro: past_reservation_step)

text \<open>Observations that leave behind a row which may be on chain or was refused by it.\<close>

fun dispatch_outcome :: "SubmissionObservation \<Rightarrow> bool" where
  "dispatch_outcome (UsableCandidateHash _) = True"
| "dispatch_outcome (PossiblyDispatched _) = True"
| "dispatch_outcome (DefiniteRejection _) = True"
| "dispatch_outcome (AbandonedSubmitting _) = True"
| "dispatch_outcome _ = False"

lemma dispatch_outcome_past_reservation:
  assumes "apply_submission_observation s ob = Inr s'" and "dispatch_outcome ob"
  shows "past_reservation s'"
proof (cases s)
  case None
  with assms show ?thesis by (auto simp: apply_None)
next
  case (Some t)
  with assms show ?thesis
    by (cases t rule: record_state_cases)
      (auto simp: apply_accepted apply_terminal past_reservation_def
        split: SubmissionObservation.splits if_splits)
qed

lemma observe_all_past_outcome:
  assumes "observe_all s (xs @ ob # ys) = Inr r" and "dispatch_outcome ob"
  shows "past_reservation r"
proof -
  obtain t u where "apply_submission_observation t ob = Inr u" "observe_all u ys = Inr r"
    using assms(1) by (auto simp: observe_all_append and_then_eq_Inr)
  with assms(2) show ?thesis
    using dispatch_outcome_past_reservation past_reservation_run by blast
qed

lemma past_reservation_refuses:
  assumes "past_reservation s" and "ob = ReserveFreshSubmission \<or> ob = TerminalRejection d"
  shows "\<not> is_ok (apply_submission_observation s ob)"
proof -
  obtain t where "s = Some t" "t \<noteq> Submitting"
    using assms(1) by (cases s) (auto simp: past_reservation_def)
  with assms(2) show ?thesis
    by (cases t rule: record_state_cases)
      (auto simp: is_ok_iff apply_accepted apply_terminal)
qed

text \<open>
  C12: Dispatch evidence is never forgotten. After any sequence of accepted observations that
  contains the outcome of a dispatched or abandoned POST, the row still exists and is not a fresh
  reservation; so no later observation of that row removes it, reserves it afresh, or turns it
  into a terminal rejection of a first POST.
\<close>

theorem dispatch_evidence_is_permanent:
  assumes "observe_all None (before @ ob # after) = Inr r" and "dispatch_outcome ob"
  shows "\<exists>s. r = Some s \<and> s \<noteq> Submitting \<and>
    \<not> is_ok (apply_submission_observation r ReserveFreshSubmission) \<and>
    \<not> is_ok (apply_submission_observation r (TerminalRejection d)) \<and>
    (\<forall>ob'. apply_submission_observation r ob' \<noteq> Inr None)"
proof -
  have past: "past_reservation r"
    using observe_all_past_outcome [OF assms] .
  then obtain s where s: "r = Some s" "s \<noteq> Submitting"
    by (auto simp: past_reservation_def)
  have "\<not> is_ok (apply_submission_observation r ReserveFreshSubmission)"
    "\<not> is_ok (apply_submission_observation r (TerminalRejection d))"
    using past_reservation_refuses [OF past] by blast+
  moreover have "apply_submission_observation r ob' \<noteq> Inr None" for ob'
    using past_reservation_step [of r ob' None] past by (auto simp: past_reservation_def)
  ultimately show ?thesis using s by blast
qed

theorem dispatch_evidence_is_permanent_witness:
  "\<exists>s. observe_all None [ReserveFreshSubmission, UsableCandidateHash [1], CandidatePending] =
     Inr (Some s) \<and> s \<noteq> Submitting"
proof -
  have run: "observe_all None ([ReserveFreshSubmission] @ UsableCandidateHash [1] # [CandidatePending]) =
      Inr (Some (Tracking [1]))"
    by (simp add: apply_submission_observation_def)
  from dispatch_evidence_is_permanent [OF run] show ?thesis
    using run by simp
qed

section \<open>Candidates and confirmations\<close>

lemma candidate_step:
  assumes "apply_submission_observation s ob = Inr (Some t)" and "candidate_of t = Some h"
  shows "ob = UsableCandidateHash h \<or> (\<exists>s'. s = Some s' \<and> candidate_of s' = Some h)"
proof (cases s)
  case None
  with assms show ?thesis by (auto simp: apply_None)
next
  case (Some s')
  with assms show ?thesis
    by (cases s' rule: record_state_cases)
      (auto simp: apply_accepted apply_terminal
        split: SubmissionObservation.splits if_splits)
qed

lemma hash_confirmation_step:
  assumes "apply_submission_observation s ob = Inr (Some (Confirmed (ConfirmationByHash c)))"
  shows "s = Some (Confirmed (ConfirmationByHash c)) \<or>
    (\<exists>s' h. s = Some s' \<and> candidate_of s' = Some h \<and> transaction_hash c = Some h)"
proof (cases s)
  case None
  with assms show ?thesis by (auto simp: apply_None)
next
  case (Some s')
  with assms show ?thesis
    by (cases s' rule: record_state_cases)
      (auto simp: apply_accepted apply_terminal
        split: SubmissionObservation.splits if_splits)
qed

text \<open>Every hash a row holds, as candidate or as confirmed transaction, was reported earlier.\<close>

definition hashes_reported :: "SubmissionObservation set \<Rightarrow> SubmissionRecordState option \<Rightarrow> bool" where
  "hashes_reported obs r \<longleftrightarrow>
     (\<forall>s h. r = Some s \<longrightarrow> candidate_of s = Some h \<longrightarrow> UsableCandidateHash h \<in> obs) \<and>
     (\<forall>c. r = Some (Confirmed (ConfirmationByHash c)) \<longrightarrow>
        (\<exists>h. transaction_hash c = Some h \<and> UsableCandidateHash h \<in> obs))"

lemma hashes_reported_step:
  assumes "hashes_reported obs s" and "ob \<in> obs" and "apply_submission_observation s ob = Inr s'"
  shows "hashes_reported obs s'"
  unfolding hashes_reported_def
proof (intro conjI allI impI)
  fix t h
  assume "s' = Some t" "candidate_of t = Some h"
  with assms(3) have "ob = UsableCandidateHash h \<or> (\<exists>s''. s = Some s'' \<and> candidate_of s'' = Some h)"
    using candidate_step by blast
  with assms(1,2) show "UsableCandidateHash h \<in> obs"
    unfolding hashes_reported_def by blast
next
  fix c
  assume "s' = Some (Confirmed (ConfirmationByHash c))"
  with assms(3) have "s = Some (Confirmed (ConfirmationByHash c)) \<or>
    (\<exists>s'' h. s = Some s'' \<and> candidate_of s'' = Some h \<and> transaction_hash c = Some h)"
    using hash_confirmation_step by blast
  with assms(1) show "\<exists>h. transaction_hash c = Some h \<and> UsableCandidateHash h \<in> obs"
    unfolding hashes_reported_def by blast
qed

text \<open>
  C19: Confirmed hashes are candidates. If a sequence of observations of an absent row ends in a
  confirmation by transaction hash, that very hash was reported as a usable candidate earlier in
  the sequence: a confirmation for a hash this generation never received is refused.
\<close>

theorem confirmed_hash_was_candidate:
  assumes "observe_all None obs = Inr (Some (Confirmed (ConfirmationByHash c)))"
  shows "\<exists>h. transaction_hash c = Some h \<and> UsableCandidateHash h \<in> set obs"
proof -
  have "hashes_reported (set obs) (Some (Confirmed (ConfirmationByHash c)))"
    using assms
    by (rule observe_all_invariant)
      (simp add: hashes_reported_def, rule hashes_reported_step)
  then show ?thesis by (auto simp: hashes_reported_def)
qed

theorem confirmed_hash_was_candidate_witness:
  "let c = \<lparr>source = SourceHash, transaction_hash = Some [7], final_van_position = 3,
        vote_commitment_positions = [4]\<rparr>;
       obs = [ReserveFreshSubmission, UsableCandidateHash [7], ObsConfirmed (ConfirmationByHash c)]
   in observe_all None obs = Inr (Some (Confirmed (ConfirmationByHash c))) \<and>
      (\<exists>h. transaction_hash c = Some h \<and> UsableCandidateHash h \<in> set obs)"
proof -
  let ?c = "\<lparr>source = SourceHash, transaction_hash = Some [7], final_van_position = 3,
        vote_commitment_positions = [4]\<rparr> :: ChainSubmissionConfirmation"
  let ?obs = "[ReserveFreshSubmission, UsableCandidateHash [7], ObsConfirmed (ConfirmationByHash ?c)]"
  have "observe_all None ?obs = Inr (Some (Confirmed (ConfirmationByHash ?c)))"
    by (simp add: apply_submission_observation_def require_hash_confirmation_for_candidate_def)
  with confirmed_hash_was_candidate [OF this] show ?thesis
    by (simp only: Let_def simp_thms)
qed

section \<open>Terminal states\<close>

text \<open>
  Terminal rows absorb. From a confirmed, rejected or submitted-without-hash row, a sequence
  of observations is accepted only if it leaves the row exactly as it was, and then every
  observation in it replays the stored confirmation; everything else is an error.
\<close>

lemma terminal_rows_absorb:
  assumes "terminal_state s" and "observe_all (Some s) obs = Inr r"
  shows "r = Some s \<and> (\<forall>ob \<in> set obs. \<exists>conf. s = Confirmed conf \<and> ob = ObsConfirmed conf)"
  using assms(2)
proof (induction obs)
  case Nil
  then show ?case by simp
next
  case (Cons ob obs)
  then obtain t where "apply_submission_observation (Some s) ob = Inr t" "observe_all t obs = Inr r"
    by (auto simp: and_then_eq_Inr)
  with Cons.IH show ?case
    by (auto simp: apply_terminal [OF assms(1)])
qed

section \<open>Unresolved dispatch\<close>

text \<open>
  C23: Unresolved dispatch is sticky. While a row records a dispatch of unknown outcome, an accepted
  observation keeps that record unless it resolves it: a candidate hash for a hashless row, a
  candidate that committed with failure, a terminal outcome or a confirmation. In particular a
  definite rejection or an unsent retry leaves the row unchanged.
\<close>

theorem unresolved_dispatch_is_sticky:
  assumes "has_unresolved_dispatch s"
    and "apply_submission_observation (Some s) ob = Inr r"
    and "\<forall>d. ob = PossiblyDispatched d \<longrightarrow> ambiguous_kind (diagnostic_kind d)"
  shows "case ob of
      UsableCandidateHash h \<Rightarrow> if candidate_of s = None then r = Some (Tracking h) else r = Some s
    | PossiblyDispatched _ \<Rightarrow> (\<exists>t. r = Some t \<and> has_unresolved_dispatch t \<and>
        candidate_of t = candidate_of s)
    | CandidateCommittedFailure d \<Rightarrow> candidate_of s \<noteq> None \<and> r = Some (Recovering None d)
    | ObsSubmittedWithoutHash d \<Rightarrow> r = Some (SubmittedWithoutHash d)
    | TerminalCandidateFailure d \<Rightarrow> r = Some (Rejected d)
    | ObsConfirmed conf \<Rightarrow> r = Some (Confirmed conf)
    | _ \<Rightarrow> r = Some s"
proof -
  obtain c d where "s = Recovering c d"
    using assms(1) by (cases s) auto
  with assms show ?thesis
    by (auto simp: apply_Recovering split: SubmissionObservation.splits if_splits)
qed

theorem unresolved_dispatch_is_sticky_witness:
  "let d = \<lparr>diagnostic_kind = AmbiguousDispatch, diagnostic_message = ''lost''\<rparr>;
       s = Recovering None d
   in has_unresolved_dispatch s \<and>
      apply_submission_observation (Some s) (DefiniteRejection d) = Inr (Some s)"
proof -
  let ?d = "\<lparr>diagnostic_kind = AmbiguousDispatch, diagnostic_message = ''lost''\<rparr>"
  have u: "has_unresolved_dispatch (Recovering None ?d)"
    by (simp add: ambiguous_kind_def)
  have "\<exists>r. apply_submission_observation (Some (Recovering None ?d)) (DefiniteRejection ?d) = Inr r"
    by (simp add: apply_submission_observation_def)
  then obtain r where
    "apply_submission_observation (Some (Recovering None ?d)) (DefiniteRejection ?d) = Inr r" ..
  with unresolved_dispatch_is_sticky [OF u this] u show ?thesis
    by (simp add: Let_def)
qed

end
