(* ===== verification/Submission_Identity.thy ===== *)
theory Submission_Identity
  imports Submission_Result "HOL-Library.List_Lexorder" "HOL-Library.Product_Lexorder"
begin

text \<open>
  Submission identities (\<open>zcash_voting/src/chain_submission/identity.rs\<close>): the target of a
  submission, its validated identity, the durable primary key of that identity, the generation
  it belongs to, and the textual form of a transaction hash. A wallet id is the UTF-8 byte
  string of the Rust \<open>String\<close>; fixed-size arrays are byte lists whose length is part of
  \<open>wf_identity\<close>. The canonical field-element check of the \<open>pallas\<close> crate and the \<open>hex\<close> crate
  are parameters.
\<close>

section \<open>Targets and identities\<close>

datatype Network = Testnet | Mainnet | Regtest

datatype ChainSubmissionTarget =
    TargetDelegation
  | TargetVote u32
  | TargetVoteBatch bytes
  | TargetDelegateAndVoteBatch bytes

fun batch_digest :: "ChainSubmissionTarget \<Rightarrow> bytes option" where
  "batch_digest (TargetVoteBatch digest) = Some digest"
| "batch_digest (TargetDelegateAndVoteBatch digest) = Some digest"
| "batch_digest _ = None"

fun is_combined :: "ChainSubmissionTarget \<Rightarrow> bool" where
  "is_combined (TargetDelegateAndVoteBatch _) = True"
| "is_combined _ = False"

record ChainSubmissionIdentity =
  wallet_id :: bytes
  network :: Network
  vote_round_id :: bytes
  bundle_index :: u32
  target :: ChainSubmissionTarget

datatype ChainSubmissionIdentityError =
    EmptyWalletId
  | InvalidVoteRoundId
  | InvalidProposalId u32

definition MIN_PROPOSAL_ID :: u32 where
  "MIN_PROPOSAL_ID = 1"

definition MAX_PROPOSAL_ID :: u32 where
  "MAX_PROPOSAL_ID = 50"

text \<open>
  \<open>canonical_base\<close> stands for the check that 32 bytes are the canonical representation of a
  Pallas base field element.
\<close>

definition validate_vote_round_id_bytes :: "(bytes \<Rightarrow> bool) \<Rightarrow> bytes \<Rightarrow> bool" where
  "validate_vote_round_id_bytes canonical_base round_id \<longleftrightarrow>
     length round_id = 32 \<and> canonical_base round_id"

definition identity_new ::
  "(bytes \<Rightarrow> bool) \<Rightarrow> bytes \<Rightarrow> Network \<Rightarrow> bytes \<Rightarrow> u32 \<Rightarrow> ChainSubmissionTarget \<Rightarrow>
   ChainSubmissionIdentityError + ChainSubmissionIdentity" where
  "identity_new canonical_base wallet net round_id bundle tgt =
     (if wallet = [] then Inl EmptyWalletId
      else if \<not> validate_vote_round_id_bytes canonical_base round_id then Inl InvalidVoteRoundId
      else
        let identity = \<lparr>wallet_id = wallet, network = net, vote_round_id = round_id,
                        bundle_index = bundle, target = tgt\<rparr>
        in case tgt of
             TargetVote proposal_id \<Rightarrow>
               if \<not> (MIN_PROPOSAL_ID \<le> proposal_id \<and> proposal_id \<le> MAX_PROPOSAL_ID)
               then Inl (InvalidProposalId proposal_id) else Inr identity
           | _ \<Rightarrow> Inr identity)"

section \<open>The durable key\<close>

definition ascii :: "string \<Rightarrow> bytes" where
  "ascii s = map of_char s"

fun network_name :: "Network \<Rightarrow> string" where
  "network_name Mainnet = ''mainnet''"
| "network_name Testnet = ''testnet''"
| "network_name Regtest = ''regtest''"

definition IDENTITY_KEY_PREFIX :: bytes where
  "IDENTITY_KEY_PREFIX = ascii ''zcash_voting.chain_submission.identity.v1'' @ [0]"

definition length_prefixed :: "bytes \<Rightarrow> bytes" where
  "length_prefixed v = u64_to_be_bytes (word_of_nat (length v)) @ v"

fun target_key :: "ChainSubmissionTarget \<Rightarrow> bytes" where
  "target_key TargetDelegation = [0]"
| "target_key (TargetVote proposal_id) = 1 # u32_to_be_bytes proposal_id"
| "target_key (TargetVoteBatch digest) = 2 # digest"
| "target_key (TargetDelegateAndVoteBatch digest) = 3 # digest"

definition submission_identity_key :: "ChainSubmissionIdentity \<Rightarrow> bytes" where
  "submission_identity_key identity =
     IDENTITY_KEY_PREFIX @
     concat (map length_prefixed
       [wallet_id identity, ascii (network_name (network identity)), vote_round_id identity]) @
     u32_to_be_bytes (bundle_index identity) @
     target_key (target identity)"

section \<open>Generations\<close>

type_synonym ChainSubmissionGenerationDigest = bytes

record ChainSubmissionGeneration =
  generation_identity :: ChainSubmissionIdentity
  generation_digest :: ChainSubmissionGenerationDigest

section \<open>Transaction hashes as text\<close>

datatype CandidateTransactionHashError = CandidateTransactionHashError

text \<open>
  The text is a Rust \<open>&str\<close>. Its byte length and its number of characters agree for the texts
  the check lets through, which are plain ASCII.
\<close>

definition lowercase_hex_char :: "nat \<Rightarrow> bool" where
  "lowercase_hex_char c \<longleftrightarrow> (0x30 \<le> c \<and> c \<le> 0x39) \<or> (0x61 \<le> c \<and> c \<le> 0x66)"

definition candidate_to_hex :: "(bytes \<Rightarrow> rust_str) \<Rightarrow> CandidateTransactionHash \<Rightarrow> rust_str" where
  "candidate_to_hex hex_encode h = hex_encode h"

definition candidate_from_str ::
  "(rust_str \<Rightarrow> bytes option) \<Rightarrow> rust_str \<Rightarrow>
   CandidateTransactionHashError + CandidateTransactionHash" where
  "candidate_from_str hex_decode v =
     (if length v \<noteq> 64 \<or> \<not> list_all lowercase_hex_char v then Inl CandidateTransactionHashError
      else and_then (ok_or CandidateTransactionHashError (hex_decode v)) (\<lambda>decoded.
        if length decoded = 32 then Inr decoded else Inl CandidateTransactionHashError))"

section \<open>Well-formed identities\<close>

text \<open>What the Rust types guarantee: array lengths, and a string length that fits a \<open>usize\<close>.\<close>

fun wf_target :: "ChainSubmissionTarget \<Rightarrow> bool" where
  "wf_target (TargetVoteBatch digest) \<longleftrightarrow> length digest = 32"
| "wf_target (TargetDelegateAndVoteBatch digest) \<longleftrightarrow> length digest = 32"
| "wf_target _ \<longleftrightarrow> True"

definition wf_identity :: "ChainSubmissionIdentity \<Rightarrow> bool" where
  "wf_identity i \<longleftrightarrow>
     length (wallet_id i) < 2 ^ 64 \<and> length (vote_round_id i) = 32 \<and> wf_target (target i)"

lemma target_key_inj:
  "wf_target t \<Longrightarrow> wf_target u \<Longrightarrow> target_key t = target_key u \<longleftrightarrow> t = u"
  by (cases t; cases u) auto

lemma target_key_nonempty [simp]: "target_key t \<noteq> []"
  by (cases t) auto

lemma network_name_inj: "network_name m = network_name n \<longleftrightarrow> m = n"
  by (cases m; cases n) auto

lemma length_network_name [simp]: "length (network_name n) = 7"
  by (cases n) auto

lemma ascii_inj_network: "ascii (network_name m) = ascii (network_name n) \<longleftrightarrow> m = n"
  by (cases m; cases n) (auto simp: ascii_def)

lemma length_ascii [simp]: "length (ascii s) = length s"
  by (simp add: ascii_def)

lemma length_prefixed_append:
  assumes "length v < 2 ^ 64" and "length w < 2 ^ 64"
  shows "length_prefixed v @ xs = length_prefixed w @ ys \<longleftrightarrow> v = w \<and> xs = ys"
proof
  assume eq: "length_prefixed v @ xs = length_prefixed w @ ys"
  then have "u64_to_be_bytes (word_of_nat (length v)) @ v @ xs =
      u64_to_be_bytes (word_of_nat (length w)) @ w @ ys"
    by (simp add: length_prefixed_def)
  then have len: "(word_of_nat (length v) :: u64) = word_of_nat (length w)" and rest: "v @ xs = w @ ys"
    by (simp_all add: append_eq_same_length)
  from arg_cong [OF len, of unat] assms have "length v = length w"
    by (simp add: unat_of_nat)
  with rest show "v = w \<and> xs = ys"
    by (simp add: append_eq_same_length)
qed simp

lemma submission_identity_key_inj:
  assumes "wf_identity i" and "wf_identity j"
  shows "submission_identity_key i = submission_identity_key j \<longleftrightarrow> i = j"
proof
  assume eq: "submission_identity_key i = submission_identity_key j"
  have bounds: "length (wallet_id i) < 2 ^ 64" "length (wallet_id j) < 2 ^ 64"
    "length (vote_round_id i) < 2 ^ 64" "length (vote_round_id j) < 2 ^ 64"
    "wf_target (target i)" "wf_target (target j)"
    using assms by (simp_all add: wf_identity_def)
  from eq have "wallet_id i = wallet_id j"
    "ascii (network_name (network i)) = ascii (network_name (network j))"
    "vote_round_id i = vote_round_id j"
    "u32_to_be_bytes (bundle_index i) @ target_key (target i) =
       u32_to_be_bytes (bundle_index j) @ target_key (target j)"
    using bounds by (auto simp: submission_identity_key_def length_prefixed_append)
  then show "i = j"
    using bounds by (auto simp: append_eq_same_length target_key_inj ascii_inj_network
        intro!: ChainSubmissionIdentity.equality)
qed simp

text \<open>
  C25: The durable key is injective. Two submission identities have the same primary key exactly
  when they agree in wallet, network, round, bundle and target: no rearrangement of field
  boundaries and no two kinds of target collide.
\<close>

theorem submission_identity_key_injective:
  assumes "wf_identity i" and "wf_identity j"
  shows "submission_identity_key i = submission_identity_key j \<longleftrightarrow> i = j"
  by (rule submission_identity_key_inj [OF assms])

theorem submission_identity_key_injective_witness:
  "let i = \<lparr>wallet_id = [1], network = Mainnet, vote_round_id = replicate 32 0,
            bundle_index = 0, target = TargetVoteBatch (replicate 32 9)\<rparr>;
       j = i\<lparr>target := TargetDelegateAndVoteBatch (replicate 32 9)\<rparr>
   in wf_identity i \<and> wf_identity j \<and> submission_identity_key i \<noteq> submission_identity_key j"
proof -
  let ?i = "\<lparr>wallet_id = [1], network = Mainnet, vote_round_id = replicate 32 0,
            bundle_index = 0, target = TargetVoteBatch (replicate 32 9)\<rparr>"
  let ?j = "?i\<lparr>target := TargetDelegateAndVoteBatch (replicate 32 9)\<rparr>"
  have "wf_identity ?i" "wf_identity ?j"
    by (simp_all add: wf_identity_def)
  with submission_identity_key_injective [OF this] show ?thesis
    by (simp add: Let_def)
qed

lemma identity_new_wf:
  assumes "identity_new canon w n r b t = Inr i" and "length w < 2 ^ 64" and "wf_target t"
  shows "wf_identity i"
  using assms
  by (auto simp: identity_new_def validate_vote_round_id_bytes_def Let_def wf_identity_def
      split: if_splits ChainSubmissionTarget.splits)

lemma candidate_from_str_Inr:
  "candidate_from_str dec v = Inr h \<longleftrightarrow>
     length v = 64 \<and> list_all lowercase_hex_char v \<and> dec v = Some h \<and> length h = 32"
  by (auto simp: candidate_from_str_def and_then_eq_Inr ok_or_eq_Inr split: if_splits)

end
