(* ===== verification/Submission_Coordination.thy ===== *)
theory Submission_Coordination
  imports Submission_Identity "HOL-Library.Multiset" "HOL-Library.Mapping"
begin

text \<open>
  Process-local coordination of submissions
  (\<open>zcash_voting/src/chain_submission/coordination.rs\<close>): the operation keys with their derived
  order, the registries of weakly held locks, the in-flight registry, and the order in which the
  entry points take their locks. The waiting and granting of the \<open>tokio\<close> locks is a step relation
  over agents, each of which takes the locks of its plan one after the other.
\<close>

section \<open>Operation keys\<close>

datatype RoundOperationKey =
  RoundOperationKey (rk_wallet: bytes) (rk_network: u8) (rk_round: bytes)

datatype BundleOperationKey =
  BundleOperationKey (bk_round: RoundOperationKey) (bk_index: u32)

datatype SubmissionOperationKey =
  SubmissionOperationKey (sk_bundle: BundleOperationKey) (sk_kind: u8) (sk_value: bytes)

fun network_rank :: "Network \<Rightarrow> u8" where
  "network_rank Mainnet = 0"
| "network_rank Testnet = 1"
| "network_rank Regtest = 2"

definition round_key :: "ChainSubmissionIdentity \<Rightarrow> RoundOperationKey" where
  "round_key identity =
     RoundOperationKey (wallet_id identity) (network_rank (network identity)) (vote_round_id identity)"

definition bundle_from_identity :: "ChainSubmissionIdentity \<Rightarrow> BundleOperationKey" where
  "bundle_from_identity identity = BundleOperationKey (round_key identity) (bundle_index identity)"

definition operation_from_identity :: "ChainSubmissionIdentity \<Rightarrow> SubmissionOperationKey" where
  "operation_from_identity identity =
     (let (target_kind, target_value) =
        (case target identity of
           TargetDelegation \<Rightarrow> (0, [])
         | TargetVote proposal_id \<Rightarrow> (1, u32_to_be_bytes proposal_id)
         | TargetVoteBatch ordered_batch_digest \<Rightarrow> (2, ordered_batch_digest)
         | TargetDelegateAndVoteBatch ordered_batch_digest \<Rightarrow> (3, ordered_batch_digest))
      in SubmissionOperationKey
           (BundleOperationKey (round_key identity) (bundle_index identity))
           target_kind target_value)"

text \<open>The derived \<open>Ord\<close>: lexicographic in the order of the fields.\<close>

fun operation_tuple ::
  "SubmissionOperationKey \<Rightarrow> bytes \<times> u8 \<times> bytes \<times> u32 \<times> u8 \<times> bytes" where
  "operation_tuple
     (SubmissionOperationKey (BundleOperationKey (RoundOperationKey w n r) b) kind v) =
     (w, n, r, b, kind, v)"

lemma operation_tuple_inj: "operation_tuple k = operation_tuple l \<longleftrightarrow> k = l"
  by (cases k rule: operation_tuple.cases; cases l rule: operation_tuple.cases) simp

instantiation SubmissionOperationKey :: linorder
begin

definition less_eq_SubmissionOperationKey ::
  "SubmissionOperationKey \<Rightarrow> SubmissionOperationKey \<Rightarrow> bool" where
  "less_eq_SubmissionOperationKey k l \<longleftrightarrow> operation_tuple k \<le> operation_tuple l"

definition less_SubmissionOperationKey ::
  "SubmissionOperationKey \<Rightarrow> SubmissionOperationKey \<Rightarrow> bool" where
  "less_SubmissionOperationKey k l \<longleftrightarrow> operation_tuple k < operation_tuple l"

instance
proof
  fix k l m :: SubmissionOperationKey
  show "k < l \<longleftrightarrow> k \<le> l \<and> \<not> l \<le> k"
    by (simp add: less_eq_SubmissionOperationKey_def less_SubmissionOperationKey_def less_le_not_le)
  show "k \<le> k"
    by (simp add: less_eq_SubmissionOperationKey_def)
  show "k \<le> m" if "k \<le> l" "l \<le> m"
    using that by (auto simp: less_eq_SubmissionOperationKey_def)
  show "k = l" if "k \<le> l" "l \<le> k"
    using that by (simp add: less_eq_SubmissionOperationKey_def operation_tuple_inj order_antisym_conv)
  show "k \<le> l \<or> l \<le> k"
    by (auto simp: less_eq_SubmissionOperationKey_def)
qed

end

lemma network_rank_inj: "network_rank m = network_rank n \<longleftrightarrow> m = n"
  by (cases m; cases n) auto

lemma operation_from_identity_inj:
  "operation_from_identity i = operation_from_identity j \<longleftrightarrow> i = j"
  by (cases i; cases j; cases "target i"; cases "target j")
    (auto simp: operation_from_identity_def round_key_def network_rank_inj Let_def)

text \<open>
  Lock key and row key agree. Two submission identities share a process-local operation key
  exactly when they share the durable primary key, so the in-process exclusion of an operation
  covers exactly the rows it can write.
\<close>

lemma operation_key_matches_durable_key:
  assumes "wf_identity i" and "wf_identity j"
  shows "operation_from_identity i = operation_from_identity j \<longleftrightarrow>
    submission_identity_key i = submission_identity_key j"
  by (simp add: operation_from_identity_inj submission_identity_key_inj [OF assms])

section \<open>Weak lock registries\<close>

text \<open>
  A lock is an \<open>Arc\<close> with an address; the heap counts its strong references. A registry maps keys
  to addresses and does not itself keep a lock alive. \<open>next_lock\<close> is the next unused address.
\<close>

record arc_heap =
  strong_count :: "nat \<Rightarrow> nat"
  next_lock :: nat

record 'k lock_registry =
  entries :: "'k \<rightharpoonup> nat"
  poisoned :: bool

definition shared_lock ::
  "'k lock_registry \<Rightarrow> arc_heap \<Rightarrow> 'k \<Rightarrow>
   ChainSubmissionFailure + nat \<times> 'k lock_registry \<times> arc_heap" where
  "shared_lock registry heap key =
     (if poisoned registry
      then Inl (without_state InvariantViolation (lit ''chain submission lock registry is poisoned''))
      else
        let retained = (\<lambda>k. case entries registry k of
              Some lock \<Rightarrow> if strong_count heap lock > 0 then Some lock else None
            | None \<Rightarrow> None)
        in case retained key of
             Some lock \<Rightarrow>
               Inr (lock, registry\<lparr>entries := retained\<rparr>,
                    heap\<lparr>strong_count := (strong_count heap)(lock := strong_count heap lock + 1)\<rparr>)
           | None \<Rightarrow>
               let lock = next_lock heap
               in Inr (lock, registry\<lparr>entries := retained(key \<mapsto> lock)\<rparr>,
                       heap\<lparr>strong_count := (strong_count heap)(lock := 1), next_lock := lock + 1\<rparr>))"

text \<open>Dropping one strong reference.\<close>

definition drop_arc :: "arc_heap \<Rightarrow> nat \<Rightarrow> arc_heap" where
  "drop_arc heap lock =
     heap\<lparr>strong_count := (strong_count heap)(lock := strong_count heap lock - 1)\<rparr>"

text \<open>Any interleaving of requests and drops; \<open>handles\<close> are the references outstanding.\<close>

inductive registry_run ::
  "'k lock_registry \<Rightarrow> arc_heap \<Rightarrow> ('k \<times> nat) multiset \<Rightarrow> bool" where
  registry_empty:
    "registry_run \<lparr>entries = Map.empty, poisoned = p\<rparr>
       \<lparr>strong_count = (\<lambda>_. 0), next_lock = n\<rparr> {#}"
| registry_get:
    "registry_run reg heap handles \<Longrightarrow> shared_lock reg heap key = Inr (lock, reg', heap') \<Longrightarrow>
     registry_run reg' heap' (add_mset (key, lock) handles)"
| registry_drop:
    "registry_run reg heap handles \<Longrightarrow> (key, lock) \<in># handles \<Longrightarrow>
     registry_run reg (drop_arc heap lock) (handles - {#(key, lock)#})"
| registry_poison:
    "registry_run reg heap handles \<Longrightarrow> registry_run (reg\<lparr>poisoned := True\<rparr>) heap handles"

definition registry_inv :: "'k lock_registry \<Rightarrow> arc_heap \<Rightarrow> ('k \<times> nat) multiset \<Rightarrow> bool" where
  "registry_inv reg heap handles \<longleftrightarrow>
     (\<forall>lock. strong_count heap lock = size (filter_mset (\<lambda>h. snd h = lock) handles)) \<and>
     (\<forall>key lock. (key, lock) \<in># handles \<longrightarrow> entries reg key = Some lock) \<and>
     (\<forall>key lock. entries reg key = Some lock \<longrightarrow> lock < next_lock heap) \<and>
     (\<forall>k k' lock. entries reg k = Some lock \<longrightarrow> entries reg k' = Some lock \<longrightarrow> k = k')"

lemma filter_mset_none: "(\<forall>x. x \<in># M \<longrightarrow> \<not> P x) \<Longrightarrow> filter_mset P M = {#}"
  by (induction M) auto

lemma registry_inv_get:
  assumes inv: "registry_inv reg heap handles"
    and get: "shared_lock reg heap key = Inr (lock, reg', heap')"
  shows "registry_inv reg' heap' (add_mset (key, lock) handles)"
proof -
  let ?kept = "\<lambda>k. case entries reg k of
      Some l \<Rightarrow> if strong_count heap l > 0 then Some l else None | None \<Rightarrow> None"
  have count: "strong_count heap l = size (filter_mset (\<lambda>h. snd h = l) handles)" for l
    using inv by (simp add: registry_inv_def)
  have live: "strong_count heap l > 0" if "(k, l) \<in># handles" for k l
    using that by (auto simp: count size_multiset_eq_0_iff_empty filter_mset_eq_conv
        nonempty_has_size [symmetric] dest: multi_member_split)
  have kept: "?kept k = Some l" if "(k, l) \<in># handles" for k l
    using that inv live [OF that] by (simp add: registry_inv_def)
  show ?thesis
  proof (cases "?kept key")
    case (Some l)
    with get have "lock = l" "reg' = reg\<lparr>entries := ?kept\<rparr>"
      "heap' = heap\<lparr>strong_count := (strong_count heap)(l := strong_count heap l + 1)\<rparr>"
      by (auto simp: shared_lock_def Let_def split: if_splits)
    with Some inv kept count show ?thesis
      by (auto simp: registry_inv_def split: option.splits if_splits)
  next
    case None
    with get have new: "lock = next_lock heap" "reg' = reg\<lparr>entries := ?kept(key \<mapsto> next_lock heap)\<rparr>"
      "heap' = heap\<lparr>strong_count := (strong_count heap)(next_lock heap := 1),
                    next_lock := next_lock heap + 1\<rparr>"
      by (auto simp: shared_lock_def Let_def split: if_splits)
    have "\<forall>h. h \<in># handles \<longrightarrow> snd h \<noteq> next_lock heap"
      using inv by (force simp: registry_inv_def)
    then have fresh: "strong_count heap (next_lock heap) = 0"
      by (simp add: count filter_mset_none)
    have "(key, l) \<notin># handles" for l
      using kept None by auto
    with None new fresh inv kept count show ?thesis
      by (auto simp: registry_inv_def intro: less_SucI split: option.splits if_splits)
  qed
qed

lemma registry_inv_drop:
  assumes inv: "registry_inv reg heap handles" and "(key, lock) \<in># handles"
  shows "registry_inv reg (drop_arc heap lock) (handles - {#(key, lock)#})"
proof -
  obtain rest where rest: "handles = add_mset (key, lock) rest"
    using assms(2) by (metis mset_add)
  show ?thesis
    using inv unfolding rest by (auto simp: registry_inv_def drop_arc_def)
qed

lemma registry_run_inv: "registry_run reg heap handles \<Longrightarrow> registry_inv reg heap handles"
proof (induction rule: registry_run.induct)
  case (registry_get reg heap handles key lock reg' heap')
  then show ?case by (blast intro: registry_inv_get)
next
  case (registry_drop reg heap handles key lock)
  then show ?case by (blast intro: registry_inv_drop)
qed (auto simp: registry_inv_def)

text \<open>
  Weak registries hand out one lock per key. Under any interleaving of requests, drops and
  poisoning, and although dead entries are pruned on every request, two outstanding references
  are to the same lock exactly when they were requested for the same key.
\<close>

lemma shared_lock_unique_per_key:
  assumes "registry_run reg heap handles"
    and "(key, lock) \<in># handles" and "(key', lock') \<in># handles"
  shows "key = key' \<longleftrightarrow> lock = lock'"
  using registry_run_inv [OF assms(1)] assms(2,3)
  unfolding registry_inv_def by (metis option.inject)

section \<open>The in-flight registry\<close>

record in_flight_registry =
  counts :: "(SubmissionOperationKey, nat) mapping"
  in_flight_poisoned :: bool

definition in_flight_poison_failure :: ChainSubmissionFailure where
  "in_flight_poison_failure =
     without_state InvariantViolation (lit ''chain submission in-flight registry is poisoned'')"

definition register_in_flight ::
  "in_flight_registry \<Rightarrow> ChainSubmissionIdentity \<Rightarrow>
   ChainSubmissionFailure + SubmissionOperationKey \<times> in_flight_registry" where
  "register_in_flight registry identity =
     (let key = operation_from_identity identity in
      if in_flight_poisoned registry then Inl in_flight_poison_failure
      else
        let n = (case Mapping.lookup (counts registry) key of None \<Rightarrow> 0 | Some c \<Rightarrow> c)
        in Inr (key, registry\<lparr>counts := Mapping.update key (n + 1) (counts registry)\<rparr>))"

text \<open>\<open>Drop\<close> of an \<open>InFlightSubmission\<close>; a poisoned registry is left alone.\<close>

definition drop_in_flight ::
  "in_flight_registry \<Rightarrow> SubmissionOperationKey \<Rightarrow> in_flight_registry" where
  "drop_in_flight registry key =
     (if in_flight_poisoned registry then registry
      else case Mapping.lookup (counts registry) key of
          None \<Rightarrow> registry
        | Some n \<Rightarrow>
            if n - 1 = 0 then registry\<lparr>counts := Mapping.delete key (counts registry)\<rparr>
            else registry\<lparr>counts := Mapping.update key (n - 1) (counts registry)\<rparr>)"

definition has_in_flight_for_round ::
  "in_flight_registry \<Rightarrow> ChainSubmissionIdentity \<Rightarrow> ChainSubmissionFailure + bool" where
  "has_in_flight_for_round registry identity =
     (let round = round_key identity in
      if in_flight_poisoned registry then Inl in_flight_poison_failure
      else Inr (\<exists>key \<in> Mapping.keys (counts registry). bk_round (sk_bundle key) = round))"

text \<open>Any interleaving of registrations and drops; \<open>guards\<close> are the guards outstanding.\<close>

inductive in_flight_run ::
  "in_flight_registry \<Rightarrow> ChainSubmissionIdentity multiset \<Rightarrow> bool" where
  in_flight_empty: "in_flight_run \<lparr>counts = Mapping.empty, in_flight_poisoned = False\<rparr> {#}"
| in_flight_register:
    "in_flight_run reg guards \<Longrightarrow> register_in_flight reg identity = Inr (key, reg') \<Longrightarrow>
     in_flight_run reg' (add_mset identity guards)"
| in_flight_drop:
    "in_flight_run reg guards \<Longrightarrow> identity \<in># guards \<Longrightarrow>
     in_flight_run (drop_in_flight reg (operation_from_identity identity)) (guards - {#identity#})"

definition outstanding :: "ChainSubmissionIdentity multiset \<Rightarrow> SubmissionOperationKey \<Rightarrow> nat" where
  "outstanding guards key = count (image_mset operation_from_identity guards) key"

lemma outstanding_simps [simp]:
  "outstanding {#} key = 0"
  "outstanding (add_mset i guards) key =
     (if operation_from_identity i = key then Suc (outstanding guards key) else outstanding guards key)"
  by (simp_all add: outstanding_def)

lemma outstanding_zero:
  "outstanding guards key = 0 \<longleftrightarrow> key \<notin> operation_from_identity ` set_mset guards"
  by (auto simp: outstanding_def count_eq_zero_iff)

definition in_flight_inv :: "in_flight_registry \<Rightarrow> ChainSubmissionIdentity multiset \<Rightarrow> bool" where
  "in_flight_inv reg guards \<longleftrightarrow> \<not> in_flight_poisoned reg \<and>
     (\<forall>key. Mapping.lookup (counts reg) key =
        (if outstanding guards key = 0 then None else Some (outstanding guards key)))"

lemma lookup_delete_if:
  "Mapping.lookup (Mapping.delete k m) k' = (if k = k' then None else Mapping.lookup m k')"
  by transfer simp

lemma in_flight_run_inv: "in_flight_run reg guards \<Longrightarrow> in_flight_inv reg guards"
proof (induction rule: in_flight_run.induct)
  case in_flight_empty
  then show ?case by (simp add: in_flight_inv_def)
next
  case (in_flight_register reg guards identity key reg')
  have look: "Mapping.lookup (counts reg) k =
      (if outstanding guards k = 0 then None else Some (outstanding guards k))" for k
    using in_flight_register(3) by (simp add: in_flight_inv_def)
  have "\<not> in_flight_poisoned reg" and "reg' = reg\<lparr>counts :=
      Mapping.update (operation_from_identity identity)
        (outstanding guards (operation_from_identity identity) + 1) (counts reg)\<rparr>"
    using in_flight_register(2,3)
    by (auto simp: in_flight_inv_def register_in_flight_def look Let_def split: if_splits)
  then show ?case
    by (simp add: in_flight_inv_def look Mapping.lookup_update')
next
  case (in_flight_drop reg guards identity)
  then obtain rest where rest: "guards = add_mset identity rest"
    by (metis mset_add)
  have look: "Mapping.lookup (counts reg) k =
      (if outstanding guards k = 0 then None else Some (outstanding guards k))" for k
    using in_flight_drop(3) by (simp add: in_flight_inv_def)
  show ?case
    using in_flight_drop(3) unfolding rest
    by (simp add: in_flight_inv_def drop_in_flight_def look rest Mapping.lookup_update'
        lookup_delete_if)
qed

text \<open>
  C26: The in-flight registry is exact. Under any interleaving of registrations and drops of the
  guards handed out, a round is reported as having work in flight exactly when some guard of an
  identity of that round is still outstanding.
\<close>

theorem in_flight_registry_exact:
  assumes "in_flight_run reg guards"
  shows "has_in_flight_for_round reg identity =
    Inr (\<exists>i. i \<in># guards \<and> round_key i = round_key identity)"
proof -
  have inv: "in_flight_inv reg guards"
    by (rule in_flight_run_inv [OF assms])
  then have "Mapping.keys (counts reg) = operation_from_identity ` set_mset guards"
    by (auto simp: in_flight_inv_def keys_dom_lookup outstanding_zero split: if_splits)
  then show ?thesis
    using inv
    by (auto simp: has_in_flight_for_round_def in_flight_inv_def operation_from_identity_def
        Let_def split: prod.splits)
qed

theorem in_flight_registry_exact_witness:
  "let i = \<lparr>wallet_id = [1], network = Mainnet, vote_round_id = [2], bundle_index = 0,
            target = TargetDelegation\<rparr>;
       reg = \<lparr>counts = Mapping.empty, in_flight_poisoned = False\<rparr>
   in \<exists>key reg'. register_in_flight reg i = Inr (key, reg') \<and>
        has_in_flight_for_round reg' i = Inr True \<and>
        has_in_flight_for_round (drop_in_flight reg' key) i = Inr False"
proof -
  let ?i = "\<lparr>wallet_id = [1], network = Mainnet, vote_round_id = [2], bundle_index = 0,
            target = TargetDelegation\<rparr>"
  obtain key reg' where
    reg: "register_in_flight \<lparr>counts = Mapping.empty, in_flight_poisoned = False\<rparr> ?i = Inr (key, reg')"
    and key: "key = operation_from_identity ?i"
    by (simp add: register_in_flight_def Let_def)
  have run: "in_flight_run reg' {#?i#}"
    using in_flight_register [OF in_flight_empty reg] .
  then have "in_flight_run (drop_in_flight reg' key) {#}"
    using in_flight_drop [OF run, of ?i] key by simp
  from in_flight_registry_exact [OF this, of ?i] in_flight_registry_exact [OF run, of ?i] reg
  show ?thesis
    by (simp add: Let_def)
qed

section \<open>Locks and the plans of the entry points\<close>

datatype lock_name =
    AccountGate bytes
  | RoundGate RoundOperationKey
  | BundleLock BundleOperationKey
  | IdentityLock SubmissionOperationKey

datatype lock_mode = Shared | Exclusive

type_synonym lock_plan = "(lock_name \<times> lock_mode) list"

text \<open>
  The locks each entry point takes, in its order: read guards of the account and round gates, the
  bundle mutex, and the identity mutexes sorted and without duplicates.
\<close>

definition acquire_plan :: "ChainSubmissionIdentity \<Rightarrow> ChainSubmissionIdentity list \<Rightarrow> lock_plan" where
  "acquire_plan operation applicable_identities =
     (let identity_keys = remdups_adj (sort
            (map operation_from_identity applicable_identities @ [operation_from_identity operation]))
      in [(AccountGate (wallet_id operation), Shared),
          (RoundGate (round_key operation), Shared),
          (BundleLock (bundle_from_identity operation), Exclusive)] @
         map (\<lambda>key. (IdentityLock key, Exclusive)) identity_keys)"

definition account_exclusive_plan :: "bytes \<Rightarrow> lock_plan" where
  "account_exclusive_plan wallet = [(AccountGate wallet, Exclusive)]"

definition delegation_setup_plan :: "ChainSubmissionIdentity \<Rightarrow> lock_plan" where
  "delegation_setup_plan identity =
     [(AccountGate (wallet_id identity), Shared),
      (RoundGate (round_key identity), Shared),
      (BundleLock (bundle_from_identity identity), Exclusive)]"

definition round_exclusive_plan :: "ChainSubmissionIdentity \<Rightarrow> lock_plan" where
  "round_exclusive_plan identity = [(RoundGate (round_key identity), Exclusive)]"

text \<open>The normative lock order: by kind, then by key.\<close>

fun lock_tuple :: "lock_name \<Rightarrow> nat \<times> bytes \<times> u8 \<times> bytes \<times> u32 \<times> u8 \<times> bytes" where
  "lock_tuple (AccountGate w) = (0, w, 0, [], 0, 0, [])"
| "lock_tuple (RoundGate (RoundOperationKey w n r)) = (1, w, n, r, 0, 0, [])"
| "lock_tuple (BundleLock (BundleOperationKey (RoundOperationKey w n r) b)) = (2, w, n, r, b, 0, [])"
| "lock_tuple (IdentityLock k) = (3, operation_tuple k)"

lemma lock_tuple_inj: "lock_tuple k = lock_tuple l \<longleftrightarrow> k = l"
  by (cases k rule: lock_tuple.cases; cases l rule: lock_tuple.cases) (auto simp: operation_tuple_inj)

instantiation lock_name :: linorder
begin

definition less_eq_lock_name :: "lock_name \<Rightarrow> lock_name \<Rightarrow> bool" where
  "less_eq_lock_name k l \<longleftrightarrow> lock_tuple k \<le> lock_tuple l"

definition less_lock_name :: "lock_name \<Rightarrow> lock_name \<Rightarrow> bool" where
  "less_lock_name k l \<longleftrightarrow> lock_tuple k < lock_tuple l"

instance
proof
  fix k l m :: lock_name
  show "k < l \<longleftrightarrow> k \<le> l \<and> \<not> l \<le> k"
    by (simp add: less_eq_lock_name_def less_lock_name_def less_le_not_le)
  show "k \<le> k"
    by (simp add: less_eq_lock_name_def)
  show "k \<le> m" if "k \<le> l" "l \<le> m"
    using that by (auto simp: less_eq_lock_name_def)
  show "k = l" if "k \<le> l" "l \<le> k"
    using that by (simp add: less_eq_lock_name_def lock_tuple_inj order_antisym_conv)
  show "k \<le> l \<or> l \<le> k"
    by (auto simp: less_eq_lock_name_def)
qed

end

definition ordered_plan :: "lock_plan \<Rightarrow> bool" where
  "ordered_plan plan \<longleftrightarrow> sorted_wrt (<) (map fst plan)"

lemma strictly_sorted_remdups_adj:
  "sorted xs \<Longrightarrow> sorted_wrt (<) (remdups_adj xs)" for xs :: "'a::linorder list"
proof (induction xs rule: remdups_adj.induct)
  case (3 x y xs)
  then show ?case
    by (cases "x = y") (auto simp: order.strict_iff_order)
qed auto

lemma lock_name_less [simp]:
  "AccountGate w < RoundGate r" "AccountGate w < BundleLock b" "AccountGate w < IdentityLock k"
  "RoundGate r < BundleLock b" "RoundGate r < IdentityLock k" "BundleLock b < IdentityLock k"
  "IdentityLock k < IdentityLock k' \<longleftrightarrow> k < k'"
  by (cases r rule: RoundOperationKey.exhaust; cases b rule: BundleOperationKey.exhaust;
      cases "bk_round b" rule: RoundOperationKey.exhaust;
      simp add: less_lock_name_def less_SubmissionOperationKey_def)+

inductive entry_plan :: "lock_plan \<Rightarrow> bool \<Rightarrow> bool" where
  entry_acquire: "entry_plan (acquire_plan operation ids) True"
| entry_account_exclusive: "entry_plan (account_exclusive_plan wallet) False"
| entry_delegation_setup: "entry_plan (delegation_setup_plan identity) False"
| entry_round_exclusive: "entry_plan (round_exclusive_plan identity) False"

inductive_cases entry_planE: "entry_plan plan waits"

lemma entry_plan_ordered: "entry_plan plan waits \<Longrightarrow> ordered_plan plan"
proof (erule entry_planE)
  fix operation ids
  let ?keys = "remdups_adj (sort (map operation_from_identity ids @ [operation_from_identity operation]))"
  assume "plan = acquire_plan operation ids"
  moreover have "sorted_wrt (<) ?keys"
    by (simp add: strictly_sorted_remdups_adj)
  ultimately show "ordered_plan plan"
    by (simp add: ordered_plan_def acquire_plan_def Let_def sorted_wrt_map)
qed (simp_all add: ordered_plan_def account_exclusive_plan_def delegation_setup_plan_def
    round_exclusive_plan_def)

section \<open>Waiting for locks\<close>

text \<open>
  An agent is one call of an entry point: its plan, how many of its locks it holds, and whether it
  waits for a lock that is taken (\<open>acquire\<close>) or reports \<open>Busy\<close> (the \<open>try_\<close> operations). A lock is
  granted when no other agent holds it in a conflicting mode. No entry point queues for an
  exclusive gate, so shared requests never wait behind a queued writer.
\<close>

record agent =
  plan :: lock_plan
  held :: nat
  waits :: bool

type_synonym lock_system = "nat \<rightharpoonup> agent"

definition held_locks :: "agent \<Rightarrow> (lock_name \<times> lock_mode) set" where
  "held_locks a = set (take (held a) (plan a))"

definition conflicts :: "lock_name \<times> lock_mode \<Rightarrow> lock_name \<times> lock_mode \<Rightarrow> bool" where
  "conflicts r s \<longleftrightarrow> fst r = fst s \<and> (snd r = Exclusive \<or> snd s = Exclusive)"

definition available :: "lock_system \<Rightarrow> nat \<Rightarrow> lock_name \<times> lock_mode \<Rightarrow> bool" where
  "available sys i r \<longleftrightarrow>
     (\<forall>j b s. sys j = Some b \<longrightarrow> j \<noteq> i \<longrightarrow> s \<in> held_locks b \<longrightarrow> \<not> conflicts r s)"

text \<open>Steps the agents take on their own: being granted a lock, reporting busy, finishing.\<close>

inductive lock_progress :: "lock_system \<Rightarrow> lock_system \<Rightarrow> bool" where
  take_lock: "sys i = Some a \<Longrightarrow> held a < length (plan a) \<Longrightarrow> available sys i (plan a ! held a) \<Longrightarrow>
    lock_progress sys (sys(i \<mapsto> a\<lparr>held := held a + 1\<rparr>))"
| report_busy: "sys i = Some a \<Longrightarrow> \<not> waits a \<Longrightarrow> held a < length (plan a) \<Longrightarrow>
    \<not> available sys i (plan a ! held a) \<Longrightarrow> lock_progress sys (sys(i := None))"
| finish_work: "sys i = Some a \<Longrightarrow> held a = length (plan a) \<Longrightarrow> lock_progress sys (sys(i := None))"

inductive lock_step :: "lock_system \<Rightarrow> lock_system \<Rightarrow> bool" where
  enter: "sys i = None \<Longrightarrow> entry_plan p w \<Longrightarrow>
    lock_step sys (sys(i \<mapsto> \<lparr>plan = p, held = 0, waits = w\<rparr>))"
| progress: "lock_progress sys sys' \<Longrightarrow> lock_step sys sys'"
| cancel: "sys i = Some a \<Longrightarrow> lock_step sys (sys(i := None))"

inductive lock_reachable :: "lock_system \<Rightarrow> bool" where
  no_agents: "lock_reachable Map.empty"
| one_step: "lock_reachable sys \<Longrightarrow> lock_step sys sys' \<Longrightarrow> lock_reachable sys'"

definition lock_inv :: "lock_system \<Rightarrow> bool" where
  "lock_inv sys \<longleftrightarrow> finite (dom sys) \<and>
     (\<forall>i a. sys i = Some a \<longrightarrow> entry_plan (plan a) (waits a) \<and> held a \<le> length (plan a)) \<and>
     (\<forall>i j a b r s. sys i = Some a \<longrightarrow> sys j = Some b \<longrightarrow> i \<noteq> j \<longrightarrow>
        r \<in> held_locks a \<longrightarrow> s \<in> held_locks b \<longrightarrow> \<not> conflicts r s)"

lemma conflicts_sym: "conflicts r s \<longleftrightarrow> conflicts s r"
  by (auto simp: conflicts_def)

lemma held_locks_take:
  "held a < length (plan a) \<Longrightarrow>
   held_locks (a\<lparr>held := Suc (held a)\<rparr>) = insert (plan a ! held a) (held_locks a)"
  by (simp add: held_locks_def take_Suc_conv_app_nth)

lemma lock_inv_remove: "lock_inv sys \<Longrightarrow> lock_inv (sys(i := None))"
  by (auto simp: lock_inv_def split: if_splits)

lemma lock_inv_take:
  assumes "lock_inv sys" and "sys i = Some a" and "held a < length (plan a)"
    and "available sys i (plan a ! held a)"
  shows "lock_inv (sys(i \<mapsto> a\<lparr>held := held a + 1\<rparr>))"
proof -
  have "\<not> conflicts (plan a ! held a) s \<and> \<not> conflicts s (plan a ! held a)"
    if "sys j = Some b" "j \<noteq> i" "s \<in> held_locks b" for j b s
    using that assms(4) conflicts_sym unfolding available_def by blast
  with assms(1-3) show ?thesis
    unfolding lock_inv_def by (auto simp: held_locks_take [OF assms(3)] split: if_splits)
qed

lemma lock_inv_enter:
  assumes "lock_inv sys" and "entry_plan p w"
  shows "lock_inv (sys(i \<mapsto> \<lparr>plan = p, held = 0, waits = w\<rparr>))"
  using assms unfolding lock_inv_def by (auto simp: held_locks_def split: if_splits)

lemma lock_reachable_inv: "lock_reachable sys \<Longrightarrow> lock_inv sys"
proof (induction rule: lock_reachable.induct)
  case no_agents
  then show ?case by (simp add: lock_inv_def)
next
  case (one_step sys sys')
  from one_step(2,3) show ?case
    by (auto elim!: lock_step.cases lock_progress.cases
        intro: lock_inv_remove lock_inv_take lock_inv_enter)
qed

lemma no_conflict:
  "lock_inv sys \<Longrightarrow> sys i = Some a \<Longrightarrow> sys j = Some b \<Longrightarrow> i \<noteq> j \<Longrightarrow>
   r \<in> held_locks a \<Longrightarrow> s \<in> held_locks b \<Longrightarrow> \<not> conflicts r s"
  unfolding lock_inv_def by blast

lemmas plan_defs = acquire_plan_def delegation_setup_plan_def round_exclusive_plan_def
  account_exclusive_plan_def Let_def

text \<open>
  C21: Exclusion. In every reachable state, a submission operation that holds all its locks is alone
  in its bundle: no other submission and no delegation setup of the same bundle holds its locks.
  Nor does anyone hold the round or the account exclusively at the same time.
\<close>

theorem lease_exclusion:
  assumes "lock_reachable sys"
    and "sys i = Some a" and "plan a = acquire_plan operation ids" and "held a = length (plan a)"
    and "sys j = Some b" and "i \<noteq> j" and "held b = length (plan b)"
  shows "(plan b = acquire_plan operation' ids' \<or> plan b = delegation_setup_plan operation' \<longrightarrow>
        bundle_from_identity operation' \<noteq> bundle_from_identity operation) \<and>
      (plan b = round_exclusive_plan operation' \<longrightarrow> round_key operation' \<noteq> round_key operation) \<and>
      (plan b = account_exclusive_plan w \<longrightarrow> w \<noteq> wallet_id operation)"
proof -
  have apart: "\<not> conflicts r s" if "r \<in> set (plan a)" "s \<in> set (plan b)" for r s
    using no_conflict [OF lock_reachable_inv [OF assms(1)] assms(2,5,6), of r s] that assms(4,7)
    by (simp add: held_locks_def)
  have "(BundleLock (bundle_from_identity operation), Exclusive) \<in> set (plan a)"
    "(RoundGate (round_key operation), Shared) \<in> set (plan a)"
    "(AccountGate (wallet_id operation), Shared) \<in> set (plan a)"
    by (simp_all add: assms(3) plan_defs)
  note this [THEN apart]
  from this(1) [of "(BundleLock (bundle_from_identity operation'), Exclusive)"]
    this(2) [of "(RoundGate (round_key operation'), Exclusive)"]
    this(3) [of "(AccountGate w, Exclusive)"]
  show ?thesis
    by (auto simp: plan_defs conflicts_def)
qed

lemma ordered_plan_next:
  assumes "ordered_plan p" and "r \<in> set (take n p)" and "n < length p"
  shows "fst r < fst (p ! n)"
proof -
  obtain k where "k < n" "r = p ! k"
    using assms(2) by (auto simp: in_set_conv_nth)
  with assms show ?thesis
    by (auto simp: ordered_plan_def sorted_wrt_map sorted_wrt_iff_nth_less)
qed

text \<open>
  Among the agents that still want a lock, the one whose next lock is greatest in the lock order
  is not blocked by a waiting agent: the holder of that lock wants nothing greater.
\<close>

lemma some_agent_progresses:
  assumes inv: "lock_inv sys" and "sys i = Some a"
  shows "\<exists>sys'. lock_progress sys sys'"
proof (cases "\<exists>j b. sys j = Some b \<and> held b = length (plan b)")
  case True
  then show ?thesis using finish_work by blast
next
  case False
  have unfinished: "held b < length (plan b)" "ordered_plan (plan b)" if "sys j = Some b" for j b
    using False inv that entry_plan_ordered unfolding lock_inv_def by (meson le_neq_implies_less)+
  define wanted where "wanted j = fst (plan (the (sys j)) ! held (the (sys j)))" for j
  have "finite (dom sys)" "dom sys \<noteq> {}"
    using inv assms(2) by (auto simp: lock_inv_def)
  then have "Max (wanted ` dom sys) \<in> wanted ` dom sys"
    "\<And>k. k \<in> dom sys \<Longrightarrow> wanted k \<le> Max (wanted ` dom sys)"
    by auto
  then obtain j b where j: "sys j = Some b" and top: "\<And>k. k \<in> dom sys \<Longrightarrow> wanted k \<le> wanted j"
    by force
  have "available sys j (plan b ! held b)"
    unfolding available_def
  proof (intro allI impI notI)
    fix k c s
    assume k: "sys k = Some c" and "s \<in> held_locks c" and "conflicts (plan b ! held b) s"
    then have "fst s < wanted k" and "fst s = wanted j"
      using unfinished [OF k] ordered_plan_next [of "plan c" s "held c"] j
      by (simp_all add: held_locks_def conflicts_def wanted_def)
    moreover have "wanted k \<le> wanted j"
      using top k by blast
    ultimately show False by simp
  qed
  then show ?thesis
    using take_lock [of sys j b] j unfinished(1) [OF j] by blast
qed

text \<open>
  C27: No deadlock. In every reachable state with at least one agent, some agent can take a step on
  its own: it is granted its next lock, reports busy, or finishes. Sorted acquisition means no
  cycle of waiting submissions can form, whatever identities they lock.
\<close>

theorem acquisition_deadlock_free:
  assumes "lock_reachable sys" and "sys \<noteq> Map.empty"
  shows "\<exists>sys'. lock_progress sys sys'"
proof -
  obtain i a where "sys i = Some a"
    using assms(2) by fastforce
  with some_agent_progresses lock_reachable_inv [OF assms(1)] show ?thesis
    by blast
qed

text \<open>An agent that meets no conflict reaches its complete lease.\<close>

lemma lease_reachable:
  assumes "lock_reachable sys" and "sys i = None" and "entry_plan p w"
    and "\<forall>r \<in> set p. available sys i r"
  shows "n \<le> length p \<Longrightarrow> lock_reachable (sys(i \<mapsto> \<lparr>plan = p, held = n, waits = w\<rparr>))"
proof (induction n)
  case 0
  show ?case
    by (rule one_step [OF assms(1) enter]) (use assms(2,3) in simp_all)
next
  case (Suc n)
  let ?sys = "sys(i \<mapsto> \<lparr>plan = p, held = n, waits = w\<rparr>)"
  have "available ?sys i (p ! n)"
    using Suc.prems assms(4) by (auto simp: available_def)
  then have "lock_progress ?sys (sys(i \<mapsto> \<lparr>plan = p, held = Suc n, waits = w\<rparr>))"
    using take_lock [of ?sys i "\<lparr>plan = p, held = n, waits = w\<rparr>"] Suc.prems by simp
  moreover have "lock_reachable ?sys"
    using Suc.IH Suc.prems by (meson Suc_leD)
  ultimately show ?case
    using one_step progress by blast
qed

lemma lone_lease_reachable:
  "lock_reachable [0 \<mapsto> \<lparr>plan = acquire_plan i [], held = length (acquire_plan i []), waits = True\<rparr>]"
  by (rule lease_reachable [OF no_agents _ entry_acquire, simplified]) (auto simp: available_def)

theorem acquisition_deadlock_free_witness:
  "\<exists>sys sys'. lock_reachable sys \<and>
     (\<exists>i. sys 0 = Some \<lparr>plan = acquire_plan i [], held = length (acquire_plan i []), waits = True\<rparr>) \<and>
     lock_progress sys sys'"
proof -
  obtain i :: ChainSubmissionIdentity and sys :: lock_system where
    sys: "sys = [0 \<mapsto> \<lparr>plan = acquire_plan i [], held = length (acquire_plan i []), waits = True\<rparr>]"
    by blast
  then have "lock_reachable sys"
    using lone_lease_reachable by simp
  moreover from acquisition_deadlock_free [OF this] sys have "\<exists>sys'. lock_progress sys sys'"
    by simp
  moreover have "sys 0 =
      Some \<lparr>plan = acquire_plan i [], held = length (acquire_plan i []), waits = True\<rparr>"
    by (simp add: sys)
  ultimately show ?thesis
    by blast
qed

theorem lease_exclusion_witness:
  "let i = \<lparr>wallet_id = [1], network = Mainnet, vote_round_id = [2], bundle_index = 0,
            target = TargetDelegation\<rparr>;
       j = i\<lparr>bundle_index := 1\<rparr>
   in \<exists>sys a b. lock_reachable sys \<and> sys 0 = Some a \<and> sys 1 = Some b \<and>
        plan a = acquire_plan i [] \<and> held a = length (plan a) \<and>
        plan b = delegation_setup_plan j \<and> held b = length (plan b) \<and>
        bundle_from_identity j \<noteq> bundle_from_identity i"
proof -
  let ?i = "\<lparr>wallet_id = [1], network = Mainnet, vote_round_id = [2], bundle_index = 0,
            target = TargetDelegation\<rparr>"
  let ?j = "?i\<lparr>bundle_index := 1\<rparr>"
  let ?a = "\<lparr>plan = acquire_plan ?i [], held = length (acquire_plan ?i []), waits = True\<rparr>"
  let ?b = "\<lparr>plan = delegation_setup_plan ?j, held = length (delegation_setup_plan ?j),
             waits = False\<rparr>"
  have "\<forall>r \<in> set (delegation_setup_plan ?j). available [0 \<mapsto> ?a] 1 r"
    by (auto simp: available_def held_locks_def conflicts_def plan_defs bundle_from_identity_def
        round_key_def)
  then have r: "lock_reachable [0 \<mapsto> ?a, 1 \<mapsto> ?b]"
    using lease_reachable [OF lone_lease_reachable [of ?i] _ entry_delegation_setup [of ?j], of 1]
    by simp
  from lease_exclusion [OF r, of 0 ?a ?i "[]" 1 ?b ?j] have
    "bundle_from_identity ?j \<noteq> bundle_from_identity ?i"
    by simp
  with r show ?thesis
    unfolding Let_def by (intro exI [of _ "[0 \<mapsto> ?a, 1 \<mapsto> ?b]"] exI [of _ ?a] exI [of _ ?b]) simp
qed

end
