(* ===== verification/Voting_Text.thy ===== *)
theory Voting_Text
  imports Submission_Result
begin

text \<open>
  The parts of the Rust standard library's text handling the sources use: UTF-8 bytes of a string,
  \<open>str::trim\<close>, \<open>str::split\<close> on one character, \<open>is_ascii\<close>, and \<open>str::parse\<close> for \<open>u64\<close>, with the
  decimal rendering it inverts.
\<close>

text \<open>The encoders and decoders of the \<open>hex\<close> and \<open>base64\<close> crates.\<close>

record text_codecs =
  hex_encode :: "bytes \<Rightarrow> rust_str"
  hex_decode :: "rust_str \<Rightarrow> bytes option"
  base64_encode :: "bytes \<Rightarrow> rust_str"
  base64_decode :: "rust_str \<Rightarrow> bytes option"

definition utf8_char :: "nat \<Rightarrow> bytes" where
  "utf8_char c =
     (if c < 0x80 then [word_of_nat c]
      else if c < 0x800 then [word_of_nat (0xC0 + c div 64), word_of_nat (0x80 + c mod 64)]
      else if c < 0x10000 then
        [word_of_nat (0xE0 + c div 4096), word_of_nat (0x80 + c div 64 mod 64),
         word_of_nat (0x80 + c mod 64)]
      else
        [word_of_nat (0xF0 + c div 262144), word_of_nat (0x80 + c div 4096 mod 64),
         word_of_nat (0x80 + c div 64 mod 64), word_of_nat (0x80 + c mod 64)])"

definition as_bytes :: "rust_str \<Rightarrow> bytes" where
  "as_bytes s = concat (map utf8_char s)"

definition is_ascii :: "rust_str \<Rightarrow> bool" where
  "is_ascii s = list_all (\<lambda>c. c < 128) s"

definition is_whitespace :: "nat \<Rightarrow> bool" where
  "is_whitespace c \<longleftrightarrow>
     (9 \<le> c \<and> c \<le> 13) \<or> c = 32 \<or> c = 0x85 \<or> c = 0xA0 \<or> c = 0x1680 \<or>
     (0x2000 \<le> c \<and> c \<le> 0x200A) \<or> c = 0x2028 \<or> c = 0x2029 \<or> c = 0x202F \<or> c = 0x205F \<or>
     c = 0x3000"

definition trim :: "rust_str \<Rightarrow> rust_str" where
  "trim s = rev (dropWhile is_whitespace (rev (dropWhile is_whitespace s)))"

fun split_on :: "nat \<Rightarrow> rust_str \<Rightarrow> rust_str list" where
  "split_on sep [] = [[]]"
| "split_on sep (c # cs) =
     (if c = sep then [] # split_on sep cs
      else case split_on sep cs of piece # pieces \<Rightarrow> (c # piece) # pieces | [] \<Rightarrow> [[c]])"

definition is_digit :: "nat \<Rightarrow> bool" where
  "is_digit c \<longleftrightarrow> 48 \<le> c \<and> c \<le> 57"

definition digits_value :: "rust_str \<Rightarrow> nat" where
  "digits_value ds = foldl (\<lambda>acc d. acc * 10 + (d - 48)) 0 ds"

definition parse_u64 :: "rust_str \<Rightarrow> u64 option" where
  "parse_u64 s =
     (case s of
        [] \<Rightarrow> None
      | c # cs \<Rightarrow>
          let ds = (if c = 43 \<and> cs \<noteq> [] then cs else s)
          in if list_all is_digit ds \<and> digits_value ds < 2 ^ 64
             then Some (word_of_nat (digits_value ds)) else None)"

text \<open>The decimal rendering of an unsigned integer.\<close>

fun decimal :: "nat \<Rightarrow> rust_str" where
  "decimal n = (if n < 10 then [48 + n] else decimal (n div 10) @ [48 + n mod 10])"

declare decimal.simps [simp del]

fun join :: "nat \<Rightarrow> rust_str list \<Rightarrow> rust_str" where
  "join sep [] = []"
| "join sep [s] = s"
| "join sep (s # t # ss) = s @ sep # join sep (t # ss)"

lemma split_on_nonempty [simp]: "split_on sep s \<noteq> []"
  by (induction s) (auto split: list.splits)

lemma split_on_prefix:
  "sep \<notin> set s \<Longrightarrow> split_on sep (s @ sep # t) = s # split_on sep t"
  by (induction s) auto

lemma split_on_single: "sep \<notin> set s \<Longrightarrow> split_on sep s = [s]"
  by (induction s) auto

lemma split_on_join:
  "ss \<noteq> [] \<Longrightarrow> \<forall>s \<in> set ss. sep \<notin> set s \<Longrightarrow> split_on sep (join sep ss) = ss"
  by (induction sep ss rule: join.induct) (auto simp: split_on_prefix split_on_single)

lemma trim_no_whitespace: "\<forall>c \<in> set s. \<not> is_whitespace c \<Longrightarrow> trim s = s"
proof -
  assume s: "\<forall>c \<in> set s. \<not> is_whitespace c"
  then have "dropWhile is_whitespace s = s" "dropWhile is_whitespace (rev s) = rev s"
    by (cases s; simp; fail) (use s in \<open>cases "rev s"; force\<close>)
  then show ?thesis by (simp add: trim_def)
qed

lemma decimal_digits: "c \<in> set (decimal n) \<Longrightarrow> is_digit c"
proof (induction n rule: decimal.induct)
  case (1 n)
  then show ?case
    by (cases "n < 10") (auto simp: decimal.simps [of n] is_digit_def)
qed

lemma decimal_nonempty [simp]: "decimal n \<noteq> []" "[] \<noteq> decimal n"
  by (subst decimal.simps, simp)+

lemma digits_value_snoc: "digits_value (ds @ [d]) = digits_value ds * 10 + (d - 48)"
  by (simp add: digits_value_def)

lemma digits_value_decimal: "digits_value (decimal n) = n"
proof (induction n rule: decimal.induct)
  case (1 n)
  then show ?case
    by (cases "n < 10") (auto simp: decimal.simps [of n] digits_value_snoc, auto simp: digits_value_def)
qed

lemma digit_not_whitespace: "is_digit c \<Longrightarrow> \<not> is_whitespace c"
  by (auto simp: is_digit_def is_whitespace_def)

lemma trim_decimal [simp]: "trim (decimal n) = decimal n"
  by (rule trim_no_whitespace) (auto dest: decimal_digits digit_not_whitespace)

lemma comma_not_in_decimal [simp]: "44 \<notin> set (decimal n)"
  by (auto dest: decimal_digits simp: is_digit_def)

lemma parse_u64_decimal: "parse_u64 (decimal (unat v)) = Some v"
proof -
  obtain c cs where c: "decimal (unat v) = c # cs"
    by (cases "decimal (unat v)") auto
  then have "is_digit c"
    using decimal_digits [of c "unat v"] by simp
  then have "c \<noteq> 43"
    by (auto simp: is_digit_def)
  moreover have "list_all is_digit (c # cs)"
    unfolding c [symmetric] by (simp add: list_all_iff decimal_digits)
  moreover have "digits_value (c # cs) = unat v"
    unfolding c [symmetric] by (rule digits_value_decimal)
  moreover have "unat v < 2 ^ 64"
    using unsigned_less [of v] by simp
  ultimately show ?thesis
    by (simp add: c parse_u64_def Let_def)
qed

end
