(* ===== verification/Submission_Generation.thy ===== *)
theory Submission_Generation
  imports Submission_Identity Voting_Text
begin

text \<open>
  What the lifecycle knows of a semantic generation
  (\<open>zcash_voting/src/chain_submission/generation.rs\<close>, the request bodies of \<open>wire.rs\<close> and the
  error type of \<open>types.rs\<close>): the tree leaves it must produce, the closed request it dispatches,
  and the ordered proposals of a batch. Deriving a generation from the stored round is a
  parameter of the store.
\<close>

section \<open>Errors of the voting library\<close>

text \<open>
  \<open>VotingPanicked\<close> marks the places where the code panics instead of returning an error.
  Messages that quote an offending input value are modelled without the quotation.
\<close>

datatype DelegationSetupField =
    PaddedNoteSecrets
  | PcztSighash
  | Tx1Effects
  | DelegationPczt

fun setup_field_column_name :: "DelegationSetupField \<Rightarrow> rust_str" where
  "setup_field_column_name PaddedNoteSecrets = lit ''padded_note_secrets''"
| "setup_field_column_name PcztSighash = lit ''pczt_sighash''"
| "setup_field_column_name Tx1Effects = lit ''tx1_effects''"
| "setup_field_column_name DelegationPczt = lit ''delegation_pczt''"

datatype VotingError =
    VotingDelegationPcztUnavailable rust_str u32
  | VotingInvalidInput rust_str
  | VotingKeystoneSignatureConflict u32
  | VotingProofFailed rust_str
  | VotingBusy rust_str
  | VotingStorage rust_str
  | VotingInternal rust_str
  | VotingInsufficientEligibility u64 u64 "u64 option" u32 u32
  | VotingNoSpendableNotes u64
  | VotingSetupAlreadyPersisted rust_str u32 DelegationSetupField
  | VotingDbBusy rust_str
  | VotingPirUnavailable "rust_str option" "nat option" bool rust_str
  | VotingDelegationTargetMismatch u32 bool bool
  | VotingDelegationAlreadyBroadcast u32 rust_str
  | VotingPanicked rust_str

datatype VotingErrorKind =
    KindInvalidInput
  | KindKeystoneSignatureConflict
  | KindProofFailed
  | KindBusy
  | KindStorage
  | KindInternal
  | KindInsufficientEligibility
  | KindNoSpendableNotes
  | KindSetupAlreadyPersisted
  | KindDelegationPcztUnavailable
  | KindDbBusy
  | KindPirUnavailable
  | KindDelegationTargetMismatch
  | KindDelegationAlreadyBroadcast

definition insufficient_eligibility_message :: "u64 \<Rightarrow> u64 \<Rightarrow> u32 \<Rightarrow> u64 option \<Rightarrow> rust_str" where
  "insufficient_eligibility_message required_weight selected_weight selected_notes snapshot_height =
     lit ''minimum voting eligibility requires at least one eligible voting bundle with '' @
     decimal (unat required_weight) @ lit '' zatoshi voting weight; selected '' @
     decimal (unat selected_notes) @ lit '' distinct notes across eligible bundles with '' @
     decimal (unat selected_weight) @ lit '' zatoshi eligible bundle weight'' @
     (case snapshot_height of
        None \<Rightarrow> []
      | Some height \<Rightarrow> lit '' at snapshot height '' @ decimal (unat height))"

definition pir_endpoint_suffix :: "rust_str option \<Rightarrow> rust_str" where
  "pir_endpoint_suffix endpoint = (case endpoint of None \<Rightarrow> [] | Some e \<Rightarrow> lit '' at '' @ e)"

definition bool_text :: "bool \<Rightarrow> rust_str" where
  "bool_text b = (if b then lit ''true'' else lit ''false'')"

fun voting_error_text :: "VotingError \<Rightarrow> rust_str" where
  "voting_error_text (VotingDelegationPcztUnavailable round_id bundle) =
     lit ''delegation for round='' @ round_id @ lit '', bundle='' @ decimal (unat bundle) @
     lit '' has no persisted PCZT for a Keystone signing request''"
| "voting_error_text (VotingInvalidInput m) = lit ''Invalid input: '' @ m"
| "voting_error_text (VotingKeystoneSignatureConflict bundle) =
     lit ''Keystone signature conflict for bundle '' @ decimal (unat bundle)"
| "voting_error_text (VotingProofFailed m) = lit ''Proof generation failed: '' @ m"
| "voting_error_text (VotingBusy m) = lit ''Voting state is busy: '' @ m"
| "voting_error_text (VotingStorage m) = lit ''Storage error: '' @ m"
| "voting_error_text (VotingInternal m) = lit ''Internal error: '' @ m"
| "voting_error_text (VotingInsufficientEligibility required selected height slots notes) =
     insufficient_eligibility_message required selected notes height"
| "voting_error_text (VotingNoSpendableNotes height) =
     lit ''no spendable voting notes at snapshot height '' @ decimal (unat height)"
| "voting_error_text (VotingSetupAlreadyPersisted round_id bundle field) =
     lit ''refusing to overwrite '' @ setup_field_column_name field @ lit '' for round='' @ round_id @
     lit '', bundle='' @ decimal (unat bundle)"
| "voting_error_text (VotingDbBusy m) = lit ''Voting database is busy: '' @ m"
| "voting_error_text (VotingPirUnavailable endpoint http_status retryable m) =
     lit ''PIR unavailable'' @ pir_endpoint_suffix endpoint @ lit '': '' @ m"
| "voting_error_text (VotingDelegationTargetMismatch bundle van_matches commitment_matches) =
     lit ''bundle '' @ decimal (unat bundle) @ [39] @
     lit ''s stored delegation target does not reproduce from this voting hotkey (van_matches='' @
     bool_text van_matches @ lit '', commitment_matches='' @ bool_text commitment_matches @
     lit ''); if the bundle was never broadcast, re-run delegation preparation to rebuild it''"
| "voting_error_text (VotingDelegationAlreadyBroadcast bundle shown) =
     lit ''delegation for bundle '' @ decimal (unat bundle) @ lit '' may already be on chain ('' @
     shown @ lit ''), so its recovery state was kept''"
| "voting_error_text (VotingPanicked m) = m"

text \<open>A panic has no kind: the caller never sees it as an error value.\<close>

fun voting_error_kind :: "VotingError \<Rightarrow> VotingErrorKind option" where
  "voting_error_kind (VotingInvalidInput m) = Some KindInvalidInput"
| "voting_error_kind (VotingKeystoneSignatureConflict b) = Some KindKeystoneSignatureConflict"
| "voting_error_kind (VotingProofFailed m) = Some KindProofFailed"
| "voting_error_kind (VotingBusy m) = Some KindBusy"
| "voting_error_kind (VotingStorage m) = Some KindStorage"
| "voting_error_kind (VotingInternal m) = Some KindInternal"
| "voting_error_kind (VotingInsufficientEligibility r s h n d) = Some KindInsufficientEligibility"
| "voting_error_kind (VotingNoSpendableNotes h) = Some KindNoSpendableNotes"
| "voting_error_kind (VotingSetupAlreadyPersisted r b field) = Some KindSetupAlreadyPersisted"
| "voting_error_kind (VotingDelegationPcztUnavailable r b) = Some KindDelegationPcztUnavailable"
| "voting_error_kind (VotingDbBusy m) = Some KindDbBusy"
| "voting_error_kind (VotingPirUnavailable e s r m) = Some KindPirUnavailable"
| "voting_error_kind (VotingDelegationTargetMismatch b v c) = Some KindDelegationTargetMismatch"
| "voting_error_kind (VotingDelegationAlreadyBroadcast b e) = Some KindDelegationAlreadyBroadcast"
| "voting_error_kind (VotingPanicked m) = None"

section \<open>Tree layout\<close>

type_synonym leaf = bytes

datatype ExpectedTreeLayout =
    LayoutDelegation leaf
  | LayoutVote leaf leaf
  | LayoutVoteBatch leaf "leaf list"

fun layout_leaves :: "ExpectedTreeLayout \<Rightarrow> leaf list" where
  "layout_leaves (LayoutDelegation delegation_van) = [delegation_van]"
| "layout_leaves (LayoutVote successor_van vote_commitment) = [successor_van, vote_commitment]"
| "layout_leaves (LayoutVoteBatch final_successor_van vote_commitments) =
     final_successor_van # vote_commitments"

section \<open>Request bodies\<close>

record DelegationSubmissionWire =
  wire_rk :: rust_str
  wire_spend_auth_sig :: rust_str
  wire_tx1_effects :: rust_str
  wire_nf_signed :: rust_str
  wire_cmx_new :: rust_str
  wire_gov_comm :: rust_str
  wire_gov_nullifiers :: "rust_str list"
  wire_delegation_proof :: rust_str
  wire_delegation_round_id :: rust_str

record VoteCommitmentWire =
  wire_van_nullifier :: rust_str
  wire_vote_authority_note_new :: rust_str
  wire_vote_commitment :: rust_str
  wire_proposal_id :: u32
  wire_vote_proof :: rust_str
  wire_vote_round_id :: rust_str
  wire_anchor_height :: u32
  wire_r_vpk :: rust_str
  wire_vote_auth_sig :: rust_str

record VoteCommitmentBatchWire =
  wire_votes :: "VoteCommitmentWire list"

record DelegateAndVoteBatchWire =
  wire_delegation :: DelegationSubmissionWire
  wire_batch :: VoteCommitmentBatchWire

datatype ChainSubmissionRequest =
    RequestDelegation DelegationSubmissionWire
  | RequestImportedDelegation CandidateTransactionHash
  | RequestVote VoteCommitmentWire
  | RequestVoteBatch VoteCommitmentBatchWire
  | RequestDelegateAndVoteBatch DelegateAndVoteBatchWire

section \<open>Bound and derived generations\<close>

record BoundGeneration =
  bound_generation :: ChainSubmissionGeneration
  bound_expected_layout :: ExpectedTreeLayout
  bound_ordered_proposal_ids :: "u32 list"

record DerivedChainSubmission =
  derived_bound :: BoundGeneration
  derived_request :: ChainSubmissionRequest

definition derived_generation :: "DerivedChainSubmission \<Rightarrow> ChainSubmissionGeneration" where
  "derived_generation d = bound_generation (derived_bound d)"

definition expected_layout :: "DerivedChainSubmission \<Rightarrow> ExpectedTreeLayout" where
  "expected_layout d = bound_expected_layout (derived_bound d)"

definition ordered_proposal_ids :: "DerivedChainSubmission \<Rightarrow> u32 list" where
  "ordered_proposal_ids d = bound_ordered_proposal_ids (derived_bound d)"

definition imported_candidate :: "DerivedChainSubmission \<Rightarrow> CandidateTransactionHash option" where
  "imported_candidate d =
     (case derived_request d of RequestImportedDelegation candidate \<Rightarrow> Some candidate | _ \<Rightarrow> None)"

definition MAX_VOTE_BATCH_ACTIONS :: nat where
  "MAX_VOTE_BATCH_ACTIONS = unat MAX_PROPOSAL_ID"

lemma MAX_VOTE_BATCH_ACTIONS_value [simp]: "MAX_VOTE_BATCH_ACTIONS = 50"
  by (simp add: MAX_VOTE_BATCH_ACTIONS_def MAX_PROPOSAL_ID_def)

end
