(* ===== verification/Submission_Confirmation.thy ===== *)
theory Submission_Confirmation
  imports Submission_Generation Voting_Text
begin

text \<open>
  Validation of committed transaction events against a locked generation
  (\<open>zcash_voting/src/chain_submission/confirmation.rs\<close>): finding the one event of the round,
  reading its attributes, parsing positions, and building the validated confirmation. The
  lemmas show what an accepted confirmation proves of the events, and that well-formed events
  are accepted.
\<close>

section \<open>Events\<close>

record TxEventAttribute =
  attribute_key :: rust_str
  attribute_value :: rust_str

record TxEvent =
  event_type :: rust_str
  attributes :: "TxEventAttribute list"

definition ROUND_ID_ATTRIBUTES :: "rust_str list" where
  "ROUND_ID_ATTRIBUTES = [lit ''vote_round_id'', lit ''round_id'']"

definition round_id_matches :: "text_codecs \<Rightarrow> rust_str \<Rightarrow> rust_str \<Rightarrow> bool" where
  "round_id_matches codecs event_round_id expected_round_id \<longleftrightarrow>
     event_round_id = expected_round_id \<or>
     base64_encode codecs (as_bytes event_round_id) = expected_round_id"

definition round_values :: "TxEvent \<Rightarrow> rust_str list" where
  "round_values event =
     map attribute_value
       (filter (\<lambda>a. attribute_key a \<in> set ROUND_ID_ATTRIBUTES) (attributes event))"

text \<open>The loop over the events of one type, with the three variables it updates.\<close>

fun event_scan ::
  "text_codecs \<Rightarrow> rust_str \<Rightarrow> rust_str \<Rightarrow> TxEvent option \<Rightarrow> rust_str option \<Rightarrow> bool \<Rightarrow>
   TxEvent list \<Rightarrow> VotingError + TxEvent option \<times> rust_str option \<times> bool" where
  "event_scan codecs etype round matching wrong_round missing_round [] =
     Inr (matching, wrong_round, missing_round)"
| "event_scan codecs etype round matching wrong_round missing_round (event # events) =
     (if length (round_values event) > 1
      then Inl (VotingInvalidInput
             (etype @ lit '' event must contain exactly one round identity attribute''))
      else case round_values event of
          v # _ \<Rightarrow>
            if round_id_matches codecs v round then
              (if matching \<noteq> None
               then Inl (VotingInvalidInput
                      (lit ''ambiguous '' @ etype @ lit '' events for round '' @ round @
                       lit ''; expected one''))
               else event_scan codecs etype round (Some event) wrong_round missing_round events)
            else event_scan codecs etype round matching (Some v) missing_round events
        | [] \<Rightarrow> event_scan codecs etype round matching wrong_round True events)"

definition required_event_for_round ::
  "text_codecs \<Rightarrow> TxEvent list \<Rightarrow> rust_str \<Rightarrow> rust_str \<Rightarrow> VotingError + TxEvent" where
  "required_event_for_round codecs events etype round =
     and_then
       (event_scan codecs etype round None None False (filter (\<lambda>e. event_type e = etype) events))
       (\<lambda>(matching, wrong_round, missing_round).
          ok_or (VotingInvalidInput
            (case wrong_round of
               Some v \<Rightarrow> etype @ lit '' round mismatch: expected '' @ round @ lit '', got '' @ v
             | None \<Rightarrow>
                 if missing_round then etype @ lit '' event is missing its round identity''
                 else lit ''missing '' @ etype @ lit '' event for round '' @ round)) matching)"

definition required_attribute :: "TxEvent \<Rightarrow> rust_str \<Rightarrow> rust_str \<Rightarrow> VotingError + rust_str" where
  "required_attribute event etype key =
     (case map attribute_value (filter (\<lambda>a. attribute_key a = key) (attributes event)) of
        [v] \<Rightarrow> Inr v
      | [] \<Rightarrow> Inl (VotingInvalidInput
                (lit ''missing '' @ etype @ lit '' '' @ key @ lit '' in transaction events''))
      | _ \<Rightarrow> Inl (VotingInvalidInput
               (lit ''ambiguous '' @ etype @ lit '' '' @ key @
                lit '' attributes in transaction events; expected one'')))"

section \<open>Parsing\<close>

definition parse_compat_u64 :: "text_codecs \<Rightarrow> rust_str \<Rightarrow> rust_str \<Rightarrow> VotingError + u64" where
  "parse_compat_u64 codecs raw field =
     (let raw = trim raw in
      case parse_u64 raw of
        Some v \<Rightarrow> Inr v
      | None \<Rightarrow>
          let compat = (if \<not> is_ascii raw then parse_u64 (base64_encode codecs (as_bytes raw)) else None)
          in case compat of
               Some v \<Rightarrow> Inr v
             | None \<Rightarrow> Inl (VotingInvalidInput (field @ lit '' must be an unsigned 64-bit integer'')))"

fun collect_results :: "('e + 'a) list \<Rightarrow> 'e + 'a list" where
  "collect_results [] = Inr []"
| "collect_results (r # rs) =
     and_then r (\<lambda>x. and_then (collect_results rs) (\<lambda>xs. Inr (x # xs)))"

definition parse_csv ::
  "rust_str \<Rightarrow> rust_str \<Rightarrow> (rust_str \<Rightarrow> VotingError + 'a) \<Rightarrow> VotingError + 'a list" where
  "parse_csv raw field parse =
     (let values = map trim (split_on 44 raw) in
      if values = [] \<or> (\<exists>v \<in> set values. v = [])
      then Inl (VotingInvalidInput (field @ lit '' must be a nonempty comma-separated list''))
      else collect_results (map parse values))"

definition parse_csv_u64 :: "text_codecs \<Rightarrow> rust_str \<Rightarrow> VotingError + u64 list" where
  "parse_csv_u64 codecs raw =
     parse_csv raw (lit ''cast_vote_batch vote_commitment_leaf_indices'')
       (\<lambda>v. parse_compat_u64 codecs v (lit ''cast_vote_batch position''))"

definition parse_csv_u32 :: "text_codecs \<Rightarrow> rust_str \<Rightarrow> VotingError + u32 list" where
  "parse_csv_u32 codecs raw =
     parse_csv raw (lit ''cast_vote_batch proposal_ids'') (\<lambda>v.
       and_then (parse_compat_u64 codecs v (lit ''cast_vote_batch proposal id'')) (\<lambda>proposal_id.
         if unat proposal_id < 2 ^ 32 then Inr (ucast proposal_id)
         else Inl (VotingInvalidInput (lit ''cast_vote_batch proposal id does not fit u32''))))"

definition parse_canonical_hex32 :: "text_codecs \<Rightarrow> rust_str \<Rightarrow> rust_str \<Rightarrow> VotingError + bytes" where
  "parse_canonical_hex32 codecs raw field =
     (let err = VotingInvalidInput (field @ lit '' must be 32-byte canonical lowercase hex'') in
      if length raw \<noteq> 64 \<or> \<not> list_all lowercase_hex_char raw then Inl err
      else and_then (ok_or err (hex_decode codecs raw)) (\<lambda>decoded.
        if length decoded = 32 then Inr decoded else Inl err))"

definition parse_csv_strings :: "text_codecs \<Rightarrow> rust_str \<Rightarrow> VotingError + rust_str list" where
  "parse_csv_strings codecs raw =
     parse_csv raw (lit ''cast_vote_batch van_nullifiers'') (\<lambda>v.
       and_then (parse_canonical_hex32 codecs v (lit ''cast_vote_batch VAN nullifier'')) (\<lambda>_. Inr v))"

definition confirmation_error_text :: "ChainSubmissionConfirmationError \<Rightarrow> rust_str" where
  "confirmation_error_text e =
     lit (''chain tree positions must fit SQLite'' @ [CHR 0x27] @ ''s signed integer range'')"

definition confirmation_error :: "ChainSubmissionConfirmationError \<Rightarrow> VotingError" where
  "confirmation_error e = VotingInvalidInput (confirmation_error_text e)"

section \<open>Validation\<close>

text \<open>The nullifiers of a batch request, decoded from base64 and rendered as hexadecimal.\<close>

definition expected_nullifiers ::
  "text_codecs \<Rightarrow> VoteCommitmentWire list \<Rightarrow> VotingError + rust_str list" where
  "expected_nullifiers codecs votes =
     collect_results (map (\<lambda>vote.
       and_then
         (ok_or (VotingInternal (lit ''derived batch nullifier is not canonical base64''))
            (base64_decode codecs (wire_van_nullifier vote)))
         (\<lambda>b. if length b \<noteq> 32
              then Inl (VotingInternal (lit ''derived batch nullifier has invalid length''))
              else Inr (hex_encode codecs b))) votes)"

definition adjacent_positions :: "u64 \<Rightarrow> u64 list \<Rightarrow> bool" where
  "adjacent_positions final_van positions \<longleftrightarrow>
     list_all (\<lambda>(index, position).
       case checked_add final_van (word_of_nat index + 1) of
         None \<Rightarrow> False | Some expected \<Rightarrow> position = expected)
     (enumerate 0 positions)"

fun check_nullifier_count ::
  "text_codecs \<Rightarrow> TxEvent \<Rightarrow> rust_str \<Rightarrow> ChainSubmissionRequest \<Rightarrow> VotingError + unit" where
  "check_nullifier_count codecs event etype (RequestDelegateAndVoteBatch combined) =
     and_then (required_attribute event etype (lit ''nullifier_count'')) (\<lambda>raw.
     and_then (parse_compat_u64 codecs raw (lit ''combined delegation nullifier count'')) (\<lambda>nullifiers.
       if nullifiers \<noteq> word_of_nat (length (wire_gov_nullifiers (wire_delegation combined)))
       then Inl (VotingInvalidInput
              (lit ''combined delegation nullifier count does not match the locked generation''))
       else Inr ()))"
| "check_nullifier_count codecs event etype _ = Inr ()"

fun batch_votes :: "ChainSubmissionRequest \<Rightarrow> VotingError + VoteCommitmentWire list" where
  "batch_votes (RequestVoteBatch batch) = Inr (wire_votes batch)"
| "batch_votes (RequestDelegateAndVoteBatch combined) = Inr (wire_votes (wire_batch combined))"
| "batch_votes _ = Inl (VotingPanicked (lit ''batch layout has batch request''))"

definition validate_batch_confirmation ::
  "text_codecs \<Rightarrow> DerivedChainSubmission \<Rightarrow> CandidateTransactionHash \<Rightarrow> TxEvent list \<Rightarrow>
   bytes \<Rightarrow> leaf list \<Rightarrow> VotingError + ValidatedChainSubmissionConfirmation" where
  "validate_batch_confirmation codecs derived tx_hash events ordered_batch_digest
     vote_commitments =
     (let identity = generation_identity (derived_generation derived);
          round_id = hex_encode codecs (vote_round_id identity);
          batch_event = (if is_combined (target identity) then lit ''delegate_and_cast_vote_batch''
                         else lit ''cast_vote_batch'')
      in
      and_then (required_event_for_round codecs events batch_event round_id) (\<lambda>event.
      and_then (check_nullifier_count codecs event batch_event (derived_request derived)) (\<lambda>_.
      and_then (required_attribute event batch_event (lit ''batch_digest'')) (\<lambda>raw_digest.
      and_then (parse_canonical_hex32 codecs raw_digest (lit ''cast_vote_batch batch_digest''))
        (\<lambda>event_digest.
      if event_digest \<noteq> ordered_batch_digest
      then Inl (VotingInvalidInput
             (lit ''cast_vote_batch digest does not match the locked generation''))
      else
      and_then (required_attribute event batch_event (lit ''batch_size'')) (\<lambda>raw_size.
      and_then (parse_compat_u64 codecs raw_size (lit ''cast_vote_batch batch_size'')) (\<lambda>size_value.
      let batch_size = unat size_value in
      if batch_size = 0 \<or> batch_size > MAX_VOTE_BATCH_ACTIONS \<or>
         batch_size \<noteq> length vote_commitments
      then Inl (VotingInvalidInput
             (lit ''cast_vote_batch size does not match the locked generation''))
      else
      and_then (required_attribute event batch_event (lit ''proposal_ids'')) (\<lambda>raw_ids.
      and_then (parse_csv_u32 codecs raw_ids) (\<lambda>proposal_ids.
      if proposal_ids \<noteq> ordered_proposal_ids derived
      then Inl (VotingInvalidInput
             (lit ''cast_vote_batch proposal order does not match the locked generation''))
      else
      and_then (batch_votes (derived_request derived)) (\<lambda>votes.
      and_then (expected_nullifiers codecs votes) (\<lambda>expected.
      and_then (required_attribute event batch_event (lit ''van_nullifiers'')) (\<lambda>raw_nullifiers.
      and_then (parse_csv_strings codecs raw_nullifiers) (\<lambda>event_nullifiers.
      if event_nullifiers \<noteq> expected
      then Inl (VotingInvalidInput
             (lit ''cast_vote_batch nullifier order does not match the locked generation''))
      else
      and_then (required_attribute event batch_event (lit ''final_van_leaf_index'')) (\<lambda>raw_van.
      and_then (parse_compat_u64 codecs raw_van (lit ''cast_vote_batch final VAN position''))
        (\<lambda>final_van.
      and_then (required_attribute event batch_event (lit ''vote_commitment_leaf_indices''))
        (\<lambda>raw_positions.
      and_then (parse_csv_u64 codecs raw_positions) (\<lambda>positions.
      if length positions \<noteq> batch_size \<or> \<not> adjacent_positions final_van positions
      then Inl (VotingInvalidInput
             (lit ''cast_vote_batch positions must be the complete adjacent action layout''))
      else map_err confirmation_error
             (confirmation_from_hash tx_hash final_van positions))))))))))))))))))"

definition validate_delegation_event ::
  "text_codecs \<Rightarrow> ChainSubmissionIdentity \<Rightarrow> CandidateTransactionHash \<Rightarrow> TxEvent list \<Rightarrow>
   VotingError + ValidatedChainSubmissionConfirmation" where
  "validate_delegation_event codecs identity tx_hash events =
     (let round_id = hex_encode codecs (vote_round_id identity);
          etype = lit ''delegate_vote''
      in
      and_then (required_event_for_round codecs events etype round_id) (\<lambda>event.
      and_then (required_attribute event etype (lit ''leaf_index'')) (\<lambda>raw.
      and_then (parse_compat_u64 codecs raw (lit ''delegate_vote leaf_index'')) (\<lambda>final_van.
        map_err confirmation_error (confirmation_from_hash tx_hash final_van [])))))"

definition validate_vote_event ::
  "text_codecs \<Rightarrow> ChainSubmissionIdentity \<Rightarrow> CandidateTransactionHash \<Rightarrow> TxEvent list \<Rightarrow>
   VotingError + ValidatedChainSubmissionConfirmation" where
  "validate_vote_event codecs identity tx_hash events =
     (let round_id = hex_encode codecs (vote_round_id identity);
          etype = lit ''cast_vote''
      in
      and_then (required_event_for_round codecs events etype round_id) (\<lambda>event.
      and_then (required_attribute event etype (lit ''leaf_index'')) (\<lambda>raw.
      case map trim (split_on 44 raw) of
        [raw_van, raw_commitment] \<Rightarrow>
          and_then (parse_compat_u64 codecs raw_van (lit ''cast_vote VAN position'')) (\<lambda>final_van.
          and_then (parse_compat_u64 codecs raw_commitment (lit ''cast_vote commitment position''))
            (\<lambda>vote_commitment.
            map_err confirmation_error
              (confirmation_from_hash tx_hash final_van [vote_commitment])))
      | _ \<Rightarrow> Inl (VotingInvalidInput
               (lit ''cast_vote leaf_index must contain VAN and vote-commitment positions'')))))"

definition validate_hash_confirmation ::
  "text_codecs \<Rightarrow> DerivedChainSubmission \<Rightarrow> CandidateTransactionHash \<Rightarrow> TxEvent list \<Rightarrow>
   VotingError + ValidatedChainSubmissionConfirmation" where
  "validate_hash_confirmation codecs derived tx_hash events =
     (let identity = generation_identity (derived_generation derived) in
      case (target identity, expected_layout derived) of
        (TargetDelegation, LayoutDelegation _) \<Rightarrow>
          validate_delegation_event codecs identity tx_hash events
      | (TargetVote _, LayoutVote _ _) \<Rightarrow>
          validate_vote_event codecs identity tx_hash events
      | (TargetVoteBatch ordered_batch_digest, LayoutVoteBatch _ vote_commitments) \<Rightarrow>
          validate_batch_confirmation codecs derived tx_hash events ordered_batch_digest
            vote_commitments
      | (TargetDelegateAndVoteBatch ordered_batch_digest, LayoutVoteBatch _ vote_commitments) \<Rightarrow>
          validate_batch_confirmation codecs derived tx_hash events ordered_batch_digest
            vote_commitments
      | _ \<Rightarrow> Inl (VotingInternal (lit ''chain submission identity and expected layout disagree'')))"

definition validate_imported_delegation_confirmation ::
  "text_codecs \<Rightarrow> BoundGeneration \<Rightarrow> CandidateTransactionHash \<Rightarrow> TxEvent list \<Rightarrow>
   VotingError + ValidatedChainSubmissionConfirmation" where
  "validate_imported_delegation_confirmation codecs bound tx_hash events =
     (let identity = generation_identity (bound_generation bound) in
      case (target identity, bound_expected_layout bound) of
        (TargetDelegation, LayoutDelegation _) \<Rightarrow>
          validate_delegation_event codecs identity tx_hash events
      | _ \<Rightarrow> Inl (VotingInvalidInput
               (lit ''imported delegation confirmation has an invalid generation layout'')))"

section \<open>The one event of the round\<close>

text \<open>Declaratively: the events of one type that carry exactly the expected round.\<close>

definition names_round :: "text_codecs \<Rightarrow> rust_str \<Rightarrow> TxEvent \<Rightarrow> bool" where
  "names_round codecs round e \<longleftrightarrow> (\<exists>v vs. round_values e = v # vs \<and> round_id_matches codecs v round)"

lemma event_scan_Inr:
  "event_scan codecs etype round m w miss events = Inr (m', w', miss') \<Longrightarrow>
     (\<forall>e \<in> set events. length (round_values e) \<le> 1) \<and>
     (case m of
        Some e \<Rightarrow> filter (names_round codecs round) events = [] \<and> m' = Some e
      | None \<Rightarrow> (case m' of None \<Rightarrow> filter (names_round codecs round) events = []
                | Some e \<Rightarrow> filter (names_round codecs round) events = [e]))"
proof (induction codecs etype round m w miss events rule: event_scan.induct)
  case (1 codecs etype round m w miss)
  then show ?case by (auto split: option.splits)
next
  case (2 codecs etype round m w miss e es)
  then show ?case
    by (auto simp: names_round_def split: if_splits list.splits option.splits)
qed

lemma event_scan_total:
  assumes "\<forall>e \<in> set events. length (round_values e) \<le> 1"
    and "length (filter (names_round codecs round) events) + (if m = None then 0 else 1) \<le> 1"
  shows "\<exists>r. event_scan codecs etype round m w miss events = Inr r"
  using assms
proof (induction codecs etype round m w miss events rule: event_scan.induct)
  case (2 codecs etype round m w miss e es)
  then show ?case
    by (cases "round_values e") (auto simp: names_round_def split: if_splits)
qed simp

lemma required_event_iff:
  "required_event_for_round codecs events etype round = Inr e \<longleftrightarrow>
     (\<forall>x \<in> set events. event_type x = etype \<longrightarrow> length (round_values x) \<le> 1) \<and>
     filter (\<lambda>x. event_type x = etype \<and> names_round codecs round x) events = [e]"
  (is "?lhs \<longleftrightarrow> ?rhs")
proof
  let ?typed = "filter (\<lambda>x. event_type x = etype) events"
  have filt: "filter (names_round codecs round) ?typed =
      filter (\<lambda>x. event_type x = etype \<and> names_round codecs round x) events"
    by (simp add: conj_commute)
  {
    assume ?lhs
    then obtain w miss where "event_scan codecs etype round None None False ?typed = Inr (Some e, w, miss)"
      by (auto simp: required_event_for_round_def and_then_eq_Inr ok_or_eq_Inr)
    from event_scan_Inr [OF this] filt show ?rhs
      by auto
  next
    assume rhs: ?rhs
    then have "\<forall>x \<in> set ?typed. length (round_values x) \<le> 1"
      "length (filter (names_round codecs round) ?typed) + (if (None :: TxEvent option) = None then 0 else 1) \<le> 1"
      unfolding filt by auto
    from event_scan_total [OF this] obtain m w miss where
      scan: "event_scan codecs etype round None None False ?typed = Inr (m, w, miss)"
      by force
    from event_scan_Inr [OF this] rhs filt have "m = Some e"
      by (auto split: option.splits)
    with scan show ?lhs
      by (simp add: required_event_for_round_def)
  }
qed

text \<open>
  The event of the round is unique. An event is selected exactly when no event of its type
  names two rounds and it is the only event of its type that names the expected round.
\<close>

lemma required_event_for_round_unique:
  "required_event_for_round codecs events etype round = Inr e \<longleftrightarrow>
     (\<forall>x \<in> set events. event_type x = etype \<longrightarrow> length (round_values x) \<le> 1) \<and>
     filter (\<lambda>x. event_type x = etype \<and> names_round codecs round x) events = [e]"
  by (rule required_event_iff)

section \<open>Adjacent positions\<close>

lemma adjacent_positions_iff:
  assumes "length ps < 2 ^ 63"
  shows "adjacent_positions v ps \<longleftrightarrow> map unat ps = [unat v + 1 ..< unat v + 1 + length ps]"
proof -
  have step: "(case checked_add v (word_of_nat i + 1) of None \<Rightarrow> False | Some e \<Rightarrow> ps ! i = e) \<longleftrightarrow>
      unat (ps ! i) = unat v + 1 + i" if "i < length ps" for i
  proof -
    have "unat (word_of_nat i + 1 :: u64) = i + 1"
      using that assms by (simp add: unat_word_ariths unat_of_nat)
    moreover have "(case x of None \<Rightarrow> False | Some e \<Rightarrow> y = e) \<longleftrightarrow> x = Some y" for x and y :: u64
      by (auto split: option.splits)
    ultimately show ?thesis
      by (simp add: checked_add_Some_iff)
  qed
  have "adjacent_positions v ps \<longleftrightarrow> (\<forall>i < length ps. unat (ps ! i) = unat v + 1 + i)"
    unfolding adjacent_positions_def list_all_length
    using step by (auto simp: nth_enumerate_eq)
  also have "\<dots> \<longleftrightarrow> map unat ps = [unat v + 1 ..< unat v + 1 + length ps]"
    unfolding list_eq_iff_nth_eq by (simp del: upt.simps cong: conj_cong)
  finally show ?thesis .
qed

section \<open>What an accepted confirmation shows\<close>

lemma validate_batch_Inr:
  assumes "validate_batch_confirmation codecs derived h events dig vcs = Inr c"
  shows "\<exists>v ps. c = ConfirmationByHash \<lparr>source = SourceHash, transaction_hash = Some h,
      final_van_position = v, vote_commitment_positions = ps\<rparr> \<and>
    sqlite_positions v ps \<and> length ps = length vcs \<and> 0 < length vcs \<and>
    length vcs \<le> MAX_VOTE_BATCH_ACTIONS \<and> adjacent_positions v ps"
  using assms
  by (auto simp: validate_batch_confirmation_def Let_def and_then_eq_Inr map_err_eq_Inr
      confirmation_from_hash_Inr split: if_splits)

text \<open>
  C28: A confirmed batch occupies its exact layout. When committed events are accepted for a batch
  generation, the confirmation carries the polled hash and one position per vote commitment of the
  generation, at most fifty, directly after the final authority note and in action order, all of
  them storable.
\<close>

theorem confirmed_batch_layout:
  assumes "validate_hash_confirmation codecs derived h events = Inr c"
    and "batch_digest (target (generation_identity (derived_generation derived))) \<noteq> None"
  shows "\<exists>van vcs v ps. expected_layout derived = LayoutVoteBatch van vcs \<and>
    c = ConfirmationByHash \<lparr>source = SourceHash, transaction_hash = Some h,
          final_van_position = v, vote_commitment_positions = ps\<rparr> \<and>
    map unat ps = [unat v + 1 ..< unat v + 1 + length vcs] \<and>
    1 \<le> length vcs \<and> length vcs \<le> 50 \<and> unat v + length vcs < 2 ^ 63"
proof -
  obtain van vcs dig where layout: "expected_layout derived = LayoutVoteBatch van vcs"
    and batch: "validate_batch_confirmation codecs derived h events dig vcs = Inr c"
    using assms
    by (auto simp: validate_hash_confirmation_def Let_def
        split: ChainSubmissionTarget.splits ExpectedTreeLayout.splits)
  from validate_batch_Inr [OF batch] obtain v ps where
    c: "c = ConfirmationByHash \<lparr>source = SourceHash, transaction_hash = Some h,
          final_van_position = v, vote_commitment_positions = ps\<rparr>"
    and pos: "sqlite_positions v ps" "length ps = length vcs" "0 < length vcs"
      "length vcs \<le> 50" "adjacent_positions v ps"
    by auto
  have adj: "map unat ps = [unat v + 1 ..< unat v + 1 + length vcs]"
    using adjacent_positions_iff [of ps v] pos by (simp del: upt_Suc)
  have ne: "ps \<noteq> []"
    using pos(2,3) by auto
  then have "last ps \<in> set ps"
    by simp
  then have "unat (last ps) < 2 ^ 63"
    using pos(1) by (auto simp: sqlite_positions_def word_le_nat_alt)
  moreover have "unat (last ps) = unat v + length vcs"
    using arg_cong [OF adj, of last] pos(3) by (simp add: last_map [OF ne] Suc_le_eq)
  moreover have "1 \<le> length vcs"
    using pos(3) by linarith
  ultimately show ?thesis
    using layout c adj pos(4) by metis
qed

text \<open>A batch of one vote and the event that commits it, for a fixed instance of the codecs.\<close>

definition sample_codecs :: text_codecs where
  "sample_codecs = \<lparr>hex_encode = (\<lambda>b. concat (map (\<lambda>x. [48, 48]) b)),
     hex_decode = (\<lambda>s. Some (replicate (length s div 2) 0)),
     base64_encode = (\<lambda>b. map unat b), base64_decode = (\<lambda>s. Some (map word_of_nat s))\<rparr>"

definition sample_derived :: DerivedChainSubmission where
  "sample_derived =
     \<lparr>derived_bound =
        \<lparr>bound_generation =
           \<lparr>generation_identity =
              \<lparr>wallet_id = [1], network = Mainnet, vote_round_id = replicate 32 0, bundle_index = 0,
               target = TargetVoteBatch (replicate 32 0)\<rparr>,
            generation_digest = replicate 32 5\<rparr>,
         bound_expected_layout = LayoutVoteBatch (replicate 32 1) [replicate 32 2],
         bound_ordered_proposal_ids = [3]\<rparr>,
      derived_request = RequestVoteBatch \<lparr>wire_votes =
        [\<lparr>wire_van_nullifier = replicate 32 0, wire_vote_authority_note_new = [],
          wire_vote_commitment = [], wire_proposal_id = 3, wire_vote_proof = [],
          wire_vote_round_id = [], wire_anchor_height = 0, wire_r_vpk = [],
          wire_vote_auth_sig = []\<rparr>]\<rparr>\<rparr>"

definition sample_events :: "TxEvent list" where
  "sample_events =
     [\<lparr>event_type = lit ''cast_vote_batch'', attributes =
        [\<lparr>attribute_key = lit ''round_id'', attribute_value = replicate 64 48\<rparr>,
         \<lparr>attribute_key = lit ''batch_digest'', attribute_value = replicate 64 48\<rparr>,
         \<lparr>attribute_key = lit ''batch_size'', attribute_value = lit ''1''\<rparr>,
         \<lparr>attribute_key = lit ''proposal_ids'', attribute_value = lit ''3''\<rparr>,
         \<lparr>attribute_key = lit ''van_nullifiers'', attribute_value = replicate 64 48\<rparr>,
         \<lparr>attribute_key = lit ''final_van_leaf_index'', attribute_value = lit ''8''\<rparr>,
         \<lparr>attribute_key = lit ''vote_commitment_leaf_indices'', attribute_value = lit ''9''\<rparr>]\<rparr>]"

lemma concat_replicate_pairs: "concat (replicate n [a, a]) = replicate (2 * n) a"
  by (induction n) auto

lemma sample_batch_accepted:
  "validate_hash_confirmation sample_codecs sample_derived [7] sample_events =
     Inr (ConfirmationByHash \<lparr>source = SourceHash, transaction_hash = Some [7],
       final_van_position = 8, vote_commitment_positions = [9]\<rparr>)"
proof -
  have num: "parse_compat_u64 sample_codecs (lit ''1'') f = Inr 1"
    "parse_compat_u64 sample_codecs (lit ''3'') f = Inr 3"
    "parse_compat_u64 sample_codecs (lit ''8'') f = Inr 8"
    "parse_compat_u64 sample_codecs (lit ''9'') f = Inr 9" for f
    by (simp_all add: parse_compat_u64_def lit_def trim_def is_whitespace_def parse_u64_def
        is_digit_def digits_value_def)
  have zeros: "trim (replicate 64 48) = replicate 64 48" "split_on 44 (replicate 64 48) = [replicate 64 48]"
    by (auto intro!: trim_no_whitespace split_on_single simp: is_whitespace_def)
  have hex: "parse_canonical_hex32 sample_codecs (replicate 64 48) f = Inr (replicate 32 0)" for f
    by (simp add: parse_canonical_hex32_def sample_codecs_def lowercase_hex_char_def list_all_length)
  have lists: "split_on 44 (lit ''3'') = [lit ''3'']" "trim (lit ''3'') = lit ''3''"
    "split_on 44 (lit ''9'') = [lit ''9'']" "trim (lit ''9'') = lit ''9''"
    by (simp_all add: lit_def trim_def is_whitespace_def)
  have enc: "hex_encode sample_codecs (replicate 32 0) = replicate 64 48"
    by (simp add: sample_codecs_def concat_replicate_pairs)
  have b64: "base64_decode sample_codecs (replicate 32 0) = Some (replicate 32 0)"
    by (simp add: sample_codecs_def)
  show ?thesis
    by (simp add: validate_hash_confirmation_def validate_batch_confirmation_def sample_events_def
        Let_def derived_generation_def expected_layout_def ordered_proposal_ids_def
        required_event_for_round_def round_values_def ROUND_ID_ATTRIBUTES_def round_id_matches_def
        required_attribute_def num zeros hex lists enc b64 parse_csv_def sample_derived_def
        expected_nullifiers_def adjacent_positions_def checked_add_def confirmation_from_hash_def
        validate_sqlite_positions_def
        parse_csv_u32_def parse_csv_u64_def parse_csv_strings_def)
qed

theorem confirmed_batch_layout_witness:
  "\<exists>van vcs. expected_layout sample_derived = LayoutVoteBatch van vcs \<and>
     map unat [9 :: u64] = [unat (8 :: u64) + 1 ..< unat (8 :: u64) + 1 + length vcs]"
proof -
  have "batch_digest (target (generation_identity (derived_generation sample_derived))) \<noteq> None"
    by (simp add: sample_derived_def derived_generation_def)
  from confirmed_batch_layout [OF sample_batch_accepted this] show ?thesis
    by auto
qed

section \<open>Position lists round trip\<close>

lemma collect_results_map:
  "\<forall>x \<in> set xs. f (g x) = Inr x \<Longrightarrow> collect_results (map f (map g xs)) = Inr xs"
  by (induction xs) auto

lemma parse_compat_u64_decimal: "parse_compat_u64 codecs (decimal (unat v)) field = Inr v"
  by (simp add: parse_compat_u64_def parse_u64_decimal)

text \<open>
  C29: Position lists round trip. A non-empty list of positions written in decimal and separated by
  commas is read back as exactly those positions in that order.
\<close>

theorem parse_csv_u64_roundtrip:
  assumes "ps \<noteq> []"
  shows "parse_csv_u64 codecs (join 44 (map (\<lambda>p. decimal (unat p)) ps)) = Inr ps"
proof -
  let ?texts = "map (\<lambda>p. decimal (unat p)) ps"
  have "split_on 44 (join 44 ?texts) = ?texts"
    using assms by (intro split_on_join) auto
  then have "map trim (split_on 44 (join 44 ?texts)) = ?texts"
    by (simp add: comp_def)
  moreover have "?texts \<noteq> []" "\<not> (\<exists>v \<in> set ?texts. v = [])"
    using assms by auto
  moreover have "collect_results (map (\<lambda>v. parse_compat_u64 codecs v (lit ''cast_vote_batch position''))
      ?texts) = Inr ps"
    by (rule collect_results_map) (simp add: parse_compat_u64_decimal)
  ultimately show ?thesis
    unfolding parse_csv_u64_def parse_csv_def Let_def by (simp only: if_False simp_thms)
qed

theorem parse_csv_u64_roundtrip_witness:
  "parse_csv_u64 sample_codecs (lit ''8,9'') = Inr [8, 9]"
proof -
  have "join 44 (map (\<lambda>p :: u64. decimal (unat p)) [8, 9]) = lit ''8,9''"
    by (simp add: decimal.simps lit_def)
  with parse_csv_u64_roundtrip [of "[8, 9]" sample_codecs] show ?thesis
    by simp
qed

end
