(* ===== verification/Submission_Requests.thy ===== *)
theory Submission_Requests
  imports Submission_State Submission_Coordination Submission_Confirmation
begin

text \<open>
  The storage contract's own logic (\<open>zcash_voting/src/chain_submission/store.rs\<close>): advancement
  requests and their validation, the durable record with the bookkeeping shared by every
  transition, its public result, and the wrapping of failures. The in-memory store of that file
  is a test double and is not modelled.
\<close>

section \<open>Requests\<close>

datatype SubmissionDerivationRequest =
    DeriveDelegation ChainSubmissionIdentity bytes
  | DeriveImportedDelegation ChainSubmissionIdentity
  | DeriveVote ChainSubmissionIdentity
  | DeriveVoteBatch ChainSubmissionIdentity

fun derivation_identity :: "SubmissionDerivationRequest \<Rightarrow> ChainSubmissionIdentity" where
  "derivation_identity (DeriveDelegation identity _) = identity"
| "derivation_identity (DeriveImportedDelegation identity) = identity"
| "derivation_identity (DeriveVote identity) = identity"
| "derivation_identity (DeriveVoteBatch identity) = identity"

record StoreAdvancementRequest =
  derivation :: SubmissionDerivationRequest
  member_identities :: "ChainSubmissionIdentity list"
  ordered_batch_proposal_ids :: "u32 list option"

definition request_delegation :: "ChainSubmissionIdentity \<Rightarrow> bytes \<Rightarrow> StoreAdvancementRequest" where
  "request_delegation identity spend_auth_signature =
     \<lparr>derivation = DeriveDelegation identity spend_auth_signature, member_identities = [],
      ordered_batch_proposal_ids = None\<rparr>"

definition request_imported_delegation :: "ChainSubmissionIdentity \<Rightarrow> StoreAdvancementRequest" where
  "request_imported_delegation identity =
     \<lparr>derivation = DeriveImportedDelegation identity, member_identities = [],
      ordered_batch_proposal_ids = None\<rparr>"

definition request_vote :: "ChainSubmissionIdentity \<Rightarrow> StoreAdvancementRequest" where
  "request_vote identity =
     \<lparr>derivation = DeriveVote identity, member_identities = [], ordered_batch_proposal_ids = None\<rparr>"

fun identity_error_text :: "ChainSubmissionIdentityError \<Rightarrow> rust_str" where
  "identity_error_text EmptyWalletId = lit ''chain submission wallet_id must not be empty''"
| "identity_error_text InvalidVoteRoundId =
     lit ''vote_round_id must be a canonical Pallas field encoding''"
| "identity_error_text (InvalidProposalId p) =
     lit ''proposal_id must be between 1 and 50, got '' @ decimal (unat p)"

definition sibling_identity ::
  "(bytes \<Rightarrow> bool) \<Rightarrow> ChainSubmissionIdentity \<Rightarrow> ChainSubmissionTarget \<Rightarrow>
   ChainSubmissionFailure + ChainSubmissionIdentity" where
  "sibling_identity canonical_base identity tgt =
     map_err (\<lambda>e. without_state InvalidInput (identity_error_text e))
       (identity_new canonical_base (wallet_id identity) (network identity) (vote_round_id identity)
          (bundle_index identity) tgt)"

definition request_vote_batch ::
  "(bytes \<Rightarrow> bool) \<Rightarrow> ChainSubmissionIdentity \<Rightarrow> u32 list \<Rightarrow>
   ChainSubmissionFailure + StoreAdvancementRequest" where
  "request_vote_batch canonical_base identity ordered_ids =
     (if batch_digest (target identity) = None \<or> ordered_ids = []
      then Inl (without_state InvalidInput (lit
        ''vote-batch requests require a batch identity and a non-empty ordered proposal roster''))
      else if length ordered_ids > MAX_VOTE_BATCH_ACTIONS
      then Inl (without_state InvalidInput
        (lit ''vote-batch proposal roster exceeds the '' @ decimal MAX_VOTE_BATCH_ACTIONS @
         lit ''-action protocol maximum''))
      else
        and_then (collect_results
            (map (\<lambda>proposal_id. sibling_identity canonical_base identity (TargetVote proposal_id))
               ordered_ids)) (\<lambda>vote_members.
        and_then (if is_combined (target identity)
                  then and_then (sibling_identity canonical_base identity TargetDelegation)
                         (\<lambda>delegation. Inr (vote_members @ [delegation]))
                  else Inr vote_members) (\<lambda>members.
          let sorted_members = sort_key operation_from_identity members;
              deduplicated = remdups_adj sorted_members
          in if length deduplicated \<noteq> length sorted_members
             then Inl (without_state InvalidInput (lit ''vote-batch proposal roster contains duplicates''))
             else Inr \<lparr>derivation = DeriveVoteBatch identity, member_identities = deduplicated,
                       ordered_batch_proposal_ids = Some ordered_ids\<rparr>)))"

definition request_identity :: "StoreAdvancementRequest \<Rightarrow> ChainSubmissionIdentity" where
  "request_identity request = derivation_identity (derivation request)"

definition applicable_identities :: "StoreAdvancementRequest \<Rightarrow> ChainSubmissionIdentity list" where
  "applicable_identities request = member_identities request @ [request_identity request]"

definition is_batch :: "StoreAdvancementRequest \<Rightarrow> bool" where
  "is_batch request = (case derivation request of DeriveVoteBatch _ \<Rightarrow> True | _ \<Rightarrow> False)"

definition is_imported_delegation :: "StoreAdvancementRequest \<Rightarrow> bool" where
  "is_imported_delegation request =
     (case derivation request of DeriveImportedDelegation _ \<Rightarrow> True | _ \<Rightarrow> False)"

definition verify_batch_roster ::
  "StoreAdvancementRequest \<Rightarrow> u32 list \<Rightarrow> ChainSubmissionFailure + unit" where
  "verify_batch_roster request authoritative_ids =
     (case ordered_batch_proposal_ids request of
        Some expected \<Rightarrow>
          if authoritative_ids \<noteq> expected
          then Inl (without_state InvalidInput
                 (lit ''vote-batch proposal roster does not match the complete persisted batch''))
          else Inr ()
      | None \<Rightarrow> Inr ())"

definition validate_target :: "StoreAdvancementRequest \<Rightarrow> ChainSubmissionFailure + unit" where
  "validate_target request =
     (let valid =
        (case (derivation request, target (request_identity request)) of
           (DeriveDelegation _ _, TargetDelegation) \<Rightarrow> True
         | (DeriveImportedDelegation _, TargetDelegation) \<Rightarrow> True
         | (DeriveVote _, TargetVote _) \<Rightarrow> True
         | (DeriveVoteBatch _, TargetVoteBatch _) \<Rightarrow> True
         | (DeriveVoteBatch _, TargetDelegateAndVoteBatch _) \<Rightarrow> True
         | _ \<Rightarrow> False)
      in if valid then Inr ()
         else Inl (without_state InvalidInput
                (lit ''submission request kind does not match its typed identity target'')))"

section \<open>The durable record\<close>

record StoredChainSubmission =
  stored_identity :: ChainSubmissionIdentity
  stored_digest :: ChainSubmissionGenerationDigest
  stored_state :: SubmissionRecordState
  committed_post_reservations :: u64
  tracking_started_at :: "u64 option"
  stored_diagnostic :: "ChainSubmissionDiagnostic option"
  created_at :: u64
  updated_at :: u64

abbreviation stored_durable_state :: "StoredChainSubmission \<Rightarrow> ChainSubmissionState" where
  "stored_durable_state record \<equiv> durable_state (stored_state record)"

definition is_tracking :: "SubmissionRecordState \<Rightarrow> bool" where
  "is_tracking s = (case s of Tracking _ \<Rightarrow> True | _ \<Rightarrow> False)"

definition settle_after_transition ::
  "ChainSubmissionState \<Rightarrow> ChainSubmissionDiagnostic option \<Rightarrow> u64 \<Rightarrow>
   StoredChainSubmission \<Rightarrow> StoredChainSubmission" where
  "settle_after_transition previous explicit_diagnostic now r =
     (let entered_tracking = is_tracking (stored_state r) \<and> previous \<noteq> DurableTracking;
          diagnostic =
            (case stored_state r of
               Recovering _ d \<Rightarrow> Some d
             | SubmittedWithoutHash d \<Rightarrow> Some d
             | Rejected d \<Rightarrow> Some d
             | _ \<Rightarrow> (case explicit_diagnostic of
                        Some d \<Rightarrow> Some d
                      | None \<Rightarrow> if entered_tracking then None else stored_diagnostic r));
          effective_now = max now (updated_at r);
          started =
            (if is_tracking (stored_state r) \<and> tracking_started_at r = None then Some effective_now
             else tracking_started_at r)
      in r\<lparr>stored_diagnostic := diagnostic, tracking_started_at := started,
           updated_at := effective_now\<rparr>)"

definition retires_combined_generation ::
  "ChainSubmissionState \<Rightarrow> StoredChainSubmission \<Rightarrow> bool" where
  "retires_combined_generation previous r \<longleftrightarrow>
     stored_durable_state r = DurableRejected \<and> previous \<noteq> DurableRejected \<and>
     is_combined (target (stored_identity r))"

definition fresh_record :: "ChainSubmissionGeneration \<Rightarrow> u64 \<Rightarrow> u64 \<Rightarrow> StoredChainSubmission" where
  "fresh_record generation reservations now =
     \<lparr>stored_identity = generation_identity generation,
      stored_digest = generation_digest generation,
      stored_state = Submitting, committed_post_reservations = reservations,
      tracking_started_at = None, stored_diagnostic = None, created_at = now, updated_at = now\<rparr>"

definition adopted_imported_delegation ::
  "ChainSubmissionGeneration \<Rightarrow> CandidateTransactionHash \<Rightarrow> u64 \<Rightarrow> StoredChainSubmission" where
  "adopted_imported_delegation generation candidate now =
     \<lparr>stored_identity = generation_identity generation,
      stored_digest = generation_digest generation,
      stored_state = Tracking candidate, committed_post_reservations = 0,
      tracking_started_at = Some now, stored_diagnostic = None, created_at = now, updated_at = now\<rparr>"

definition public_result :: "StoredChainSubmission \<Rightarrow> ChainSubmissionFailure + ChainSubmissionResult" where
  "public_result r =
     (case stored_state r of
        Submitting \<Rightarrow> Inl (with_durable_state InvariantViolation DurableSubmitting
          (lit ''Submitting must be normalized before returning from an advancement pass''))
      | Tracking candidate \<Rightarrow> Inr (ResultPending (PendingTracking candidate))
      | Recovering candidate d \<Rightarrow> Inr (ResultPending (PendingRecovering candidate d))
      | SubmittedWithoutHash d \<Rightarrow> Inr (ResultSubmittedWithoutHash d)
      | Confirmed conf \<Rightarrow> Inr (ResultConfirmed (confirmation conf))
      | Rejected d \<Rightarrow> Inr (ResultRejected d))"

datatype StoreAdmission =
    NoAuthoritativeState
  | Authoritative StoredChainSubmission
  | Ready DerivedChainSubmission StoredChainSubmission bool

datatype ConfirmationCommit =
    CommitInterrupted StoredChainSubmission
  | CommitConfirmed StoredChainSubmission

section \<open>Failures\<close>

fun durable_state_debug :: "ChainSubmissionState \<Rightarrow> string" where
  "durable_state_debug DurableSubmitting = ''Submitting''"
| "durable_state_debug DurableTracking = ''Tracking''"
| "durable_state_debug DurableRecovering = ''Recovering''"
| "durable_state_debug DurableSubmittedWithoutHash = ''SubmittedWithoutHash''"
| "durable_state_debug DurableConfirmed = ''Confirmed''"
| "durable_state_debug DurableRejected = ''Rejected''"

fun transition_error_text :: "SubmissionTransitionError \<Rightarrow> rust_str" where
  "transition_error_text (IllegalTransition from ob) =
     lit (''illegal chain submission transition from '' @
          (case from of None \<Rightarrow> ''None'' | Some s \<Rightarrow> ''Some('' @ durable_state_debug s @ '')'') @
          '' after '' @ ob)"
| "transition_error_text ConflictingCandidateHash =
     lit ''candidate transaction hash conflicts with the durable candidate''"
| "transition_error_text ConfirmationDoesNotMatchCandidate =
     lit ''hash confirmation does not match the durable candidate transaction''"
| "transition_error_text ConflictingConfirmation =
     lit ''terminal confirmation conflicts with the durable confirmation''"

definition abandoned_diagnostic :: ChainSubmissionDiagnostic where
  "abandoned_diagnostic =
     from_redacted_message AmbiguousDispatch
       (lit ''an unclassified submission reservation survived process interruption'')"

definition ensure_generation ::
  "StoredChainSubmission \<Rightarrow> ChainSubmissionGeneration \<Rightarrow> ChainSubmissionFailure + unit" where
  "ensure_generation r generation =
     (if stored_identity r \<noteq> generation_identity generation \<or>
         stored_digest r \<noteq> generation_digest generation
      then Inl (with_durable_state InvalidInput (stored_durable_state r)
             (lit ''stored submission belongs to a different semantic generation''))
      else Inr ())"

definition transition_failure :: "ChainSubmissionState \<Rightarrow> rust_str \<Rightarrow> ChainSubmissionFailure" where
  "transition_failure state error = with_durable_state InvariantViolation state error"

definition preserve_loaded_state ::
  "ChainSubmissionFailure \<Rightarrow> StoredChainSubmission option \<Rightarrow> ChainSubmissionFailure" where
  "preserve_loaded_state error r =
     (case (strongest_state error, r) of
        (None, Some rec) \<Rightarrow>
          with_durable_state (failure_kind error) (stored_durable_state rec) (message_of error)
      | _ \<Rightarrow> error)"

definition map_generation_error :: "VotingError \<Rightarrow> ChainSubmissionFailure" where
  "map_generation_error error =
     without_state (case error of VotingInvalidInput _ \<Rightarrow> InvalidInput | _ \<Rightarrow> Storage)
       (voting_error_text error)"

definition possible_dispatch_error :: "ChainSubmissionFailure \<Rightarrow> ChainSubmissionFailure" where
  "possible_dispatch_error error =
     with_known_possible_dispatch (failure_kind error) (message_of error)"

section \<open>Batch rosters\<close>

lemma collect_results_Inr_iff:
  "collect_results rs = Inr ys \<longleftrightarrow> rs = map Inr ys"
  by (induction rs arbitrary: ys) (auto simp: and_then_eq_Inr)

definition sibling :: "ChainSubmissionIdentity \<Rightarrow> ChainSubmissionTarget \<Rightarrow> ChainSubmissionIdentity" where
  "sibling identity tgt = \<lparr>wallet_id = wallet_id identity, network = network identity,
     vote_round_id = vote_round_id identity, bundle_index = bundle_index identity, target = tgt\<rparr>"

lemma sibling_inject: "sibling i t = sibling i u \<longleftrightarrow> t = u"
  by (auto simp: sibling_def)

lemma sibling_identity_Inr:
  assumes "wallet_id i \<noteq> []" and "validate_vote_round_id_bytes canon (vote_round_id i)"
  shows "sibling_identity canon i t = Inr j \<longleftrightarrow>
    j = sibling i t \<and> (\<forall>p. t = TargetVote p \<longrightarrow> 1 \<le> p \<and> p \<le> 50)"
  using assms
  by (cases t) (auto simp: sibling_identity_def identity_new_def map_err_eq_Inr sibling_def
      MIN_PROPOSAL_ID_def MAX_PROPOSAL_ID_def Let_def)

lemma length_remdups_adj_eq: "length (remdups_adj xs) = length xs \<longleftrightarrow> distinct_adj xs"
  by (simp add: distinct_adj_conv_length_remdups_adj)

lemma sort_key_inj_distinct:
  assumes "inj f"
  shows "distinct_adj (sort_key f xs) \<longleftrightarrow> distinct xs"
proof -
  have "distinct_adj ys \<longleftrightarrow> distinct ys" if "sorted (map f ys)" for ys
    using that
  proof (induction ys)
    case (Cons y ys)
    then show ?case
      using assms by (cases ys) (auto simp: inj_eq dest: order.antisym)
  qed simp
  from this [of "sort_key f xs"] show ?thesis by simp
qed

definition batch_members :: "ChainSubmissionIdentity \<Rightarrow> u32 list \<Rightarrow> ChainSubmissionIdentity list" where
  "batch_members i ids =
     map (\<lambda>p. sibling i (TargetVote p)) ids @
     (if is_combined (target i) then [sibling i TargetDelegation] else [])"

lemma distinct_batch_members: "distinct (batch_members i ids) \<longleftrightarrow> distinct ids"
  by (auto simp: batch_members_def distinct_map inj_on_def sibling_inject)

lemma collect_members:
  assumes "wallet_id i \<noteq> []" and "validate_vote_round_id_bytes canon (vote_round_id i)"
  shows "collect_results (map (\<lambda>p. sibling_identity canon i (TargetVote p)) ids) = Inr ms \<longleftrightarrow>
    ms = map (\<lambda>p. sibling i (TargetVote p)) ids \<and> (\<forall>p \<in> set ids. 1 \<le> p \<and> p \<le> 50)"
proof (induction ids arbitrary: ms)
  case (Cons p ids)
  then show ?case
    by (auto simp: and_then_eq_Inr sibling_identity_Inr [OF assms])
qed auto

text \<open>
  Batch rosters. For a valid batch identity, a batch request is accepted exactly when its
  roster is non-empty, has at most fifty proposals, all of them between 1 and 50 and no two equal;
  the request then holds the roster in the signed order and the identities of its members, the
  delegation included for a combined batch, in lock order.
\<close>

lemma request_vote_batch_accepts:
  assumes "wallet_id i \<noteq> []" and "validate_vote_round_id_bytes canon (vote_round_id i)"
    and "batch_digest (target i) \<noteq> None"
  shows "request_vote_batch canon i ids = Inr request \<longleftrightarrow>
    ids \<noteq> [] \<and> length ids \<le> 50 \<and> (\<forall>p \<in> set ids. 1 \<le> p \<and> p \<le> 50) \<and> distinct ids \<and>
    request = \<lparr>derivation = DeriveVoteBatch i,
      member_identities = sort_key operation_from_identity (batch_members i ids),
      ordered_batch_proposal_ids = Some ids\<rparr>"
proof -
  have inj: "inj operation_from_identity"
    by (simp add: inj_def operation_from_identity_inj)
  have dup: "length (remdups_adj (sort_key operation_from_identity (batch_members i ids))) =
      length (batch_members i ids) \<longleftrightarrow> distinct ids"
    using length_remdups_adj_eq [of "sort_key operation_from_identity (batch_members i ids)"]
      sort_key_inj_distinct [OF inj, of "batch_members i ids"] distinct_batch_members [of i ids]
    by simp
  have members: "and_then (collect_results
        (map (\<lambda>p. sibling_identity canon i (TargetVote p)) ids)) (\<lambda>ms.
        and_then (if is_combined (target i)
                  then and_then (sibling_identity canon i TargetDelegation) (\<lambda>d. Inr (ms @ [d]))
                  else Inr ms) g) = Inr request \<longleftrightarrow>
      (\<forall>p \<in> set ids. 1 \<le> p \<and> p \<le> 50) \<and> g (batch_members i ids) = Inr request" for g
    by (auto simp: and_then_eq_Inr collect_members [OF assms(1,2)]
        sibling_identity_Inr [OF assms(1,2)] batch_members_def)
  show ?thesis
    unfolding request_vote_batch_def Let_def
    using assms(3) distinct_adj_altdef [of "sort_key operation_from_identity (batch_members i ids)"]
      sort_key_inj_distinct [OF inj, of "batch_members i ids"] distinct_batch_members [of i ids]
    by (auto simp: members not_less dup)
qed

end
