(* ===== verification/Submission_Protocol.thy ===== *)
theory Submission_Protocol
  imports Submission_Requests
begin

text \<open>
  The wire protocol of the vote chain (\<open>zcash_voting/src/chain_submission/protocol.rs\<close>, response
  types of \<open>transport.rs\<close>): endpoint canonicalization, request construction, and the
  classification of answers. The transport, the JSON codec (\<open>serde_json\<close>) and the \<open>url\<close> crate are
  parameters; \<open>String::from_utf8_lossy\<close> of the standard library is defined here.
\<close>

section \<open>Standard library text\<close>

type_synonym u16 = "16 word"

definition ascii_lower :: "nat \<Rightarrow> nat" where
  "ascii_lower c = (if 0x41 \<le> c \<and> c \<le> 0x5A then c + 32 else c)"

definition to_ascii_lowercase :: "rust_str \<Rightarrow> rust_str" where
  "to_ascii_lowercase s = map ascii_lower s"

definition eq_ignore_ascii_case :: "rust_str \<Rightarrow> rust_str \<Rightarrow> bool" where
  "eq_ignore_ascii_case a b \<longleftrightarrow> to_ascii_lowercase a = to_ascii_lowercase b"

definition is_ascii_hexdigit :: "nat \<Rightarrow> bool" where
  "is_ascii_hexdigit c \<longleftrightarrow>
     (0x30 \<le> c \<and> c \<le> 0x39) \<or> (0x41 \<le> c \<and> c \<le> 0x46) \<or> (0x61 \<le> c \<and> c \<le> 0x66)"

definition is_ascii_alphanumeric :: "nat \<Rightarrow> bool" where
  "is_ascii_alphanumeric c \<longleftrightarrow>
     (0x30 \<le> c \<and> c \<le> 0x39) \<or> (0x41 \<le> c \<and> c \<le> 0x5A) \<or> (0x61 \<le> c \<and> c \<le> 0x7A)"

text \<open>
  \<open>String::from_utf8_lossy\<close>: every maximal prefix of an invalid sequence becomes one replacement
  character.
\<close>

definition utf8_cont :: "nat \<Rightarrow> bool" where
  "utf8_cont b \<longleftrightarrow> 0x80 \<le> b \<and> b \<le> 0xBF"

definition utf8_second_ok :: "nat \<Rightarrow> nat \<Rightarrow> bool" where
  "utf8_second_ok b c \<longleftrightarrow>
     (b = 0xE0 \<and> 0xA0 \<le> c \<and> c \<le> 0xBF) \<or>
     (((0xE1 \<le> b \<and> b \<le> 0xEC) \<or> b = 0xEE \<or> b = 0xEF) \<and> utf8_cont c) \<or>
     (b = 0xED \<and> 0x80 \<le> c \<and> c \<le> 0x9F) \<or>
     (b = 0xF0 \<and> 0x90 \<le> c \<and> c \<le> 0xBF) \<or>
     (0xF1 \<le> b \<and> b \<le> 0xF3 \<and> utf8_cont c) \<or>
     (b = 0xF4 \<and> 0x80 \<le> c \<and> c \<le> 0x8F)"

fun utf8_step :: "nat list \<Rightarrow> nat \<times> nat" where
  "utf8_step [] = (0, 0)"
| "utf8_step (b # bs) =
     (let bad = 0xFFFD; at = (\<lambda>i. if i < length bs then bs ! i else 0) in
      if b < 0x80 then (b, 1)
      else if 0xC2 \<le> b \<and> b \<le> 0xDF then
        (if utf8_cont (at 0) then ((b - 0xC0) * 64 + (at 0 - 0x80), 2) else (bad, 1))
      else if 0xE0 \<le> b \<and> b \<le> 0xEF then
        (if \<not> utf8_second_ok b (at 0) then (bad, 1)
         else if \<not> utf8_cont (at 1) then (bad, 2)
         else ((b - 0xE0) * 4096 + (at 0 - 0x80) * 64 + (at 1 - 0x80), 3))
      else if 0xF0 \<le> b \<and> b \<le> 0xF4 then
        (if \<not> utf8_second_ok b (at 0) then (bad, 1)
         else if \<not> utf8_cont (at 1) then (bad, 2)
         else if \<not> utf8_cont (at 2) then (bad, 3)
         else ((b - 0xF0) * 262144 + (at 0 - 0x80) * 4096 + (at 1 - 0x80) * 64 + (at 2 - 0x80), 4))
      else (bad, 1))"

function utf8_lossy :: "nat list \<Rightarrow> rust_str" where
  "utf8_lossy bs =
     (if bs = [] then []
      else let (c, n) = utf8_step bs in c # utf8_lossy (drop (max n 1) bs))"
  by auto
termination by (relation "measure length") (auto simp: max_def)

declare utf8_lossy.simps [simp del]

definition from_utf8_lossy :: "bytes \<Rightarrow> rust_str" where
  "from_utf8_lossy b = utf8_lossy (map unat b)"

section \<open>Requests and responses\<close>

record ChainHttpRequest =
  http_url :: rust_str
  http_headers :: "(string \<times> string) list"
  http_timeout :: nat
  http_max_response_bytes :: nat

record ChainHttpResponse =
  http_status :: u16
  http_body :: bytes
  http_content_type :: "rust_str option"
  http_response_headers :: "(rust_str \<times> rust_str) list"

definition MAX_CHAIN_HTTP_RESPONSE_BYTES :: nat where
  "MAX_CHAIN_HTTP_RESPONSE_BYTES = 256 * 1024"

definition MAX_CHAIN_HTTP_REQUEST_BYTES :: nat where
  "MAX_CHAIN_HTTP_REQUEST_BYTES = 1024 * 1024"

definition MAX_CHAIN_ENDPOINTS :: nat where
  "MAX_CHAIN_ENDPOINTS = 8"

definition NULLIFIER_ALREADY_SPENT_CODE :: u32 where
  "NULLIFIER_ALREADY_SPENT_CODE = 2"

definition API_PREFIX :: "string list" where
  "API_PREFIX = [''shielded-vote'', ''v1'']"

text \<open>Durations are whole nanoseconds.\<close>

definition seconds :: "nat \<Rightarrow> nat" where
  "seconds n = n * 1000000000"

definition MIN_CHAIN_POST_TIMEOUT :: nat where
  "MIN_CHAIN_POST_TIMEOUT = seconds 120"

definition MAX_CHAIN_REQUEST_TIMEOUT :: nat where
  "MAX_CHAIN_REQUEST_TIMEOUT = seconds (10 * 60)"

record ChainProtocolTiming =
  post_timeout :: nat
  lookup_timeout :: nat

definition invalid_protocol :: "rust_str \<Rightarrow> ChainSubmissionDiagnostic" where
  "invalid_protocol message = from_redacted_message InvalidProtocolResponse message"

definition timing_new :: "nat \<Rightarrow> nat \<Rightarrow> ChainSubmissionDiagnostic + ChainProtocolTiming" where
  "timing_new post lookup =
     (if \<not> (MIN_CHAIN_POST_TIMEOUT \<le> post \<and> post \<le> MAX_CHAIN_REQUEST_TIMEOUT)
      then Inl (invalid_protocol (lit ''vote-chain POST timeout must be between 120 and 600 seconds''))
      else if lookup = 0 \<or> lookup > MAX_CHAIN_REQUEST_TIMEOUT
      then Inl (invalid_protocol
             (lit ''vote-chain lookup timeout must be between 1 nanosecond and 600 seconds''))
      else Inr \<lparr>post_timeout = post, lookup_timeout = lookup\<rparr>)"

definition default_timing :: ChainProtocolTiming where
  "default_timing = \<lparr>post_timeout = seconds 150, lookup_timeout = seconds 10\<rparr>"

text \<open>\<open>join_chain_url\<close>\<close>

definition join_chain_url :: "rust_str \<Rightarrow> rust_str list \<Rightarrow> rust_str" where
  "join_chain_url base_url segments =
     base_url @ concat (map (\<lambda>segment. lit ''/'' @ segment) (map lit API_PREFIX @ segments))"

definition chain_request :: "rust_str \<Rightarrow> bool \<Rightarrow> nat \<Rightarrow> ChainHttpRequest" where
  "chain_request url has_json_body timeout =
     \<lparr>http_url = url,
      http_headers = (''accept'', ''application/json'') #
        (if has_json_body then [(''content-type'', ''application/json'')] else []),
      http_timeout = timeout, http_max_response_bytes = MAX_CHAIN_HTTP_RESPONSE_BYTES\<rparr>"

section \<open>Endpoint canonicalization\<close>

definition hex_value :: "nat \<Rightarrow> nat option" where
  "hex_value v =
     (if 0x30 \<le> v \<and> v \<le> 0x39 then Some (v - 0x30)
      else if 0x61 \<le> v \<and> v \<le> 0x66 then Some (v - 0x61 + 10)
      else if 0x41 \<le> v \<and> v \<le> 0x46 then Some (v - 0x41 + 10)
      else None)"

definition HEX :: rust_str where
  "HEX = lit ''0123456789ABCDEF''"

definition unreserved :: "nat \<Rightarrow> bool" where
  "unreserved v \<longleftrightarrow> is_ascii_alphanumeric v \<or> v = 0x2D \<or> v = 0x2E \<or> v = 0x5F \<or> v = 0x7E"

text \<open>
  The scan for the next percent sign. \<open>Url::path\<close> is ASCII, so the byte offsets of the source are
  the positions of this list.
\<close>

fun normalize_percent_escapes :: "rust_str \<Rightarrow> rust_str option" where
  "normalize_percent_escapes [] = Some []"
| "normalize_percent_escapes (c # rest) =
     (if c \<noteq> 0x25 then map_option (\<lambda>n. c # n) (normalize_percent_escapes rest)
      else case rest of
          h # l # remaining \<Rightarrow>
            (case (hex_value h, hex_value l) of
               (Some high, Some low) \<Rightarrow>
                 let v = high * 16 + low in
                 map_option (\<lambda>n. (if unreserved v then [v] else [0x25, HEX ! high, HEX ! low]) @ n)
                   (normalize_percent_escapes remaining)
             | _ \<Rightarrow> None)
        | _ \<Rightarrow> None)"

text \<open>What the endpoint check uses of the \<open>url\<close> crate.\<close>

record 'u url_api =
  url_parse :: "rust_str \<Rightarrow> 'u option"
  url_scheme :: "'u \<Rightarrow> rust_str"
  url_username :: "'u \<Rightarrow> rust_str"
  url_password :: "'u \<Rightarrow> rust_str option"
  url_query :: "'u \<Rightarrow> rust_str option"
  url_fragment :: "'u \<Rightarrow> rust_str option"
  url_domain :: "'u \<Rightarrow> rust_str option"
  url_set_host :: "'u \<Rightarrow> rust_str \<Rightarrow> 'u option"
  url_port :: "'u \<Rightarrow> u16 option"
  url_clear_port :: "'u \<Rightarrow> 'u option"
  url_path :: "'u \<Rightarrow> rust_str"
  url_set_path :: "'u \<Rightarrow> rust_str \<Rightarrow> 'u"
  url_as_str :: "'u \<Rightarrow> rust_str"

definition strip_suffix_dot :: "rust_str \<Rightarrow> rust_str option" where
  "strip_suffix_dot s = (if s \<noteq> [] \<and> last s = 0x2E then Some (butlast s) else None)"

definition trim_end_slashes :: "rust_str \<Rightarrow> rust_str" where
  "trim_end_slashes s = rev (dropWhile (\<lambda>c. c = 0x2F) (rev s))"

definition canonicalize_chain_base_url ::
  "'u url_api \<Rightarrow> rust_str \<Rightarrow> Network \<Rightarrow> ChainSubmissionDiagnostic + rust_str" where
  "canonicalize_chain_base_url api v net =
     and_then (ok_or (invalid_protocol (lit ''vote-chain endpoint is not a valid URL''))
         (url_parse api (trim v))) (\<lambda>url.
     if url_scheme api url \<notin> {lit ''http'', lit ''https''}
     then Inl (invalid_protocol (lit ''vote-chain endpoint must use HTTP or HTTPS''))
     else if net = Mainnet \<and> url_scheme api url \<noteq> lit ''https''
     then Inl (invalid_protocol (lit ''production vote-chain endpoint must use HTTPS''))
     else if url_username api url \<noteq> [] \<or> url_password api url \<noteq> None
     then Inl (invalid_protocol (lit ''vote-chain endpoint must not contain credentials''))
     else if url_query api url \<noteq> None \<or> url_fragment api url \<noteq> None
     then Inl (invalid_protocol (lit ''vote-chain endpoint must not contain a query or fragment''))
     else
     and_then (case Option.bind (url_domain api url) strip_suffix_dot of
         Some domain \<Rightarrow> ok_or (invalid_protocol (lit ''vote-chain endpoint host is invalid''))
           (url_set_host api url domain)
       | None \<Rightarrow> Inr url) (\<lambda>url.
     let default_port = (if url_scheme api url = lit ''http'' then Some 80
                         else if url_scheme api url = lit ''https'' then Some 443 else None) in
     and_then (if url_port api url = default_port
         then ok_or (invalid_protocol (lit ''vote-chain endpoint port is invalid'')) (url_clear_port api url)
         else Inr url) (\<lambda>url.
     and_then (ok_or (invalid_protocol (lit ''vote-chain endpoint path has an invalid percent escape''))
         (normalize_percent_escapes (url_path api url))) (\<lambda>path.
       Inr (trim_end_slashes (url_as_str api (url_set_path api url path)))))))"

record ChainProtocolClient =
  client_endpoints :: "rust_str list"
  client_timing :: ChainProtocolTiming

fun canonical_endpoints ::
  "'u url_api \<Rightarrow> Network \<Rightarrow> rust_str list \<Rightarrow> rust_str list \<Rightarrow> ChainSubmissionDiagnostic + rust_str list" where
  "canonical_endpoints api net canonical [] = Inr canonical"
| "canonical_endpoints api net canonical (endpoint # endpoints) =
     and_then (canonicalize_chain_base_url api endpoint net) (\<lambda>e.
       if e \<in> set canonical
       then Inl (invalid_protocol (lit ''vote-chain endpoint set contains a duplicate canonical endpoint''))
       else canonical_endpoints api net (canonical @ [e]) endpoints)"

definition client_with_timing ::
  "'u url_api \<Rightarrow> Network \<Rightarrow> rust_str list \<Rightarrow> ChainProtocolTiming \<Rightarrow>
   ChainSubmissionDiagnostic + ChainProtocolClient" where
  "client_with_timing api net endpoints timing =
     and_then (timing_new (post_timeout timing) (lookup_timeout timing)) (\<lambda>_.
     if endpoints = []
     then Inl (invalid_protocol (lit ''vote-chain endpoint set must not be empty''))
     else if length endpoints > MAX_CHAIN_ENDPOINTS
     then Inl (invalid_protocol (lit ''vote-chain endpoint set exceeds '' @ decimal MAX_CHAIN_ENDPOINTS @
            lit '' endpoint limit''))
     else and_then (canonical_endpoints api net [] endpoints) (\<lambda>canonical.
            Inr \<lparr>client_endpoints = canonical, client_timing = timing\<rparr>))"

definition client_new ::
  "'u url_api \<Rightarrow> Network \<Rightarrow> rust_str list \<Rightarrow> ChainSubmissionDiagnostic + ChainProtocolClient" where
  "client_new api net endpoints = client_with_timing api net endpoints default_timing"

section \<open>Answers\<close>

datatype ChainRejectionKind = NullifierAlreadySpent | RejectionOther

datatype PostAttemptOutcome =
    PostAccepted CandidateTransactionHash
  | PostRejected u32 ChainRejectionKind ChainSubmissionDiagnostic "CandidateTransactionHash option"
  | PostLocalFailure ChainSubmissionDiagnostic
  | PostDefinitelyUnsent ChainTransportError
  | PostPossiblyDispatched ChainSubmissionDiagnostic

record CommittedTransaction =
  committed_height :: u64
  committed_code :: u32
  committed_events :: "TxEvent list"

datatype TransactionStatusObservation =
    StatusPending
  | CommittedSuccess CommittedTransaction
  | CommittedFailure CommittedTransaction

datatype LookupFailure =
    LookupTransport ChainTransportError
  | LookupProtocol ChainSubmissionDiagnostic

datatype BatchDigestJson = DigestAbsent | DigestPresent rust_str

record TransactionResultJson =
  json_tx_hash :: "rust_str option"
  json_code :: u32
  json_log :: rust_str
  json_batch_digest :: BatchDigestJson

record TransactionStatusJson =
  status_height :: rust_str
  status_code :: u32
  status_events :: "TxEvent list"

text \<open>The JSON codec: deserializers of the answer types, and the serializer of request bodies.\<close>

record json_api =
  parse_transaction_result :: "bytes \<Rightarrow> TransactionResultJson option"
  parse_transaction_status :: "bytes \<Rightarrow> TransactionStatusJson option"
  parse_gateway_error :: "bytes \<Rightarrow> rust_str option"
  request_to_json :: "ChainSubmissionRequest \<Rightarrow> rust_str + bytes"

definition has_media_type :: "ChainHttpResponse \<Rightarrow> rust_str \<Rightarrow> bool" where
  "has_media_type response media_type \<longleftrightarrow>
     (case http_content_type response of
        None \<Rightarrow> False
      | Some content_type \<Rightarrow>
          (case split_on 0x3B content_type of
             [] \<Rightarrow> False | observed # _ \<Rightarrow> eq_ignore_ascii_case (trim observed) media_type))"

definition is_json_content_type :: "ChainHttpResponse \<Rightarrow> bool" where
  "is_json_content_type response = has_media_type response (lit ''application/json'')"

definition observed_content_type :: "ChainHttpResponse \<Rightarrow> rust_str" where
  "observed_content_type response =
     (case http_content_type response of None \<Rightarrow> lit ''(absent)'' | Some v \<Rightarrow> v)"

definition validate_json_response :: "ChainHttpResponse \<Rightarrow> ChainSubmissionDiagnostic + unit" where
  "validate_json_response response =
     (if length (http_body response) > MAX_CHAIN_HTTP_RESPONSE_BYTES
      then Inl (invalid_protocol (lit ''vote-chain response exceeds '' @
             decimal MAX_CHAIN_HTTP_RESPONSE_BYTES @ lit '' byte limit''))
      else if \<not> is_json_content_type response then
        (let observed = observed_content_type response;
             excerpt = trim (from_utf8_lossy (http_body response))
         in Inl (invalid_protocol
              (if excerpt = []
               then lit ''vote-chain response Content-Type must be application/json, got '' @ observed @
                    lit '' with an empty body''
               else lit ''vote-chain response Content-Type must be application/json, got '' @ observed @
                    lit '': '' @ excerpt)))
      else Inr ())"

definition route_prefix :: "rust_str" where
  "route_prefix = lit ''shielded-vote/v1''"

definition gateway_shaped_route_answer ::
  "json_api \<Rightarrow> ChainHttpResponse \<Rightarrow> rust_str \<Rightarrow> ChainSubmissionDiagnostic option" where
  "gateway_shaped_route_answer json response endpoint =
     (if length (http_body response) > MAX_CHAIN_HTTP_RESPONSE_BYTES then None
      else if http_status response \<notin> {404, 405} \<or> \<not> is_json_content_type response then None
      else case parse_gateway_error json (http_body response) of
          None \<Rightarrow> None
        | Some _ \<Rightarrow> Some (from_redacted_message EndpointUnsupported
            (lit ''vote-chain endpoint may not serve /'' @ route_prefix @ lit ''/'' @ endpoint @
             lit '' (HTTP '' @ decimal (unat (http_status response)) @
             lit '', gateway-shaped error envelope); the POST may have reached the chain; '' @
             lit ''check the gateway route and vote-sdk release'')))"

definition replaced_route_answer ::
  "ChainHttpResponse \<Rightarrow> rust_str \<Rightarrow> ChainSubmissionDiagnostic option" where
  "replaced_route_answer response endpoint =
     (if length (http_body response) > MAX_CHAIN_HTTP_RESPONSE_BYTES then None
      else if \<not> (http_status response \<in> {404, 405} \<or>
                 http_status response = 200 \<and> has_media_type response (lit ''text/html''))
      then None
      else Some (from_redacted_message RouteAnswerReplaced
        (lit ''vote-chain endpoint may not serve /'' @ route_prefix @ lit ''/'' @ endpoint @
         lit '' (HTTP '' @ decimal (unat (http_status response)) @
         lit '', Content-Type '' @ observed_content_type response @
         lit ''); the POST may have reached the chain; '' @
         lit ''check the gateway route and vote-sdk release'')))"

definition normalize_candidate_hash ::
  "text_codecs \<Rightarrow> rust_str \<Rightarrow> CandidateTransactionHash option" where
  "normalize_candidate_hash codecs v =
     (if length v \<noteq> 64 \<or> \<not> list_all is_ascii_hexdigit v then None
      else case candidate_from_str (hex_decode codecs) (to_ascii_lowercase v) of
          Inr h \<Rightarrow> Some h | Inl _ \<Rightarrow> None)"

definition check_batch_digest ::
  "text_codecs \<Rightarrow> bytes option \<Rightarrow> BatchDigestJson \<Rightarrow> ChainSubmissionDiagnostic + unit" where
  "check_batch_digest codecs expected observed =
     (case (expected, observed) of
        (Some e, DigestPresent seen) \<Rightarrow>
          if seen = hex_encode codecs e then Inr ()
          else Inl (invalid_protocol (lit ''vote-batch response contained an invalid batch digest''))
      | (Some _, DigestAbsent) \<Rightarrow>
          Inl (invalid_protocol (lit ''vote-batch response omitted its batch digest''))
      | (None, DigestPresent _) \<Rightarrow>
          Inl (invalid_protocol (lit ''non-batch vote-chain response contained a batch digest''))
      | (None, DigestAbsent) \<Rightarrow> Inr ())"

definition rejection_text :: "u32 \<Rightarrow> rust_str \<Rightarrow> rust_str" where
  "rejection_text code log =
     lit ''vote chain rejected transaction with code '' @ decimal (unat code) @
     (if trim log = [] then [] else lit '': '' @ trim log)"

definition classify_result ::
  "text_codecs \<Rightarrow> u16 \<Rightarrow> TransactionResultJson \<Rightarrow> PostAttemptOutcome" where
  "classify_result codecs status parsed =
     (if status = 200 \<and> json_code parsed = 0 then
        (case Option.bind (json_tx_hash parsed) (normalize_candidate_hash codecs) of
           Some candidate \<Rightarrow> PostAccepted candidate
         | None \<Rightarrow> PostPossiblyDispatched (invalid_protocol
             (lit ''accepted vote-chain response omitted a canonical transaction hash'')))
      else if status = 422 \<and> json_code parsed \<noteq> 0 then
        (let rejected = PostRejected (json_code parsed)
               (if json_code parsed = NULLIFIER_ALREADY_SPENT_CODE then NullifierAlreadySpent
                else RejectionOther)
               (from_redacted_message ChainRejected
                  (rejection_text (json_code parsed) (json_log parsed)))
         in case json_tx_hash parsed of
              None \<Rightarrow> rejected None
            | Some hash \<Rightarrow>
                if hash = [] then rejected None
                else case normalize_candidate_hash codecs hash of
                    Some h \<Rightarrow> rejected (Some h)
                  | None \<Rightarrow> PostPossiblyDispatched (invalid_protocol
                      (lit ''rejected vote-chain response contained an invalid transaction hash'')))
      else if 300 \<le> status \<and> status \<le> 399 then
        PostPossiblyDispatched (invalid_protocol (lit ''vote-chain mutation redirect was rejected''))
      else PostPossiblyDispatched (invalid_protocol
        (lit ''unsupported vote-chain mutation response status='' @ decimal (unat status) @
         lit '' code='' @ decimal (unat (json_code parsed)))))"

definition parse_post_response ::
  "text_codecs \<Rightarrow> json_api \<Rightarrow> ChainHttpResponse \<Rightarrow> rust_str \<Rightarrow> bytes option \<Rightarrow> PostAttemptOutcome" where
  "parse_post_response codecs json response endpoint expected_batch_digest =
     (case gateway_shaped_route_answer json response endpoint of
        Some d \<Rightarrow> PostPossiblyDispatched d
      | None \<Rightarrow>
     case replaced_route_answer response endpoint of
        Some d \<Rightarrow> PostPossiblyDispatched d
      | None \<Rightarrow>
     case validate_json_response response of
        Inl d \<Rightarrow> PostPossiblyDispatched d
      | Inr _ \<Rightarrow>
     case parse_transaction_result json (http_body response) of
        None \<Rightarrow> PostPossiblyDispatched (invalid_protocol
          (lit ''vote-chain transaction response is malformed JSON''))
      | Some parsed \<Rightarrow>
     case check_batch_digest codecs expected_batch_digest (json_batch_digest parsed) of
        Inl d \<Rightarrow> PostPossiblyDispatched d
      | Inr _ \<Rightarrow> classify_result codecs (http_status response) parsed)"

definition parse_status_response ::
  "json_api \<Rightarrow> ChainHttpResponse \<Rightarrow> ChainSubmissionDiagnostic + TransactionStatusObservation" where
  "parse_status_response json response =
     and_then (validate_json_response response) (\<lambda>_.
     let status = http_status response in
     if status = 404 then
       and_then (ok_or (invalid_protocol (lit ''vote-chain pending response is malformed JSON''))
           (parse_gateway_error json (http_body response))) (\<lambda>error.
         if error \<noteq> lit ''tx not found''
         then Inl (invalid_protocol (lit ''vote-chain pending response has an unsupported error''))
         else Inr StatusPending)
     else if 300 \<le> status \<and> status \<le> 399
     then Inl (invalid_protocol (lit ''vote-chain transaction lookup redirect was rejected''))
     else if status \<notin> {200, 422}
     then Inl (invalid_protocol (lit ''unsupported vote-chain lookup HTTP status '' @ decimal (unat status)))
     else
       and_then (ok_or (invalid_protocol (lit ''vote-chain transaction status is malformed JSON''))
           (parse_transaction_status json (http_body response))) (\<lambda>parsed.
       and_then (ok_or (invalid_protocol (lit ''vote-chain transaction height is not a u64 decimal string''))
           (parse_u64 (status_height parsed))) (\<lambda>height.
       let committed = \<lparr>committed_height = height, committed_code = status_code parsed,
                        committed_events = status_events parsed\<rparr> in
       if status = 200 \<and> status_code parsed = 0 then Inr (CommittedSuccess committed)
       else if status = 422 \<and> status_code parsed \<noteq> 0 then Inr (CommittedFailure committed)
       else Inl (invalid_protocol
         (lit ''contradictory vote-chain lookup response status='' @ decimal (unat status) @
          lit '' code='' @ decimal (unat (status_code parsed)))))))"

section \<open>Posting and looking up\<close>

text \<open>
  What the transport did with one POST within the deadline: the deadline passed, with or without
  the dispatch marker set, or the transport returned.
\<close>

datatype post_delivery =
    DeadlinePassed bool
  | Delivered "ChainTransportError + ChainHttpResponse"

definition classify_delivery ::
  "text_codecs \<Rightarrow> json_api \<Rightarrow> rust_str \<Rightarrow> bytes option \<Rightarrow> post_delivery \<Rightarrow> PostAttemptOutcome" where
  "classify_delivery codecs json endpoint expected_batch_digest delivery =
     (case delivery of
        DeadlinePassed possible \<Rightarrow>
          if \<not> possible
          then PostDefinitelyUnsent (transport_error TransportDefinitelyUnsent
                 (lit ''vote-chain submission timed out before the transport released the request''))
          else PostPossiblyDispatched (from_redacted_message AmbiguousDispatch
                 (lit ''vote-chain submission timed out''))
      | Delivered (Inr response) \<Rightarrow>
          parse_post_response codecs json response endpoint expected_batch_digest
      | Delivered (Inl error) \<Rightarrow>
          if transport_kind error = TransportDefinitelyUnsent then PostDefinitelyUnsent error
          else PostPossiblyDispatched (from_redacted_message AmbiguousDispatch
                 (lit (transport_message error))))"

definition post ::
  "text_codecs \<Rightarrow> json_api \<Rightarrow> (ChainHttpRequest \<Rightarrow> bytes \<Rightarrow> post_delivery) \<Rightarrow> ChainProtocolClient \<Rightarrow>
   nat \<Rightarrow> rust_str \<Rightarrow> bytes \<Rightarrow> bytes option \<Rightarrow> PostAttemptOutcome" where
  "post codecs json transport client endpoint_index endpoint body expected_batch_digest =
     (if length body > MAX_CHAIN_HTTP_REQUEST_BYTES
      then PostLocalFailure (invalid_protocol (lit ''vote-chain request exceeds '' @
             decimal MAX_CHAIN_HTTP_REQUEST_BYTES @ lit '' byte limit''))
      else if endpoint_index \<ge> length (client_endpoints client)
      then PostLocalFailure (invalid_protocol (lit ''vote-chain endpoint index is out of range''))
      else
        let request = chain_request (join_chain_url (client_endpoints client ! endpoint_index) [endpoint])
              True (post_timeout (client_timing client))
        in classify_delivery codecs json endpoint expected_batch_digest (transport request body))"

fun request_endpoint :: "ChainSubmissionRequest \<Rightarrow> rust_str \<times> rust_str" where
  "request_endpoint (RequestDelegation _) = (lit ''delegate-vote'', lit ''delegation'')"
| "request_endpoint (RequestVote _) = (lit ''cast-vote'', lit ''vote'')"
| "request_endpoint (RequestVoteBatch _) = (lit ''cast-vote-batch'', lit ''vote-batch'')"
| "request_endpoint (RequestDelegateAndVoteBatch _) =
     (lit ''delegate-and-cast-vote-batch'', lit ''combined'')"
| "request_endpoint (RequestImportedDelegation _) = ([], [])"

definition submit_with_dispatch ::
  "text_codecs \<Rightarrow> json_api \<Rightarrow> (ChainHttpRequest \<Rightarrow> bytes \<Rightarrow> post_delivery) \<Rightarrow> ChainProtocolClient \<Rightarrow>
   nat \<Rightarrow> ChainSubmissionRequest \<Rightarrow> bytes option \<Rightarrow> PostAttemptOutcome" where
  "submit_with_dispatch codecs json transport client endpoint_index request expected_batch_digest =
     (case request_to_json json request of
        Inl error \<Rightarrow> PostLocalFailure (invalid_protocol
          (lit ''serialize '' @ snd (request_endpoint request) @ lit '' request failed: '' @ error))
      | Inr body \<Rightarrow>
          post codecs json transport client endpoint_index (fst (request_endpoint request)) body
            expected_batch_digest)"

text \<open>The lookup over all endpoints; a deadline is \<open>None\<close>.\<close>

definition observe_lookup ::
  "json_api \<Rightarrow> (ChainTransportError + ChainHttpResponse) option \<Rightarrow>
   LookupFailure + TransactionStatusObservation" where
  "observe_lookup json answer =
     (case answer of
        Some (Inr response) \<Rightarrow> map_err LookupProtocol (parse_status_response json response)
      | Some (Inl error) \<Rightarrow> Inl (LookupTransport error)
      | None \<Rightarrow> Inl (LookupTransport (transport_error TransportPossiblyDispatched
          (lit ''vote-chain transaction lookup timed out''))))"

fun status_loop ::
  "json_api \<Rightarrow> (ChainHttpRequest \<Rightarrow> (ChainTransportError + ChainHttpResponse) option) \<Rightarrow> rust_str \<Rightarrow> nat \<Rightarrow>
   rust_str list \<Rightarrow> bool \<Rightarrow> LookupFailure option \<Rightarrow> LookupFailure + TransactionStatusObservation" where
  "status_loop json get hash timeout [] saw_pending last_failure =
     (if saw_pending then Inr StatusPending
      else Inl (case last_failure of
          Some f \<Rightarrow> f
        | None \<Rightarrow> LookupProtocol (invalid_protocol (lit ''vote-chain lookup produced no endpoint result''))))"
| "status_loop json get hash timeout (base_url # urls) saw_pending last_failure =
     (case observe_lookup json (get (chain_request (join_chain_url base_url [lit ''tx'', hash]) False timeout)) of
        Inr StatusPending \<Rightarrow> status_loop json get hash timeout urls True last_failure
      | Inr committed \<Rightarrow> Inr committed
      | Inl error \<Rightarrow> status_loop json get hash timeout urls saw_pending (Some error))"

definition transaction_status ::
  "text_codecs \<Rightarrow> json_api \<Rightarrow> (ChainHttpRequest \<Rightarrow> (ChainTransportError + ChainHttpResponse) option) \<Rightarrow>
   ChainProtocolClient \<Rightarrow> CandidateTransactionHash \<Rightarrow> LookupFailure + TransactionStatusObservation" where
  "transaction_status codecs json get client h =
     status_loop json get (candidate_to_hex (hex_encode codecs) h)
       (lookup_timeout (client_timing client)) (client_endpoints client) False None"

section \<open>Canonical endpoints\<close>

lemma hex_value_less: "hex_value v = Some n \<Longrightarrow> n < 16"
  by (auto simp: hex_value_def split: if_splits)

lemma less_sixteen: "n < 16 \<longleftrightarrow> n \<in> {0, 1, 2, 3, 4, 5, 6, 7, 8, 9, 10, 11, 12, 13, 14, 15 :: nat}"
  by (simp only: insert_iff empty_iff) arith

lemma hex_value_HEX: "n < 16 \<Longrightarrow> hex_value (HEX ! n) = Some n"
  unfolding less_sixteen by (elim insertE) (simp_all add: HEX_def lit_def hex_value_def)

lemma percent_not_unreserved [simp]: "\<not> unreserved 0x25"
  by (simp add: unreserved_def is_ascii_alphanumeric_def)

text \<open>
  Canonical percent escapes. Normalizing the path of an endpoint twice gives the same as
  normalizing it once, so two spellings of one path are compared in one canonical form.
\<close>

lemma normalize_percent_escapes_idempotent:
  assumes "normalize_percent_escapes p = Some q"
  shows "normalize_percent_escapes q = Some q"
  using assms
proof (induction p arbitrary: q rule: normalize_percent_escapes.induct)
  case (2 c rest)
  show ?case
  proof (cases "c = 0x25")
    case True
    then obtain h l remaining high low n where rest: "rest = h # l # remaining"
      "hex_value h = Some high" "hex_value l = Some low"
      "normalize_percent_escapes remaining = Some n"
      "q = (if unreserved (high * 16 + low) then [high * 16 + low] else [0x25, HEX ! high, HEX ! low]) @ n"
      using 2(3) by (auto simp: Let_def split: list.splits option.splits)
    with 2(2) [OF _ rest(1)] True have "normalize_percent_escapes n = Some n" by simp
    with rest show ?thesis
      using hex_value_HEX [OF hex_value_less] by (auto simp: Let_def)
  qed (use 2 in auto)
qed simp

lemma canonical_endpoints_Inr:
  "canonical_endpoints api net acc urls = Inr es \<longleftrightarrow>
     (\<exists>new. es = acc @ new \<and> distinct new \<and> set acc \<inter> set new = {} \<and>
        list_all2 (\<lambda>url endpoint. canonicalize_chain_base_url api url net = Inr endpoint) urls new)"
proof (induction urls arbitrary: acc)
  case (Cons url urls)
  show ?case
  proof (cases "canonicalize_chain_base_url api url net")
    case (Inr endpoint)
    then show ?thesis
      using Cons [of "acc @ [endpoint]"] by (auto simp: list_all2_Cons1)
  qed (simp add: list_all2_Cons1)
qed auto

lemma timing_new_Inr:
  "timing_new p l = Inr t \<longleftrightarrow>
     t = \<lparr>post_timeout = p, lookup_timeout = l\<rparr> \<and>
     seconds 120 \<le> p \<and> p \<le> seconds 600 \<and> 1 \<le> l \<and> l \<le> seconds 600"
  by (auto simp: timing_new_def MIN_CHAIN_POST_TIMEOUT_def MAX_CHAIN_REQUEST_TIMEOUT_def Suc_le_eq)

lemma client_with_timing_length:
  assumes "client_with_timing api net urls timing = Inr c"
  shows "length (client_endpoints c) = length urls" "1 \<le> length urls"
  using assms
  by (auto simp: client_with_timing_def result_simps canonical_endpoints_Inr Suc_le_eq list_all2_lengthD split: if_splits)

section \<open>Classification\<close>

lemma eq_ignore_ascii_case_length: "eq_ignore_ascii_case a b \<Longrightarrow> length a = length b"
  by (auto simp: eq_ignore_ascii_case_def to_ascii_lowercase_def dest: map_eq_imp_length_eq)

lemma media_type_exclusive:
  "has_media_type r (lit ''application/json'') \<Longrightarrow> \<not> has_media_type r (lit ''text/html'')"
  by (auto simp: has_media_type_def lit_def split: option.splits list.splits
      dest!: eq_ignore_ascii_case_length)

lemma validate_json_response_Inr:
  "validate_json_response r = Inr u \<longleftrightarrow>
     length (http_body r) \<le> MAX_CHAIN_HTTP_RESPONSE_BYTES \<and> is_json_content_type r"
  by (auto simp: validate_json_response_def Let_def)

text \<open>An answer that reaches the verdict: bounded, JSON, well-formed and with the right digest.\<close>

definition verdict_body ::
  "text_codecs \<Rightarrow> json_api \<Rightarrow> bytes option \<Rightarrow> ChainHttpResponse \<Rightarrow> TransactionResultJson \<Rightarrow> bool" where
  "verdict_body codecs json digest r parsed \<longleftrightarrow>
     length (http_body r) \<le> MAX_CHAIN_HTTP_RESPONSE_BYTES \<and> is_json_content_type r \<and>
     parse_transaction_result json (http_body r) = Some parsed \<and>
     check_batch_digest codecs digest (json_batch_digest parsed) = Inr ()"

lemma parse_post_response_verdict:
  assumes "http_status r \<notin> {404, 405}" and "verdict_body codecs json digest r parsed"
  shows "parse_post_response codecs json r endpoint digest = classify_result codecs (http_status r) parsed"
proof -
  have "replaced_route_answer r endpoint = None"
    using assms media_type_exclusive
    by (auto simp: replaced_route_answer_def verdict_body_def is_json_content_type_def)
  moreover have "gateway_shaped_route_answer json r endpoint = None"
    using assms(1) by (simp add: gateway_shaped_route_answer_def)
  ultimately show ?thesis
    using assms(2) validate_json_response_Inr [of r "()"]
    by (simp add: parse_post_response_def verdict_body_def)
qed

lemma parse_post_response_other:
  "parse_post_response codecs json r endpoint digest = out \<Longrightarrow>
     (\<exists>d. out = PostPossiblyDispatched d) \<or>
     (http_status r \<notin> {404, 405} \<and>
      (\<exists>parsed. verdict_body codecs json digest r parsed \<and> out = classify_result codecs (http_status r) parsed))"
  by (auto simp: parse_post_response_def verdict_body_def validate_json_response_Inr
      replaced_route_answer_def split: option.splits sum.splits if_splits)

lemma classify_result_cases:
  "classify_result codecs status parsed = PostAccepted h \<longleftrightarrow>
     status = 200 \<and> json_code parsed = 0 \<and>
     (\<exists>t. json_tx_hash parsed = Some t \<and> normalize_candidate_hash codecs t = Some h)"
  "classify_result codecs status parsed = PostRejected code kind d c \<Longrightarrow>
     status = 422 \<and> code = json_code parsed \<and> code \<noteq> 0 \<and> (kind = NullifierAlreadySpent \<longleftrightarrow> code = 2)"
  "classify_result codecs status parsed \<noteq> PostDefinitelyUnsent e"
  "classify_result codecs status parsed \<noteq> PostLocalFailure f"
  by (auto simp: classify_result_def Let_def NULLIFIER_ALREADY_SPENT_CODE_def
      split: option.splits if_splits bind_splits)

lemma parse_post_accepted:
  "parse_post_response codecs json r endpoint digest = PostAccepted h \<longleftrightarrow>
     (\<exists>parsed t. http_status r = 200 \<and> verdict_body codecs json digest r parsed \<and>
        json_code parsed = 0 \<and> json_tx_hash parsed = Some t \<and> normalize_candidate_hash codecs t = Some h)"
  (is "?lhs \<longleftrightarrow> ?rhs")
proof
  assume ?lhs
  from parse_post_response_other [OF this] show ?rhs
    by (metis PostAttemptOutcome.distinct(7) classify_result_cases(1))
next
  assume ?rhs
  then obtain parsed t where v: "http_status r = 200" "verdict_body codecs json digest r parsed"
    "json_code parsed = 0" "json_tx_hash parsed = Some t" "normalize_candidate_hash codecs t = Some h"
    by blast
  then have "classify_result codecs (http_status r) parsed = PostAccepted h"
    by (simp add: classify_result_cases)
  then show ?lhs
    using parse_post_response_verdict [OF _ v(2), of endpoint] v(1) by simp
qed

lemma parse_post_rejected:
  assumes "parse_post_response codecs json r endpoint digest = PostRejected code kind d c"
  shows "\<exists>parsed. http_status r = 422 \<and> verdict_body codecs json digest r parsed \<and>
    json_code parsed = code \<and> code \<noteq> 0 \<and> (kind = NullifierAlreadySpent \<longleftrightarrow> code = 2)"
proof -
  obtain parsed where p: "verdict_body codecs json digest r parsed"
    "classify_result codecs (http_status r) parsed = PostRejected code kind d c"
    using parse_post_response_other [OF assms] by auto
  from classify_result_cases(2) [OF p(2)] p(1) show ?thesis by auto
qed

lemma parse_post_dispatched:
  "parse_post_response codecs json r endpoint digest \<noteq> PostDefinitelyUnsent e"
  "parse_post_response codecs json r endpoint digest \<noteq> PostLocalFailure f"
  using parse_post_response_other [of codecs json r endpoint digest] classify_result_cases(3,4)
  by (metis PostAttemptOutcome.distinct)+

text \<open>
  C34: Verdicts of a POST. Of a request that was handed to the transport, success is reported
  exactly for a bounded JSON answer with status 200, code zero, the expected batch digest and a
  canonical hash; a rejection only for status 422 and a non-zero code, as spent nullifier exactly
  for code 2; definitely unsent exactly when the transport says so or the deadline passed before
  it released the request. Every other answer keeps the possible dispatch.
\<close>

theorem post_verdicts_sound:
  assumes "request_to_json json request = Inr body" and "length body \<le> MAX_CHAIN_HTTP_REQUEST_BYTES"
    and "endpoint_index < length (client_endpoints client)"
    and "delivery = transport (chain_request (join_chain_url (client_endpoints client ! endpoint_index)
      [fst (request_endpoint request)]) True (post_timeout (client_timing client))) body"
    and "out = submit_with_dispatch codecs json transport client endpoint_index request digest"
  shows "(out = PostAccepted h \<longleftrightarrow> (\<exists>r parsed t. delivery = Delivered (Inr r) \<and> http_status r = 200 \<and>
        verdict_body codecs json digest r parsed \<and> json_code parsed = 0 \<and>
        json_tx_hash parsed = Some t \<and> normalize_candidate_hash codecs t = Some h)) \<and>
    (out = PostRejected code kind d c \<longrightarrow> (\<exists>r parsed. delivery = Delivered (Inr r) \<and> http_status r = 422 \<and>
        verdict_body codecs json digest r parsed \<and> json_code parsed = code \<and> code \<noteq> 0 \<and>
        (kind = NullifierAlreadySpent \<longleftrightarrow> code = 2))) \<and>
    ((\<exists>e. out = PostDefinitelyUnsent e) \<longleftrightarrow> delivery = DeadlinePassed False \<or>
        (\<exists>e. delivery = Delivered (Inl e) \<and> transport_kind e = TransportDefinitelyUnsent)) \<and>
    out \<noteq> PostLocalFailure f"
proof -
  have out: "out = classify_delivery codecs json (fst (request_endpoint request)) digest delivery"
    using assms by (simp add: submit_with_dispatch_def post_def Let_def)
  show ?thesis
  proof (cases delivery)
    case (DeadlinePassed possible)
    then show ?thesis by (simp add: out classify_delivery_def)
  next
    case (Delivered answer)
    then show ?thesis
      by (cases answer)
        (auto simp: out classify_delivery_def parse_post_accepted parse_post_dispatched
          dest: parse_post_rejected)
  qed
qed

definition sample_json :: json_api where
  "sample_json =
     \<lparr>parse_transaction_result = (\<lambda>_. Some \<lparr>json_tx_hash = Some (replicate 64 0x30), json_code = 0,
        json_log = [], json_batch_digest = DigestAbsent\<rparr>),
      parse_transaction_status = (\<lambda>_. None), parse_gateway_error = (\<lambda>_. None),
      request_to_json = (\<lambda>_. Inr [])\<rparr>"

definition sample_answer :: ChainHttpResponse where
  "sample_answer = \<lparr>http_status = 200, http_body = [], http_content_type = Some (lit ''application/json''),
     http_response_headers = []\<rparr>"

definition sample_client :: ChainProtocolClient where
  "sample_client = \<lparr>client_endpoints = [lit ''https://a''], client_timing = default_timing\<rparr>"

theorem post_verdicts_sound_witness:
  "submit_with_dispatch sample_codecs sample_json (\<lambda>_ _. Delivered (Inr sample_answer)) sample_client 0
     (RequestVoteBatch \<lparr>wire_votes = []\<rparr>) None = PostAccepted (replicate 32 0)"
proof -
  have "trim (lit ''application/json'') = lit ''application/json''"
    "split_on 0x3B (lit ''application/json'') = [lit ''application/json'']"
    by (auto simp: lit_def is_whitespace_def intro!: trim_no_whitespace split_on_single)
  then have "is_json_content_type sample_answer"
    by (simp add: is_json_content_type_def has_media_type_def sample_answer_def eq_ignore_ascii_case_def)
  then have "verdict_body sample_codecs sample_json None sample_answer \<lparr>json_tx_hash = Some (replicate 64 0x30),
      json_code = 0, json_log = [], json_batch_digest = DigestAbsent\<rparr>"
    by (simp add: verdict_body_def sample_answer_def sample_json_def check_batch_digest_def)
  moreover have "normalize_candidate_hash sample_codecs (replicate 64 0x30) = Some (replicate 32 0)"
    by (simp add: normalize_candidate_hash_def to_ascii_lowercase_def ascii_lower_def is_ascii_hexdigit_def
        list_all_length candidate_from_str_def lowercase_hex_char_def sample_codecs_def)
  moreover have "request_to_json sample_json (RequestVoteBatch \<lparr>wire_votes = []\<rparr>) = Inr []"
    by (simp add: sample_json_def)
  moreover have "http_status sample_answer = 200" "0 < length (client_endpoints sample_client)"
    by (simp_all add: sample_answer_def sample_client_def)
  ultimately show ?thesis
    using post_verdicts_sound [of sample_json "RequestVoteBatch \<lparr>wire_votes = []\<rparr>" "[]" 0 sample_client
        "Delivered (Inr sample_answer)" "\<lambda>_ _. Delivered (Inr sample_answer)" _ sample_codecs None
        "replicate 32 0"] by fastforce
qed

section \<open>Lookups\<close>

definition committed_answer :: "LookupFailure + TransactionStatusObservation \<Rightarrow> bool" where
  "committed_answer a \<longleftrightarrow> (\<exists>c. a = Inr (CommittedSuccess c) \<or> a = Inr (CommittedFailure c))"

text \<open>The verdict of a list of endpoint answers, without the loop.\<close>

definition status_reference ::
  "(LookupFailure + TransactionStatusObservation) list \<Rightarrow> LookupFailure + TransactionStatusObservation" where
  "status_reference answers =
     (if \<exists>a \<in> set answers. committed_answer a then hd (filter committed_answer answers)
      else if Inr StatusPending \<in> set answers then Inr StatusPending
      else if answers = [] then
        Inl (LookupProtocol (invalid_protocol (lit ''vote-chain lookup produced no endpoint result'')))
      else last answers)"

lemma status_loop_reference:
  "status_loop json get hash timeout urls pending failure =
     (let answers = map (\<lambda>u. observe_lookup json
            (get (chain_request (join_chain_url u [lit ''tx'', hash]) False timeout))) urls in
      if \<exists>a \<in> set answers. committed_answer a then hd (filter committed_answer answers)
      else if pending \<or> Inr StatusPending \<in> set answers then Inr StatusPending
      else if answers \<noteq> [] then last answers
      else Inl (case failure of Some f \<Rightarrow> f
        | None \<Rightarrow> LookupProtocol (invalid_protocol (lit ''vote-chain lookup produced no endpoint result''))))"
proof (induction urls arbitrary: pending failure)
  case (Cons u urls)
  let ?a = "observe_lookup json (get (chain_request (join_chain_url u [lit ''tx'', hash]) False timeout))"
  show ?case
  proof (cases ?a)
    case (Inl e)
    then show ?thesis
      using Cons [of pending "Some e"] by (auto simp: Let_def committed_answer_def)
  next
    case (Inr s)
    then show ?thesis
      using Cons [of True failure] by (cases s) (auto simp: Let_def committed_answer_def)
  qed
qed (simp add: Let_def)

text \<open>
  C35: Status lookup. Looking a transaction up over all endpoints returns the verdict of the first
  endpoint that reports it committed; without one it is pending as soon as some endpoint says so,
  and only if no endpoint gave a usable answer is the last failure returned.
\<close>

theorem transaction_status_is_reference:
  "transaction_status codecs json get client h =
     status_reference (map (\<lambda>u. observe_lookup json
       (get (chain_request (join_chain_url u [lit ''tx'', candidate_to_hex (hex_encode codecs) h]) False
          (lookup_timeout (client_timing client))))) (client_endpoints client))"
  by (simp add: transaction_status_def status_loop_reference status_reference_def Let_def)

text \<open>
  C36: Endpoint sets. A client is constructed exactly from one to eight configured URLs that all have
  a canonical form, no two the same, with a POST deadline of at least the 120 seconds the chain may
  take to check a proof and no deadline above ten minutes. Its endpoints are the canonical forms of
  the configured URLs, in their order, and its deadlines are the configured ones.
\<close>

theorem client_endpoints_canonical:
  "client_with_timing api net urls timing = Inr c \<longleftrightarrow>
     1 \<le> length urls \<and> length urls \<le> 8 \<and>
     list_all2 (\<lambda>url endpoint. canonicalize_chain_base_url api url net = Inr endpoint) urls (client_endpoints c) \<and>
     distinct (client_endpoints c) \<and> client_timing c = timing \<and>
     seconds 120 \<le> post_timeout timing \<and> post_timeout timing \<le> seconds 600 \<and>
     1 \<le> lookup_timeout timing \<and> lookup_timeout timing \<le> seconds 600"
  by (cases c)
    (auto simp: client_with_timing_def result_simps timing_new_Inr canonical_endpoints_Inr MAX_CHAIN_ENDPOINTS_def Suc_le_eq)

definition sample_url_api :: "rust_str url_api" where
  "sample_url_api =
     \<lparr>url_parse = Some, url_scheme = (\<lambda>_. lit ''https''), url_username = (\<lambda>_. []), url_password = (\<lambda>_. None),
      url_query = (\<lambda>_. None), url_fragment = (\<lambda>_. None), url_domain = (\<lambda>_. None),
      url_set_host = (\<lambda>u _. Some u), url_port = (\<lambda>_. None), url_clear_port = Some,
      url_path = (\<lambda>_. []), url_set_path = (\<lambda>u _. u), url_as_str = (\<lambda>u. u)\<rparr>"

theorem client_endpoints_canonical_witness:
  "client_new sample_url_api Mainnet [lit ''a/'', lit ''b''] =
     Inr \<lparr>client_endpoints = [lit ''a'', lit ''b''], client_timing = default_timing\<rparr>"
proof -
  have "canonicalize_chain_base_url sample_url_api (lit ''a/'') Mainnet = Inr (lit ''a'')"
    "canonicalize_chain_base_url sample_url_api (lit ''b'') Mainnet = Inr (lit ''b'')"
    by (simp_all add: canonicalize_chain_base_url_def sample_url_api_def lit_def trim_def
        is_whitespace_def trim_end_slashes_def)
  then show ?thesis
    unfolding client_new_def
    by (simp add: client_endpoints_canonical default_timing_def seconds_def lit_def)
qed

end
