(* ===== verification/Sqlite_Rows.thy ===== *)
theory Sqlite_Rows
  imports Submission_Requests
begin

text \<open>
  Rows of the \<open>chain_submissions\<close> table
  (\<open>zcash_voting/src/chain_submission/store/sqlite.rs\<close>, schema
  \<open>zcash_voting/src/storage/migrations/001_init.sql\<close>): the columns, the CHECK constraints,
  unique indexes and triggers, and the translation between a row and the durable record.
  INTEGER columns are SQLite's signed integers; a \<open>u64\<close> that does not fit is a conversion error.
\<close>

section \<open>Rows\<close>

record submission_row =
  row_identity_key :: bytes
  row_round_id :: rust_str
  row_wallet_id :: bytes
  row_network :: string
  row_bundle_index :: int
  row_kind :: string
  row_proposal_id :: "int option"
  row_ordered_batch_digest :: "bytes option"
  row_generation_digest :: bytes
  row_state :: string
  row_candidate_transaction_hash :: "bytes option"
  row_committed_post_reservations :: int
  row_tracking_started_at :: "int option"
  row_diagnostic_kind :: "string option"
  row_diagnostic :: "string option"
  row_confirmation_source :: "string option"
  row_confirmed_transaction_hash :: "bytes option"
  row_final_van_position :: "int option"
  row_vote_commitment_positions :: "bytes option"
  row_created_at :: int
  row_updated_at :: int

text \<open>The errors of the SQL layer that the store distinguishes or can cause.\<close>

datatype sql_error =
    InvalidQuery
  | QueryReturnedNoRows
  | IntegerOutOfRange
  | ConstraintViolation
  | StorageFault rust_str

definition u64_to_sql :: "u64 \<Rightarrow> sql_error + int" where
  "u64_to_sql v = (if v \<le> i64_max then Inr (uint v) else Inl IntegerOutOfRange)"

definition u64_from_sql :: "int \<Rightarrow> sql_error + u64" where
  "u64_from_sql i = (if i < 0 then Inl InvalidQuery else Inr (word_of_int i))"

section \<open>Position lists\<close>

definition encode_positions :: "u64 list \<Rightarrow> bytes" where
  "encode_positions positions =
     [1] @ u32_to_be_bytes (word_of_nat (length positions)) @ concat (map u64_to_be_bytes positions)"

definition decode_positions :: "bytes \<Rightarrow> sql_error + u64 list" where
  "decode_positions encoded =
     (if length encoded < 5 \<or> encoded ! 0 \<noteq> 1 then Inl InvalidQuery
      else
        let n = unat (u32_from_be_bytes (take 4 (drop 1 encoded)))
        in if length encoded \<noteq> 5 + n * 8 then Inl InvalidQuery
           else Inr (map u64_from_be_bytes (chunks_exact 8 (drop 5 encoded))))"

lemma decode_encode_positions:
  assumes "length ps < 2 ^ 32"
  shows "decode_positions (encode_positions ps) = Inr ps"
proof -
  have len: "length (concat (map u64_to_be_bytes ps)) = length ps * 8"
    using length_concat_uniform [of "map u64_to_be_bytes ps" 8] by simp
  have n: "unat (word_of_nat (length ps) :: u32) = length ps"
    using assms by (simp add: unat_of_nat)
  have "chunks_exact 8 (concat (map u64_to_be_bytes ps)) = map u64_to_be_bytes ps"
    by (rule chunks_exact_concat) auto
  then show ?thesis
    by (simp add: decode_positions_def encode_positions_def len n Let_def comp_def)
qed

section \<open>Schema\<close>

text \<open>
  The CHECK constraints of the table. A CHECK passes when it evaluates to NULL, which is why an
  absent value passes some of them.
\<close>

definition check_columns :: "submission_row \<Rightarrow> bool" where
  "check_columns row \<longleftrightarrow>
     row_network row \<in> {''mainnet'', ''testnet'', ''regtest''} \<and>
     0 \<le> row_bundle_index row \<and> row_bundle_index row \<le> 4294967295 \<and>
     row_kind row \<in> {''delegation'', ''vote'', ''vote_batch'', ''delegate_and_cast_vote_batch''} \<and>
     length (row_generation_digest row) = 32 \<and>
     row_state row \<in> {''submitting'', ''tracking'', ''recovering'', ''submitted_without_hash'',
       ''confirmed'', ''rejected''} \<and>
     0 \<le> row_committed_post_reservations row \<and>
     row_confirmation_source row \<in> {None, Some ''hash'', Some ''tree''} \<and>
     0 \<le> row_created_at row \<and> row_created_at row \<le> row_updated_at row \<and>
     32 \<le> length (row_identity_key row)"

definition check_kind :: "submission_row \<Rightarrow> bool" where
  "check_kind row \<longleftrightarrow>
     (row_kind row = ''delegation'' \<and> row_proposal_id row = None \<and>
        row_ordered_batch_digest row = None) \<or>
     (row_kind row = ''vote'' \<and>
        (case row_proposal_id row of None \<Rightarrow> True | Some p \<Rightarrow> 1 \<le> p \<and> p \<le> 50) \<and>
        row_ordered_batch_digest row = None) \<or>
     (row_kind row \<in> {''vote_batch'', ''delegate_and_cast_vote_batch''} \<and>
        row_proposal_id row = None \<and>
        (case row_ordered_batch_digest row of None \<Rightarrow> True | Some b \<Rightarrow> length b = 32))"

definition check_state :: "submission_row \<Rightarrow> bool" where
  "check_state row \<longleftrightarrow>
     (case row_candidate_transaction_hash row of None \<Rightarrow> True | Some h \<Rightarrow> length h = 32) \<and>
     (case row_confirmed_transaction_hash row of None \<Rightarrow> True | Some h \<Rightarrow> length h = 32) \<and>
     ((row_state row = ''submitting'' \<and> row_candidate_transaction_hash row = None \<and>
         row_tracking_started_at row = None) \<or>
      (row_state row = ''tracking'' \<and> row_candidate_transaction_hash row \<noteq> None \<and>
         row_tracking_started_at row \<noteq> None) \<or>
      row_state row \<in> {''recovering'', ''submitted_without_hash'', ''confirmed'', ''rejected''}) \<and>
     (row_state row \<noteq> ''submitted_without_hash'' \<or>
        (row_candidate_transaction_hash row = None \<and> row_confirmed_transaction_hash row = None \<and>
         row_final_van_position row = None \<and> row_vote_commitment_positions row = None \<and>
         row_diagnostic_kind row \<noteq> None)) \<and>
     ((row_diagnostic_kind row = None) = (row_diagnostic row = None)) \<and>
     (case row_diagnostic row of None \<Rightarrow> True | Some m \<Rightarrow> length m \<le> 512) \<and>
     ((row_state row = ''confirmed'') = (row_confirmation_source row \<noteq> None)) \<and>
     (row_state row \<noteq> ''confirmed'' \<or>
        (row_final_van_position row \<noteq> None \<and> row_vote_commitment_positions row \<noteq> None)) \<and>
     (row_confirmation_source row \<noteq> Some ''hash'' \<or>
        (row_confirmed_transaction_hash row \<noteq> None \<and>
         (row_candidate_transaction_hash row = None \<or>
          row_candidate_transaction_hash row = row_confirmed_transaction_hash row))) \<and>
     (row_confirmation_source row \<noteq> Some ''tree'' \<or> row_confirmed_transaction_hash row = None)"

definition schema_ok :: "submission_row \<Rightarrow> bool" where
  "schema_ok row \<longleftrightarrow> check_columns row \<and> check_kind row \<and> check_state row"

text \<open>The unique indexes, between two rows of the table.\<close>

definition rows_compatible :: "submission_row \<Rightarrow> submission_row \<Rightarrow> bool" where
  "rows_compatible a b \<longleftrightarrow>
     row_identity_key a \<noteq> row_identity_key b \<and>
     (row_wallet_id a, row_network a, row_round_id a, row_kind a, row_bundle_index a,
      row_proposal_id a, row_ordered_batch_digest a) \<noteq>
     (row_wallet_id b, row_network b, row_round_id b, row_kind b, row_bundle_index b,
      row_proposal_id b, row_ordered_batch_digest b) \<and>
     (row_candidate_transaction_hash a = None \<or>
      row_candidate_transaction_hash a \<noteq> row_candidate_transaction_hash b) \<and>
     (row_confirmed_transaction_hash a = None \<or>
      row_confirmed_transaction_hash a \<noteq> row_confirmed_transaction_hash b)"

text \<open>The triggers on updates of one row.\<close>

definition update_allowed :: "submission_row \<Rightarrow> submission_row \<Rightarrow> bool" where
  "update_allowed old new \<longleftrightarrow>
     row_committed_post_reservations old \<le> row_committed_post_reservations new \<and>
     (row_tracking_started_at old = None \<or>
      row_tracking_started_at new = row_tracking_started_at old)"

definition table_ok :: "submission_row list \<Rightarrow> bool" where
  "table_ok rows \<longleftrightarrow>
     (\<forall>row \<in> set rows. schema_ok row) \<and>
     sorted_wrt rows_compatible rows"

lemma rows_compatible_sym: "rows_compatible a b \<longleftrightarrow> rows_compatible b a"
  by (auto simp: rows_compatible_def)

section \<open>Loading a row\<close>

definition parse_diagnostic_kind :: "string \<Rightarrow> sql_error + ChainSubmissionDiagnosticKind" where
  "parse_diagnostic_kind v = ok_or InvalidQuery (kind_from_stable_name v)"

definition bytes32 :: "bytes \<Rightarrow> sql_error + bytes" where
  "bytes32 b = (if length b = 32 then Inr b else Inl InvalidQuery)"

text \<open>\<open>Option::map(f).transpose()\<close> for a fallible \<open>f\<close>.\<close>

definition map_transpose :: "('a \<Rightarrow> 'e + 'b) \<Rightarrow> 'a option \<Rightarrow> 'e + 'b option" where
  "map_transpose f x = (case x of None \<Rightarrow> Inr None | Some a \<Rightarrow> and_then (f a) (\<lambda>b. Inr (Some b)))"

definition load_diagnostic ::
  "string option \<Rightarrow> string option \<Rightarrow> sql_error + ChainSubmissionDiagnostic option" where
  "load_diagnostic kind message =
     (case (kind, message) of
        (Some k, Some m) \<Rightarrow>
          and_then (parse_diagnostic_kind k) (\<lambda>parsed. Inr (Some (from_redacted_message parsed (lit m))))
      | (None, None) \<Rightarrow> Inr None
      | _ \<Rightarrow> Inl InvalidQuery)"

definition load_confirmation ::
  "submission_row \<Rightarrow> sql_error + (string \<times> u64 \<times> u64 list \<times> CandidateTransactionHash option) option" where
  "load_confirmation row =
     (case row_confirmation_source row of
        None \<Rightarrow> Inr None
      | Some src \<Rightarrow>
          and_then (and_then (ok_or InvalidQuery (row_final_van_position row)) u64_from_sql) (\<lambda>final_van.
          and_then (and_then (ok_or InvalidQuery (row_vote_commitment_positions row)) decode_positions)
            (\<lambda>positions.
          and_then (map_transpose bytes32 (row_confirmed_transaction_hash row)) (\<lambda>hash.
            Inr (Some (src, final_van, positions, hash))))))"

definition load_state ::
  "string \<Rightarrow> CandidateTransactionHash option \<Rightarrow> ChainSubmissionDiagnostic option \<Rightarrow>
   (string \<times> u64 \<times> u64 list \<times> CandidateTransactionHash option) option \<Rightarrow>
   sql_error + SubmissionRecordState" where
  "load_state name candidate diagnostic conf =
     (if name = ''submitting'' then Inr Submitting
      else if name = ''tracking'' then
        and_then (ok_or InvalidQuery candidate) (\<lambda>h. Inr (Tracking h))
      else if name = ''recovering'' then
        and_then (ok_or InvalidQuery diagnostic) (\<lambda>d. Inr (Recovering candidate d))
      else if name = ''submitted_without_hash'' then
        and_then (ok_or InvalidQuery diagnostic) (\<lambda>d. Inr (SubmittedWithoutHash d))
      else if name = ''confirmed'' then
        and_then (ok_or InvalidQuery conf) (\<lambda>(src, final_van, positions, hash).
        and_then
          (if src = ''hash'' then
             and_then (ok_or InvalidQuery hash) (\<lambda>h.
               map_err (\<lambda>_. InvalidQuery) (confirmation_from_hash h final_van positions))
           else if src = ''tree'' then
             map_err (\<lambda>_. InvalidQuery) (confirmation_from_tree final_van positions)
           else Inl InvalidQuery)
          (\<lambda>v. Inr (Confirmed v)))
      else if name = ''rejected'' then
        and_then (ok_or InvalidQuery diagnostic) (\<lambda>d. Inr (Rejected d))
      else Inl InvalidQuery)"

definition load_one ::
  "ChainSubmissionIdentity \<Rightarrow> submission_row \<Rightarrow> sql_error + StoredChainSubmission" where
  "load_one identity row =
     and_then (load_diagnostic (row_diagnostic_kind row) (row_diagnostic row)) (\<lambda>diagnostic.
     and_then (map_transpose bytes32 (row_candidate_transaction_hash row)) (\<lambda>candidate.
     and_then (load_confirmation row) (\<lambda>conf.
     and_then (load_state (row_state row) candidate diagnostic conf) (\<lambda>state.
     and_then (bytes32 (row_generation_digest row)) (\<lambda>dig.
     and_then (u64_from_sql (row_committed_post_reservations row)) (\<lambda>attempts.
     and_then (map_transpose u64_from_sql (row_tracking_started_at row)) (\<lambda>tracking.
     and_then (u64_from_sql (row_created_at row)) (\<lambda>created.
     and_then (u64_from_sql (row_updated_at row)) (\<lambda>updated.
       Inr \<lparr>stored_identity = identity, stored_digest = dig, stored_state = state,
            committed_post_reservations = attempts, tracking_started_at = tracking,
            stored_diagnostic = diagnostic, created_at = created, updated_at = updated\<rparr>)))))))))"

section \<open>Writing rows\<close>

fun target_columns :: "ChainSubmissionTarget \<Rightarrow> string \<times> int option \<times> bytes option" where
  "target_columns TargetDelegation = (''delegation'', None, None)"
| "target_columns (TargetVote proposal_id) = (''vote'', Some (uint proposal_id), None)"
| "target_columns (TargetVoteBatch dig) = (''vote_batch'', None, Some dig)"
| "target_columns (TargetDelegateAndVoteBatch dig) = (''delegate_and_cast_vote_batch'', None, Some dig)"

text \<open>The row of \<open>insert_fresh\<close>: every column not named in the INSERT is NULL.\<close>

definition fresh_row :: "text_codecs \<Rightarrow> StoredChainSubmission \<Rightarrow> sql_error + submission_row" where
  "fresh_row codecs r =
     (let identity = stored_identity r;
          (kind, proposal, batch) = target_columns (target identity)
      in
      and_then (u64_to_sql (committed_post_reservations r)) (\<lambda>attempts.
      and_then (u64_to_sql (created_at r)) (\<lambda>created.
        Inr \<lparr>row_identity_key = submission_identity_key identity,
             row_round_id = hex_encode codecs (vote_round_id identity),
             row_wallet_id = wallet_id identity, row_network = network_name (network identity),
             row_bundle_index = uint (bundle_index identity), row_kind = kind,
             row_proposal_id = proposal, row_ordered_batch_digest = batch,
             row_generation_digest = stored_digest r, row_state = ''submitting'',
             row_candidate_transaction_hash = None, row_committed_post_reservations = attempts,
             row_tracking_started_at = None, row_diagnostic_kind = None, row_diagnostic = None,
             row_confirmation_source = None, row_confirmed_transaction_hash = None,
             row_final_van_position = None, row_vote_commitment_positions = None,
             row_created_at = created, row_updated_at = created\<rparr>)))"

definition imported_row ::
  "text_codecs \<Rightarrow> StoredChainSubmission \<Rightarrow> CandidateTransactionHash \<Rightarrow> sql_error + submission_row" where
  "imported_row codecs r candidate =
     (let identity = stored_identity r in
      and_then (u64_to_sql (created_at r)) (\<lambda>created.
        Inr \<lparr>row_identity_key = submission_identity_key identity,
             row_round_id = hex_encode codecs (vote_round_id identity),
             row_wallet_id = wallet_id identity, row_network = network_name (network identity),
             row_bundle_index = uint (bundle_index identity), row_kind = ''delegation'',
             row_proposal_id = None, row_ordered_batch_digest = None,
             row_generation_digest = stored_digest r, row_state = ''tracking'',
             row_candidate_transaction_hash = Some candidate,
             row_committed_post_reservations = 0, row_tracking_started_at = Some created,
             row_diagnostic_kind = None, row_diagnostic = None,
             row_confirmation_source = None, row_confirmed_transaction_hash = None,
             row_final_van_position = None, row_vote_commitment_positions = None,
             row_created_at = created, row_updated_at = created\<rparr>))"

fun mutable_columns ::
  "StoredChainSubmission \<Rightarrow> SubmissionRecordState \<Rightarrow>
   string \<times> CandidateTransactionHash option \<times> ChainSubmissionDiagnostic option \<times>
   ChainSubmissionConfirmation option" where
  "mutable_columns r Submitting = (''submitting'', None, None, None)"
| "mutable_columns r (Tracking h) = (''tracking'', Some h, stored_diagnostic r, None)"
| "mutable_columns r (Recovering c d) = (''recovering'', c, Some d, None)"
| "mutable_columns r (SubmittedWithoutHash d) = (''submitted_without_hash'', None, Some d, None)"
| "mutable_columns r (Confirmed v) =
     (''confirmed'', transaction_hash (confirmation v), None, Some (confirmation v))"
| "mutable_columns r (Rejected d) = (''rejected'', None, Some d, None)"

fun source_name :: "ChainSubmissionConfirmationSource \<Rightarrow> string" where
  "source_name SourceHash = ''hash''"
| "source_name SourceTree = ''tree''"

text \<open>The UPDATE of \<open>persist_mutable\<close>, applied to the row it finds.\<close>

definition mutable_row :: "StoredChainSubmission \<Rightarrow> submission_row \<Rightarrow> sql_error + submission_row" where
  "mutable_row r row =
     (let (state, candidate, diagnostic, conf) = mutable_columns r (stored_state r) in
      and_then (u64_to_sql (committed_post_reservations r)) (\<lambda>attempts.
      and_then (map_transpose u64_to_sql (tracking_started_at r)) (\<lambda>tracking.
      and_then (map_transpose (\<lambda>c. u64_to_sql (final_van_position c)) conf) (\<lambda>final_van.
      and_then (u64_to_sql (updated_at r)) (\<lambda>updated.
        Inr (row\<lparr>row_state := state, row_candidate_transaction_hash := candidate,
             row_committed_post_reservations := attempts, row_tracking_started_at := tracking,
             row_diagnostic_kind := map_option (\<lambda>d. kind_as_str (diagnostic_kind d)) diagnostic,
             row_diagnostic := map_option diagnostic_message diagnostic,
             row_confirmation_source := map_option (\<lambda>c. source_name (source c)) conf,
             row_confirmed_transaction_hash := Option.bind conf transaction_hash,
             row_final_van_position := final_van,
             row_vote_commitment_positions :=
               map_option (\<lambda>c. encode_positions (vote_commitment_positions c)) conf,
             row_updated_at := updated\<rparr>))))))"

section \<open>Reading back what was written\<close>

lemma map_transpose_simps [simp]:
  "map_transpose f None = Inr None"
  "map_transpose f (Some a) = and_then (f a) (\<lambda>b. Inr (Some b))"
  by (simp_all add: map_transpose_def)

lemma u64_sql_simps [simp]:
  "v \<le> i64_max \<Longrightarrow> u64_to_sql v = Inr (uint v)"
  "u64_from_sql (uint v) = Inr v"
  by (simp_all add: u64_to_sql_def u64_from_sql_def)

lemma bytes32_Inr [simp]: "length b = 32 \<Longrightarrow> bytes32 b = Inr b"
  by (simp add: bytes32_def)

definition reload_diagnostic :: "ChainSubmissionDiagnostic \<Rightarrow> ChainSubmissionDiagnostic" where
  "reload_diagnostic d = from_redacted_message (diagnostic_kind d) (lit (diagnostic_message d))"

fun reload_state :: "SubmissionRecordState \<Rightarrow> SubmissionRecordState" where
  "reload_state (Recovering c d) = Recovering c (reload_diagnostic d)"
| "reload_state (SubmittedWithoutHash d) = SubmittedWithoutHash (reload_diagnostic d)"
| "reload_state (Rejected d) = Rejected (reload_diagnostic d)"
| "reload_state s = s"

definition persisted_diagnostic :: "StoredChainSubmission \<Rightarrow> ChainSubmissionDiagnostic option" where
  "persisted_diagnostic r = fst (snd (snd (mutable_columns r (stored_state r))))"

definition reload_record :: "StoredChainSubmission \<Rightarrow> StoredChainSubmission" where
  "reload_record r = r\<lparr>stored_state := reload_state (stored_state r),
     stored_diagnostic := map_option reload_diagnostic (persisted_diagnostic r)\<rparr>"

text \<open>The values the Rust types and the earlier validation guarantee for a state.\<close>

definition valid_hash :: "CandidateTransactionHash option \<Rightarrow> bool" where
  "valid_hash h \<longleftrightarrow> (case h of None \<Rightarrow> True | Some b \<Rightarrow> length b = 32)"

fun valid_state :: "SubmissionRecordState \<Rightarrow> bool" where
  "valid_state (Tracking h) \<longleftrightarrow> length h = 32"
| "valid_state (Recovering c _) \<longleftrightarrow> valid_hash c"
| "valid_state (Confirmed v) \<longleftrightarrow> valid_confirmation v \<and>
     valid_hash (transaction_hash (confirmation v)) \<and>
     length (vote_commitment_positions (confirmation v)) < 2 ^ 32"
| "valid_state _ \<longleftrightarrow> True"

definition in_sql_range :: "StoredChainSubmission \<Rightarrow> bool" where
  "in_sql_range r \<longleftrightarrow>
     committed_post_reservations r \<le> i64_max \<and> created_at r \<le> i64_max \<and> updated_at r \<le> i64_max \<and>
     (case tracking_started_at r of None \<Rightarrow> True | Some t \<Rightarrow> t \<le> i64_max)"

lemma load_diagnostic_persisted:
  "load_diagnostic (map_option (\<lambda>d. kind_as_str (diagnostic_kind d)) diag)
     (map_option diagnostic_message diag) = Inr (map_option reload_diagnostic diag)"
  by (cases diag) (simp_all add: load_diagnostic_def parse_diagnostic_kind_def reload_diagnostic_def)

lemma map_transpose_tracking:
  assumes "case t of None \<Rightarrow> True | Some v \<Rightarrow> v \<le> i64_max"
  shows "map_transpose u64_to_sql t = Inr (map_option uint t)"
    and "map_transpose u64_from_sql (map_option uint t) = Inr t"
  using assms by (cases t; simp)+

lemma map_transpose_hash: "valid_hash h \<Longrightarrow> map_transpose bytes32 h = Inr h"
  by (cases h) (simp_all add: valid_hash_def)

lemma load_state_columns:
  assumes "valid_state s"
  shows "load_state (fst (mutable_columns r s)) (fst (snd (mutable_columns r s)))
      (map_option reload_diagnostic (fst (snd (snd (mutable_columns r s)))))
      (map_option (\<lambda>c. (source_name (source c), final_van_position c, vote_commitment_positions c,
         transaction_hash c)) (snd (snd (snd (mutable_columns r s))))) = Inr (reload_state s)"
proof (cases s)
  case (Confirmed v)
  with assms show ?thesis
    by (cases v)
      (auto simp: load_state_def result_simps confirmation_from_hash_Inr confirmation_from_tree_Inr
        intro!: ChainSubmissionConfirmation.equality)
qed (simp_all add: load_state_def)

lemma mutable_columns_confirmation:
  assumes "valid_state s" and "snd (snd (snd (mutable_columns r s))) = Some c"
  shows "final_van_position c \<le> i64_max" and "length (vote_commitment_positions c) < 2 ^ 32"
    and "valid_hash (transaction_hash c)"
  using assms by (cases s; cases "case s of Confirmed v \<Rightarrow> v"; auto simp: sqlite_positions_def)+

lemma mutable_columns_candidate:
  "valid_state s \<Longrightarrow> valid_hash (fst (snd (mutable_columns r s)))"
  by (cases s) (auto simp: valid_hash_def)

lemma mutable_row_roundtrip:
  assumes "valid_state (stored_state r)" and "in_sql_range r" and "length (stored_digest r) = 32"
    and "row_generation_digest row = stored_digest r" and "row_created_at row = uint (created_at r)"
  shows "\<exists>row'. mutable_row r row = Inr row' \<and> load_one (stored_identity r) row' = Inr (reload_record r)"
proof -
  obtain st cand diag conf where cols: "mutable_columns r (stored_state r) = (st, cand, diag, conf)"
    by (metis prod_cases4)
  have conf: "final_van_position c \<le> i64_max" "length (vote_commitment_positions c) < 2 ^ 32"
    "valid_hash (transaction_hash c)" if "conf = Some c" for c
    using mutable_columns_confirmation [OF assms(1), of r] cols that by auto
  have cand: "map_transpose bytes32 cand = Inr cand"
    using mutable_columns_candidate [OF assms(1), of r] cols by (simp add: map_transpose_hash)
  have state: "load_state st cand (map_option reload_diagnostic diag)
      (map_option (\<lambda>c. (source_name (source c), final_van_position c, vote_commitment_positions c,
         transaction_hash c)) conf) = Inr (reload_state (stored_state r))"
    using load_state_columns [OF assms(1), of r] cols by simp
  have range: "committed_post_reservations r \<le> i64_max" "created_at r \<le> i64_max" "updated_at r \<le> i64_max"
    "case tracking_started_at r of None \<Rightarrow> True | Some t \<Rightarrow> t \<le> i64_max"
    using assms(2) by (simp_all add: in_sql_range_def)
  show ?thesis
    using assms(3-5) range state cand conf
    by (cases conf)
      (simp_all add: mutable_row_def cols load_one_def load_confirmation_def persisted_diagnostic_def
        map_transpose_tracking load_diagnostic_persisted map_transpose_hash decode_encode_positions
        reload_record_def)
qed

end
