(* ===== verification/Submission_Sqlite.thy ===== *)
theory Submission_Sqlite
  imports Sqlite_Rows
begin

text \<open>
  The SQLite authority of the lifecycle
  (\<open>zcash_voting/src/chain_submission/store/sqlite.rs\<close>): every operation of
  \<open>ChainSubmissionStore\<close> as a transaction on the database state. The database is the
  \<open>chain_submissions\<close> table and the remaining tables, of type \<open>'d\<close>. What the operations call
  outside this file is a field of \<open>store_env\<close>: derivation of a generation from the stored round,
  the projection of a confirmation and the retirement of a combined generation onto the other
  tables, and three queries on them. None of these writes \<open>chain_submissions\<close>.
\<close>

section \<open>Database and environment\<close>

record 'd voting_db =
  chain_submissions :: "submission_row list"
  domain :: 'd

record 'd store_env =
  env_codecs :: text_codecs
  sql_error_text :: "sql_error \<Rightarrow> rust_str"
  derive_generation :: "'d voting_db \<Rightarrow> SubmissionDerivationRequest \<Rightarrow> VotingError + DerivedChainSubmission"
  round_exists :: "'d \<Rightarrow> rust_str \<Rightarrow> bytes \<Rightarrow> bool"
  bundle_columns :: "'d \<Rightarrow> rust_str \<Rightarrow> bytes \<Rightarrow> u32 \<Rightarrow> (bool \<times> bool) option"
  delegate_cast_recovery :: "'d \<Rightarrow> rust_str \<Rightarrow> bytes \<Rightarrow> u32 \<Rightarrow> bool"
  apply_confirmed_generation ::
    "'d voting_db \<Rightarrow> BoundGeneration \<Rightarrow> ValidatedChainSubmissionConfirmation \<Rightarrow> VotingError + 'd"
  retire_rejected_combined_generation ::
    "'d voting_db \<Rightarrow> ChainSubmissionIdentity \<Rightarrow> ChainSubmissionDiagnostic \<Rightarrow> u64 \<Rightarrow> VotingError + 'd"

text \<open>A storage fault the transaction meets: it cannot begin, or its commit fails.\<close>

datatype storage_fault = NoFault | BeginFault rust_str | CommitFault rust_str

definition storage_error :: "'d store_env \<Rightarrow> sql_error \<Rightarrow> ChainSubmissionFailure" where
  "storage_error env error = without_state Storage (sql_error_text env error)"

text \<open>An immediate transaction: every error rolls the database back.\<close>

definition transact ::
  "'d store_env \<Rightarrow> storage_fault \<Rightarrow>
   ('d voting_db \<Rightarrow> ChainSubmissionFailure + 'r \<times> 'd voting_db) \<Rightarrow>
   'd voting_db \<Rightarrow> (ChainSubmissionFailure + 'r) \<times> 'd voting_db" where
  "transact env fault operation db =
     (case fault of
        BeginFault m \<Rightarrow> (Inl (storage_error env (StorageFault m)), db)
      | NoFault \<Rightarrow>
          (case operation db of
             Inl e \<Rightarrow> (Inl e, db)
           | Inr (result, db') \<Rightarrow> (Inr result, db'))
      | CommitFault m \<Rightarrow>
          (case operation db of
             Inl e \<Rightarrow> (Inl e, db)
           | Inr (result, db') \<Rightarrow> (Inl (storage_error env (StorageFault m)), db)))"

section \<open>Statements\<close>

definition has_key :: "ChainSubmissionIdentity \<Rightarrow> submission_row \<Rightarrow> bool" where
  "has_key identity row \<longleftrightarrow> row_identity_key row = submission_identity_key identity"

definition load_submission ::
  "'d store_env \<Rightarrow> 'd voting_db \<Rightarrow> ChainSubmissionIdentity \<Rightarrow>
   ChainSubmissionFailure + StoredChainSubmission option" where
  "load_submission env db identity =
     (case find (has_key identity) (chain_submissions db) of
        None \<Rightarrow> Inr None
      | Some row \<Rightarrow>
          map_err (storage_error env) (and_then (load_one identity row) (\<lambda>r. Inr (Some r))))"

definition sql_insert ::
  "'d store_env \<Rightarrow> submission_row \<Rightarrow> 'd voting_db \<Rightarrow> sql_error + 'd voting_db" where
  "sql_insert env row db =
     (if schema_ok row \<and> round_exists env (domain db) (row_round_id row) (row_wallet_id row) \<and>
         list_all (\<lambda>other. rows_compatible other row) (chain_submissions db)
      then Inr (db\<lparr>chain_submissions := chain_submissions db @ [row]\<rparr>)
      else Inl ConstraintViolation)"

definition sql_update ::
  "(submission_row \<Rightarrow> bool) \<Rightarrow> (submission_row \<Rightarrow> sql_error + submission_row) \<Rightarrow>
   'd voting_db \<Rightarrow> sql_error + 'd voting_db" where
  "sql_update matching change db =
     and_then (collect_results (map (\<lambda>row. if matching row then change row else Inr row)
         (chain_submissions db))) (\<lambda>rows.
       if list_all (\<lambda>(old, new). matching old \<longrightarrow> schema_ok new \<and> update_allowed old new)
            (zip (chain_submissions db) rows) \<and>
          sorted_wrt rows_compatible rows
       then Inr (db\<lparr>chain_submissions := rows\<rparr>) else Inl ConstraintViolation)"

definition sql_delete :: "(submission_row \<Rightarrow> bool) \<Rightarrow> 'd voting_db \<Rightarrow> 'd voting_db" where
  "sql_delete matching db =
     db\<lparr>chain_submissions := filter (\<lambda>row. \<not> matching row) (chain_submissions db)\<rparr>"

definition insert_fresh ::
  "'d store_env \<Rightarrow> StoredChainSubmission \<Rightarrow> 'd voting_db \<Rightarrow> ChainSubmissionFailure + 'd voting_db" where
  "insert_fresh env r db =
     map_err (storage_error env)
       (and_then (fresh_row (env_codecs env) r) (\<lambda>row. sql_insert env row db))"

definition insert_imported_delegation ::
  "'d store_env \<Rightarrow> StoredChainSubmission \<Rightarrow> CandidateTransactionHash \<Rightarrow> 'd voting_db \<Rightarrow>
   ChainSubmissionFailure + 'd voting_db" where
  "insert_imported_delegation env r candidate db =
     map_err (storage_error env)
       (and_then (imported_row (env_codecs env) r candidate) (\<lambda>row. sql_insert env row db))"

definition persist_mutable ::
  "'d store_env \<Rightarrow> StoredChainSubmission \<Rightarrow> 'd voting_db \<Rightarrow> ChainSubmissionFailure + 'd voting_db" where
  "persist_mutable env r db =
     map_err (storage_error env) (sql_update (has_key (stored_identity r)) (mutable_row r) db)"

definition derive ::
  "'d store_env \<Rightarrow> 'd voting_db \<Rightarrow> SubmissionDerivationRequest \<Rightarrow>
   ChainSubmissionFailure + DerivedChainSubmission" where
  "derive env db request = map_err map_generation_error (derive_generation env db request)"

section \<open>Admission\<close>

definition normalize_abandoned ::
  "'d store_env \<Rightarrow> StoredChainSubmission \<Rightarrow> u64 \<Rightarrow> 'd voting_db \<Rightarrow>
   ChainSubmissionFailure + StoredChainSubmission \<times> 'd voting_db" where
  "normalize_abandoned env r now db =
     and_then
       (map_err (\<lambda>e. possible_dispatch_error (transition_failure DurableSubmitting (transition_error_text e)))
          (apply_submission_observation (Some (stored_state r)) (AbandonedSubmitting abandoned_diagnostic)))
       (\<lambda>applied.
     and_then
       (ok_or (possible_dispatch_error (transition_failure DurableSubmitting
          (lit ''abandoned reservation normalization removed the durable row''))) applied)
       (\<lambda>state.
     let r' = r\<lparr>stored_state := state,
                stored_diagnostic := (case state of Recovering _ d \<Rightarrow> Some d | _ \<Rightarrow> None),
                updated_at := max now (updated_at r)\<rparr>
     in and_then (map_err possible_dispatch_error (persist_mutable env r' db)) (\<lambda>db'. Inr (r', db'))))"

definition same_bundle :: "'d store_env \<Rightarrow> ChainSubmissionIdentity \<Rightarrow> submission_row \<Rightarrow> bool" where
  "same_bundle env identity row \<longleftrightarrow>
     row_wallet_id row = wallet_id identity \<and>
     row_round_id row = hex_encode (env_codecs env) (vote_round_id identity) \<and>
     row_bundle_index row = uint (bundle_index identity)"

definition on_network :: "ChainSubmissionIdentity \<Rightarrow> submission_row \<Rightarrow> bool" where
  "on_network identity row \<longleftrightarrow> row_network row = network_name (network identity)"

text \<open>The guards of a fresh admission, in the order of the source.\<close>

definition guard_combined_fresh ::
  "'d store_env \<Rightarrow> ChainSubmissionIdentity \<Rightarrow> 'd voting_db \<Rightarrow> ChainSubmissionFailure + unit" where
  "guard_combined_fresh env identity db =
     (if \<not> is_combined (target identity) then Inr ()
      else case bundle_columns env (domain db) (hex_encode (env_codecs env) (vote_round_id identity))
             (wallet_id identity) (bundle_index identity) of
          None \<Rightarrow> Inl (storage_error env QueryReturnedNoRows)
        | Some (has_tx_hash, has_van_position) \<Rightarrow>
            if has_tx_hash \<or> has_van_position \<or>
               list_ex (same_bundle env identity) (chain_submissions db)
            then Inl (without_state InvalidInput (lit ''combined admission requires a fresh delegation''))
            else Inr ())"

definition guard_combined_recovery ::
  "'d store_env \<Rightarrow> ChainSubmissionIdentity \<Rightarrow> 'd voting_db \<Rightarrow> ChainSubmissionFailure + unit" where
  "guard_combined_recovery env identity db =
     (if target identity = TargetDelegation \<and>
         delegate_cast_recovery env (domain db) (hex_encode (env_codecs env) (vote_round_id identity))
           (wallet_id identity) (bundle_index identity)
      then Inl (without_state InvalidInput (lit ''persisted combined recovery owns this delegation''))
      else Inr ())"

definition unresolved_row :: "submission_row \<Rightarrow> bool" where
  "unresolved_row row \<longleftrightarrow>
     row_state row \<in> {''submitting'', ''tracking'', ''recovering'', ''submitted_without_hash''}"

definition guard_predecessor ::
  "'d store_env \<Rightarrow> ChainSubmissionIdentity \<Rightarrow> 'd voting_db \<Rightarrow> ChainSubmissionFailure + unit" where
  "guard_predecessor env identity db =
     (if list_ex (\<lambda>row. same_bundle env identity row \<and> on_network identity row \<and> unresolved_row row)
           (chain_submissions db)
      then Inl (without_state InvalidInput
        (lit ''another submission for this bundle has not established an authoritative successor''))
      else Inr ())"

definition guard_superseded ::
  "'d store_env \<Rightarrow> ChainSubmissionIdentity \<Rightarrow> 'd voting_db \<Rightarrow> ChainSubmissionFailure + unit" where
  "guard_superseded env identity db =
     (if target identity = TargetDelegation \<and>
         list_ex (\<lambda>row. same_bundle env identity row \<and> on_network identity row \<and>
           row_kind row \<in> {''vote'', ''vote_batch'', ''delegate_and_cast_vote_batch''} \<and>
           row_state row = ''confirmed'') (chain_submissions db)
      then Inl (without_state InvalidInput
        (lit (''a confirmed vote already succeeds this bundle'' @ [CHR 0x27] @ ''s delegation'')))
      else Inr ())"

definition hash_owned :: "CandidateTransactionHash \<Rightarrow> submission_row \<Rightarrow> bool" where
  "hash_owned candidate row \<longleftrightarrow>
     row_candidate_transaction_hash row = Some candidate \<or>
     row_confirmed_transaction_hash row = Some candidate"

definition admit_imported ::
  "'d store_env \<Rightarrow> StoreAdvancementRequest \<Rightarrow> u64 \<Rightarrow> 'd voting_db \<Rightarrow>
   ChainSubmissionFailure + StoreAdmission \<times> 'd voting_db" where
  "admit_imported env request now db =
     and_then (derive env db (derivation request)) (\<lambda>derived.
     and_then (ok_or (without_state InvariantViolation
         (lit ''imported delegation derivation omitted its transaction hash''))
         (imported_candidate derived)) (\<lambda>candidate.
     if list_ex (hash_owned candidate) (chain_submissions db)
     then Inl (without_state InvalidInput
       (lit ''imported delegation transaction hash belongs to another submission''))
     else
       let r = adopted_imported_delegation (derived_generation derived) candidate now
       in and_then (insert_imported_delegation env r candidate db) (\<lambda>db'.
            Inr (Ready derived r False, db'))))"

definition admit_existing ::
  "'d store_env \<Rightarrow> StoreAdvancementRequest \<Rightarrow> StoredChainSubmission \<Rightarrow>
   DerivedChainSubmission option \<Rightarrow> 'd voting_db \<Rightarrow> ChainSubmissionFailure + StoreAdmission \<times> 'd voting_db" where
  "admit_existing env request r batch_derived db =
     and_then (case batch_derived of
         Some derived \<Rightarrow> Inr derived
       | None \<Rightarrow> map_err (\<lambda>e. preserve_loaded_state e (Some r)) (derive env db (derivation request)))
       (\<lambda>derived.
     and_then (map_err (\<lambda>e. preserve_loaded_state e (Some r))
         (verify_batch_roster request (ordered_proposal_ids derived))) (\<lambda>_.
     and_then (ensure_generation r (derived_generation derived)) (\<lambda>_.
       if stored_durable_state r \<in> {DurableConfirmed, DurableRejected, DurableSubmittedWithoutHash}
       then Inr (Authoritative r, db) else Inr (Ready derived r False, db))))"

definition admit_fresh ::
  "'d store_env \<Rightarrow> StoreAdvancementRequest \<Rightarrow> DerivedChainSubmission option \<Rightarrow> u64 \<Rightarrow> u64 \<Rightarrow>
   'd voting_db \<Rightarrow> ChainSubmissionFailure + StoreAdmission \<times> 'd voting_db" where
  "admit_fresh env request batch_derived reservation_ordinal now db =
     and_then (guard_combined_fresh env (request_identity request) db) (\<lambda>_.
     and_then (guard_combined_recovery env (request_identity request) db) (\<lambda>_.
     and_then (guard_predecessor env (request_identity request) db) (\<lambda>_.
     and_then (guard_superseded env (request_identity request) db) (\<lambda>_.
     if is_imported_delegation request then admit_imported env request now db
     else
       and_then (case batch_derived of
           Some derived \<Rightarrow> Inr derived
         | None \<Rightarrow> derive env db (derivation request)) (\<lambda>derived.
       and_then (verify_batch_roster request (ordered_proposal_ids derived)) (\<lambda>_.
         let r = fresh_record (derived_generation derived) reservation_ordinal now
         in and_then (insert_fresh env r db) (\<lambda>db'. Inr (Ready derived r True, db'))))))))"

definition derive_batch ::
  "'d store_env \<Rightarrow> StoreAdvancementRequest \<Rightarrow> StoredChainSubmission option \<Rightarrow> 'd voting_db \<Rightarrow>
   ChainSubmissionFailure + DerivedChainSubmission option" where
  "derive_batch env request existing db =
     (if is_batch request then
        and_then (map_err (\<lambda>e. preserve_loaded_state e existing) (derive env db (derivation request)))
          (\<lambda>derived.
        and_then (map_err (\<lambda>e. preserve_loaded_state e existing)
            (verify_batch_roster request (ordered_proposal_ids derived))) (\<lambda>_. Inr (Some derived)))
      else Inr None)"

definition admit_tx ::
  "'d store_env \<Rightarrow> StoreAdvancementRequest \<Rightarrow> bool \<Rightarrow> u64 \<Rightarrow> u64 \<Rightarrow> 'd voting_db \<Rightarrow>
   ChainSubmissionFailure + StoreAdmission \<times> 'd voting_db" where
  "admit_tx env request work_allowed reservation_ordinal now db =
     and_then (load_submission env db (request_identity request)) (\<lambda>existing.
     if \<not> work_allowed then
       (case existing of
          Some r \<Rightarrow>
            if stored_state r = Submitting then
              and_then (normalize_abandoned env r now db) (\<lambda>(r', db'). Inr (Authoritative r', db'))
            else Inr (Authoritative r, db)
        | None \<Rightarrow> Inr (NoAuthoritativeState, db))
     else case existing of
       Some r \<Rightarrow>
         if stored_state r = Submitting then
           and_then (normalize_abandoned env r now db) (\<lambda>(r', db'). Inr (Authoritative r', db'))
         else
           and_then (derive_batch env request existing db) (\<lambda>batch_derived.
             admit_existing env request r batch_derived db)
     | None \<Rightarrow>
         and_then (derive_batch env request existing db) (\<lambda>batch_derived.
           admit_fresh env request batch_derived reservation_ordinal now db))"

definition admit_normalizes ::
  "'d store_env \<Rightarrow> storage_fault \<Rightarrow> StoreAdvancementRequest \<Rightarrow> 'd voting_db \<Rightarrow> bool" where
  "admit_normalizes env fault request db \<longleftrightarrow>
     (\<forall>m. fault \<noteq> BeginFault m) \<and>
     (case load_submission env db (request_identity request) of
        Inr (Some r) \<Rightarrow> stored_state r = Submitting
      | _ \<Rightarrow> False)"

definition admit ::
  "'d store_env \<Rightarrow> storage_fault \<Rightarrow> StoreAdvancementRequest \<Rightarrow> bool \<Rightarrow> u64 \<Rightarrow> u64 \<Rightarrow> 'd voting_db \<Rightarrow>
   (ChainSubmissionFailure + StoreAdmission) \<times> 'd voting_db" where
  "admit env fault request work_allowed reservation_ordinal now db =
     (case validate_target request of
        Inl e \<Rightarrow> (Inl e, db)
      | Inr _ \<Rightarrow>
          let (result, db') =
            transact env fault (admit_tx env request work_allowed reservation_ordinal now) db
          in (map_err (\<lambda>e. if admit_normalizes env fault request db then possible_dispatch_error e else e)
                result, db'))"

section \<open>Transitions of an existing row\<close>

definition require_row ::
  "'d store_env \<Rightarrow> 'd voting_db \<Rightarrow> ChainSubmissionIdentity \<Rightarrow> rust_str \<Rightarrow>
   ChainSubmissionFailure + StoredChainSubmission" where
  "require_row env db identity missing =
     and_then (load_submission env db identity) (\<lambda>found.
       ok_or (without_state InvariantViolation missing) found)"

definition remove_fresh_reservation ::
  "'d store_env \<Rightarrow> storage_fault \<Rightarrow> ChainSubmissionGeneration \<Rightarrow> u64 \<Rightarrow> 'd voting_db \<Rightarrow>
   (ChainSubmissionFailure + unit) \<times> 'd voting_db" where
  "remove_fresh_reservation env fault generation now =
     transact env fault (\<lambda>db.
       and_then (require_row env db (generation_identity generation) (lit ''fresh reservation disappeared''))
         (\<lambda>r.
       and_then (ensure_generation r generation) (\<lambda>_.
       if stored_state r \<noteq> Submitting
       then Inl (with_durable_state InvariantViolation (stored_durable_state r)
              (lit ''only a fresh Submitting reservation can be removed''))
       else Inr ((), sql_delete (has_key (generation_identity generation)) db))))"

text \<open>A candidate hash owned by another row is an unusable answer.\<close>

definition effective_observation ::
  "ChainSubmissionIdentity \<Rightarrow> SubmissionObservation \<Rightarrow> 'd voting_db \<Rightarrow> SubmissionObservation" where
  "effective_observation identity observation db =
     (case observation of
        UsableCandidateHash candidate \<Rightarrow>
          if list_ex (\<lambda>row. \<not> has_key identity row \<and> hash_owned candidate row) (chain_submissions db)
          then PossiblyDispatched (from_redacted_message InvalidProtocolResponse (lit
            ''vote-chain returned a transaction hash owned by another semantic generation''))
          else UsableCandidateHash candidate
      | other \<Rightarrow> other)"

definition apply_observation_tx ::
  "'d store_env \<Rightarrow> ChainSubmissionGeneration \<Rightarrow> SubmissionObservation \<Rightarrow>
   ChainSubmissionDiagnostic option \<Rightarrow> u64 \<Rightarrow> 'd voting_db \<Rightarrow>
   ChainSubmissionFailure + StoredChainSubmission \<times> 'd voting_db" where
  "apply_observation_tx env generation observation diagnostic now db =
     and_then (require_row env db (generation_identity generation)
         (lit ''submission disappeared during lifecycle transition'')) (\<lambda>r.
     and_then (ensure_generation r generation) (\<lambda>_.
     let previous = stored_durable_state r;
         effective = effective_observation (generation_identity generation) observation db
     in
     and_then (map_err (\<lambda>e. transition_failure previous (transition_error_text e))
         (apply_submission_observation (Some (stored_state r)) effective)) (\<lambda>applied.
     and_then (ok_or (transition_failure previous
         (lit ''transition unexpectedly removed durable row'')) applied) (\<lambda>state.
     let r' = settle_after_transition previous diagnostic now (r\<lparr>stored_state := state\<rparr>) in
     if retires_combined_generation previous r' then
       and_then (ok_or (transition_failure previous (lit ''a rejected row carries its diagnostic''))
           (stored_diagnostic r')) (\<lambda>d.
       and_then (map_err map_generation_error
           (retire_rejected_combined_generation env db (generation_identity generation) d (updated_at r')))
           (\<lambda>dom.
         Inr (r', (sql_delete (has_key (generation_identity generation)) db)\<lparr>domain := dom\<rparr>)))
     else and_then (persist_mutable env r' db) (\<lambda>db'. Inr (r', db'))))))"

definition apply_observation ::
  "'d store_env \<Rightarrow> storage_fault \<Rightarrow> ChainSubmissionGeneration \<Rightarrow> SubmissionObservation \<Rightarrow>
   ChainSubmissionDiagnostic option \<Rightarrow> u64 \<Rightarrow> 'd voting_db \<Rightarrow>
   (ChainSubmissionFailure + StoredChainSubmission) \<times> 'd voting_db" where
  "apply_observation env fault generation observation diagnostic now =
     transact env fault (apply_observation_tx env generation observation diagnostic now)"

definition classify_post ::
  "'d store_env \<Rightarrow> storage_fault \<Rightarrow> ChainSubmissionGeneration \<Rightarrow> SubmissionObservation \<Rightarrow> u64 \<Rightarrow>
   'd voting_db \<Rightarrow> (ChainSubmissionFailure + StoredChainSubmission) \<times> 'd voting_db" where
  "classify_post env fault generation observation now =
     apply_observation env fault generation observation None now"

definition reconcile ::
  "'d store_env \<Rightarrow> storage_fault \<Rightarrow> ChainSubmissionGeneration \<Rightarrow> SubmissionObservation \<Rightarrow>
   ChainSubmissionDiagnostic option \<Rightarrow> u64 \<Rightarrow> 'd voting_db \<Rightarrow>
   (ChainSubmissionFailure + StoredChainSubmission) \<times> 'd voting_db" where
  "reconcile env fault generation observation diagnostic now =
     apply_observation env fault generation observation diagnostic now"

text \<open>\<open>checked_add(1).filter(|count| *count <= i64::MAX as u64)\<close>\<close>

definition next_reservation :: "u64 \<Rightarrow> u64 option" where
  "next_reservation n =
     (case checked_add n 1 of
        None \<Rightarrow> None
      | Some m \<Rightarrow> if m \<le> i64_max then Some m else None)"

definition reserve_ambiguous_retry ::
  "'d store_env \<Rightarrow> storage_fault \<Rightarrow> ChainSubmissionGeneration \<Rightarrow> u64 \<Rightarrow> 'd voting_db \<Rightarrow>
   (ChainSubmissionFailure + StoredChainSubmission) \<times> 'd voting_db" where
  "reserve_ambiguous_retry env fault generation now =
     transact env fault (\<lambda>db.
       and_then (require_row env db (generation_identity generation)
           (lit ''submission disappeared before ambiguous retry reservation'')) (\<lambda>r.
       and_then (ensure_generation r generation) (\<lambda>_.
       if \<not> permits_ambiguous_retry (stored_state r)
       then Inl (with_durable_state InvariantViolation (stored_durable_state r)
              (lit ''ambiguous retry requires a hashless possibly-dispatched recovery row''))
       else
       and_then (ok_or (with_durable_state InvariantViolation DurableRecovering
           (lit ''submission reservation counter overflowed''))
           (next_reservation (committed_post_reservations r))) (\<lambda>n.
       let r' = r\<lparr>committed_post_reservations := n, updated_at := max now (updated_at r)\<rparr>
       in and_then (persist_mutable env r' db) (\<lambda>db'. Inr (r', db'))))))"

section \<open>Confirmation\<close>

text \<open>\<open>unwrap\<close> of an absent state; \<open>apply_confirmed_some\<close> below shows it is never reached.\<close>

definition confirmation_removed_row :: ChainSubmissionFailure where
  "confirmation_removed_row =
     without_state InvariantViolation (lit ''called unwrap on an absent confirmed state'')"

text \<open>The common end of both confirmations: transition, domain projection, and row update.\<close>

definition commit_confirmation ::
  "'d store_env \<Rightarrow> StoredChainSubmission \<Rightarrow> DerivedChainSubmission \<Rightarrow>
   ValidatedChainSubmissionConfirmation \<Rightarrow> u64 \<Rightarrow> 'd voting_db \<Rightarrow>
   ChainSubmissionFailure + ConfirmationCommit \<times> 'd voting_db" where
  "commit_confirmation env r derived conf now db =
     (let previous = stored_durable_state r in
      and_then (map_err (\<lambda>e. transition_failure previous (transition_error_text e))
          (apply_submission_observation (Some (stored_state r)) (ObsConfirmed conf))) (\<lambda>applied.
      and_then (ok_or confirmation_removed_row applied) (\<lambda>state.
      let r' = r\<lparr>stored_state := state, stored_diagnostic := None,
                 updated_at := max now (updated_at r)\<rparr> in
      and_then (map_err map_generation_error
          (apply_confirmed_generation env db (derived_bound derived) conf)) (\<lambda>dom.
      and_then (persist_mutable env r' (db\<lparr>domain := dom\<rparr>)) (\<lambda>db'.
        Inr (CommitConfirmed r', db'))))))"

definition confirm_committed ::
  "'d store_env \<Rightarrow> storage_fault \<Rightarrow> StoreAdvancementRequest \<Rightarrow> ChainSubmissionGeneration \<Rightarrow>
   CandidateTransactionHash \<Rightarrow> TxEvent list \<Rightarrow> bool \<Rightarrow> u64 \<Rightarrow> 'd voting_db \<Rightarrow>
   (ChainSubmissionFailure + ConfirmationCommit) \<times> 'd voting_db" where
  "confirm_committed env fault request expected candidate events commit_allowed now =
     transact env fault (\<lambda>db.
       and_then (require_row env db (generation_identity expected)
           (lit ''submission disappeared before confirmation'')) (\<lambda>r.
       and_then (ensure_generation r expected) (\<lambda>_.
       and_then (map_err (\<lambda>e. preserve_loaded_state e (Some r)) (derive env db (derivation request)))
         (\<lambda>derived.
       if derived_generation derived \<noteq> expected
       then Inl (with_durable_state InvalidInput (stored_durable_state r)
              (lit ''semantic generation changed before confirmation''))
       else if \<not> commit_allowed then Inr (CommitInterrupted r, db)
       else
       and_then (map_err (\<lambda>e. with_durable_state Protocol (stored_durable_state r) (voting_error_text e))
           (if is_imported_delegation request
            then validate_imported_delegation_confirmation (env_codecs env) (derived_bound derived)
                   candidate events
            else validate_hash_confirmation (env_codecs env) derived candidate events)) (\<lambda>conf.
         commit_confirmation env r derived conf now db)))))"

definition confirm_tree ::
  "'d store_env \<Rightarrow> storage_fault \<Rightarrow> StoreAdvancementRequest \<Rightarrow> ChainSubmissionGeneration \<Rightarrow>
   u64 \<Rightarrow> u64 list \<Rightarrow> bool \<Rightarrow> u64 \<Rightarrow> 'd voting_db \<Rightarrow>
   (ChainSubmissionFailure + ConfirmationCommit) \<times> 'd voting_db" where
  "confirm_tree env fault request expected final_van positions commit_allowed now =
     transact env fault (\<lambda>db.
       and_then (require_row env db (generation_identity expected)
           (lit ''submission disappeared before tree confirmation'')) (\<lambda>r.
       and_then (ensure_generation r expected) (\<lambda>_.
       and_then (map_err (\<lambda>e. preserve_loaded_state e (Some r)) (derive env db (derivation request)))
         (\<lambda>derived.
       and_then (map_err (\<lambda>e. preserve_loaded_state e (Some r))
           (verify_batch_roster request (ordered_proposal_ids derived))) (\<lambda>_.
       if derived_generation derived \<noteq> expected
       then Inl (with_durable_state InvalidInput (stored_durable_state r)
              (lit ''semantic generation changed before tree confirmation''))
       else if \<not> commit_allowed then Inr (CommitInterrupted r, db)
       else
       and_then (map_err (\<lambda>e. with_durable_state Protocol (stored_durable_state r)
             (confirmation_error_text e))
           (confirmation_from_tree final_van positions)) (\<lambda>conf.
         commit_confirmation env r derived conf now db))))))"

section \<open>Recovery retries\<close>

text \<open>The proof that one locked pass scanned the tree without finding the generation.\<close>

record RecoveryRetryAuthorization =
  authorized_identity :: ChainSubmissionIdentity
  authorized_digest :: ChainSubmissionGenerationDigest
  authorized_candidate :: "CandidateTransactionHash option"

definition reserve_recovery_retry ::
  "'d store_env \<Rightarrow> storage_fault \<Rightarrow> StoreAdvancementRequest \<Rightarrow> RecoveryRetryAuthorization \<Rightarrow> u64 \<Rightarrow>
   'd voting_db \<Rightarrow> (ChainSubmissionFailure + StoredChainSubmission) \<times> 'd voting_db" where
  "reserve_recovery_retry env fault request authorization now =
     transact env fault (\<lambda>db.
       if request_identity request \<noteq> authorized_identity authorization
       then Inl (without_state InvalidInput
              (lit ''recovery request does not match its authorization identity''))
       else
       and_then (require_row env db (authorized_identity authorization)
           (lit ''submission disappeared before recovery retry reservation'')) (\<lambda>r.
       if stored_digest r \<noteq> authorized_digest authorization
       then Inl (with_durable_state InvalidInput (stored_durable_state r)
              (lit ''recovery authorization belongs to a different generation''))
       else
       and_then (map_err (\<lambda>e. preserve_loaded_state e (Some r)) (derive env db (derivation request)))
         (\<lambda>derived.
       and_then (map_err (\<lambda>e. preserve_loaded_state e (Some r))
           (verify_batch_roster request (ordered_proposal_ids derived))) (\<lambda>_.
       and_then (ensure_generation r (derived_generation derived)) (\<lambda>_.
       case stored_state r of
         Recovering candidate d \<Rightarrow>
           if candidate \<noteq> authorized_candidate authorization
           then Inl (with_durable_state InvariantViolation (stored_durable_state r)
                  (lit ''recovery authorization no longer matches durable state''))
           else
             and_then (ok_or (with_durable_state InvariantViolation DurableRecovering
                 (lit ''recovery reservation counter overflowed''))
                 (next_reservation (committed_post_reservations r))) (\<lambda>n.
             let r' = r\<lparr>committed_post_reservations := n, stored_state := Recovering None d,
                        updated_at := max now (updated_at r)\<rparr>
             in and_then (persist_mutable env r' db) (\<lambda>db'. Inr (r', db')))
       | _ \<Rightarrow> Inl (with_durable_state InvariantViolation (stored_durable_state r)
                (lit ''recovery authorization no longer matches durable state'')))))))"

end
