(* ===== verification/Tree_Recovery.thy ===== *)
theory Tree_Recovery
  imports Submission_Protocol Submission_Sqlite
begin

text \<open>
  Exact commitment-tree recovery (\<open>zcash_voting/src/chain_submission/recovery.rs\<close>): one bounded
  pass over a fixed snapshot of the commitment tree that looks for the exact output layout of a
  generation. The transport, the clock and the interruption flag are indexed by the number of the
  request; the JSON codec, the canonical-encoding check and the root of the incremental Merkle
  frontier are parameters, the frontier being represented by the leaves appended to it.
\<close>

section \<open>Constants\<close>

definition TREE_DEPTH :: nat where
  "TREE_DEPTH = 24"

definition MAX_RECOVERY_LEAVES :: u64 where
  "MAX_RECOVERY_LEAVES = push_bit TREE_DEPTH 1"

definition VOTE_SDK_PAGE_LEAF_TARGET :: u64 where
  "VOTE_SDK_PAGE_LEAF_TARGET = 5000"

definition maximum_whole_block_page_count :: "u64 \<Rightarrow> u64 \<Rightarrow> u64" where
  "maximum_whole_block_page_count leaves tgt =
     (let paired_leaf_count = tgt + 1;
          complete_page_pairs = leaves div paired_leaf_count;
          trailing_page = (if leaves mod paired_leaf_count = 0 then 0 else 1)
      in complete_page_pairs * 2 + trailing_page)"

definition MAX_RECOVERY_LEAF_REQUESTS :: nat where
  "MAX_RECOVERY_LEAF_REQUESTS =
     unat (maximum_whole_block_page_count MAX_RECOVERY_LEAVES VOTE_SDK_PAGE_LEAF_TARGET)"

definition MAX_RECOVERY_RESPONSE_BYTES :: nat where
  "MAX_RECOVERY_RESPONSE_BYTES = 8 * 1024 * 1024"

definition MAX_RECOVERY_TOTAL_BYTES :: u64 where
  "MAX_RECOVERY_TOTAL_BYTES =
     (word_of_nat MAX_RECOVERY_LEAF_REQUESTS + 1) * word_of_nat MAX_RECOVERY_RESPONSE_BYTES"

definition RECOVERY_REQUEST_TIMEOUT :: nat where
  "RECOVERY_REQUEST_TIMEOUT = seconds 60"

definition RECOVERY_PASS_TIMEOUT :: nat where
  "RECOVERY_PASS_TIMEOUT = seconds (120 * 60 * 60)"

section \<open>Types\<close>

datatype RecoveryScanFailure =
    ScanTransport ChainTransportError
  | ScanInvalid ChainSubmissionDiagnostic
  | ScanInterrupted

datatype RecoveryScanOutcome =
    ScanMatch u64 "u64 list"
  | ScanNoMatch RecoveryRetryAuthorization

record TreeState =
  tree_next_index :: u64
  tree_root :: "rust_str option"
  tree_height :: u64

record LeafBlock =
  block_height :: u64
  block_start_index :: u64
  block_leaves :: "rust_str list"
  block_root :: "rust_str option"

record LeavesResponse =
  page_blocks :: "LeafBlock list"
  page_next_from_height :: u64

record scan_env =
  scan_codecs :: text_codecs
  scan_canonical :: "bytes \<Rightarrow> bool"
  scan_root :: "bytes list \<Rightarrow> bytes"
  parse_latest :: "bytes \<Rightarrow> TreeState option option"
  parse_leaves :: "bytes \<Rightarrow> LeavesResponse option"
  chain_get :: "nat \<Rightarrow> ChainHttpRequest \<Rightarrow> (ChainTransportError + ChainHttpResponse) option"
  interrupted_at :: "nat \<Rightarrow> bool"
  elapsed_at :: "nat \<Rightarrow> nat"

definition scan_invalid :: "rust_str \<Rightarrow> RecoveryScanFailure" where
  "scan_invalid message = ScanInvalid (from_redacted_message InvalidProtocolResponse message)"

section \<open>Requests and leaves\<close>

definition recovery_request :: "rust_str \<Rightarrow> ChainHttpRequest" where
  "recovery_request url =
     \<lparr>http_url = url, http_headers = [(''accept'', ''application/json'')],
      http_timeout = RECOVERY_REQUEST_TIMEOUT, http_max_response_bytes = MAX_RECOVERY_RESPONSE_BYTES\<rparr>"

text \<open>
  The n-th request of the pass; \<open>poll\<close> is the number of its interruption check. The media type
  check is the one of the protocol client.
\<close>

definition get_json_with_size ::
  "scan_env \<Rightarrow> (bytes \<Rightarrow> 'r option) \<Rightarrow> nat \<Rightarrow> nat \<Rightarrow> rust_str \<Rightarrow> RecoveryScanFailure + 'r \<times> nat" where
  "get_json_with_size env parse poll n url =
     (if interrupted_at env poll then Inl ScanInterrupted
      else case chain_get env n (recovery_request url) of
          None \<Rightarrow> Inl (ScanTransport (transport_error TransportPossiblyDispatched
            (lit ''tree recovery request timed out'')))
        | Some (Inl e) \<Rightarrow> Inl (ScanTransport e)
        | Some (Inr response) \<Rightarrow>
            if http_status response \<noteq> 200 \<or>
               length (http_body response) > MAX_RECOVERY_RESPONSE_BYTES \<or>
               \<not> has_media_type response (lit ''application/json'')
            then Inl (scan_invalid (lit ''tree recovery response has invalid HTTP metadata''))
            else case parse (http_body response) of
                None \<Rightarrow> Inl (scan_invalid (lit ''tree recovery response is malformed''))
              | Some v \<Rightarrow> Inr (v, length (http_body response)))"

definition decode_leaf :: "scan_env \<Rightarrow> rust_str \<Rightarrow> rust_str \<Rightarrow> RecoveryScanFailure + bytes" where
  "decode_leaf env encoded label =
     and_then (ok_or (scan_invalid (label @ lit '' is invalid base64''))
         (base64_decode (scan_codecs env) encoded)) (\<lambda>b.
     if length b \<noteq> 32 then Inl (scan_invalid (label @ lit '' has invalid length''))
     else if \<not> scan_canonical env b then Inl (scan_invalid (label @ lit '' is noncanonical''))
     else Inr b)"

section \<open>One pass\<close>

record scan_state =
  sc_frontier :: "bytes list"
  sc_window :: "bytes list"
  sc_next_index :: u64
  sc_from_height :: u64
  sc_previous_height :: "u64 option"
  sc_requests :: nat
  sc_total_bytes :: u64
  sc_match_start :: "u64 option"

definition frontier_full :: "bytes list \<Rightarrow> bool" where
  "frontier_full leaves \<longleftrightarrow> length leaves \<ge> 2 ^ TREE_DEPTH"

definition push_window :: "bytes list \<Rightarrow> bytes list \<Rightarrow> bytes \<Rightarrow> bytes list" where
  "push_window expected window b =
     (let w = window @ [b] in if length w > length expected then tl w else w)"

definition scan_leaf ::
  "scan_env \<Rightarrow> TreeState \<Rightarrow> bytes list \<Rightarrow> scan_state \<Rightarrow> rust_str \<Rightarrow> RecoveryScanFailure + scan_state" where
  "scan_leaf env snapshot expected st encoded =
     (let exceeds = scan_invalid (lit ''tree recovery leaf sequence exceeds the fixed snapshot'') in
      if sc_next_index st \<ge> tree_next_index snapshot then Inl exceeds
      else
      and_then (decode_leaf env encoded (lit ''tree leaf'')) (\<lambda>leaf.
      if frontier_full (sc_frontier st) then Inl exceeds
      else
      and_then (ok_or (scan_invalid (lit ''tree recovery leaf is invalid base64''))
          (base64_decode (scan_codecs env) encoded)) (\<lambda>b.
      if length b \<noteq> 32 then Inl (scan_invalid (lit ''tree recovery leaf has invalid length''))
      else
        let window = push_window expected (sc_window st) b;
            next_index = sc_next_index st + 1;
            st' = st\<lparr>sc_frontier := sc_frontier st @ [leaf], sc_window := window,
                     sc_next_index := next_index\<rparr>
        in if window = expected
           then (case sc_match_start st of
                   Some _ \<Rightarrow> Inl (scan_invalid (lit ''tree recovery found multiple exact generation layouts''))
                 | None \<Rightarrow> Inr (st'\<lparr>sc_match_start :=
                     Some (next_index - word_of_nat (length expected))\<rparr>))
           else Inr st')))"

fun fold_results :: "('s \<Rightarrow> 'a \<Rightarrow> 'e + 's) \<Rightarrow> 's \<Rightarrow> 'a list \<Rightarrow> 'e + 's" where
  "fold_results f s [] = Inr s"
| "fold_results f s (x # xs) = and_then (f s x) (\<lambda>t. fold_results f t xs)"

definition scan_block ::
  "scan_env \<Rightarrow> TreeState \<Rightarrow> bytes list \<Rightarrow> scan_state \<Rightarrow> LeafBlock \<Rightarrow> RecoveryScanFailure + scan_state" where
  "scan_block env snapshot expected st block =
     (if block_height block > tree_height snapshot \<or>
         (case sc_previous_height st of None \<Rightarrow> False | Some height \<Rightarrow> block_height block \<le> height) \<or>
         (block_leaves block \<noteq> [] \<and> block_start_index block \<noteq> sc_next_index st)
      then Inl (scan_invalid (lit ''tree recovery block sequence is discontinuous''))
      else
      and_then (fold_results (scan_leaf env snapshot expected)
          (st\<lparr>sc_previous_height := Some (block_height block)\<rparr>) (block_leaves block)) (\<lambda>st'.
      and_then (ok_or (scan_invalid (lit ''tree recovery block omitted its root'')) (block_root block))
        (\<lambda>encoded_root.
      and_then (decode_leaf env encoded_root (lit ''block root'')) (\<lambda>root.
        if scan_root env (sc_frontier st') \<noteq> root
        then Inl (scan_invalid (lit ''tree recovery block root contradicts its leaves''))
        else Inr st'))))"

definition leaves_url :: "rust_str \<Rightarrow> rust_str \<Rightarrow> u64 \<Rightarrow> u64 \<Rightarrow> rust_str" where
  "leaves_url endpoint round from to_height =
     endpoint @ lit ''/shielded-vote/v1/commitment-tree/'' @ round @ lit ''/leaves?from_height='' @
     decimal (unat from) @ lit ''&to_height='' @ decimal (unat to_height)"

definition scan_page ::
  "scan_env \<Rightarrow> rust_str \<Rightarrow> rust_str \<Rightarrow> TreeState \<Rightarrow> bytes list \<Rightarrow> scan_state \<Rightarrow>
   RecoveryScanFailure + scan_state" where
  "scan_page env endpoint round snapshot expected st =
     and_then (get_json_with_size env (parse_leaves env) (2 * sc_requests st + 2) (sc_requests st + 1)
         (leaves_url endpoint round (sc_from_height st) (tree_height snapshot))) (\<lambda>(page, size).
     let total = saturating_add (sc_total_bytes st) (word_of_nat size);
         st = st\<lparr>sc_requests := sc_requests st + 1, sc_total_bytes := total\<rparr>
     in
     if total > MAX_RECOVERY_TOTAL_BYTES
     then Inl (scan_invalid (lit ''tree recovery responses exceed the total byte limit''))
     else if (word_of_nat (sum_list (map (length \<circ> block_leaves) (page_blocks page))) :: u64) >
             saturating_sub (tree_next_index snapshot) (sc_next_index st)
     then Inl (scan_invalid (lit ''tree recovery page exceeds the fixed snapshot''))
     else
     and_then (fold_results (scan_block env snapshot expected) st (page_blocks page)) (\<lambda>st'.
       if sc_next_index st' < tree_next_index snapshot then
         (if page_next_from_height page \<le> sc_from_height st' \<or>
             page_next_from_height page > tree_height snapshot
          then Inl (scan_invalid (lit ''tree recovery pagination cursor is invalid''))
          else Inr (st'\<lparr>sc_from_height := page_next_from_height page\<rparr>))
       else if page_next_from_height page \<noteq> 0
       then Inl (scan_invalid (lit ''tree recovery pagination continued beyond the fixed snapshot''))
       else Inr st'))"

text \<open>
  The loop over pages. Its first argument is the number of page requests still allowed,
  \<open>MAX_RECOVERY_LEAF_REQUESTS\<close> less the requests made.
\<close>

fun scan_loop ::
  "scan_env \<Rightarrow> rust_str \<Rightarrow> rust_str \<Rightarrow> TreeState \<Rightarrow> bytes list \<Rightarrow> nat \<Rightarrow> scan_state \<Rightarrow>
   RecoveryScanFailure + scan_state" where
  "scan_loop env endpoint round snapshot expected remaining st =
     (if \<not> sc_next_index st < tree_next_index snapshot then Inr st
      else if interrupted_at env (2 * sc_requests st + 1) then Inl ScanInterrupted
      else case remaining of
          0 \<Rightarrow> Inl (scan_invalid (lit ''tree recovery exhausted its bounded pass''))
        | Suc n \<Rightarrow>
            if elapsed_at env (sc_requests st) > RECOVERY_PASS_TIMEOUT
            then Inl (scan_invalid (lit ''tree recovery exhausted its bounded pass''))
            else and_then (scan_page env endpoint round snapshot expected st)
                   (scan_loop env endpoint round snapshot expected n))"

declare scan_loop.simps [simp del]

definition snapshot_root ::
  "scan_env \<Rightarrow> TreeState \<Rightarrow> RecoveryScanFailure + bytes option" where
  "snapshot_root env snapshot =
     (case tree_root snapshot of
        Some v \<Rightarrow>
          if v \<noteq> [] then and_then (decode_leaf env v (lit ''snapshot root'')) (\<lambda>b. Inr (Some b))
          else if tree_next_index snapshot = 0 then Inr None
          else Inl (scan_invalid (lit ''nonempty tree recovery snapshot omitted its root''))
      | None \<Rightarrow>
          if tree_next_index snapshot = 0 then Inr None
          else Inl (scan_invalid (lit ''nonempty tree recovery snapshot omitted its root'')))"

definition initial_scan :: "nat \<Rightarrow> scan_state" where
  "initial_scan latest_bytes =
     \<lparr>sc_frontier = [], sc_window = [], sc_next_index = 0, sc_from_height = 0, sc_previous_height = None,
      sc_requests = 0, sc_total_bytes = word_of_nat latest_bytes, sc_match_start = None\<rparr>"

definition scan_outcome ::
  "bytes list \<Rightarrow> RecoveryRetryAuthorization \<Rightarrow> scan_state \<Rightarrow> RecoveryScanOutcome" where
  "scan_outcome expected authorization st =
     (case sc_match_start st of
        Some start \<Rightarrow>
          ScanMatch start (map (\<lambda>offset. start + word_of_nat offset) [1..<length expected])
      | None \<Rightarrow> ScanNoMatch authorization)"

definition scan_exact_layout ::
  "scan_env \<Rightarrow> rust_str list \<Rightarrow> DerivedChainSubmission \<Rightarrow> CandidateTransactionHash option \<Rightarrow>
   ChainSubmissionIdentity \<Rightarrow> RecoveryScanFailure + RecoveryScanOutcome" where
  "scan_exact_layout env endpoints derived candidate operation_identity =
     (case endpoints of
        [] \<Rightarrow> Inl (scan_invalid (lit ''tree recovery has no configured endpoint''))
      | endpoint # _ \<Rightarrow>
     let round = hex_encode (scan_codecs env)
           (vote_round_id (generation_identity (derived_generation derived))) in
     and_then (get_json_with_size env (parse_latest env) 0 0
         (endpoint @ lit ''/shielded-vote/v1/commitment-tree/'' @ round @ lit ''/latest''))
       (\<lambda>(latest, latest_bytes).
     and_then (ok_or (scan_invalid (lit ''tree recovery latest response omitted tree state'')) latest)
       (\<lambda>snapshot.
     if tree_next_index snapshot > MAX_RECOVERY_LEAVES \<or> tree_height snapshot > 0xFFFFFFFF
     then Inl (scan_invalid (lit ''tree recovery snapshot exceeds protocol bounds''))
     else
     and_then (snapshot_root env snapshot) (\<lambda>root.
     let expected = layout_leaves (expected_layout derived) in
     and_then (scan_loop env endpoint round snapshot expected MAX_RECOVERY_LEAF_REQUESTS
         (initial_scan latest_bytes)) (\<lambda>st.
     if elapsed_at env (sc_requests st) > RECOVERY_PASS_TIMEOUT
     then Inl (scan_invalid (lit ''tree recovery exhausted its bounded pass''))
     else if (case root of None \<Rightarrow> False | Some r \<Rightarrow> scan_root env (sc_frontier st) \<noteq> r)
     then Inl (scan_invalid (lit ''tree recovery final root contradicts the fixed snapshot''))
     else Inr (scan_outcome expected
       \<lparr>authorized_identity = operation_identity,
        authorized_digest = generation_digest (derived_generation derived),
        authorized_candidate = candidate\<rparr> st))))))"

section \<open>Occurrences of the layout\<close>

definition occurrences :: "'a list \<Rightarrow> 'a list \<Rightarrow> nat set" where
  "occurrences pattern xs = {i. i + length pattern \<le> length xs \<and> take (length pattern) (drop i xs) = pattern}"

lemma occurrences_snoc:
  assumes "pattern \<noteq> []"
  shows "occurrences pattern (xs @ [x]) = occurrences pattern xs \<union>
    (if drop (Suc (length xs) - length pattern) (xs @ [x]) = pattern
     then {Suc (length xs) - length pattern} else {})"
proof -
  let ?k = "length pattern" and ?n = "length xs"
  have old: "i + ?k \<le> ?n \<Longrightarrow> take ?k (drop i (xs @ [x])) = take ?k (drop i xs)" for i
    by simp
  have last_one: "take ?k (drop i (xs @ [x])) = drop i (xs @ [x])" if "i + ?k = Suc ?n" for i
    using that by (intro take_all) simp
  have "i \<in> occurrences pattern (xs @ [x]) \<longleftrightarrow> i \<in> occurrences pattern xs \<or>
      (i + ?k = Suc ?n \<and> drop i (xs @ [x]) = pattern)" for i
    using old [of i] last_one [of i] by (auto simp: occurrences_def le_Suc_eq)
  moreover have "i + ?k = Suc ?n \<and> drop i (xs @ [x]) = pattern \<longleftrightarrow>
      drop (Suc ?n - ?k) (xs @ [x]) = pattern \<and> i = Suc ?n - ?k" for i
  proof
    assume here: "i + ?k = Suc ?n \<and> drop i (xs @ [x]) = pattern"
    then have "i + ?k = Suc ?n" by blast
    then have "i = Suc ?n - ?k" by arith
    with here show "drop (Suc ?n - ?k) (xs @ [x]) = pattern \<and> i = Suc ?n - ?k" by metis
  next
    assume here: "drop (Suc ?n - ?k) (xs @ [x]) = pattern \<and> i = Suc ?n - ?k"
    then have "Suc ?n - (Suc ?n - ?k) = ?k"
      by (metis length_append_singleton length_drop)
    with here show "i + ?k = Suc ?n \<and> drop i (xs @ [x]) = pattern"
      by auto
  qed
  ultimately show ?thesis by auto
qed

lemma push_window_drop:
  assumes "pattern \<noteq> []"
  shows "push_window pattern (drop (length xs - length pattern) xs) b =
    drop (Suc (length xs) - length pattern) (xs @ [b])"
proof (cases "length pattern \<le> length xs")
  case True
  let ?k = "length pattern" and ?n = "length xs"
  have "drop (?n - ?k) xs \<noteq> []"
    using True assms by (cases pattern) auto
  then have "tl (drop (?n - ?k) xs @ [b]) = drop (Suc (?n - ?k)) xs @ [b]"
    by (simp add: tl_drop drop_Suc)
  moreover have "Suc ?n - ?k = Suc (?n - ?k)" "Suc (?n - ?k) \<le> ?n"
    using True assms by (cases pattern; simp)+
  ultimately show ?thesis
    using True by (simp add: push_window_def Let_def)
qed (simp add: push_window_def Let_def)

section \<open>Invariant of the pass\<close>

definition scan_inv :: "scan_env \<Rightarrow> TreeState \<Rightarrow> bytes list \<Rightarrow> scan_state \<Rightarrow> bool" where
  "scan_inv env snapshot expected st \<longleftrightarrow>
     sc_window st = drop (length (sc_frontier st) - length expected) (sc_frontier st) \<and>
     unat (sc_next_index st) = length (sc_frontier st) \<and>
     sc_next_index st \<le> tree_next_index snapshot \<and>
     (\<forall>leaf \<in> set (sc_frontier st). length leaf = 32 \<and> scan_canonical env leaf) \<and>
     occurrences expected (sc_frontier st) = (case sc_match_start st of None \<Rightarrow> {} | Some i \<Rightarrow> {unat i})"

lemma fold_results_inv:
  assumes "fold_results f s xs = Inr t" and "P s" and "\<And>s x t. P s \<Longrightarrow> f s x = Inr t \<Longrightarrow> P t"
  shows "P t"
  using assms by (induction xs arbitrary: s) (auto simp: and_then_eq_Inr)

lemma decode_leaf_Inr:
  "decode_leaf env encoded label = Inr b \<longleftrightarrow>
     base64_decode (scan_codecs env) encoded = Some b \<and> length b = 32 \<and> scan_canonical env b"
  by (auto simp: decode_leaf_def result_simps)

lemma unat_less_u64: "unat (m :: u64) < 18446744073709551616"
  using unsigned_less [of m] by simp

lemma unat_next_index:
  "(i :: u64) < m \<Longrightarrow> unat (i + 1) = unat i + 1 \<and> i + 1 \<le> m"
  using unat_less_u64 [of m] by (simp add: word_less_nat_alt word_le_nat_alt unat_word_ariths)

lemma scan_leaf_inv:
  assumes inv: "scan_inv env snapshot expected st" and ne: "expected \<noteq> []"
    and ok: "scan_leaf env snapshot expected st encoded = Inr st'"
  shows "scan_inv env snapshot expected st'"
proof -
  obtain leaf where less: "sc_next_index st < tree_next_index snapshot"
    and leaf: "length leaf = 32" "scan_canonical env leaf"
    and st': "sc_frontier st' = sc_frontier st @ [leaf]"
      "sc_window st' = push_window expected (sc_window st) leaf"
      "sc_next_index st' = sc_next_index st + 1"
      "if push_window expected (sc_window st) leaf = expected
       then sc_match_start st = None \<and>
         sc_match_start st' = Some (sc_next_index st + 1 - word_of_nat (length expected))
       else sc_match_start st' = sc_match_start st"
    using ok by (auto simp: scan_leaf_def Let_def result_simps decode_leaf_Inr
        split: if_splits option.splits)
  let ?xs = "sc_frontier st"
  have next_i: "unat (sc_next_index st + 1) = Suc (length ?xs)"
    using unat_next_index [OF less] inv by (simp add: scan_inv_def)
  have win: "push_window expected (sc_window st) leaf =
      drop (Suc (length ?xs) - length expected) (?xs @ [leaf])"
    using push_window_drop [OF ne] inv by (simp add: scan_inv_def)
  have start: "unat (sc_next_index st + 1 - word_of_nat (length expected)) = Suc (length ?xs) - length expected"
    if "drop (Suc (length ?xs) - length expected) (?xs @ [leaf]) = expected"
  proof -
    have "length expected \<le> Suc (length ?xs)"
      using arg_cong [OF that, of length] by (simp del: drop_append)
    moreover from this have "unat (word_of_nat (length expected) :: u64) = length expected"
      using next_i unat_less_u64 [of "sc_next_index st + 1"] by (simp add: unat_of_nat)
    ultimately show ?thesis
      using next_i by (simp add: unat_sub word_le_nat_alt)
  qed
  have "occurrences expected (?xs @ [leaf]) =
      (case sc_match_start st' of None \<Rightarrow> {} | Some i \<Rightarrow> {unat i})"
    unfolding occurrences_snoc [OF ne]
    using inv st'(4) win start by (auto simp: scan_inv_def split: if_splits)
  then show ?thesis
    using inv leaf next_i win st'(1-3) unat_next_index [OF less]
    by (simp add: scan_inv_def del: drop_append)
qed

lemma scan_inv_bookkeeping [simp]:
  "scan_inv env snapshot expected (st\<lparr>sc_previous_height := h\<rparr>) = scan_inv env snapshot expected st"
  "scan_inv env snapshot expected (st\<lparr>sc_from_height := f\<rparr>) = scan_inv env snapshot expected st"
  "scan_inv env snapshot expected (st\<lparr>sc_requests := n, sc_total_bytes := b\<rparr>) =
     scan_inv env snapshot expected st"
  by (simp_all add: scan_inv_def)

lemma scan_block_inv:
  assumes "scan_inv env snapshot expected st" and "expected \<noteq> []"
    and "scan_block env snapshot expected st block = Inr st'"
  shows "scan_inv env snapshot expected st'"
proof -
  have "fold_results (scan_leaf env snapshot expected)
      (st\<lparr>sc_previous_height := Some (block_height block)\<rparr>) (block_leaves block) = Inr st'"
    using assms(3) by (auto simp: scan_block_def result_simps split: if_splits)
  then show ?thesis
    by (rule fold_results_inv) (use assms scan_leaf_inv in auto)
qed

lemma scan_page_inv:
  assumes "scan_inv env snapshot expected st" and "expected \<noteq> []"
    and "scan_page env endpoint round snapshot expected st = Inr st'"
  shows "scan_inv env snapshot expected st'"
proof -
  obtain page bytes where get: "get_json_with_size env (parse_leaves env) (2 * sc_requests st + 2)
      (sc_requests st + 1) (leaves_url endpoint round (sc_from_height st) (tree_height snapshot)) =
      Inr (page, bytes)"
    using assms(3) by (auto simp: scan_page_def and_then_eq_Inr)
  let ?st = "st\<lparr>sc_requests := sc_requests st + 1,
      sc_total_bytes := saturating_add (sc_total_bytes st) (word_of_nat bytes)\<rparr>"
  obtain st2 where fold: "fold_results (scan_block env snapshot expected) ?st (page_blocks page) = Inr st2"
    using assms(3) get
    by (cases "fold_results (scan_block env snapshot expected) ?st (page_blocks page)")
      (auto simp: scan_page_def Let_def split: if_splits)
  then have "scan_inv env snapshot expected st2"
    by (rule fold_results_inv) (use assms scan_block_inv in auto)
  moreover have "st' = st2 \<or> (\<exists>h. st' = st2\<lparr>sc_from_height := h\<rparr>)"
    using assms(3) get fold by (auto simp: scan_page_def Let_def split: if_splits)
  ultimately show ?thesis by auto
qed

lemma scan_loop_inv:
  assumes "scan_loop env endpoint round snapshot expected n st = Inr st'"
    and "scan_inv env snapshot expected st" and "expected \<noteq> []"
  shows "scan_inv env snapshot expected st' \<and> sc_next_index st' = tree_next_index snapshot"
  using assms
proof (induction n arbitrary: st)
  case (Suc n)
  show ?case
  proof (cases "sc_next_index st < tree_next_index snapshot")
    case True
    then obtain st2 where "scan_page env endpoint round snapshot expected st = Inr st2"
      "scan_loop env endpoint round snapshot expected n st2 = Inr st'"
      using Suc.prems(1)
      by (subst (asm) scan_loop.simps) (auto simp: result_simps split: if_splits)
    then show ?thesis
      using Suc.IH scan_page_inv Suc.prems(2,3) by blast
  next
    case False
    then show ?thesis
      using Suc.prems by (subst (asm) scan_loop.simps) (auto simp: scan_inv_def)
  qed
qed (subst (asm) scan_loop.simps, auto simp: scan_inv_def split: if_splits)

section \<open>What a verdict proves\<close>

definition latest_url :: "scan_env \<Rightarrow> rust_str \<Rightarrow> DerivedChainSubmission \<Rightarrow> rust_str" where
  "latest_url env endpoint derived =
     endpoint @ lit ''/shielded-vote/v1/commitment-tree/'' @
     hex_encode (scan_codecs env) (vote_round_id (generation_identity (derived_generation derived))) @
     lit ''/latest''"

lemma snapshot_root_Inr:
  assumes "snapshot_root env snapshot = Inr root" and "tree_next_index snapshot \<noteq> 0"
  shows "\<exists>v b. tree_root snapshot = Some v \<and> base64_decode (scan_codecs env) v = Some b \<and> root = Some b"
  using assms
  by (auto simp: snapshot_root_def result_simps decode_leaf_Inr split: option.splits if_splits)

lemma layout_leaves_nonempty [simp]: "layout_leaves l \<noteq> []"
  by (cases l) simp_all

lemma initial_scan_inv: "expected \<noteq> [] \<Longrightarrow> scan_inv env snapshot expected (initial_scan n)"
  by (auto simp: scan_inv_def initial_scan_def occurrences_def)

lemma match_positions:
  assumes "unat (start :: u64) + k \<le> n" and "n < 18446744073709551616"
  shows "map unat (map (\<lambda>offset. start + word_of_nat offset) [1..<k]) = [unat start + 1..<unat start + k]"
proof -
  have "unat (start + word_of_nat i) = unat start + i" if "i < k" for i
    using that assms by (simp add: unat_word_ariths unat_of_nat)
  then have "map unat (map (\<lambda>offset. start + word_of_nat offset) [1..<k]) = map (\<lambda>i. i + unat start) [1..<k]"
    by (simp add: add.commute)
  also have "\<dots> = [1 + unat start..<k + unat start]"
    by (rule nth_equalityI) simp_all
  finally show ?thesis by (simp add: add.commute)
qed

text \<open>
  C13: Exact-tree verdicts. When the scan of a generation returns a verdict, there is one list of
  canonical leaves that has the length of the snapshot the first answer fixed and hashes to its
  root. A match reports the only place where the generation's outputs occur in that list, in
  order and without a gap, and the positions of the outputs after the first; a no-match says they
  occur nowhere, and the retry authorization names this operation, generation and candidate.
\<close>

theorem scan_verdict_exact:
  assumes "scan_exact_layout env (endpoint # endpoints) derived candidate op = Inr outcome"
  shows "\<exists>snapshot bytes leaves.
    get_json_with_size env (parse_latest env) 0 0 (latest_url env endpoint derived) =
      Inr (Some snapshot, bytes) \<and>
    length leaves = unat (tree_next_index snapshot) \<and>
    (\<forall>leaf \<in> set leaves. length leaf = 32 \<and> scan_canonical env leaf) \<and>
    (leaves \<noteq> [] \<longrightarrow> (\<exists>v. tree_root snapshot = Some v \<and>
       base64_decode (scan_codecs env) v = Some (scan_root env leaves))) \<and>
    (case outcome of
       ScanMatch p ps \<Rightarrow> occurrences (layout_leaves (expected_layout derived)) leaves = {unat p} \<and>
         map unat ps = [unat p + 1..<unat p + length (layout_leaves (expected_layout derived))]
     | ScanNoMatch a \<Rightarrow> occurrences (layout_leaves (expected_layout derived)) leaves = {} \<and>
         a = \<lparr>authorized_identity = op, authorized_digest = generation_digest (derived_generation derived),
              authorized_candidate = candidate\<rparr>)"
proof -
  let ?E = "layout_leaves (expected_layout derived)"
  let ?round = "hex_encode (scan_codecs env) (vote_round_id (generation_identity (derived_generation derived)))"
  obtain snapshot bytes root st where
    get: "get_json_with_size env (parse_latest env) 0 0 (latest_url env endpoint derived) =
      Inr (Some snapshot, bytes)"
    and root: "snapshot_root env snapshot = Inr root"
    and loop: "scan_loop env endpoint ?round snapshot ?E MAX_RECOVERY_LEAF_REQUESTS (initial_scan bytes) = Inr st"
    and same: "\<not> (case root of None \<Rightarrow> False | Some r \<Rightarrow> scan_root env (sc_frontier st) \<noteq> r)"
    and outcome: "outcome = scan_outcome ?E \<lparr>authorized_identity = op,
      authorized_digest = generation_digest (derived_generation derived), authorized_candidate = candidate\<rparr> st"
    using assms by (auto simp: scan_exact_layout_def latest_url_def Let_def result_simps split: if_splits)
  have inv: "scan_inv env snapshot ?E st" "sc_next_index st = tree_next_index snapshot"
    using scan_loop_inv [OF loop initial_scan_inv] by simp_all
  let ?leaves = "sc_frontier st"
  have len: "length ?leaves = unat (tree_next_index snapshot)"
    using inv by (simp add: scan_inv_def)
  have "\<exists>v. tree_root snapshot = Some v \<and> base64_decode (scan_codecs env) v = Some (scan_root env ?leaves)"
    if "?leaves \<noteq> []"
  proof -
    have "tree_next_index snapshot \<noteq> 0"
      using that len by auto
    from snapshot_root_Inr [OF root this] same show ?thesis by auto
  qed
  moreover have "map unat ps = [unat p + 1..<unat p + length ?E]" if "outcome = ScanMatch p ps" for p ps
  proof -
    have p: "sc_match_start st = Some p" "ps = map (\<lambda>offset. p + word_of_nat offset) [1..<length ?E]"
      using that outcome by (auto simp: scan_outcome_def split: option.splits)
    then have "unat p \<in> occurrences ?E ?leaves"
      using inv(1) by (simp add: scan_inv_def)
    then have "unat p + length ?E \<le> length ?leaves"
      by (simp add: occurrences_def)
    then show ?thesis
      using match_positions [of p "length ?E" "length ?leaves"] len unat_less_u64 p(2) by simp
  qed
  ultimately show ?thesis
    using get len inv(1) outcome
    by (intro exI [of _ snapshot] exI [of _ bytes] exI [of _ ?leaves])
      (auto simp: scan_inv_def scan_outcome_def split: option.splits)
qed

section \<open>Bounds of a pass\<close>

lemma scan_leaf_transport [simp]:
  "decode_leaf (env\<lparr>chain_get := get\<rparr>) = decode_leaf env"
  "scan_leaf (env\<lparr>chain_get := get\<rparr>) = scan_leaf env"
  "scan_block (env\<lparr>chain_get := get\<rparr>) = scan_block env"
  "snapshot_root (env\<lparr>chain_get := get\<rparr>) = snapshot_root env"
proof -
  show d: "decode_leaf (env\<lparr>chain_get := get\<rparr>) = decode_leaf env"
    by (rule ext)+ (simp add: decode_leaf_def cong: if_cong option.case_cong)
  show l: "scan_leaf (env\<lparr>chain_get := get\<rparr>) = scan_leaf env"
    by (rule ext)+ (simp add: scan_leaf_def d cong: if_cong option.case_cong)
  show "scan_block (env\<lparr>chain_get := get\<rparr>) = scan_block env"
    by (rule ext)+ (simp add: scan_block_def l d cong: if_cong option.case_cong)
  show "snapshot_root (env\<lparr>chain_get := get\<rparr>) = snapshot_root env"
    by (rule ext)+ (simp add: snapshot_root_def d cong: if_cong option.case_cong)
qed

lemma get_json_local:
  "chain_get env n = get n \<Longrightarrow>
   get_json_with_size (env\<lparr>chain_get := get\<rparr>) parse poll n url = get_json_with_size env parse poll n url"
  by (simp add: get_json_with_size_def cong: if_cong option.case_cong)

lemma scan_page_local:
  "chain_get env (Suc (sc_requests st)) = get (Suc (sc_requests st)) \<Longrightarrow>
   scan_page (env\<lparr>chain_get := get\<rparr>) endpoint round snapshot expected st =
   scan_page env endpoint round snapshot expected st"
  by (simp add: scan_page_def get_json_local cong: if_cong option.case_cong)

lemma scan_leaf_requests:
  "scan_leaf env snapshot expected st encoded = Inr st' \<Longrightarrow> sc_requests st' = sc_requests st"
  by (auto simp: scan_leaf_def Let_def result_simps split: if_splits option.splits)

lemma scan_block_requests:
  assumes "scan_block env snapshot expected st block = Inr st'"
  shows "sc_requests st' = sc_requests st"
proof -
  have "fold_results (scan_leaf env snapshot expected)
      (st\<lparr>sc_previous_height := Some (block_height block)\<rparr>) (block_leaves block) = Inr st'"
    using assms by (auto simp: scan_block_def result_simps split: if_splits)
  then show ?thesis
    by (rule fold_results_inv) (auto dest: scan_leaf_requests)
qed

lemma scan_page_requests:
  assumes "scan_page env endpoint round snapshot expected st = Inr st'"
  shows "sc_requests st' = Suc (sc_requests st)"
proof -
  obtain page bytes where get: "get_json_with_size env (parse_leaves env) (2 * sc_requests st + 2)
      (sc_requests st + 1) (leaves_url endpoint round (sc_from_height st) (tree_height snapshot)) =
      Inr (page, bytes)"
    using assms by (auto simp: scan_page_def and_then_eq_Inr)
  let ?st = "st\<lparr>sc_requests := sc_requests st + 1,
      sc_total_bytes := saturating_add (sc_total_bytes st) (word_of_nat bytes)\<rparr>"
  obtain st2 where fold: "fold_results (scan_block env snapshot expected) ?st (page_blocks page) = Inr st2"
    using assms get
    by (cases "fold_results (scan_block env snapshot expected) ?st (page_blocks page)")
      (auto simp: scan_page_def Let_def split: if_splits)
  then have "sc_requests st2 = Suc (sc_requests st)"
    by (rule fold_results_inv) (auto dest: scan_block_requests)
  then show ?thesis
    using assms get fold by (auto simp: scan_page_def Let_def split: if_splits)
qed

lemma scan_loop_local:
  assumes "\<forall>i. sc_requests st < i \<and> i \<le> sc_requests st + n \<longrightarrow> chain_get env i = get i"
  shows "scan_loop (env\<lparr>chain_get := get\<rparr>) endpoint round snapshot expected n st =
    scan_loop env endpoint round snapshot expected n st"
  using assms
proof (induction n arbitrary: st)
  case (Suc n)
  have page: "scan_page (env\<lparr>chain_get := get\<rparr>) endpoint round snapshot expected st =
      scan_page env endpoint round snapshot expected st"
    using Suc.prems by (intro scan_page_local) simp
  show ?case
  proof (cases "scan_page env endpoint round snapshot expected st")
    case (Inr st')
    then have "sc_requests st' = Suc (sc_requests st)"
      by (rule scan_page_requests)
    with Suc.prems have "scan_loop (env\<lparr>chain_get := get\<rparr>) endpoint round snapshot expected n st' =
        scan_loop env endpoint round snapshot expected n st'"
      by (intro Suc.IH) auto
    with Inr page show ?thesis
      by (simp add: scan_loop.simps [of _ _ _ _ _ "Suc n" st])
  qed (simp add: scan_loop.simps [of _ _ _ _ _ "Suc n" st] page)
qed (simp add: scan_loop.simps)

lemma MAX_RECOVERY_LEAF_REQUESTS_value: "MAX_RECOVERY_LEAF_REQUESTS = 6709"
  by (simp add: MAX_RECOVERY_LEAF_REQUESTS_def maximum_whole_block_page_count_def Let_def
      MAX_RECOVERY_LEAVES_def VOTE_SDK_PAGE_LEAF_TARGET_def TREE_DEPTH_def)

text \<open>
  C33: Bounded pass. A recovery scan always returns, and its result depends on no answer of the
  transport beyond the first and the 6709 page requests after it: two transports that agree on
  those give the same result.
\<close>

theorem scan_bounded_requests:
  assumes "\<forall>n \<le> 6709. chain_get env n = get n"
  shows "scan_exact_layout (env\<lparr>chain_get := get\<rparr>) endpoints derived candidate op =
    scan_exact_layout env endpoints derived candidate op"
proof (cases endpoints)
  case (Cons endpoint rest)
  have "scan_loop (env\<lparr>chain_get := get\<rparr>) endpoint round snapshot expected MAX_RECOVERY_LEAF_REQUESTS
      (initial_scan bytes) = scan_loop env endpoint round snapshot expected MAX_RECOVERY_LEAF_REQUESTS
      (initial_scan bytes)" for round snapshot expected bytes
    using assms by (intro scan_loop_local) (simp add: initial_scan_def MAX_RECOVERY_LEAF_REQUESTS_value)
  moreover have "chain_get env 0 = get 0"
    using assms by simp
  ultimately show ?thesis
    by (simp add: Cons scan_exact_layout_def get_json_local cong: if_cong option.case_cong)
qed (simp add: scan_exact_layout_def)

definition sample_scan :: scan_env where
  "sample_scan =
     \<lparr>scan_codecs = sample_codecs, scan_canonical = (\<lambda>_. True), scan_root = (\<lambda>_. replicate 32 9),
      parse_latest = (\<lambda>_. Some (Some
        \<lparr>tree_next_index = 2, tree_root = Some (replicate 32 9), tree_height = 1\<rparr>)),
      parse_leaves = (\<lambda>_. Some
        \<lparr>page_blocks = [\<lparr>block_height = 1, block_start_index = 0,
           block_leaves = [replicate 32 1, replicate 32 2], block_root = Some (replicate 32 9)\<rparr>],
         page_next_from_height = 0\<rparr>),
      chain_get = (\<lambda>_ _. Some (Inr sample_answer)), interrupted_at = (\<lambda>_. False), elapsed_at = (\<lambda>_. 0)\<rparr>"

lemma sample_answer_json: "has_media_type sample_answer (lit ''application/json'')"
proof -
  have "trim (lit ''application/json'') = lit ''application/json''"
    "split_on 0x3B (lit ''application/json'') = [lit ''application/json'']"
    by (auto simp: lit_def is_whitespace_def intro!: trim_no_whitespace split_on_single)
  then show ?thesis
    by (simp add: has_media_type_def sample_answer_def eq_ignore_ascii_case_def)
qed

lemma sample_scan_get:
  "get_json_with_size sample_scan parse poll n url =
     (case parse [] of None \<Rightarrow> Inl (scan_invalid (lit ''tree recovery response is malformed''))
      | Some v \<Rightarrow> Inr (v, 0))"
  using sample_answer_json
  by (simp add: get_json_with_size_def sample_scan_def sample_answer_def cong: option.case_cong)

lemma sample_scan_page:
  assumes "tree_next_index snapshot = 2" "tree_height snapshot = 1"
  shows "\<exists>st. scan_page sample_scan endpoint round snapshot [replicate 32 1, replicate 32 2] (initial_scan 0) = Inr st \<and>
    sc_next_index st = 2 \<and> sc_match_start st = Some 0"
  by (simp add: scan_page_def sample_scan_get)
    (simp add: assms sample_scan_def initial_scan_def scan_block_def scan_leaf_def decode_leaf_def
      sample_codecs_def frontier_full_def push_window_def TREE_DEPTH_def saturating_add_def saturating_sub_def
      MAX_RECOVERY_TOTAL_BYTES_def MAX_RECOVERY_LEAF_REQUESTS_value MAX_RECOVERY_RESPONSE_BYTES_def
      word_le_nat_alt Let_def)

lemma sample_layout [simp]:
  "layout_leaves (expected_layout sample_derived) = [replicate 32 1, replicate 32 2]"
  by (simp add: sample_derived_def expected_layout_def)

lemma sample_scan_fields [simp]:
  "parse_latest sample_scan [] = Some (Some
     \<lparr>tree_next_index = 2, tree_root = Some (replicate 32 9), tree_height = 1\<rparr>)"
  "interrupted_at sample_scan n = False" "elapsed_at sample_scan n = 0" "scan_codecs sample_scan = sample_codecs"
  "scan_canonical sample_scan = (\<lambda>_. True)" "scan_root sample_scan = (\<lambda>_. replicate 32 9)"
  by (simp_all add: sample_scan_def)

lemma sample_scan_match:
  "scan_exact_layout sample_scan [lit ''a''] sample_derived None op = Inr (ScanMatch 0 [1])"
proof -
  let ?snapshot = "\<lparr>tree_next_index = 2, tree_root = Some (replicate 32 9), tree_height = 1\<rparr>"
  let ?round = "hex_encode sample_codecs (vote_round_id (generation_identity (derived_generation sample_derived)))"
  obtain st where page: "scan_page sample_scan (lit ''a'') ?round ?snapshot [replicate 32 1, replicate 32 2]
      (initial_scan 0) = Inr st" and st: "sc_next_index st = 2" "sc_match_start st = Some 0"
    using sample_scan_page [of ?snapshot] by auto
  have "scan_loop sample_scan (lit ''a'') ?round ?snapshot [replicate 32 1, replicate 32 2] (Suc n)
      (initial_scan 0) = Inr st" for n
    using page st by (simp add: scan_loop.simps initial_scan_def cong: if_cong)
  from this [of 6708] have "scan_loop sample_scan (lit ''a'') ?round ?snapshot
      [replicate 32 1, replicate 32 2] MAX_RECOVERY_LEAF_REQUESTS (initial_scan 0) = Inr st"
    by (simp add: MAX_RECOVERY_LEAF_REQUESTS_value)
  moreover have "snapshot_root sample_scan ?snapshot = Inr (Some (replicate 32 9))"
    by (simp add: snapshot_root_def decode_leaf_def sample_codecs_def)
  moreover have "\<not> (2 :: u64) > MAX_RECOVERY_LEAVES"
    by (simp add: MAX_RECOVERY_LEAVES_def TREE_DEPTH_def)
  ultimately show ?thesis
    using st by (simp add: scan_exact_layout_def sample_scan_get scan_outcome_def)
qed

theorem scan_verdict_exact_witness:
  "\<exists>leaves :: bytes list. length leaves = 2 \<and>
     occurrences [replicate 32 1, replicate 32 2] leaves = {0} \<and> (\<forall>leaf \<in> set leaves. length leaf = 32)"
  using scan_verdict_exact [OF sample_scan_match [of "generation_identity (derived_generation sample_derived)"]]
  by (simp add: sample_scan_get) blast

theorem scan_bounded_requests_witness:
  "scan_exact_layout (sample_scan\<lparr>chain_get := \<lambda>n. if n \<le> 6709 then chain_get sample_scan n else (\<lambda>_. None)\<rparr>)
     [lit ''a''] sample_derived None (generation_identity (derived_generation sample_derived)) =
    Inr (ScanMatch 0 [1])"
  by (subst scan_bounded_requests) (simp_all add: sample_scan_match)

section \<open>Whole-block pages\<close>

text \<open>
  A page as the server fills it: blocks are taken whole and in order until the next one would take
  the page over its target, and a page holds at least one block. A pagination is a list of pages,
  each a list of the sizes of its nonempty blocks.
\<close>

fun whole_block_pages :: "nat \<Rightarrow> nat list list \<Rightarrow> bool" where
  "whole_block_pages t [] = True"
| "whole_block_pages t [p] = (p \<noteq> [] \<and> 0 \<notin> set p)"
| "whole_block_pages t (p # q # ps) =
     (p \<noteq> [] \<and> 0 \<notin> set p \<and> sum_list p + hd q > t \<and> whole_block_pages t (q # ps))"

definition page_bound :: "nat \<Rightarrow> nat \<Rightarrow> nat" where
  "page_bound t n = 2 * (n div (t + 1)) + (if n mod (t + 1) = 0 then 0 else 1)"

lemma page_bound_mono: "m \<le> n \<Longrightarrow> page_bound t m \<le> page_bound t n"
proof -
  assume le: "m \<le> n"
  show ?thesis
  proof (cases "m div (t + 1) = n div (t + 1)")
    case True
    then have "m mod (t + 1) \<le> n mod (t + 1)"
      using le by (metis add_le_cancel_left div_mult_mod_eq)
    then show ?thesis
      using True by (auto simp: page_bound_def)
  next
    case False
    then have "m div (t + 1) < n div (t + 1)"
      using div_le_mono [OF le, of "t + 1"] by simp
    then show ?thesis
      by (auto simp: page_bound_def)
  qed
qed

lemma page_bound_step: "page_bound t (n + (t + 1)) = page_bound t n + 2"
proof -
  have "(n + (t + 1)) div (t + 1) = n div (t + 1) + 1" "(n + (t + 1)) mod (t + 1) = n mod (t + 1)"
    by (rule div_add_self2, simp) (rule mod_add_self2)
  then show ?thesis
    by (simp only: page_bound_def) simp
qed

lemma whole_block_pages_tail: "whole_block_pages t (p # ps) \<Longrightarrow> whole_block_pages t ps"
  by (cases ps) auto

lemma whole_block_pages_nonempty:
  "whole_block_pages t (p # ps) \<Longrightarrow> p \<noteq> [] \<and> 0 \<notin> set p"
  by (cases ps) auto

lemma whole_block_pages_bound:
  "whole_block_pages t pages \<Longrightarrow> length pages \<le> page_bound t (sum_list (concat pages))"
proof (induction pages rule: induct_list012)
  case (2 p)
  then have "1 \<le> sum_list p"
    by (cases p) auto
  then have "page_bound t 1 \<le> page_bound t (sum_list p)"
    by (rule page_bound_mono)
  moreover have "1 \<le> page_bound t 1"
    by (simp add: page_bound_def)
  ultimately show ?case
    by simp
next
  case (3 p q ps)
  have "whole_block_pages t (q # ps)"
    using "3.prems" by simp
  then have "hd q \<le> sum_list q"
    using whole_block_pages_nonempty by (cases q) auto
  then have "t + 1 \<le> sum_list p + sum_list q"
    using "3.prems" by simp
  then have "page_bound t (sum_list (concat ps) + (t + 1)) \<le> page_bound t (sum_list (concat (p # q # ps)))"
    by (intro page_bound_mono) simp
  moreover have "length ps \<le> page_bound t (sum_list (concat ps))"
    using "3.IH"(1) "3.prems" whole_block_pages_tail by simp blast
  ultimately show ?case
    by (simp only: page_bound_step list.size)
qed simp

text \<open>
  Enough page requests. A server that fills pages with whole nonempty blocks up to its target
  of 5000 leaves serves any tree of the protocol's depth in at most as many pages as one pass may
  request, so the bound never makes an honest scan fail.
\<close>

lemma page_requests_suffice:
  assumes "whole_block_pages (unat VOTE_SDK_PAGE_LEAF_TARGET) pages"
    and "sum_list (concat pages) \<le> 2 ^ TREE_DEPTH"
  shows "length pages \<le> MAX_RECOVERY_LEAF_REQUESTS"
proof -
  have "length pages \<le> page_bound 5000 (sum_list (concat pages))"
    using whole_block_pages_bound [OF assms(1)] by (simp add: VOTE_SDK_PAGE_LEAF_TARGET_def)
  also have "\<dots> \<le> page_bound 5000 (2 ^ TREE_DEPTH)"
    by (rule page_bound_mono) (rule assms(2))
  also have "\<dots> = MAX_RECOVERY_LEAF_REQUESTS"
    by (simp add: page_bound_def TREE_DEPTH_def MAX_RECOVERY_LEAF_REQUESTS_value)
  finally show ?thesis .
qed

end
