(* ===== verification/Sqlite_Invariant.thy ===== *)
theory Sqlite_Invariant
  imports Submission_Sqlite
begin

text \<open>
  The invariant of the \<open>chain_submissions\<close> table and its preservation by the statements the store
  issues: every row belongs to one identity, loads as a well-formed record and satisfies the
  schema, and no two rows collide. Writing a well-formed successor of a loaded record always
  satisfies the CHECK constraints and triggers, so the store never fails on them.
\<close>

section \<open>Well-formed records\<close>

fun state_diagnostic :: "SubmissionRecordState \<Rightarrow> ChainSubmissionDiagnostic option" where
  "state_diagnostic (Recovering _ d) = Some d"
| "state_diagnostic (SubmittedWithoutHash d) = Some d"
| "state_diagnostic (Rejected d) = Some d"
| "state_diagnostic _ = None"

definition bounded_diagnostic :: "ChainSubmissionDiagnostic option \<Rightarrow> bool" where
  "bounded_diagnostic d \<longleftrightarrow>
     (case d of None \<Rightarrow> True
      | Some d \<Rightarrow> length (diagnostic_message d) \<le> MAX_CHAIN_SUBMISSION_DIAGNOSTIC_BYTES)"

definition stored_wf :: "StoredChainSubmission \<Rightarrow> bool" where
  "stored_wf r \<longleftrightarrow>
     valid_state (stored_state r) \<and> in_sql_range r \<and> length (stored_digest r) = 32 \<and>
     created_at r \<le> updated_at r \<and>
     (stored_state r = Submitting \<longrightarrow> tracking_started_at r = None) \<and>
     (is_tracking (stored_state r) \<longrightarrow> tracking_started_at r \<noteq> None) \<and>
     bounded_diagnostic (state_diagnostic (stored_state r)) \<and>
     bounded_diagnostic (stored_diagnostic r)"

lemma bounded_diagnostic_simps [simp]:
  "bounded_diagnostic None"
  "bounded_diagnostic (Some (from_redacted_message k m))"
  "bounded_diagnostic (Some (reload_diagnostic d))"
  by (simp_all add: bounded_diagnostic_def reload_diagnostic_def length_bounded_redacted_text)

lemma persisted_diagnostic_bounded:
  "stored_wf r \<Longrightarrow> bounded_diagnostic (persisted_diagnostic r)"
  by (cases "stored_state r") (auto simp: stored_wf_def persisted_diagnostic_def)

lemma stored_wf_reload: "stored_wf r \<Longrightarrow> stored_wf (reload_record r)"
  by (cases "stored_state r"; cases "persisted_diagnostic r")
    (auto simp: stored_wf_def reload_record_def in_sql_range_def is_tracking_def)

lemma reload_record_sel [simp]:
  "stored_identity (reload_record r) = stored_identity r"
  "stored_digest (reload_record r) = stored_digest r"
  "durable_state (stored_state (reload_record r)) = durable_state (stored_state r)"
  "candidate_of (stored_state (reload_record r)) = candidate_of (stored_state r)"
  "committed_post_reservations (reload_record r) = committed_post_reservations r"
  "tracking_started_at (reload_record r) = tracking_started_at r"
  "created_at (reload_record r) = created_at r"
  "updated_at (reload_record r) = updated_at r"
  by (cases "stored_state r"; simp add: reload_record_def)+

section \<open>Rows of an identity\<close>

definition valid_identity :: "ChainSubmissionIdentity \<Rightarrow> bool" where
  "valid_identity i \<longleftrightarrow> wf_identity i \<and> (\<forall>p. target i = TargetVote p \<longrightarrow> 1 \<le> p \<and> p \<le> 50)"

definition row_for :: "text_codecs \<Rightarrow> ChainSubmissionIdentity \<Rightarrow> submission_row \<Rightarrow> bool" where
  "row_for codecs i row \<longleftrightarrow>
     row_identity_key row = submission_identity_key i \<and>
     row_round_id row = hex_encode codecs (vote_round_id i) \<and>
     row_wallet_id row = wallet_id i \<and> row_network row = network_name (network i) \<and>
     row_bundle_index row = uint (bundle_index i) \<and>
     (row_kind row, row_proposal_id row, row_ordered_batch_digest row) = target_columns (target i)"

text \<open>INTEGER columns hold signed 64-bit values.\<close>

definition row_ints :: "submission_row \<Rightarrow> bool" where
  "row_ints row \<longleftrightarrow>
     row_committed_post_reservations row < 2 ^ 63 \<and> row_created_at row < 2 ^ 63 \<and>
     row_updated_at row < 2 ^ 63 \<and>
     (case row_tracking_started_at row of None \<Rightarrow> True | Some t \<Rightarrow> t < 2 ^ 63)"

definition row_inv :: "text_codecs \<Rightarrow> submission_row \<Rightarrow> bool" where
  "row_inv codecs row \<longleftrightarrow> schema_ok row \<and> row_ints row \<and>
     (\<forall>h. row_confirmed_transaction_hash row = Some h \<longrightarrow> row_candidate_transaction_hash row = Some h) \<and>
     (\<exists>i r. valid_identity i \<and> row_for codecs i row \<and> load_one i row = Inr r \<and> stored_wf r)"

definition db_inv :: "'d store_env \<Rightarrow> 'd voting_db \<Rightarrow> bool" where
  "db_inv env db \<longleftrightarrow>
     (\<forall>row \<in> set (chain_submissions db). row_inv (env_codecs env) row) \<and>
     sorted_wrt rows_compatible (chain_submissions db)"

lemma db_inv_empty: "chain_submissions db = [] \<Longrightarrow> db_inv env db"
  by (simp add: db_inv_def)

lemma length_identity_key: "32 \<le> length (submission_identity_key i)"
  by (simp add: submission_identity_key_def IDENTITY_KEY_PREFIX_def)

lemma target_columns_check:
  assumes "valid_identity i" and "(row_kind row, row_proposal_id row, row_ordered_batch_digest row) =
    target_columns (target i)"
  shows "check_kind row" and "row_kind row \<in> {''delegation'', ''vote'', ''vote_batch'',
    ''delegate_and_cast_vote_batch''}"
proof -
  have "1 \<le> uint p \<and> uint p \<le> 50" if "target i = TargetVote p" for p
  proof -
    have "1 \<le> p" "p \<le> 50"
      using assms(1) that by (auto simp: valid_identity_def)
    then show ?thesis
      by (simp_all add: word_le_def)
  qed
  then show "check_kind row"
    using assms by (cases "target i") (auto simp: check_kind_def valid_identity_def wf_identity_def)
  show "row_kind row \<in> {''delegation'', ''vote'', ''vote_batch'', ''delegate_and_cast_vote_batch''}"
    using assms(2) by (cases "target i") auto
qed

lemma row_for_columns:
  assumes "valid_identity i" and "row_for codecs i row"
  shows "row_network row \<in> {''mainnet'', ''testnet'', ''regtest''}"
    and "0 \<le> row_bundle_index row" and "row_bundle_index row \<le> 4294967295"
    and "check_kind row"
    and "row_kind row \<in> {''delegation'', ''vote'', ''vote_batch'', ''delegate_and_cast_vote_batch''}"
    and "32 \<le> length (row_identity_key row)"
proof -
  have "uint (bundle_index i) < 2 ^ 32"
    using uint_lt2p [of "bundle_index i"] by simp
  then show "row_bundle_index row \<le> 4294967295"
    using assms(2) by (simp add: row_for_def)
  show "row_network row \<in> {''mainnet'', ''testnet'', ''regtest''}"
    using assms(2) by (cases "network i") (auto simp: row_for_def)
  show "check_kind row" "row_kind row \<in> {''delegation'', ''vote'', ''vote_batch'',
      ''delegate_and_cast_vote_batch''}"
    using target_columns_check [OF assms(1)] assms(2) by (auto simp: row_for_def)
qed (use assms(2) length_identity_key in \<open>auto simp: row_for_def\<close>)

section \<open>Written rows satisfy the schema\<close>

lemma uint_mono: "v \<le> w \<Longrightarrow> uint v \<le> uint w"
  by (simp add: word_le_def)

lemma uint_i64: "v \<le> i64_max \<Longrightarrow> uint v < 2 ^ 63"
  by (simp add: word_le_def)

lemma u64_from_sql_Inr: "u64_from_sql i = Inr v \<Longrightarrow> i < 9223372036854775808 \<Longrightarrow> i = uint v"
  by (auto simp: u64_from_sql_def uint_word_of_int split: if_splits)

lemma mutable_row_immutable:
  assumes "mutable_row r row = Inr row'"
  shows "row_for codecs i row' \<longleftrightarrow> row_for codecs i row"
    and "row_generation_digest row' = row_generation_digest row"
    and "row_created_at row' = row_created_at row"
    and "row_identity_key row' = row_identity_key row"
  using assms by (auto simp: mutable_row_def and_then_eq_Inr row_for_def split: prod.splits)

lemma mutable_row_columns:
  assumes "mutable_row r row = Inr row'" and "stored_wf r"
    and "mutable_columns r (stored_state r) = (st, cand, diag, conf)"
  shows "row_state row' = st" "row_candidate_transaction_hash row' = cand"
    "row_diagnostic_kind row' = map_option (\<lambda>d. kind_as_str (diagnostic_kind d)) diag"
    "row_diagnostic row' = map_option diagnostic_message diag"
    "row_confirmation_source row' = map_option (\<lambda>c. source_name (source c)) conf"
    "row_confirmed_transaction_hash row' = Option.bind conf transaction_hash"
    "row_final_van_position row' = None \<longleftrightarrow> conf = None"
    "row_vote_commitment_positions row' = None \<longleftrightarrow> conf = None"
    "row_tracking_started_at row' = map_option uint (tracking_started_at r)"
    "row_committed_post_reservations row' = uint (committed_post_reservations r)"
    "row_updated_at row' = uint (updated_at r)"
  using assms
  by (cases conf; auto simp: mutable_row_def and_then_eq_Inr stored_wf_def in_sql_range_def
      map_transpose_tracking)+

lemma schema_mutable_row:
  assumes "valid_identity i" and "row_for codecs i row" and "stored_wf r"
    and "row_generation_digest row = stored_digest r" and "row_created_at row = uint (created_at r)"
    and row': "mutable_row r row = Inr row'"
  shows "schema_ok row'"
proof -
  obtain st cand diag conf where cols: "mutable_columns r (stored_state r) = (st, cand, diag, conf)"
    by (metis prod_cases4)
  note new = mutable_row_columns [OF row' assms(3) cols] mutable_row_immutable [OF row']
  have for': "row_for codecs i row'"
    using assms(2) new by simp
  have diag: "bounded_diagnostic diag"
    using persisted_diagnostic_bounded [OF assms(3)] cols by (simp add: persisted_diagnostic_def)
  have "check_columns row'"
    unfolding check_columns_def
    using row_for_columns [OF assms(1) for'] new assms(3-5) cols
    by (cases "stored_state r"; cases conf; cases "source (the conf)")
      (auto simp: stored_wf_def uint_mono)
  moreover have "check_state row'"
  proof (cases "stored_state r")
    case (Confirmed v)
    with assms(3) cols new show ?thesis
      by (cases v) (auto simp: check_state_def stored_wf_def valid_hash_def split: option.splits)
  qed (use assms(3) cols new diag in \<open>auto simp: check_state_def stored_wf_def is_tracking_def
      valid_hash_def bounded_diagnostic_def MAX_CHAIN_SUBMISSION_DIAGNOSTIC_BYTES_def
      split: option.splits\<close>)
  ultimately show ?thesis
    using row_for_columns(4) [OF assms(1) for'] by (simp add: schema_ok_def)
qed

lemma row_inv_mutable_row:
  assumes "valid_identity (stored_identity r)" and "row_for codecs (stored_identity r) row"
    and "stored_wf r" and "row_generation_digest row = stored_digest r"
    and "row_created_at row = uint (created_at r)"
  shows "\<exists>row'. mutable_row r row = Inr row' \<and> row_inv codecs row' \<and>
    row_for codecs (stored_identity r) row' \<and>
    load_one (stored_identity r) row' = Inr (reload_record r)"
proof -
  obtain row' where row': "mutable_row r row = Inr row'"
    "load_one (stored_identity r) row' = Inr (reload_record r)"
    using mutable_row_roundtrip [of r row] assms by (auto simp: stored_wf_def)
  obtain st cand diag conf where cols: "mutable_columns r (stored_state r) = (st, cand, diag, conf)"
    by (metis prod_cases4)
  have "\<forall>h. row_confirmed_transaction_hash row' = Some h \<longrightarrow> row_candidate_transaction_hash row' = Some h"
    using mutable_row_columns [OF row'(1) assms(3) cols] cols
    by (cases "stored_state r") (auto split: option.splits)
  moreover have "row_ints row'"
    using mutable_row_columns [OF row'(1) assms(3) cols] mutable_row_immutable(3) [OF row'(1)]
      assms(3,5) uint_i64
    by (auto simp: row_ints_def stored_wf_def in_sql_range_def split: option.splits)
  moreover have "schema_ok row'" "row_for codecs (stored_identity r) row'"
    using schema_mutable_row [OF assms row'(1)] assms(2) mutable_row_immutable(1) [OF row'(1)] by auto
  ultimately show ?thesis
    using row' assms(1) stored_wf_reload [OF assms(3)] unfolding row_inv_def by blast
qed

lemma row_inv_fresh_row:
  assumes "valid_identity (generation_identity g)" and "length (generation_digest g) = 32"
    and "n \<le> i64_max" and "now \<le> i64_max"
  shows "\<exists>row. fresh_row codecs (fresh_record g n now) = Inr row \<and> row_inv codecs row \<and>
    row_for codecs (generation_identity g) row \<and>
    row_candidate_transaction_hash row = None \<and> row_confirmed_transaction_hash row = None \<and>
    load_one (generation_identity g) row = Inr (fresh_record g n now)"
proof -
  let ?r = "fresh_record g n now"
  obtain kind proposal batch where tgt: "target_columns (target (generation_identity g)) =
      (kind, proposal, batch)"
    by (metis prod_cases3)
  obtain row where row: "fresh_row codecs ?r = Inr row"
    using assms(3,4) by (simp add: fresh_row_def fresh_record_def tgt Let_def)
  then have cols: "row_for codecs (generation_identity g) row" "row_state row = ''submitting''"
    "row_candidate_transaction_hash row = None" "row_tracking_started_at row = None"
    "row_diagnostic_kind row = None" "row_diagnostic row = None" "row_confirmation_source row = None"
    "row_confirmed_transaction_hash row = None" "row_generation_digest row = generation_digest g"
    "row_committed_post_reservations row = uint n" "row_created_at row = uint now"
    "row_updated_at row = uint now"
    using assms(3,4) by (auto simp: fresh_row_def fresh_record_def tgt row_for_def Let_def)
  have load: "load_one (generation_identity g) row = Inr ?r"
    using assms(2-4) by (simp add: load_one_def load_diagnostic_def load_confirmation_def
        load_state_def cols fresh_record_def)
  have "stored_wf ?r"
    using assms by (simp add: stored_wf_def fresh_record_def in_sql_range_def is_tracking_def)
  moreover have "schema_ok row"
    using row_for_columns [OF assms(1) cols(1)] assms(2)
    by (simp add: schema_ok_def check_columns_def check_state_def cols)
  moreover have "row_ints row"
    using assms(3,4) uint_i64 by (simp add: row_ints_def cols)
  ultimately show ?thesis
    using row cols load assms(1) unfolding row_inv_def by auto
qed

lemma row_inv_imported_row:
  assumes "valid_identity (generation_identity g)" and "target (generation_identity g) = TargetDelegation"
    and "length (generation_digest g) = 32" and "length h = 32" and "now \<le> i64_max"
  shows "\<exists>row. imported_row codecs (adopted_imported_delegation g h now) h = Inr row \<and>
    row_inv codecs row \<and> row_for codecs (generation_identity g) row \<and>
    row_candidate_transaction_hash row = Some h \<and> row_confirmed_transaction_hash row = None \<and>
    load_one (generation_identity g) row = Inr (adopted_imported_delegation g h now)"
proof -
  let ?r = "adopted_imported_delegation g h now"
  obtain row where row: "imported_row codecs ?r h = Inr row"
    using assms(5) by (simp add: imported_row_def adopted_imported_delegation_def Let_def)
  then have cols: "row_for codecs (generation_identity g) row" "row_state row = ''tracking''"
    "row_candidate_transaction_hash row = Some h" "row_tracking_started_at row = Some (uint now)"
    "row_diagnostic_kind row = None" "row_diagnostic row = None" "row_confirmation_source row = None"
    "row_confirmed_transaction_hash row = None" "row_generation_digest row = generation_digest g"
    "row_committed_post_reservations row = 0" "row_created_at row = uint now"
    "row_updated_at row = uint now"
    using assms(2,5) by (auto simp: imported_row_def adopted_imported_delegation_def row_for_def Let_def)
  have zero: "u64_from_sql 0 = Inr 0"
    by (simp add: u64_from_sql_def)
  have load: "load_one (generation_identity g) row = Inr ?r"
    using assms(3-5) by (simp add: load_one_def load_diagnostic_def load_confirmation_def
        load_state_def cols adopted_imported_delegation_def zero)
  have "stored_wf ?r"
    using assms by (simp add: stored_wf_def adopted_imported_delegation_def in_sql_range_def is_tracking_def)
  moreover have "schema_ok row"
    using row_for_columns [OF assms(1) cols(1)] assms(3,4)
    by (simp add: schema_ok_def check_columns_def check_state_def cols)
  moreover have "row_ints row"
    using assms(5) uint_i64 by (simp add: row_ints_def cols)
  ultimately show ?thesis
    using row cols load assms(1) unfolding row_inv_def by auto
qed

section \<open>Loading from the table\<close>

lemma load_one_sel:
  assumes "load_one i row = Inr r"
  shows "stored_identity r = i" and "stored_digest r = row_generation_digest row"
    and "u64_from_sql (row_created_at row) = Inr (created_at r)"
    and "u64_from_sql (row_committed_post_reservations row) = Inr (committed_post_reservations r)"
    and "map_transpose u64_from_sql (row_tracking_started_at row) = Inr (tracking_started_at r)"
  using assms by (auto simp: load_one_def and_then_eq_Inr bytes32_def split: if_splits)

lemma load_one_candidate:
  assumes "load_one i row = Inr r" and "candidate_of (stored_state r) = Some h"
  shows "row_candidate_transaction_hash row = Some h"
  using assms
  by (cases "row_candidate_transaction_hash row")
    (auto simp: load_one_def and_then_eq_Inr load_state_def bytes32_def ok_or_eq_Inr split: if_splits)

lemma has_key_row_for:
  assumes "row_inv codecs row" and "valid_identity i" and "has_key i row"
  shows "row_for codecs i row \<and> (\<exists>r. load_one i row = Inr r \<and> stored_wf r)"
proof -
  obtain j r where j: "valid_identity j" "row_for codecs j row" "load_one j row = Inr r" "stored_wf r"
    using assms(1) unfolding row_inv_def by blast
  then have "submission_identity_key i = submission_identity_key j"
    using assms(3) by (simp add: has_key_def row_for_def)
  then have "i = j"
    using submission_identity_key_inj [of i j] assms(2) j(1) by (simp add: valid_identity_def)
  with j show ?thesis by blast
qed

lemma find_has_keyD:
  "find (has_key i) rows = Some row \<Longrightarrow> row \<in> set rows \<and> has_key i row"
  by (metis find_Some_iff nth_mem)

lemma load_submission_total:
  assumes "db_inv env db" and "valid_identity i"
  shows "\<exists>found. load_submission env db i = Inr found"
proof (cases "find (has_key i) (chain_submissions db)")
  case (Some row)
  then have "row \<in> set (chain_submissions db)" "has_key i row"
    using find_has_keyD by fast+
  moreover have "row_inv (env_codecs env) row"
    using assms(1) calculation(1) by (simp add: db_inv_def)
  ultimately obtain r where "load_one i row = Inr r"
    using has_key_row_for [OF _ assms(2)] by blast
  with Some show ?thesis by (simp add: load_submission_def)
qed (simp add: load_submission_def)

lemma loaded_row:
  assumes "db_inv env db" and "valid_identity i" and "load_submission env db i = Inr (Some r)"
  obtains row where "row \<in> set (chain_submissions db)" "has_key i row"
    "row_for (env_codecs env) i row" "load_one i row = Inr r" "stored_wf r" "stored_identity r = i"
    "row_generation_digest row = stored_digest r" "row_created_at row = uint (created_at r)"
    "row_committed_post_reservations row = uint (committed_post_reservations r)"
    "row_tracking_started_at row = map_option uint (tracking_started_at r)"
proof -
  obtain row where row: "find (has_key i) (chain_submissions db) = Some row" "load_one i row = Inr r"
    using assms(3) by (auto simp: load_submission_def result_simps split: option.splits)
  then have mem: "row \<in> set (chain_submissions db)" "has_key i row"
    using find_has_keyD by fast+
  then have inv: "row_inv (env_codecs env) row"
    using assms(1) by (simp add: db_inv_def)
  have ints: "row_ints row"
    using inv by (simp add: row_inv_def)
  note sel = load_one_sel [OF row(2)]
  have "row_tracking_started_at row = map_option uint (tracking_started_at r)"
    using sel(5) ints
    by (cases "row_tracking_started_at row") (auto simp: row_ints_def and_then_eq_Inr dest!: u64_from_sql_Inr dest: sym)
  moreover have "row_created_at row = uint (created_at r)"
    "row_committed_post_reservations row = uint (committed_post_reservations r)"
    using sel(3,4) ints by (auto simp: row_ints_def dest!: u64_from_sql_Inr)
  moreover have "row_for (env_codecs env) i row" "stored_wf r"
    using has_key_row_for [OF inv assms(2) mem(2)] row(2) by auto
  ultimately show ?thesis
    using that mem row(2) sel(1,2) by auto
qed

lemma other_rows_free:
  assumes "db_inv env db" and "row \<in> set (chain_submissions db)"
    and "row_candidate_transaction_hash row = Some h"
    and "other \<in> set (chain_submissions db)" and "row_identity_key other \<noteq> row_identity_key row"
  shows "\<not> hash_owned h other"
proof -
  have "row \<noteq> other" using assms(5) by blast
  then have "rows_compatible row other \<or> rows_compatible other row"
    using assms(1,2,4) unfolding db_inv_def
    by (metis (no_types, lifting) in_set_conv_nth linorder_neqE_nat sorted_wrt_iff_nth_less)
  then have "row_candidate_transaction_hash other \<noteq> Some h"
    using assms(3) by (auto simp: rows_compatible_def)
  moreover have "row_inv (env_codecs env) other"
    using assms(1,4) by (simp add: db_inv_def)
  ultimately show ?thesis
    by (auto simp: hash_owned_def row_inv_def)
qed

section \<open>Updating one row\<close>

text \<open>The rows around the one row of an identity.\<close>

lemma split_at_key:
  assumes "sorted_wrt rows_compatible rows" and "row \<in> set rows" and "has_key i row"
  obtains before after where "rows = before @ row # after"
    "\<forall>other \<in> set before \<union> set after. \<not> has_key i other \<and> rows_compatible other row"
proof -
  obtain before after where split: "rows = before @ row # after"
    using assms(2) by (meson split_list)
  moreover have "rows_compatible other row" if "other \<in> set before \<union> set after" for other
    using assms(1) that unfolding split by (auto simp: sorted_wrt_append rows_compatible_sym)
  ultimately show ?thesis
    using that assms(3) by (auto simp: rows_compatible_def has_key_def)
qed

lemma map_other_rows:
  "\<forall>other \<in> set rows. \<not> p other \<Longrightarrow>
   collect_results (map (\<lambda>row. if p row then f row else Inr row) rows) = Inr rows"
  by (induction rows) auto

lemma collect_results_append:
  "collect_results (xs @ ys) =
     and_then (collect_results xs) (\<lambda>as. and_then (collect_results ys) (\<lambda>bs. Inr (as @ bs)))"
  by (induction xs) (auto simp: and_then_assoc, auto simp: and_then_def split: sum.splits)

lemma sql_update_one:
  assumes "chain_submissions db = before @ row # after" and "p row"
    and "\<forall>other \<in> set before \<union> set after. \<not> p other"
    and "change row = Inr row'" and "schema_ok row'" and "update_allowed row row'"
    and "sorted_wrt rows_compatible (before @ row' # after)"
  shows "sql_update p change db = Inr (db\<lparr>chain_submissions := before @ row' # after\<rparr>)"
proof -
  have "collect_results (map (\<lambda>row. if p row then change row else Inr row) (chain_submissions db)) =
      Inr (before @ row' # after)"
    using assms(2-4) by (simp add: assms(1) collect_results_append map_other_rows)
  moreover have "list_all (\<lambda>(old, new). p old \<longrightarrow> schema_ok new \<and> update_allowed old new)
      (zip (before @ row # after) (before @ row' # after))"
    using assms(3,5,6) by (auto simp: list_all_iff dest: set_zip_leftD)
  ultimately show ?thesis
    using assms(1,7) by (simp add: sql_update_def)
qed

lemma compatible_update:
  assumes "rows_compatible other row" and "mutable_row r row = Inr row'"
    and "row_inv codecs row'"
    and "\<forall>h. row_candidate_transaction_hash row' = Some h \<longrightarrow> \<not> hash_owned h other"
  shows "rows_compatible other row'"
proof -
  have "row_identity_key row' = row_identity_key row" "row_wallet_id row' = row_wallet_id row"
    "row_network row' = row_network row" "row_round_id row' = row_round_id row"
    "row_kind row' = row_kind row" "row_bundle_index row' = row_bundle_index row"
    "row_proposal_id row' = row_proposal_id row"
    "row_ordered_batch_digest row' = row_ordered_batch_digest row"
    using assms(2) by (auto simp: mutable_row_def and_then_eq_Inr split: prod.splits)
  moreover have "row_candidate_transaction_hash other = None \<or>
      row_candidate_transaction_hash other \<noteq> row_candidate_transaction_hash row'"
    using assms(4) by (cases "row_candidate_transaction_hash other") (force simp: hash_owned_def)+
  moreover have "row_confirmed_transaction_hash other = None \<or>
      row_confirmed_transaction_hash other \<noteq> row_confirmed_transaction_hash row'"
    using assms(3,4)
    by (cases "row_confirmed_transaction_hash other") (force simp: hash_owned_def row_inv_def)+
  ultimately show ?thesis
    using assms(1) by (simp add: rows_compatible_def)
qed

lemma sorted_wrt_replace:
  assumes "sorted_wrt rows_compatible (before @ row # after)"
    and "\<forall>other \<in> set before \<union> set after. rows_compatible other row'"
  shows "sorted_wrt rows_compatible (before @ row' # after)"
  using assms by (auto simp: sorted_wrt_append rows_compatible_sym)

text \<open>
  Persisting a well-formed successor of a loaded record: the statement succeeds, keeps the
  invariant, and afterwards the identity loads the written record and every other identity loads
  what it did before.
\<close>

definition successor :: "StoredChainSubmission \<Rightarrow> StoredChainSubmission \<Rightarrow> bool" where
  "successor r r' \<longleftrightarrow>
     stored_identity r' = stored_identity r \<and> stored_digest r' = stored_digest r \<and>
     created_at r' = created_at r \<and> updated_at r \<le> updated_at r' \<and>
     committed_post_reservations r \<le> committed_post_reservations r' \<and>
     (tracking_started_at r = None \<or> tracking_started_at r' = tracking_started_at r)"

abbreviation written_candidate :: "StoredChainSubmission \<Rightarrow> CandidateTransactionHash option" where
  "written_candidate r \<equiv> fst (snd (mutable_columns r (stored_state r)))"

lemma load_other_identity:
  assumes "chain_submissions db = before @ row # after"
    and "chain_submissions db' = before @ row' # after"
    and "row_identity_key row' = row_identity_key row" and "\<not> has_key j row"
  shows "load_submission env db' j = load_submission env db j"
proof -
  have "find (has_key j) (before @ row' # after) = find (has_key j) (before @ row # after)"
    using assms(3,4) by (induction before) (auto simp: has_key_def)
  then show ?thesis
    using assms(1,2) by (simp add: load_submission_def)
qed

lemma find_skip: "\<forall>x \<in> set before. \<not> p x \<Longrightarrow> p row \<Longrightarrow> find p (before @ row # after) = Some row"
  by (induction before) auto

text \<open>At most one submission of a bundle is unresolved at a time.\<close>

definition bundle_of :: "submission_row \<Rightarrow> bytes \<times> string \<times> rust_str \<times> int" where
  "bundle_of row = (row_wallet_id row, row_network row, row_round_id row, row_bundle_index row)"

definition bundle_exclusive :: "'d voting_db \<Rightarrow> bool" where
  "bundle_exclusive db \<longleftrightarrow>
     sorted_wrt (\<lambda>a b. \<not> (bundle_of a = bundle_of b \<and> unresolved_row a \<and> unresolved_row b))
       (chain_submissions db)"

definition unresolved_state :: "SubmissionRecordState \<Rightarrow> bool" where
  "unresolved_state s \<longleftrightarrow> durable_state s \<notin> {DurableConfirmed, DurableRejected}"

lemma unresolved_row_written:
  assumes "mutable_row r row = Inr row'"
  shows "unresolved_row row' \<longleftrightarrow> unresolved_state (stored_state r)"
    and "bundle_of row' = bundle_of row"
  using assms
  by (cases "stored_state r"; auto simp: mutable_row_def and_then_eq_Inr unresolved_row_def
      unresolved_state_def bundle_of_def)+

lemma unresolved_row_loaded:
  assumes "load_one i row = Inr r"
  shows "unresolved_row row \<longleftrightarrow> unresolved_state (stored_state r)"
  using assms
  by (auto simp: load_one_def result_simps load_state_def unresolved_row_def unresolved_state_def
      split: if_splits)

lemma sorted_wrt_exchange:
  assumes "sorted_wrt P (before @ x # after)"
    and "\<And>y. P y x \<Longrightarrow> P y x'" and "\<And>y. P x y \<Longrightarrow> P x' y"
  shows "sorted_wrt P (before @ x' # after)"
  using assms by (simp add: sorted_wrt_append)

lemma bundle_exclusive_replace:
  assumes "bundle_exclusive db" and "chain_submissions db = before @ row # after"
    and "chain_submissions db' = before @ row' # after" and "bundle_of row' = bundle_of row"
    and "unresolved_row row' \<longrightarrow> unresolved_row row"
  shows "bundle_exclusive db'"
proof -
  let ?P = "\<lambda>a b. \<not> (bundle_of a = bundle_of b \<and> unresolved_row a \<and> unresolved_row b)"
  have "sorted_wrt ?P (before @ row # after)"
    using assms(1,2) by (simp add: bundle_exclusive_def)
  moreover have "\<And>other. ?P other row \<Longrightarrow> ?P other row'" "\<And>other. ?P row other \<Longrightarrow> ?P row' other"
    unfolding assms(4) using assms(5) by blast+
  ultimately have "sorted_wrt ?P (before @ row' # after)"
    by (rule sorted_wrt_exchange)
  then show ?thesis
    using assms(3) by (simp add: bundle_exclusive_def)
qed

lemma persist_mutable_ok:
  assumes inv: "db_inv env db" and i: "valid_identity i"
    and load: "load_submission env db i = Inr (Some r)"
    and r': "successor r r'" "stored_wf r'"
    and free: "\<forall>h. written_candidate r' = Some h \<longrightarrow>
      (\<forall>other \<in> set (chain_submissions db). \<not> has_key i other \<longrightarrow> \<not> hash_owned h other)"
  shows "\<exists>db'. persist_mutable env r' db = Inr db' \<and> db_inv env db' \<and> domain db' = domain db \<and>
    load_submission env db' i = Inr (Some (reload_record r')) \<and>
    (\<forall>j. valid_identity j \<longrightarrow> j \<noteq> i \<longrightarrow> load_submission env db' j = load_submission env db j) \<and>
    (bundle_exclusive db \<longrightarrow> (unresolved_state (stored_state r') \<longrightarrow> unresolved_state (stored_state r)) \<longrightarrow>
       bundle_exclusive db')"
proof -
  from loaded_row [OF inv i load] obtain row where
    row: "row \<in> set (chain_submissions db)" "has_key i row" "row_for (env_codecs env) i row"
      "load_one i row = Inr r"
    and sel: "stored_identity r = i" "row_generation_digest row = stored_digest r"
      "row_created_at row = uint (created_at r)"
      "row_committed_post_reservations row = uint (committed_post_reservations r)"
      "row_tracking_started_at row = map_option uint (tracking_started_at r)"
    by metis
  have id': "stored_identity r' = i"
    using r'(1) sel(1) by (simp add: successor_def)
  obtain before after where split: "chain_submissions db = before @ row # after"
    and others: "\<forall>other \<in> set before \<union> set after. \<not> has_key i other \<and> rows_compatible other row"
    using split_at_key [OF _ row(1,2)] inv by (metis db_inv_def)
  obtain row' where new: "mutable_row r' row = Inr row'" "row_inv (env_codecs env) row'"
    "load_one i row' = Inr (reload_record r')"
    using row_inv_mutable_row [of r' "env_codecs env" row] i row(3) r' sel id'
    by (auto simp: successor_def)
  obtain st cand diag conf where cols: "mutable_columns r' (stored_state r') = (st, cand, diag, conf)"
    by (metis prod_cases4)
  note written = mutable_row_columns [OF new(1) r'(2) cols]
  have compat: "\<forall>other \<in> set before \<union> set after. rows_compatible other row'"
  proof
    fix other assume other: "other \<in> set before \<union> set after"
    then have "\<forall>h. row_candidate_transaction_hash row' = Some h \<longrightarrow> \<not> hash_owned h other"
      using free others written(2) cols split by auto
    with other others show "rows_compatible other row'"
      using compatible_update [OF _ new(1,2)] by blast
  qed
  let ?db = "db\<lparr>chain_submissions := before @ row' # after\<rparr>"
  have sorted: "sorted_wrt rows_compatible (before @ row' # after)"
    using sorted_wrt_replace [of before row after row'] inv split compat by (simp add: db_inv_def)
  have "update_allowed row row'"
    using r'(1) sel written by (auto simp: update_allowed_def successor_def uint_mono)
  moreover have "schema_ok row'"
    using new(2) by (simp add: row_inv_def)
  ultimately have "sql_update (has_key i) (mutable_row r') db = Inr ?db"
    using sql_update_one [where p = "has_key i" and change = "mutable_row r'", OF split row(2) _ new(1)]
      sorted others by blast
  moreover have "db_inv env ?db"
    using inv split new(2) sorted by (auto simp: db_inv_def)
  moreover have key': "row_identity_key row' = row_identity_key row"
    by (rule mutable_row_immutable(4) [OF new(1)])
  then have "load_submission env ?db i = Inr (Some (reload_record r'))"
    using find_skip [of before "has_key i" row' after] others row(2) new(3)
    by (simp add: load_submission_def has_key_def)
  moreover have "load_submission env ?db j = load_submission env db j"
    if "valid_identity j" "j \<noteq> i" for j
  proof (rule load_other_identity [OF split _ key'])
    show "\<not> has_key j row"
      using row(2) that i submission_identity_key_inj [of i j]
      by (auto simp: has_key_def valid_identity_def)
  qed simp
  moreover have "bundle_exclusive ?db"
    if "bundle_exclusive db" "unresolved_state (stored_state r') \<Longrightarrow> unresolved_state (stored_state r)"
    using bundle_exclusive_replace [OF that(1) split, of ?db row'] that(2)
      unresolved_row_written [OF new(1)] unresolved_row_loaded [OF row(4)] by simp
  ultimately show ?thesis
    by (auto simp: persist_mutable_def id')
qed

end
