(* ===== verification/Sqlite_Operations.thy ===== *)
theory Sqlite_Operations
  imports Sqlite_Invariant
begin

text \<open>
  What each store operation does to the table, under the table invariant: transitions implement
  the transition function of the row and never fail on the schema, reservations raise the counter
  and nothing else, errors and faults leave the database as it was.
\<close>

section \<open>Transitions keep records well-formed\<close>

fun valid_observation :: "SubmissionObservation \<Rightarrow> bool" where
  "valid_observation (UsableCandidateHash h) \<longleftrightarrow> length h = 32"
| "valid_observation (PossiblyDispatched d) \<longleftrightarrow> bounded_diagnostic (Some d)"
| "valid_observation (DefiniteRejection d) \<longleftrightarrow> bounded_diagnostic (Some d)"
| "valid_observation (TerminalRejection d) \<longleftrightarrow> bounded_diagnostic (Some d)"
| "valid_observation (ObsSubmittedWithoutHash d) \<longleftrightarrow> bounded_diagnostic (Some d)"
| "valid_observation (ObsTrackingWindowExpired d) \<longleftrightarrow> bounded_diagnostic (Some d)"
| "valid_observation (CandidateCommittedFailure d) \<longleftrightarrow> bounded_diagnostic (Some d)"
| "valid_observation (TerminalCandidateFailure d) \<longleftrightarrow> bounded_diagnostic (Some d)"
| "valid_observation (AbandonedSubmitting d) \<longleftrightarrow> bounded_diagnostic (Some d)"
| "valid_observation (ObsConfirmed v) \<longleftrightarrow> valid_state (Confirmed v)"
| "valid_observation _ \<longleftrightarrow> True"

lemma apply_valid_state:
  assumes "apply_submission_observation (Some s) ob = Inr (Some s')"
    and "valid_state s" and "bounded_diagnostic (state_diagnostic s)" and "valid_observation ob"
  shows "valid_state s' \<and> bounded_diagnostic (state_diagnostic s') \<and> s' \<noteq> Submitting"
  using assms
  by (cases s rule: record_state_cases)
    (auto simp: apply_accepted apply_terminal terminal_state_def valid_hash_def
      split: SubmissionObservation.splits if_splits)

lemma settle_sel [simp]:
  "stored_state (settle_after_transition p e n r) = stored_state r"
  "stored_identity (settle_after_transition p e n r) = stored_identity r"
  "stored_digest (settle_after_transition p e n r) = stored_digest r"
  "created_at (settle_after_transition p e n r) = created_at r"
  "updated_at (settle_after_transition p e n r) = max n (updated_at r)"
  "committed_post_reservations (settle_after_transition p e n r) = committed_post_reservations r"
  by (simp_all add: settle_after_transition_def Let_def)

lemma settle_tracking:
  "tracking_started_at (settle_after_transition p e n r) =
     (if is_tracking (stored_state r) \<and> tracking_started_at r = None then Some (max n (updated_at r))
      else tracking_started_at r)"
  by (simp add: settle_after_transition_def Let_def)

lemma settle_diagnostic_bounded:
  assumes "bounded_diagnostic (state_diagnostic (stored_state r))"
    and "bounded_diagnostic (stored_diagnostic r)" and "bounded_diagnostic e"
  shows "bounded_diagnostic (stored_diagnostic (settle_after_transition p e n r))"
  using assms
  by (cases "stored_state r"; cases e) (auto simp: settle_after_transition_def Let_def)

lemma stored_wf_transition:
  assumes "stored_wf r" and "apply_submission_observation (Some (stored_state r)) ob = Inr (Some s)"
    and "valid_observation ob" and "bounded_diagnostic e" and "now \<le> i64_max"
  shows "stored_wf (settle_after_transition p e now (r\<lparr>stored_state := s\<rparr>))"
    and "successor r (settle_after_transition p e now (r\<lparr>stored_state := s\<rparr>))"
proof -
  have s: "valid_state s" "bounded_diagnostic (state_diagnostic s)" "s \<noteq> Submitting"
    using apply_valid_state [OF assms(2)] assms(1,3) by (auto simp: stored_wf_def)
  have range: "in_sql_range r" "updated_at r \<le> i64_max" "max now (updated_at r) \<le> i64_max"
    using assms(1,5) by (auto simp: stored_wf_def in_sql_range_def max_def)
  have "bounded_diagnostic (stored_diagnostic (settle_after_transition p e now (r\<lparr>stored_state := s\<rparr>)))"
    using settle_diagnostic_bounded [of "r\<lparr>stored_state := s\<rparr>" e p now] s assms(1,4)
    by (simp add: stored_wf_def)
  with s range assms(1) show "stored_wf (settle_after_transition p e now (r\<lparr>stored_state := s\<rparr>))"
    by (auto simp: stored_wf_def in_sql_range_def settle_tracking le_max_iff_disj split: option.splits)
  show "successor r (settle_after_transition p e now (r\<lparr>stored_state := s\<rparr>))"
    by (auto simp: successor_def settle_tracking)
qed

section \<open>Who owns a transaction hash\<close>

lemma written_candidate_origin:
  assumes "apply_submission_observation (Some s) ob = Inr (Some s')" and "valid_state s'"
    and "fst (snd (mutable_columns r s')) = Some h"
  shows "ob = UsableCandidateHash h \<or> candidate_of s = Some h \<or>
    (\<exists>c. s = Confirmed (ConfirmationByHash c) \<and> transaction_hash c = Some h)"
proof (cases s')
  case (Confirmed v)
  then obtain c where v: "v = ConfirmationByHash c" "transaction_hash c = Some h"
    using assms(2,3) by (cases v) auto
  with assms(1) Confirmed have "Some s = Some (Confirmed (ConfirmationByHash c)) \<or>
      (\<exists>t h. Some s = Some t \<and> candidate_of t = Some h \<and> transaction_hash c = Some h)"
    by (intro hash_confirmation_step) auto
  with v show ?thesis by auto
qed (use assms candidate_step [OF assms(1), of h] in auto)

lemma loaded_candidate:
  assumes "load_one i row = Inr r" and "row_inv codecs row"
    and "candidate_of (stored_state r) = Some h \<or>
      (\<exists>c. stored_state r = Confirmed (ConfirmationByHash c) \<and> transaction_hash c = Some h)"
  shows "row_candidate_transaction_hash row = Some h"
proof -
  have "row_confirmed_transaction_hash row = Some h"
    if "stored_state r = Confirmed (ConfirmationByHash c)" "transaction_hash c = Some h" for c
    using assms(1) that
    by (cases "row_confirmed_transaction_hash row")
      (auto simp: load_one_def result_simps load_state_def load_confirmation_def bytes32_def
        confirmation_from_hash_Inr confirmation_from_tree_Inr split: if_splits option.splits)
  with assms show ?thesis
    using load_one_candidate [OF assms(1)] by (auto simp: row_inv_def)
qed

section \<open>Applying an observation\<close>

lemma effective_observation_valid:
  "valid_observation ob \<Longrightarrow> valid_observation (effective_observation i ob db)"
  by (cases ob) (auto simp: effective_observation_def)

lemma effective_observation_free:
  assumes "effective_observation i ob db = UsableCandidateHash h"
    and "other \<in> set (chain_submissions db)" and "\<not> has_key i other"
  shows "\<not> hash_owned h other"
  using assms by (cases ob) (auto simp: effective_observation_def list_ex_iff split: if_splits)

lemma transition_keeps_hashes_unique:
  assumes "db_inv env db" and "valid_identity i" and "load_submission env db i = Inr (Some r)"
    and "apply_submission_observation (Some (stored_state r)) (effective_observation i ob db) =
      Inr (Some s)" and "valid_state s"
    and "fst (snd (mutable_columns r' s)) = Some h"
    and "other \<in> set (chain_submissions db)" and "\<not> has_key i other"
  shows "\<not> hash_owned h other"
proof -
  from loaded_row [OF assms(1-3)] obtain row where row: "row \<in> set (chain_submissions db)"
    "has_key i row" "load_one i row = Inr r" by metis
  then have "row_inv (env_codecs env) row"
    using assms(1) by (simp add: db_inv_def)
  then have "effective_observation i ob db = UsableCandidateHash h \<or>
      row_candidate_transaction_hash row = Some h"
    using written_candidate_origin [OF assms(4,5,6)] loaded_candidate [OF row(3)] by blast
  then show ?thesis
    using effective_observation_free [OF _ assms(7,8)] other_rows_free [OF assms(1) row(1) _ assms(7)]
      row(2) assms(8) by (auto simp: has_key_def)
qed

lemma require_row_loaded [simp]:
  "load_submission env db i = Inr (Some r) \<Longrightarrow> require_row env db i m = Inr r"
  by (simp add: require_row_def)

lemma apply_observation_accepted:
  assumes inv: "db_inv env db" and i: "i = generation_identity g" "valid_identity i"
    and load: "load_submission env db i = Inr (Some r)" and gen: "ensure_generation r g = Inr ()"
    and ob: "valid_observation ob" "bounded_diagnostic e" and now: "now \<le> i64_max"
    and step: "apply_submission_observation (Some (stored_state r)) (effective_observation i ob db) =
      Inr (Some s)"
    and keep: "\<not> (durable_state s = DurableRejected \<and> stored_durable_state r \<noteq> DurableRejected \<and>
      is_combined (target i))"
  shows "\<exists>r' db'. apply_observation env NoFault g ob e now db = (Inr r', db') \<and>
    r' = settle_after_transition (stored_durable_state r) e now (r\<lparr>stored_state := s\<rparr>) \<and>
    successor r r' \<and> stored_wf r' \<and> db_inv env db' \<and> domain db' = domain db \<and>
    load_submission env db' i = Inr (Some (reload_record r')) \<and>
    (\<forall>j. valid_identity j \<longrightarrow> j \<noteq> i \<longrightarrow> load_submission env db' j = load_submission env db j)"
proof -
  let ?r' = "settle_after_transition (stored_durable_state r) e now (r\<lparr>stored_state := s\<rparr>)"
  from loaded_row [OF inv i(2) load] have r: "stored_wf r" "stored_identity r = i"
    by metis+
  note wf = stored_wf_transition [OF r(1) step effective_observation_valid [OF ob(1)] ob(2) now,
      of "stored_durable_state r"]
  have "valid_state s"
    using apply_valid_state [OF step] r(1) effective_observation_valid [OF ob(1), of i db]
    by (simp add: stored_wf_def)
  then have "\<forall>h. written_candidate ?r' = Some h \<longrightarrow>
      (\<forall>other \<in> set (chain_submissions db). \<not> has_key i other \<longrightarrow> \<not> hash_owned h other)"
    using transition_keeps_hashes_unique [OF inv i(2) load step] by auto
  from persist_mutable_ok [OF inv i(2) load wf(2,1) this] obtain db' where
    db': "persist_mutable env ?r' db = Inr db'" "db_inv env db'" "domain db' = domain db"
    "load_submission env db' i = Inr (Some (reload_record ?r'))"
    "\<forall>j. valid_identity j \<longrightarrow> j \<noteq> i \<longrightarrow> load_submission env db' j = load_submission env db j"
    by blast
  have "\<not> retires_combined_generation (stored_durable_state r) ?r'"
    using keep r(2) by (auto simp: retires_combined_generation_def)
  then have "apply_observation_tx env g ob e now db = Inr (?r', db')"
    using load gen step db'(1) i(1) by (simp add: apply_observation_tx_def Let_def)
  then have "apply_observation env NoFault g ob e now db = (Inr ?r', db')"
    by (simp add: apply_observation_def transact_def)
  with wf db' show ?thesis by blast
qed

section \<open>Steps of one record\<close>

text \<open>
  The abstract store: a partial map from identities to records. One store call changes a record
  only along these steps.
\<close>

inductive record_step :: "StoredChainSubmission option \<Rightarrow> StoredChainSubmission option \<Rightarrow> bool" where
  kept: "record_step x x"
| reserved: "record_step None (Some r)" if "stored_state r = Submitting"
| adopted: "record_step None (Some r)" if "is_tracking (stored_state r)" "committed_post_reservations r = 0"
| advanced: "record_step (Some r) (Some r')" if "successor r r'"
    "durable_step (Some (stored_durable_state r)) (Some (stored_durable_state r'))"
| released: "record_step (Some r) None" if "stored_state r = Submitting"
| retired: "record_step (Some r) None" if "is_combined (target (stored_identity r))"
    "durable_step (Some (stored_durable_state r)) (Some DurableRejected)"

inductive_cases record_step_SomeE: "record_step (Some r) x"

definition abs_store ::
  "'d store_env \<Rightarrow> 'd voting_db \<Rightarrow> ChainSubmissionIdentity \<Rightarrow> StoredChainSubmission option" where
  "abs_store env db j = (case load_submission env db j of Inr x \<Rightarrow> x | Inl _ \<Rightarrow> None)"

definition keeps :: "'d store_env \<Rightarrow> 'd voting_db \<Rightarrow> 'd voting_db \<Rightarrow> bool" where
  "keeps env db db' \<longleftrightarrow>
     db_inv env db' \<and> (bundle_exclusive db \<longrightarrow> bundle_exclusive db') \<and>
     (\<forall>j. valid_identity j \<longrightarrow> record_step (abs_store env db j) (abs_store env db' j))"

lemma domain_irrelevant [simp]:
  "load_submission env (db\<lparr>domain := d\<rparr>) i = load_submission env db i"
  "abs_store env (db\<lparr>domain := d\<rparr>) i = abs_store env db i"
  "db_inv env (db\<lparr>domain := d\<rparr>) = db_inv env db"
  "bundle_exclusive (db\<lparr>domain := d\<rparr>) = bundle_exclusive db"
  by (simp_all add: load_submission_def db_inv_def bundle_exclusive_def abs_store_def)

lemma keeps_refl: "db_inv env db \<Longrightarrow> keeps env db db"
  by (simp add: keeps_def kept)

lemma keeps_domain: "keeps env db db' \<Longrightarrow> keeps env db (db'\<lparr>domain := d\<rparr>)"
  by (simp add: keeps_def)

lemma unresolved_edge:
  "durable_step (Some (durable_state s)) (Some (durable_state t)) \<Longrightarrow>
   unresolved_state t \<Longrightarrow> unresolved_state s"
  by (cases s; cases t) (auto simp: unresolved_state_def durable_step_simps)

lemma successor_reload [simp]: "successor r (reload_record r') \<longleftrightarrow> successor r r'"
  by (simp add: successor_def)

text \<open>The three changes of the table.\<close>

lemma keeps_persist:
  assumes inv: "db_inv env db" and i: "valid_identity i"
    and load: "load_submission env db i = Inr (Some r)"
    and r': "successor r r'" "stored_wf r'"
    and free: "\<forall>h. written_candidate r' = Some h \<longrightarrow>
      (\<forall>other \<in> set (chain_submissions db). \<not> has_key i other \<longrightarrow> \<not> hash_owned h other)"
    and edge: "durable_step (Some (stored_durable_state r)) (Some (stored_durable_state r'))"
  shows "\<exists>db'. persist_mutable env r' (db\<lparr>domain := d\<rparr>) = Inr db' \<and> keeps env db db' \<and>
    abs_store env db' i = Some (reload_record r') \<and> domain db' = d"
proof -
  have free': "\<forall>h. written_candidate r' = Some h \<longrightarrow>
      (\<forall>other \<in> set (chain_submissions (db\<lparr>domain := d\<rparr>)). \<not> has_key i other \<longrightarrow> \<not> hash_owned h other)"
    using free by simp
  have load': "load_submission env (db\<lparr>domain := d\<rparr>) i = Inr (Some r)" and "db_inv env (db\<lparr>domain := d\<rparr>)"
    using load inv by simp_all
  from persist_mutable_ok [OF this(2) i load' r' free'] obtain db' where
    db': "persist_mutable env r' (db\<lparr>domain := d\<rparr>) = Inr db'" "db_inv env db'" "domain db' = d"
    "load_submission env db' i = Inr (Some (reload_record r'))"
    "\<forall>j. valid_identity j \<longrightarrow> j \<noteq> i \<longrightarrow> load_submission env db' j = load_submission env db j"
    "bundle_exclusive db \<longrightarrow> (unresolved_state (stored_state r') \<longrightarrow> unresolved_state (stored_state r)) \<longrightarrow>
       bundle_exclusive db'"
    by auto
  have "record_step (abs_store env db j) (abs_store env db' j)" if "valid_identity j" for j
    using that load db'(4,5) r'(1) edge by (cases "j = i") (simp_all add: abs_store_def kept advanced)
  moreover have "bundle_exclusive db \<longrightarrow> bundle_exclusive db'"
    using db'(6) unresolved_edge [OF edge] by blast
  moreover have "abs_store env db' i = Some (reload_record r')"
    using db'(4) by (simp add: abs_store_def)
  ultimately show ?thesis
    using db'(1-3) unfolding keeps_def by blast
qed

lemma find_filter_other:
  assumes "\<And>x. p x \<Longrightarrow> q x"
  shows "find p (filter q xs) = find p xs"
  using assms by (induction xs) auto

lemma find_filter_none: "find p (filter (\<lambda>x. \<not> p x) xs) = None"
  by (simp add: find_None_iff)

lemma keeps_delete:
  assumes inv: "db_inv env db" and i: "valid_identity i"
    and load: "load_submission env db i = Inr (Some r)" and step: "record_step (Some r) None"
  shows "keeps env db (sql_delete (has_key i) db)" and "abs_store env (sql_delete (has_key i) db) i = None"
proof -
  let ?db = "sql_delete (has_key i) db"
  show gone: "abs_store env ?db i = None"
    by (simp add: abs_store_def load_submission_def sql_delete_def find_filter_none)
  have "abs_store env ?db j = abs_store env db j" if "valid_identity j" "j \<noteq> i" for j
  proof -
    have "has_key j row \<Longrightarrow> \<not> has_key i row" for row
      using that i submission_identity_key_inj [of i j] by (auto simp: has_key_def valid_identity_def)
    then show ?thesis
      by (simp add: abs_store_def load_submission_def sql_delete_def find_filter_other)
  qed
  then have "record_step (abs_store env db j) (abs_store env ?db j)" if "valid_identity j" for j
    using that load step gone by (cases "j = i") (simp_all add: abs_store_def kept)
  moreover have "db_inv env ?db" "bundle_exclusive db \<longrightarrow> bundle_exclusive ?db"
    using inv by (auto simp: db_inv_def bundle_exclusive_def sql_delete_def sorted_wrt_filter)
  ultimately show "keeps env db ?db"
    by (simp add: keeps_def)
qed

lemma bundle_of_row_for:
  assumes "row_for (env_codecs env) i row"
  shows "bundle_of other = bundle_of row \<longleftrightarrow> same_bundle env i other \<and> on_network i other"
  using assms by (auto simp: row_for_def bundle_of_def same_bundle_def on_network_def)

lemma find_append_other: "\<not> p x \<Longrightarrow> find p (xs @ [x]) = find p xs"
  by (induction xs) auto

lemma keeps_insert:
  assumes inv: "db_inv env db" and i: "valid_identity i"
    and load: "load_submission env db i = Inr None"
    and row: "row_inv (env_codecs env) row" "row_for (env_codecs env) i row" "load_one i row = Inr r"
    and step: "record_step None (Some r)" and guard: "guard_predecessor env i db = Inr ()"
    and ins: "sql_insert env row db = Inr db'"
  shows "keeps env db db' \<and> abs_store env db' i = Some r"
proof -
  have db': "db' = db\<lparr>chain_submissions := chain_submissions db @ [row]\<rparr>"
    and compat: "\<forall>other \<in> set (chain_submissions db). rows_compatible other row"
    using ins by (auto simp: sql_insert_def list_all_iff split: if_splits)
  have key: "has_key i row"
    using row(2) by (simp add: row_for_def has_key_def)
  have none: "find (has_key i) (chain_submissions db) = None"
    using load by (auto simp: load_submission_def result_simps split: option.splits)
  then have "find (has_key i) (chain_submissions db @ [row]) = Some row"
    using key find_skip [of "chain_submissions db" "has_key i" row "[]"] by (auto simp: find_None_iff)
  then have at_i: "abs_store env db' i = Some r"
    using row(3) by (simp add: abs_store_def load_submission_def db')
  have "find (has_key j) (chain_submissions db @ [row]) = find (has_key j) (chain_submissions db)"
    if "valid_identity j" "j \<noteq> i" for j
  proof -
    have "\<not> has_key j row"
      using key that i submission_identity_key_inj [of i j] by (auto simp: has_key_def valid_identity_def)
    then show ?thesis by (rule find_append_other)
  qed
  then have "record_step (abs_store env db j) (abs_store env db' j)" if "valid_identity j" for j
    using that load step at_i
    by (cases "j = i") (simp_all add: abs_store_def load_submission_def db' kept none)
  moreover have "db_inv env db'"
    using inv row(1) compat by (auto simp: db_inv_def db' sorted_wrt_append)
  moreover have "\<not> (bundle_of other = bundle_of row \<and> unresolved_row other)"
    if "other \<in> set (chain_submissions db)" for other
    using guard that bundle_of_row_for [OF row(2), of other]
    by (auto simp: guard_predecessor_def list_ex_iff split: if_splits)
  then have "bundle_exclusive db \<longrightarrow> bundle_exclusive db'"
    by (auto simp: bundle_exclusive_def db' sorted_wrt_append)
  ultimately show ?thesis
    using at_i by (simp add: keeps_def)
qed

section \<open>Transitions\<close>

lemma transition_persists:
  assumes inv: "db_inv env db" and i: "valid_identity i"
    and load: "load_submission env db i = Inr (Some r)"
    and step: "apply_submission_observation (Some (stored_state r)) (effective_observation i ob db) =
      Inr (Some (stored_state r'))"
    and r': "successor r r'" "stored_wf r'"
  shows "\<exists>db'. persist_mutable env r' (db\<lparr>domain := d\<rparr>) = Inr db' \<and> keeps env db db' \<and>
    abs_store env db' i = Some (reload_record r') \<and> domain db' = d"
proof (rule keeps_persist [OF inv i load r'])
  have "valid_state (stored_state r')"
    using r'(2) by (simp add: stored_wf_def)
  then show "\<forall>h. written_candidate r' = Some h \<longrightarrow>
      (\<forall>other \<in> set (chain_submissions db). \<not> has_key i other \<longrightarrow> \<not> hash_owned h other)"
    using transition_keeps_hashes_unique [OF inv i load step] by blast
  show "durable_step (Some (stored_durable_state r)) (Some (stored_durable_state r'))"
    using apply_simulates [OF step] by simp
qed

lemma same_domain [simp]: "db\<lparr>domain := domain db\<rparr> = db"
  by simp

text \<open>The row of a combined generation that becomes rejected is removed with its projection.\<close>

lemma retired_step:
  assumes "apply_submission_observation (Some (stored_state r)) ob = Inr (Some s)"
    and "retires_combined_generation (stored_durable_state r) r'" and "stored_state r' = s"
    and "stored_identity r' = stored_identity r"
  shows "record_step (Some r) None"
  using apply_simulates [OF assms(1)] assms(2-4)
  by (intro retired) (auto simp: retires_combined_generation_def)

lemma keeps_transact:
  assumes "db_inv env db" and "\<And>res db'. operation db = Inr (res, db') \<Longrightarrow> keeps env db db'"
  shows "keeps env db (snd (transact env fault operation db))"
  using assms keeps_refl [OF assms(1)]
  by (auto simp: transact_def split: storage_fault.splits sum.splits)

lemma require_row_Inr: "require_row env db i m = Inr r \<longleftrightarrow> load_submission env db i = Inr (Some r)"
  by (auto simp: require_row_def result_simps)

lemma loaded_wf:
  assumes "db_inv env db" and "valid_identity i" and "load_submission env db i = Inr (Some r)"
  shows "stored_wf r" and "stored_identity r = i"
  using loaded_row [OF assms] by metis+

lemma ensure_generation_Inr:
  "ensure_generation r g = Inr u \<longleftrightarrow>
     stored_identity r = generation_identity g \<and> stored_digest r = generation_digest g"
  by (auto simp: ensure_generation_def)

lemma apply_observation_keeps:
  assumes inv: "db_inv env db" and i: "valid_identity (generation_identity g)"
    and ob: "valid_observation ob" "bounded_diagnostic e" and now: "now \<le> i64_max"
  shows "keeps env db (snd (apply_observation env fault g ob e now db))"
  unfolding apply_observation_def
proof (rule keeps_transact [OF inv])
  fix res db' assume ok: "apply_observation_tx env g ob e now db = Inr (res, db')"
  let ?i = "generation_identity g" and ?ob = "effective_observation (generation_identity g) ob db"
  obtain r s where load: "load_submission env db ?i = Inr (Some r)"
    and step: "apply_submission_observation (Some (stored_state r)) ?ob = Inr (Some s)"
    using ok by (auto simp: apply_observation_tx_def result_simps require_row_Inr Let_def)
  let ?r' = "settle_after_transition (stored_durable_state r) e now (r\<lparr>stored_state := s\<rparr>)"
  note wf = loaded_wf [OF inv i load]
  note new = stored_wf_transition [OF wf(1) step effective_observation_valid [OF ob(1)] ob(2) now,
      of "stored_durable_state r"]
  show "keeps env db db'"
  proof (cases "retires_combined_generation (stored_durable_state r) ?r'")
    case True
    then have "record_step (Some r) None"
      using retired_step [OF step] by simp
    from keeps_delete(1) [OF inv i load this] show ?thesis
      using ok load step True
      by (auto simp: apply_observation_tx_def result_simps Let_def intro: keeps_domain)
  next
    case False
    from transition_persists [OF inv i load _ new(2,1), of ob "domain db"] obtain db2 where
      "persist_mutable env ?r' db = Inr db2" "keeps env db db2"
      using step by auto
    then show ?thesis
      using ok load step False by (auto simp: apply_observation_tx_def result_simps Let_def)
  qed
qed

lemma next_reservation_Some_iff: "next_reservation n = Some m \<longleftrightarrow> n < i64_max \<and> m = n + 1"
proof -
  have "unat (n + 1) = unat n + 1" if "unat n + 1 < 2 ^ 64"
    using that by (simp add: unat_word_ariths)
  then show ?thesis
    by (auto simp: next_reservation_def checked_add_def word_less_nat_alt word_le_nat_alt)
qed

lemma less_i64_max_Suc: "(n :: u64) < i64_max \<Longrightarrow> n \<le> n + 1 \<and> n + 1 \<le> i64_max"
  by (simp add: inc_le word_le_nat_alt word_less_nat_alt unat_word_ariths)

lemma reservation_wf:
  assumes "stored_wf r" and "next_reservation (committed_post_reservations r) = Some n"
    and "now \<le> i64_max" and "stored_state r = Recovering c d" and "c' = c \<or> c' = None"
  shows "stored_wf (r\<lparr>committed_post_reservations := n, stored_state := Recovering c' d,
      updated_at := max now (updated_at r)\<rparr>)"
    and "successor r (r\<lparr>committed_post_reservations := n, stored_state := Recovering c' d,
      updated_at := max now (updated_at r)\<rparr>)"
proof -
  have n: "n = committed_post_reservations r + 1" "n \<le> i64_max"
    and no_wrap: "committed_post_reservations r \<le> n"
    using assms(2) less_i64_max_Suc by (auto simp: next_reservation_Some_iff)
  then show "successor r (r\<lparr>committed_post_reservations := n, stored_state := Recovering c' d,
      updated_at := max now (updated_at r)\<rparr>)"
    by (simp add: successor_def)
  show "stored_wf (r\<lparr>committed_post_reservations := n, stored_state := Recovering c' d,
      updated_at := max now (updated_at r)\<rparr>)"
    using assms n(2) by (auto simp: stored_wf_def in_sql_range_def is_tracking_def valid_hash_def max_def)
qed

end
