(* ===== verification/Store_Calls.thy ===== *)
theory Store_Calls
  imports Sqlite_Operations
begin

text \<open>
  Sequences of store calls. Every call of the store keeps the table invariant, leaves at most one
  unresolved submission per bundle, and moves each record along one step of the abstract store; a
  locale lifts this to runs of any length and is interpreted on the SQLite store.
\<close>

section \<open>Reservations\<close>

lemma own_candidate_free:
  assumes inv: "db_inv env db" and i: "valid_identity i" and load: "load_submission env db i = Inr (Some r)"
    and h: "candidate_of (stored_state r) = Some h"
    and other: "other \<in> set (chain_submissions db)" "\<not> has_key i other"
  shows "\<not> hash_owned h other"
proof -
  from loaded_row [OF inv i load] obtain row where row: "row \<in> set (chain_submissions db)"
    "has_key i row" "load_one i row = Inr r" by metis
  from load_one_candidate [OF row(3) h] show ?thesis
    using other_rows_free [OF inv row(1) _ other(1)] row(2) other(2) by (simp add: has_key_def)
qed

lemma reservation_persists:
  assumes inv: "db_inv env db" and i: "valid_identity i" and load: "load_submission env db i = Inr (Some r)"
    and st: "stored_state r = Recovering c d" and c': "c' = c \<or> c' = None"
    and n: "next_reservation (committed_post_reservations r) = Some n" and now: "now \<le> i64_max"
    and r': "r' = r\<lparr>committed_post_reservations := n, stored_state := Recovering c' d,
      updated_at := max now (updated_at r)\<rparr>"
  shows "\<exists>db'. persist_mutable env r' db = Inr db' \<and> keeps env db db' \<and>
    abs_store env db' i = Some (reload_record r') \<and> domain db' = domain db"
proof -
  note wf = reservation_wf [OF loaded_wf(1) [OF inv i load] n now st c', folded r']
  have "\<forall>h. written_candidate r' = Some h \<longrightarrow>
      (\<forall>other \<in> set (chain_submissions db). \<not> has_key i other \<longrightarrow> \<not> hash_owned h other)"
    using own_candidate_free [OF inv i load] st c' by (auto simp: r')
  moreover have "durable_step (Some (stored_durable_state r)) (Some (stored_durable_state r'))"
    using st by (simp add: r' durable_step_simps)
  ultimately show ?thesis
    using keeps_persist [OF inv i load wf(2,1), of "domain db"] by simp
qed

lemma permits_ambiguous_retry_Recovering:
  assumes "permits_ambiguous_retry s"
  obtains d where "s = Recovering None d"
  using assms by (cases s rule: permits_ambiguous_retry.cases) auto

lemma reserve_ambiguous_retry_keeps:
  assumes inv: "db_inv env db" and i: "valid_identity (generation_identity g)" and now: "now \<le> i64_max"
  shows "keeps env db (snd (reserve_ambiguous_retry env fault g now db))"
  unfolding reserve_ambiguous_retry_def
proof (rule keeps_transact [OF inv], goal_cases)
  case (1 res db')
  then obtain r n where load: "load_submission env db (generation_identity g) = Inr (Some r)"
    and p: "permits_ambiguous_retry (stored_state r)"
    and n: "next_reservation (committed_post_reservations r) = Some n"
    and db': "persist_mutable env (r\<lparr>committed_post_reservations := n, updated_at := max now (updated_at r)\<rparr>)
      db = Inr db'"
    by (auto simp: result_simps require_row_Inr Let_def split: if_splits)
  obtain d where d: "stored_state r = Recovering None d"
    using p by (rule permits_ambiguous_retry_Recovering)
  then have "r\<lparr>committed_post_reservations := n, updated_at := max now (updated_at r)\<rparr> =
      r\<lparr>committed_post_reservations := n, stored_state := Recovering None d,
        updated_at := max now (updated_at r)\<rparr>"
    by simp
  from reservation_persists [OF inv i load d _ n now this] db' show ?case by auto
qed

lemma reserve_recovery_retry_keeps:
  assumes inv: "db_inv env db" and i: "valid_identity (authorized_identity a)" and now: "now \<le> i64_max"
  shows "keeps env db (snd (reserve_recovery_retry env fault req a now db))"
  unfolding reserve_recovery_retry_def
proof (rule keeps_transact [OF inv], goal_cases)
  case (1 res db')
  then obtain r c d n where load: "load_submission env db (authorized_identity a) = Inr (Some r)"
    and d: "stored_state r = Recovering c d"
    and n: "next_reservation (committed_post_reservations r) = Some n"
    and db': "persist_mutable env (r\<lparr>committed_post_reservations := n, stored_state := Recovering None d,
      updated_at := max now (updated_at r)\<rparr>) db = Inr db'"
    by (auto simp: result_simps require_row_Inr Let_def split: if_splits SubmissionRecordState.splits)
  from reservation_persists [OF inv i load d disjI2 [OF refl] n now refl] db' show ?case by auto
qed

lemma remove_fresh_reservation_keeps:
  assumes inv: "db_inv env db" and i: "valid_identity (generation_identity g)"
  shows "keeps env db (snd (remove_fresh_reservation env fault g now db))"
  unfolding remove_fresh_reservation_def
proof (rule keeps_transact [OF inv], goal_cases)
  case (1 res db')
  then obtain r where load: "load_submission env db (generation_identity g) = Inr (Some r)"
    and "stored_state r = Submitting" and db': "db' = sql_delete (has_key (generation_identity g)) db"
    by (auto simp: result_simps require_row_Inr split: if_splits)
  then have "record_step (Some r) None" by (intro released)
  from keeps_delete(1) [OF inv i load this] db' show ?case by simp
qed

section \<open>Confirmation\<close>

lemma confirmed_by_hash_valid_state:
  "confirmation_from_hash h p ps = Inr v \<Longrightarrow> length h = 32 \<Longrightarrow> length ps < 2 ^ 32 \<Longrightarrow>
   valid_state (Confirmed v)"
  by (auto simp: confirmation_from_hash_Inr valid_hash_def)

lemma confirmed_by_tree_valid_state:
  "confirmation_from_tree p ps = Inr v \<Longrightarrow> length ps < 2 ^ 32 \<Longrightarrow> valid_state (Confirmed v)"
  by (auto simp: confirmation_from_tree_Inr valid_hash_def)

lemma validate_delegation_event_valid:
  "validate_delegation_event codecs i h events = Inr v \<Longrightarrow> length h = 32 \<Longrightarrow> valid_state (Confirmed v)"
  by (auto simp: validate_delegation_event_def Let_def result_simps simp del: valid_state.simps
      intro: confirmed_by_hash_valid_state)

lemma validate_vote_event_valid:
  assumes "validate_vote_event codecs i h events = Inr v" and "length h = 32"
  shows "valid_state (Confirmed v)"
proof -
  obtain p q where "confirmation_from_hash h p [q] = Inr v"
    using assms(1) unfolding validate_vote_event_def Let_def and_then_eq_Inr
    by (elim exE conjE) (auto simp: result_simps split: list.splits)
  then show ?thesis
    using confirmed_by_hash_valid_state assms(2) by simp
qed

lemma validate_batch_confirmation_valid:
  assumes "validate_batch_confirmation codecs d h events dig vcs = Inr v" and "length h = 32"
  shows "valid_state (Confirmed v)"
proof -
  obtain p ps where "confirmation_from_hash h p ps = Inr v" "length ps \<le> 50"
    using assms(1)
    by (auto simp: validate_batch_confirmation_def Let_def result_simps split: if_splits)
  then show ?thesis
    using confirmed_by_hash_valid_state assms(2) by simp
qed

lemma validate_hash_confirmation_valid:
  assumes "validate_hash_confirmation codecs d h events = Inr v" and "length h = 32"
  shows "valid_state (Confirmed v)"
  using assms unfolding validate_hash_confirmation_def Let_def
  by (auto simp del: valid_state.simps split: ChainSubmissionTarget.splits ExpectedTreeLayout.splits prod.splits
      intro: validate_delegation_event_valid validate_vote_event_valid validate_batch_confirmation_valid)

lemma validate_imported_delegation_confirmation_valid:
  assumes "validate_imported_delegation_confirmation codecs b h events = Inr v" and "length h = 32"
  shows "valid_state (Confirmed v)"
  using assms unfolding validate_imported_delegation_confirmation_def Let_def
  by (auto simp del: valid_state.simps split: ChainSubmissionTarget.splits ExpectedTreeLayout.splits prod.splits
      intro: validate_delegation_event_valid)

lemma confirmed_wf:
  assumes "stored_wf r" and "valid_state (Confirmed v)" and "now \<le> i64_max"
  shows "stored_wf (r\<lparr>stored_state := Confirmed v, stored_diagnostic := None,
      updated_at := max now (updated_at r)\<rparr>)"
    and "successor r (r\<lparr>stored_state := Confirmed v, stored_diagnostic := None,
      updated_at := max now (updated_at r)\<rparr>)"
  using assms by (auto simp: stored_wf_def successor_def in_sql_range_def is_tracking_def max_def)

lemma apply_confirmed_some:
  assumes "apply_submission_observation (Some s) (ObsConfirmed v) = Inr x"
  shows "x = Some (Confirmed v)"
  using assms
  by (cases s rule: record_state_cases)
    (auto simp: apply_accepted apply_terminal terminal_state_def split: if_splits)

lemma commit_confirmation_keeps:
  assumes inv: "db_inv env db" and i: "valid_identity i" and load: "load_submission env db i = Inr (Some r)"
    and v: "valid_state (Confirmed v)" and now: "now \<le> i64_max"
    and ok: "commit_confirmation env r derived v now db = Inr (res, db')"
  shows "keeps env db db'"
proof -
  let ?r' = "r\<lparr>stored_state := Confirmed v, stored_diagnostic := None,
      updated_at := max now (updated_at r)\<rparr>"
  obtain d where step: "apply_submission_observation (Some (stored_state r)) (ObsConfirmed v) =
      Inr (Some (Confirmed v))"
    and db': "persist_mutable env ?r' (db\<lparr>domain := d\<rparr>) = Inr db'"
    using ok by (auto simp: commit_confirmation_def result_simps Let_def dest: apply_confirmed_some)
  have "effective_observation i (ObsConfirmed v) db = ObsConfirmed v"
    by (simp add: effective_observation_def)
  then show ?thesis
    using transition_persists [OF inv i load _ confirmed_wf(2,1) [OF loaded_wf(1) [OF inv i load] v now],
      of "ObsConfirmed v" d] step db' by auto
qed

lemma confirm_committed_keeps:
  assumes inv: "db_inv env db" and i: "valid_identity (generation_identity g)" and now: "now \<le> i64_max"
    and h: "length h = 32"
  shows "keeps env db (snd (confirm_committed env fault req g h events allowed now db))"
  unfolding confirm_committed_def
proof (rule keeps_transact [OF inv], goal_cases)
  case (1 res db')
  then obtain r derived where load: "load_submission env db (generation_identity g) = Inr (Some r)"
    and "db' = db \<or> (\<exists>v. valid_state (Confirmed v) \<and>
      commit_confirmation env r derived v now db = Inr (res, db'))"
    using validate_hash_confirmation_valid [OF _ h] validate_imported_delegation_confirmation_valid [OF _ h]
    by (fastforce simp: result_simps require_row_Inr split: if_splits)
  with commit_confirmation_keeps [OF inv i load _ now] keeps_refl [OF inv] show ?case by blast
qed

lemma confirm_tree_keeps:
  assumes inv: "db_inv env db" and i: "valid_identity (generation_identity g)" and now: "now \<le> i64_max"
    and ps: "length ps < 2 ^ 32"
  shows "keeps env db (snd (confirm_tree env fault req g p ps allowed now db))"
  unfolding confirm_tree_def
proof (rule keeps_transact [OF inv], goal_cases)
  case (1 res db')
  then obtain r derived where load: "load_submission env db (generation_identity g) = Inr (Some r)"
    and "db' = db \<or> (\<exists>v. valid_state (Confirmed v) \<and>
      commit_confirmation env r derived v now db = Inr (res, db'))"
    using confirmed_by_tree_valid_state [OF _ ps]
    by (fastforce simp: result_simps require_row_Inr split: if_splits)
  with commit_confirmation_keeps [OF inv i load _ now] keeps_refl [OF inv] show ?case by blast
qed

section \<open>Admission\<close>

text \<open>
  What derivation promises: the generation belongs to the requested identity, and digests and
  imported hashes have the width of their Rust array types.
\<close>

definition derivation_ok :: "'d store_env \<Rightarrow> bool" where
  "derivation_ok env \<longleftrightarrow>
     (\<forall>db request d. derive_generation env db request = Inr d \<longrightarrow>
        generation_identity (derived_generation d) = derivation_identity request \<and>
        length (generation_digest (derived_generation d)) = 32 \<and>
        (\<forall>h. imported_candidate d = Some h \<longrightarrow> length h = 32))"

lemma derive_Inr:
  assumes "derivation_ok env" and "derive env db request = Inr d"
  shows "generation_identity (derived_generation d) = derivation_identity request"
    and "length (generation_digest (derived_generation d)) = 32"
    and "imported_candidate d = Some h \<Longrightarrow> length h = 32"
  using assms by (auto simp: derivation_ok_def derive_def result_simps)

lemma normalized_wf:
  assumes "stored_wf r" and "stored_state r = Submitting" and "now \<le> i64_max"
  shows "stored_wf (r\<lparr>stored_state := Recovering None abandoned_diagnostic,
      stored_diagnostic := Some abandoned_diagnostic, updated_at := max now (updated_at r)\<rparr>)"
    and "successor r (r\<lparr>stored_state := Recovering None abandoned_diagnostic,
      stored_diagnostic := Some abandoned_diagnostic, updated_at := max now (updated_at r)\<rparr>)"
  using assms
  by (auto simp: stored_wf_def successor_def in_sql_range_def is_tracking_def max_def valid_hash_def
      abandoned_diagnostic_def)

lemma normalize_abandoned_ok:
  assumes inv: "db_inv env db" and i: "valid_identity i" and load: "load_submission env db i = Inr (Some r)"
    and st: "stored_state r = Submitting" and now: "now \<le> i64_max"
  shows "\<exists>r' db'. normalize_abandoned env r now db = Inr (r', db') \<and> keeps env db db' \<and>
    stored_state r' = Recovering None abandoned_diagnostic \<and>
    abs_store env db' i = Some (reload_record r') \<and> domain db' = domain db"
proof -
  let ?ob = "AbandonedSubmitting abandoned_diagnostic"
  let ?r' = "r\<lparr>stored_state := Recovering None abandoned_diagnostic,
      stored_diagnostic := Some abandoned_diagnostic, updated_at := max now (updated_at r)\<rparr>"
  have step: "apply_submission_observation (Some (stored_state r)) ?ob =
      Inr (Some (Recovering None abandoned_diagnostic))"
    by (simp add: st apply_Submitting)
  have "effective_observation i ?ob db = ?ob"
    by (simp add: effective_observation_def)
  then obtain db' where "persist_mutable env ?r' db = Inr db'" "keeps env db db'"
    "abs_store env db' i = Some (reload_record ?r')" "domain db' = domain db"
    using transition_persists [OF inv i load _ normalized_wf(2,1) [OF loaded_wf(1) [OF inv i load] st now],
      of ?ob "domain db"] step by auto
  moreover have "normalize_abandoned env r now db = Inr (?r', db')"
    using step calculation(1) by (simp add: normalize_abandoned_def)
  ultimately show ?thesis by (intro exI [of _ ?r'] exI [of _ db']) simp
qed

lemma admit_imported_keeps:
  assumes env: "derivation_ok env" and inv: "db_inv env db" and i: "valid_identity (request_identity request)"
    and load: "load_submission env db (request_identity request) = Inr None"
    and kind: "target (request_identity request) = TargetDelegation" and now: "now \<le> i64_max"
    and guard: "guard_predecessor env (request_identity request) db = Inr ()"
    and ok: "admit_imported env request now db = Inr (res, db')"
  shows "\<exists>d r. res = Ready d r False \<and> is_tracking (stored_state r) \<and> committed_post_reservations r = 0 \<and>
    keeps env db db' \<and> abs_store env db' (request_identity request) = Some r"
proof -
  obtain d h where d: "derive env db (derivation request) = Inr d" "imported_candidate d = Some h"
    and ins: "insert_imported_delegation env (adopted_imported_delegation (derived_generation d) h now) h db =
      Inr db'"
    and res: "res = Ready d (adopted_imported_delegation (derived_generation d) h now) False"
    using ok by (auto simp: admit_imported_def result_simps Let_def split: if_splits)
  note gen = derive_Inr [OF env d(1), folded request_identity_def]
  let ?r = "adopted_imported_delegation (derived_generation d) h now"
  obtain row where row: "imported_row (env_codecs env) ?r h = Inr row" "row_inv (env_codecs env) row"
    "row_for (env_codecs env) (request_identity request) row" "load_one (request_identity request) row = Inr ?r"
    using row_inv_imported_row [of "derived_generation d" h now "env_codecs env"] i kind gen d(2) now by auto
  have "sql_insert env row db = Inr db'"
    using ins row(1) by (simp add: insert_imported_delegation_def map_err_eq_Inr)
  moreover have "is_tracking (stored_state ?r)" "committed_post_reservations ?r = 0"
    by (simp_all add: adopted_imported_delegation_def is_tracking_def)
  ultimately show ?thesis
    using keeps_insert [OF inv i load row(2-4) adopted guard] res by simp
qed

lemma admit_reserved_keeps:
  assumes env: "derivation_ok env" and inv: "db_inv env db" and i: "valid_identity (request_identity request)"
    and load: "load_submission env db (request_identity request) = Inr None"
    and now: "now \<le> i64_max" and n: "n \<le> i64_max"
    and guard: "guard_predecessor env (request_identity request) db = Inr ()"
    and d: "derive env db (derivation request) = Inr d"
    and ins: "insert_fresh env (fresh_record (derived_generation d) n now) db = Inr db'"
  shows "keeps env db db' \<and> abs_store env db' (request_identity request) =
    Some (fresh_record (derived_generation d) n now)"
proof -
  note gen = derive_Inr [OF env d, folded request_identity_def]
  let ?r = "fresh_record (derived_generation d) n now"
  obtain row where row: "fresh_row (env_codecs env) ?r = Inr row" "row_inv (env_codecs env) row"
    "row_for (env_codecs env) (request_identity request) row" "load_one (request_identity request) row = Inr ?r"
    using row_inv_fresh_row [of "derived_generation d" n now "env_codecs env"] i gen now n by auto
  have "sql_insert env row db = Inr db'"
    using ins row(1) by (simp add: insert_fresh_def map_err_eq_Inr)
  moreover have "stored_state ?r = Submitting"
    by (simp add: fresh_record_def)
  ultimately show ?thesis
    using keeps_insert [OF inv i load row(2-4) reserved guard] by simp
qed

lemma derive_batch_Inr:
  "derive_batch env request existing db = Inr (Some d) \<Longrightarrow> derive env db (derivation request) = Inr d"
  by (auto simp: derive_batch_def result_simps split: if_splits)

text \<open>What an admission means for the stored record of the requested identity.\<close>

fun admission_spec ::
  "bool \<Rightarrow> u64 \<Rightarrow> u64 \<Rightarrow> StoreAdmission \<Rightarrow>
   StoredChainSubmission option \<Rightarrow> StoredChainSubmission option \<Rightarrow> bool" where
  "admission_spec work_allowed n now NoAuthoritativeState before after \<longleftrightarrow>
     \<not> work_allowed \<and> before = None \<and> after = None"
| "admission_spec work_allowed n now (Authoritative r) before after \<longleftrightarrow>
     stored_state r \<noteq> Submitting \<and>
     (before = Some r \<and> after = Some r \<or>
      (\<exists>r0. before = Some r0 \<and> stored_state r0 = Submitting \<and>
         stored_state r = Recovering None abandoned_diagnostic \<and> after = Some (reload_record r)))"
| "admission_spec work_allowed n now (Ready d r True) before after \<longleftrightarrow>
     work_allowed \<and> before = None \<and> after = Some r \<and> r = fresh_record (derived_generation d) n now"
| "admission_spec work_allowed n now (Ready d r False) before after \<longleftrightarrow>
     work_allowed \<and> after = Some r \<and> stored_durable_state r \<in> {DurableTracking, DurableRecovering} \<and>
     (before = Some r \<or> before = None \<and> committed_post_reservations r = 0)"

lemma admit_fresh_spec:
  assumes env: "derivation_ok env" and inv: "db_inv env db" and i: "valid_identity (request_identity request)"
    and load: "load_submission env db (request_identity request) = Inr None"
    and target: "validate_target request = Inr ()" and now: "now \<le> i64_max" and n: "n \<le> i64_max"
    and batch: "\<And>d. batch_derived = Some d \<Longrightarrow> derive env db (derivation request) = Inr d"
    and ok: "admit_fresh env request batch_derived n now db = Inr (res, db')"
  shows "keeps env db db' \<and> admission_spec True n now res None
    (abs_store env db' (request_identity request))"
proof -
  have guard: "guard_predecessor env (request_identity request) db = Inr ()"
    using ok by (auto simp: admit_fresh_def result_simps)
  show ?thesis
  proof (cases "is_imported_delegation request")
    case True
    then have "admit_imported env request now db = Inr (res, db')"
      using ok by (auto simp: admit_fresh_def result_simps)
    moreover have "target (request_identity request) = TargetDelegation"
      using target True
      by (auto simp: validate_target_def is_imported_delegation_def Let_def request_identity_def
          split: SubmissionDerivationRequest.splits ChainSubmissionTarget.splits if_splits)
    ultimately obtain d r where "res = Ready d r False" "is_tracking (stored_state r)"
      "committed_post_reservations r = 0" "keeps env db db'"
      "abs_store env db' (request_identity request) = Some r"
      using admit_imported_keeps [OF env inv i load _ now guard] by blast
    then show ?thesis
      by (cases "stored_state r") (auto simp: is_tracking_def)
  next
    case False
    then obtain d where "derive env db (derivation request) = Inr d"
      "insert_fresh env (fresh_record (derived_generation d) n now) db = Inr db'"
      "res = Ready d (fresh_record (derived_generation d) n now) True"
      using ok batch by (auto simp: admit_fresh_def result_simps Let_def split: option.splits)
    then show ?thesis
      using admit_reserved_keeps [OF env inv i load now n guard] by simp
  qed
qed

lemma admit_existing_spec:
  assumes ok: "admit_existing env request r batch_derived db = Inr (res, db')"
    and st: "stored_state r \<noteq> Submitting"
  shows "db' = db \<and> admission_spec True n now res (Some r) (Some r)"
proof -
  have "db' = db"
    using ok by (auto simp: admit_existing_def result_simps split: if_splits)
  moreover have "res = Authoritative r \<or>
      (\<exists>d. res = Ready d r False \<and> stored_durable_state r \<notin>
        {DurableConfirmed, DurableRejected, DurableSubmittedWithoutHash})"
    using ok by (auto simp: admit_existing_def result_simps split: if_splits)
  ultimately show ?thesis
    using st by (cases "stored_state r") auto
qed

lemma admit_tx_spec:
  assumes env: "derivation_ok env" and inv: "db_inv env db" and i: "valid_identity (request_identity request)"
    and target: "validate_target request = Inr ()" and now: "now \<le> i64_max" and n: "n \<le> i64_max"
    and ok: "admit_tx env request allowed n now db = Inr (res, db')"
  shows "keeps env db db' \<and> admission_spec allowed n now res
    (abs_store env db (request_identity request)) (abs_store env db' (request_identity request))"
proof -
  obtain existing where load: "load_submission env db (request_identity request) = Inr existing"
    using load_submission_total [OF inv i] by blast
  note tx = ok [unfolded admit_tx_def load, simplified]
  show ?thesis
  proof (cases existing)
    case None
    show ?thesis
    proof (cases allowed)
      case True
      then obtain b where b: "derive_batch env request None db = Inr b"
        "admit_fresh env request b n now db = Inr (res, db')"
        using tx None by (auto simp: and_then_eq_Inr)
      have "derive env db (derivation request) = Inr d" if "b = Some d" for d
        using b(1) that by (simp add: derive_batch_Inr)
      from admit_fresh_spec [OF env inv i load [unfolded None] target now n this b(2)] show ?thesis
        using True None load by (simp add: abs_store_def)
    next
      case False
      then show ?thesis
        using tx None load keeps_refl [OF inv] by (auto simp: abs_store_def)
    qed
  next
    case (Some r)
    show ?thesis
    proof (cases "stored_state r = Submitting")
      case True
      from normalize_abandoned_ok [OF inv i load [unfolded Some] True now] show ?thesis
        using tx True Some load by (auto simp: abs_store_def split: if_splits)
    next
      case False
      have "db' = db \<and> admission_spec True n now res (Some r) (Some r)" if work: allowed
      proof -
        obtain b where "admit_existing env request r b db = Inr (res, db')"
          using tx Some False work by (auto simp: and_then_eq_Inr)
        from admit_existing_spec [OF this False] show ?thesis .
      qed
      then show ?thesis
        using tx Some load False keeps_refl [OF inv]
        by (cases allowed) (auto simp: abs_store_def)
    qed
  qed
qed

lemma admit_cases:
  "admit env fault request allowed n now db = (res, db') \<Longrightarrow>
     db' = db \<or> (validate_target request = Inr () \<and>
       (\<exists>x. res = Inr x \<and> admit_tx env request allowed n now db = Inr (x, db')))"
  by (auto simp: admit_def transact_def Let_def result_simps
      split: sum.splits storage_fault.splits prod.splits)

lemma admit_keeps:
  assumes env: "derivation_ok env" and inv: "db_inv env db" and i: "valid_identity (request_identity request)"
    and now: "now \<le> i64_max" and n: "n \<le> i64_max"
  shows "keeps env db (snd (admit env fault request allowed n now db))"
proof (cases "admit env fault request allowed n now db")
  case (Pair res db')
  from admit_cases [OF this] show ?thesis
    using admit_tx_spec [OF env inv i _ now n] keeps_refl [OF inv] Pair by auto
qed

section \<open>Calls and runs\<close>

datatype 'd store_call =
    CallAdmit storage_fault StoreAdvancementRequest bool u64 u64
  | CallRemoveFresh storage_fault ChainSubmissionGeneration u64
  | CallClassifyPost storage_fault ChainSubmissionGeneration SubmissionObservation u64
  | CallReserveAmbiguous storage_fault ChainSubmissionGeneration u64
  | CallReconcile storage_fault ChainSubmissionGeneration SubmissionObservation
      "ChainSubmissionDiagnostic option" u64
  | CallConfirmCommitted storage_fault StoreAdvancementRequest ChainSubmissionGeneration
      CandidateTransactionHash "TxEvent list" bool u64
  | CallConfirmTree storage_fault StoreAdvancementRequest ChainSubmissionGeneration u64 "u64 list" bool u64
  | CallReserveRecovery storage_fault StoreAdvancementRequest RecoveryRetryAuthorization u64
  | OtherTables 'd

fun exec_call :: "'d store_env \<Rightarrow> 'd store_call \<Rightarrow> 'd voting_db \<Rightarrow> 'd voting_db" where
  "exec_call env (CallAdmit f req allowed n now) db = snd (admit env f req allowed n now db)"
| "exec_call env (CallRemoveFresh f g now) db = snd (remove_fresh_reservation env f g now db)"
| "exec_call env (CallClassifyPost f g ob now) db = snd (classify_post env f g ob now db)"
| "exec_call env (CallReserveAmbiguous f g now) db = snd (reserve_ambiguous_retry env f g now db)"
| "exec_call env (CallReconcile f g ob e now) db = snd (reconcile env f g ob e now db)"
| "exec_call env (CallConfirmCommitted f req g h events allowed now) db =
     snd (confirm_committed env f req g h events allowed now db)"
| "exec_call env (CallConfirmTree f req g p ps allowed now) db =
     snd (confirm_tree env f req g p ps allowed now db)"
| "exec_call env (CallReserveRecovery f req a now) db = snd (reserve_recovery_retry env f req a now db)"
| "exec_call env (OtherTables d) db = db\<lparr>domain := d\<rparr>"

text \<open>
  Arguments the Rust types and constructors guarantee: identities passed \<open>identity_new\<close>, hashes
  have 32 bytes, diagnostics are bounded, and the clock and the ordinals are in range.
\<close>

fun call_ok :: "'d store_call \<Rightarrow> bool" where
  "call_ok (CallAdmit f req allowed n now) \<longleftrightarrow>
     valid_identity (request_identity req) \<and> n \<le> i64_max \<and> now \<le> i64_max"
| "call_ok (CallRemoveFresh f g now) \<longleftrightarrow> valid_identity (generation_identity g)"
| "call_ok (CallClassifyPost f g ob now) \<longleftrightarrow>
     valid_identity (generation_identity g) \<and> valid_observation ob \<and> now \<le> i64_max"
| "call_ok (CallReserveAmbiguous f g now) \<longleftrightarrow> valid_identity (generation_identity g) \<and> now \<le> i64_max"
| "call_ok (CallReconcile f g ob e now) \<longleftrightarrow>
     valid_identity (generation_identity g) \<and> valid_observation ob \<and> bounded_diagnostic e \<and> now \<le> i64_max"
| "call_ok (CallConfirmCommitted f req g h events allowed now) \<longleftrightarrow>
     valid_identity (generation_identity g) \<and> length h = 32 \<and> now \<le> i64_max"
| "call_ok (CallConfirmTree f req g p ps allowed now) \<longleftrightarrow>
     valid_identity (generation_identity g) \<and> length ps < 2 ^ 32 \<and> now \<le> i64_max"
| "call_ok (CallReserveRecovery f req a now) \<longleftrightarrow>
     valid_identity (authorized_identity a) \<and> now \<le> i64_max"
| "call_ok (OtherTables d) \<longleftrightarrow> True"

lemma exec_call_keeps:
  assumes "derivation_ok env" and "db_inv env db" and "call_ok call"
  shows "keeps env db (exec_call env call db)"
proof (cases call)
  case (OtherTables d)
  with assms show ?thesis
    using keeps_domain [OF keeps_refl [OF assms(2)]] by simp
qed (use assms in \<open>auto simp: classify_post_def reconcile_def intro!: admit_keeps
    remove_fresh_reservation_keeps apply_observation_keeps reserve_ambiguous_retry_keeps
    confirm_committed_keeps confirm_tree_keeps reserve_recovery_retry_keeps\<close>)

text \<open>
  The contract of a store whose calls move each record one step at a time, and what follows for
  runs of calls.
\<close>

locale stepwise_store =
  fixes inv :: "'s \<Rightarrow> bool" and view :: "'s \<Rightarrow> 'k \<Rightarrow> 'r option"
    and exec :: "'c \<Rightarrow> 's \<Rightarrow> 's" and ok :: "'c \<Rightarrow> bool" and key_ok :: "'k \<Rightarrow> bool"
    and step :: "'r option \<Rightarrow> 'r option \<Rightarrow> bool"
  assumes exec_inv: "inv s \<Longrightarrow> ok c \<Longrightarrow> inv (exec c s)"
    and exec_step: "inv s \<Longrightarrow> ok c \<Longrightarrow> key_ok k \<Longrightarrow> step (view s k) (view (exec c s) k)"
begin

lemma run_inv: "inv s \<Longrightarrow> list_all ok cs \<Longrightarrow> inv (fold exec cs s)"
  by (induction cs arbitrary: s) (simp_all add: exec_inv)

lemma run_steps:
  "inv s \<Longrightarrow> list_all ok cs \<Longrightarrow> key_ok k \<Longrightarrow> step\<^sup>*\<^sup>* (view s k) (view (fold exec cs s) k)"
proof (induction cs arbitrary: s)
  case (Cons c cs)
  then have "step\<^sup>*\<^sup>* (view (exec c s) k) (view (fold exec cs (exec c s)) k)"
    by (simp add: exec_inv)
  with Cons.prems show ?case
    using exec_step [of s c k] by (simp add: converse_rtranclp_into_rtranclp)
qed simp

lemma run_preserves:
  assumes "\<And>x y. step x y \<Longrightarrow> P x \<Longrightarrow> P y" and "inv s" and "list_all ok cs" and "key_ok k" and "P (view s k)"
  shows "P (view (fold exec cs s) k)"
  using run_steps [OF assms(2-4)] assms(5) by (induction rule: rtranclp_induct) (auto intro: assms(1))

end

interpretation sqlite: stepwise_store
  "\<lambda>(env, db). derivation_ok env \<and> db_inv env db \<and> bundle_exclusive db"
  "\<lambda>(env, db). abs_store env db" "\<lambda>call (env, db). (env, exec_call env call db)"
  call_ok valid_identity record_step
  by unfold_locales (auto dest: exec_call_keeps simp: keeps_def)

lemma fold_exec_call:
  "fold (\<lambda>call (env, db). (env, exec_call env call db)) calls (env, db) =
     (env, fold (exec_call env) calls db)"
  by (induction calls arbitrary: db) simp_all

lemmas sqlite_run_inv = sqlite.run_inv [where s = "(env, db)" for env db, simplified fold_exec_call prod.case]
lemmas sqlite_run_steps =
  sqlite.run_steps [where s = "(env, db)" for env db, simplified fold_exec_call prod.case]
lemmas sqlite_run_preserves =
  sqlite.run_preserves [where s = "(env, db)" for env db, simplified fold_exec_call prod.case]

end
