(* ===== verification/Submission_Coordinator.thy ===== *)
theory Submission_Coordinator
  imports Voting_Effects Tree_Recovery Store_Calls
begin

text \<open>
  The coordinator (\<open>zcash_voting/src/chain_submission/coordinator.rs\<close>): one bounded pass that
  admits a submission, posts it under durable reservations, reconciles it with the chain and
  recovers it from the commitment tree. A pass is a program over a world that holds the database,
  the in-flight registry, the number of the next reading of the environment and the POSTs made so
  far. Clock, cancellation flag, host epoch, transport, storage faults and the calls of other
  passes between two store calls are functions of the number of the reading.
\<close>

section \<open>Policy\<close>

definition MAX_POST_ATTEMPTS_PER_PASS :: nat where
  "MAX_POST_ATTEMPTS_PER_PASS = 8"

definition MAX_RETRY_BACKOFF :: nat where
  "MAX_RETRY_BACKOFF = seconds (10 * 60)"

record CoordinatorPolicy =
  tracking_window_seconds :: u64
  maximum_post_attempts :: nat
  retry_backoffs :: "nat list"

definition coordinator_policy_new ::
  "nat \<Rightarrow> nat \<Rightarrow> nat list \<Rightarrow> ChainSubmissionFailure + CoordinatorPolicy" where
  "coordinator_policy_new tracking_window attempts backoffs =
     (let window_seconds = tracking_window div seconds 1 in
      if window_seconds = 0 \<or> tracking_window \<noteq> seconds window_seconds \<or>
         attempts = 0 \<or> attempts > MAX_POST_ATTEMPTS_PER_PASS \<or>
         length backoffs + 1 \<noteq> attempts \<or>
         (\<exists>delay \<in> set backoffs. delay = 0 \<or> delay > MAX_RETRY_BACKOFF)
      then Inl (without_state InvalidInput (lit (''chain coordinator requires a nonzero whole-second '' @
        ''tracking window, one to eight attempts, and one bounded nonzero backoff between attempts'')))
      else Inr \<lparr>tracking_window_seconds = word_of_nat window_seconds, maximum_post_attempts = attempts,
                retry_backoffs = backoffs\<rparr>)"

section \<open>World and environment\<close>

datatype ChainRecoveryMode = StatusOnly | ExactTree

datatype Interruption = InterruptCancelled | InterruptStaleEpoch

record CapturedSubmissionOperation =
  captured_identity :: ChainSubmissionIdentity
  host_operation_epoch :: u64

text \<open>
  The race of a POST with the wait for an interruption: the interruption came first, with the
  dispatch marker as it was then, or the POST finished on this transport.
\<close>

datatype post_race =
    PostInterrupted Interruption bool
  | PostCompleted "ChainHttpRequest \<Rightarrow> bytes \<Rightarrow> post_delivery"

type_synonym lookup_transport = "ChainHttpRequest \<Rightarrow> (ChainTransportError + ChainHttpResponse) option"

record post_event =
  post_endpoint :: nat
  post_generation :: ChainSubmissionGeneration
  post_row :: "StoredChainSubmission option"
  post_outcome :: PostAttemptOutcome

record 'd world =
  world_db :: "'d voting_db"
  world_registry :: in_flight_registry
  world_tick :: nat
  world_posts :: "post_event list"

record 'd coord_env =
  co_store :: "'d store_env"
  co_json :: json_api
  co_client :: ChainProtocolClient
  co_policy :: CoordinatorPolicy
  cancelled_at :: "nat \<Rightarrow> bool"
  host_epoch_at :: "nat \<Rightarrow> u64"
  clock_at :: "nat \<Rightarrow> u64 option"
  fault_at :: "nat \<Rightarrow> storage_fault"
  others_at :: "nat \<Rightarrow> 'd voting_db \<Rightarrow> 'd voting_db"
  registry_at :: "nat \<Rightarrow> in_flight_registry \<Rightarrow> in_flight_registry"
  lease_at :: "nat \<Rightarrow> ChainSubmissionFailure + unit"
  post_race_at :: "nat \<Rightarrow> post_race"
  lookup_race_at :: "nat \<Rightarrow> lookup_transport option"
  backoff_race_at :: "nat \<Rightarrow> nat \<Rightarrow> Interruption option"
  scan_env_at :: "nat \<Rightarrow> scan_env"

text \<open>A pass ends with a failure or with a panic of the code.\<close>

datatype coord_error = Failed ChainSubmissionFailure | Panicked string

type_synonym ('d, 'a) coord = "('d world, coord_error, 'a) prog"

definition fail_with :: "ChainSubmissionFailure \<Rightarrow> ('d, 'a) coord" where
  "fail_with e = raise (Failed e)"

definition panic :: "string \<Rightarrow> ('d, 'a) coord" where
  "panic message = raise (Panicked message)"

fun map_failure :: "(ChainSubmissionFailure \<Rightarrow> ChainSubmissionFailure) \<Rightarrow> coord_error \<Rightarrow> coord_error" where
  "map_failure f (Failed e) = Failed (f e)"
| "map_failure f (Panicked m) = Panicked m"

definition with_state :: "ChainSubmissionState \<Rightarrow> ChainSubmissionFailure \<Rightarrow> ChainSubmissionFailure" where
  "with_state s e = with_durable_state (failure_kind e) s (message_of e)"

definition attach_state :: "ChainSubmissionState \<Rightarrow> ChainSubmissionFailure \<Rightarrow> ChainSubmissionFailure" where
  "attach_state s e = (if strongest_state e \<noteq> None then e else with_state s e)"

definition result_of :: "StoredChainSubmission \<Rightarrow> ('d, ChainSubmissionResult) coord" where
  "result_of r = from_result (map_err Failed (public_result r))"

definition sample :: "(nat \<Rightarrow> 'a) \<Rightarrow> ('d, 'a) coord" where
  "sample f w = (Inr (f (world_tick w)), w\<lparr>world_tick := Suc (world_tick w)\<rparr>)"

definition interruption_at :: "'d coord_env \<Rightarrow> CapturedSubmissionOperation \<Rightarrow> nat \<Rightarrow> Interruption option" where
  "interruption_at env op t =
     (if cancelled_at env t then Some InterruptCancelled
      else if host_epoch_at env t \<noteq> host_operation_epoch op then Some InterruptStaleEpoch
      else None)"

definition interruption ::
  "'d coord_env \<Rightarrow> CapturedSubmissionOperation \<Rightarrow> ('d, Interruption option) coord" where
  "interruption env op = sample (interruption_at env op)"

fun after_dispatch_message :: "Interruption \<Rightarrow> rust_str" where
  "after_dispatch_message InterruptCancelled =
     lit ''submission was cancelled after dispatch could not be excluded''"
| "after_dispatch_message InterruptStaleEpoch =
     lit ''host operation epoch changed after dispatch could not be excluded''"

fun interrupted_without_state :: "Interruption \<Rightarrow> ('d, ChainSubmissionResult) coord" where
  "interrupted_without_state InterruptCancelled = ret ResultCancelled"
| "interrupted_without_state InterruptStaleEpoch =
     fail_with (without_state InvalidInput (lit ''host operation epoch changed before request dispatch''))"

definition now_seconds :: "'d coord_env \<Rightarrow> ('d, u64) coord" where
  "now_seconds env =
     seq (sample (clock_at env)) (\<lambda>now.
       case now of
         Some t \<Rightarrow> ret t
       | None \<Rightarrow> fail_with (without_state Storage (lit ''system clock is before the Unix epoch'')))"

definition call_store ::
  "'d coord_env \<Rightarrow> (storage_fault \<Rightarrow> 'd voting_db \<Rightarrow> (ChainSubmissionFailure + 'r) \<times> 'd voting_db) \<Rightarrow>
   ('d, 'r) coord" where
  "call_store env operation w =
     (let t = world_tick w;
          (r, db) = operation (fault_at env t) (others_at env t (world_db w))
      in (map_err Failed r, w\<lparr>world_db := db, world_tick := Suc t\<rparr>))"

definition register_guard ::
  "'d coord_env \<Rightarrow> ChainSubmissionIdentity \<Rightarrow> ('d, SubmissionOperationKey) coord" where
  "register_guard env identity w =
     (let t = world_tick w; registry = registry_at env t (world_registry w) in
      case register_in_flight registry identity of
        Inl e \<Rightarrow> (Inl (Failed e), w\<lparr>world_registry := registry, world_tick := Suc t\<rparr>)
      | Inr (key, registry') \<Rightarrow> (Inr key, w\<lparr>world_registry := registry', world_tick := Suc t\<rparr>))"

definition drop_guard :: "'d coord_env \<Rightarrow> SubmissionOperationKey \<Rightarrow> 'd world \<Rightarrow> 'd world" where
  "drop_guard env key w =
     (let t = world_tick w
      in w\<lparr>world_registry := drop_in_flight (registry_at env t (world_registry w)) key, world_tick := Suc t\<rparr>)"

definition wait_backoff_or_interruption :: "'d coord_env \<Rightarrow> nat \<Rightarrow> ('d, Interruption option) coord" where
  "wait_backoff_or_interruption env delay = sample (\<lambda>t. backoff_race_at env t delay)"

text \<open>Indexing the backoff table panics out of range.\<close>

definition backoff :: "'d coord_env \<Rightarrow> nat \<Rightarrow> ('d, nat) coord" where
  "backoff env i =
     (if i < length (retry_backoffs (co_policy env)) then ret (retry_backoffs (co_policy env) ! i)
      else panic ''index out of bounds'')"

section \<open>Calls of the store\<close>

definition classify_dispatched_post ::
  "'d coord_env \<Rightarrow> ChainSubmissionGeneration \<Rightarrow> SubmissionObservation \<Rightarrow> ('d, StoredChainSubmission) coord" where
  "classify_dispatched_post env generation observation =
     on_error (map_failure possible_dispatch_error)
       (seq (now_seconds env) (\<lambda>now.
          call_store env (\<lambda>fault. classify_post (co_store env) fault generation observation now)))"

definition release_fresh_reservation ::
  "'d coord_env \<Rightarrow> ChainSubmissionGeneration \<Rightarrow> ('d, unit) coord" where
  "release_fresh_reservation env generation =
     seq (on_error (map_failure (with_state DurableSubmitting)) (now_seconds env)) (\<lambda>now.
     on_error (map_failure (attach_state DurableSubmitting))
       (call_store env (\<lambda>fault. remove_fresh_reservation (co_store env) fault generation now)))"

definition reconcile_with_durable_state ::
  "'d coord_env \<Rightarrow> ChainSubmissionGeneration \<Rightarrow> SubmissionObservation \<Rightarrow>
   ChainSubmissionDiagnostic option \<Rightarrow> ChainSubmissionState \<Rightarrow> ('d, StoredChainSubmission) coord" where
  "reconcile_with_durable_state env generation observation diagnostic durable =
     on_error (map_failure (attach_state durable))
       (seq (now_seconds env) (\<lambda>now.
          call_store env (\<lambda>fault. reconcile (co_store env) fault generation observation diagnostic now)))"

definition reserve_ambiguous_retry_after_backoff ::
  "'d coord_env \<Rightarrow> nat \<Rightarrow> ChainSubmissionGeneration \<Rightarrow> StoredChainSubmission \<Rightarrow>
   ('d, StoredChainSubmission + StoredChainSubmission) coord" where
  "reserve_ambiguous_retry_after_backoff env delay generation reserved =
     seq (wait_backoff_or_interruption env delay) (\<lambda>interrupted.
     case interrupted of
       Some _ \<Rightarrow> ret (Inl reserved)
     | None \<Rightarrow>
         on_error (map_failure (attach_state (stored_durable_state reserved)))
           (seq (now_seconds env) (\<lambda>now.
            seq (call_store env (\<lambda>fault. reserve_ambiguous_retry (co_store env) fault generation now))
              (\<lambda>r. ret (Inr r)))))"

fun commit_record :: "ConfirmationCommit \<Rightarrow> StoredChainSubmission" where
  "commit_record (CommitInterrupted r) = r"
| "commit_record (CommitConfirmed r) = r"

definition allowed_now :: "'d coord_env \<Rightarrow> CapturedSubmissionOperation \<Rightarrow> ('d, bool) coord" where
  "allowed_now env op = seq (interruption env op) (\<lambda>i. ret (i = None))"

text \<open>
  The store evaluates the permission to commit inside its transaction; the reading made just
  before the call stands for it.
\<close>

definition confirm_by_hash ::
  "'d coord_env \<Rightarrow> StoreAdvancementRequest \<Rightarrow> CapturedSubmissionOperation \<Rightarrow> DerivedChainSubmission \<Rightarrow>
   CandidateTransactionHash \<Rightarrow> CommittedTransaction \<Rightarrow> ChainSubmissionState \<Rightarrow>
   ('d, ChainSubmissionResult) coord" where
  "confirm_by_hash env request op derived candidate committed durable =
     seq (on_error (map_failure (with_state durable)) (now_seconds env)) (\<lambda>now.
     seq (allowed_now env op) (\<lambda>allowed.
     seq (on_error (map_failure (attach_state durable))
           (call_store env (\<lambda>fault. confirm_committed (co_store env) fault request
              (derived_generation derived) candidate (committed_events committed) allowed now)))
       (\<lambda>commit. result_of (commit_record commit))))"

definition confirm_by_tree ::
  "'d coord_env \<Rightarrow> StoreAdvancementRequest \<Rightarrow> CapturedSubmissionOperation \<Rightarrow> DerivedChainSubmission \<Rightarrow>
   u64 \<Rightarrow> u64 list \<Rightarrow> ('d, ChainSubmissionResult) coord" where
  "confirm_by_tree env request op derived final_van positions =
     seq (on_error (map_failure (with_state DurableRecovering)) (now_seconds env)) (\<lambda>now.
     seq (allowed_now env op) (\<lambda>allowed.
     seq (on_error (map_failure (attach_state DurableRecovering))
           (call_store env (\<lambda>fault. confirm_tree (co_store env) fault request
              (derived_generation derived) final_van positions allowed now)))
       (\<lambda>commit. result_of (commit_record commit))))"

section \<open>Posting\<close>

definition is_retryable_dispatch_ambiguity :: "StoredChainSubmission \<Rightarrow> bool" where
  "is_retryable_dispatch_ambiguity r = permits_ambiguous_retry (stored_state r)"

definition returned_candidate_is_unusable :: "StoredChainSubmission \<Rightarrow> bool" where
  "returned_candidate_is_unusable r =
     (case stored_state r of Recovering None _ \<Rightarrow> True | _ \<Rightarrow> False)"

definition submit_to_endpoint ::
  "'d coord_env \<Rightarrow> (ChainHttpRequest \<Rightarrow> bytes \<Rightarrow> post_delivery) \<Rightarrow> nat \<Rightarrow> DerivedChainSubmission \<Rightarrow>
   ('d, PostAttemptOutcome) coord" where
  "submit_to_endpoint env transport endpoint_index derived =
     (let submit = submit_with_dispatch (env_codecs (co_store env)) (co_json env) transport
            (co_client env) endpoint_index (derived_request derived);
          tgt = target (generation_identity (derived_generation derived))
      in case derived_request derived of
           RequestDelegation _ \<Rightarrow> ret (submit None)
         | RequestVote _ \<Rightarrow> ret (submit None)
         | RequestImportedDelegation _ \<Rightarrow> ret (PostLocalFailure (from_redacted_message
             InvalidProtocolResponse
             (lit ''a capability-imported delegation cannot be dispatched by the voter'')))
         | RequestDelegateAndVoteBatch _ \<Rightarrow>
             (case batch_digest tgt of Some d \<Rightarrow> ret (submit (Some d)) | None \<Rightarrow> panic ''combined identity'')
         | RequestVoteBatch _ \<Rightarrow>
             (case tgt of
                TargetVoteBatch d \<Rightarrow> ret (submit (Some d))
              | _ \<Rightarrow> panic ''vote-batch request has a vote-batch identity''))"

definition record_post ::
  "'d coord_env \<Rightarrow> ChainSubmissionGeneration \<Rightarrow> nat \<Rightarrow> PostAttemptOutcome \<Rightarrow> ('d, PostAttemptOutcome) coord" where
  "record_post env generation endpoint_index outcome w =
     (Inr outcome, w\<lparr>world_posts := world_posts w @
        [\<lparr>post_endpoint = endpoint_index, post_generation = generation,
          post_row = abs_store (co_store env) (world_db w) (generation_identity generation),
          post_outcome = outcome\<rparr>]\<rparr>)"

text \<open>
  One POST raced with the wait for an interruption. \<open>Inl\<close> is an interruption before any byte was
  handed to the transport.
\<close>

definition race_post ::
  "'d coord_env \<Rightarrow> DerivedChainSubmission \<Rightarrow> StoredChainSubmission \<Rightarrow>
   ('d, Interruption + PostAttemptOutcome) coord" where
  "race_post env derived reserved =
     (let count = length (client_endpoints (co_client env));
          ordinal = unat (committed_post_reservations reserved);
          endpoint_index = (ordinal - 1) mod count;
          generation = derived_generation derived
      in if count = 0 then panic ''attempt to calculate the remainder with a divisor of zero''
         else seq (sample (post_race_at env)) (\<lambda>race.
           case race of
             PostInterrupted reason possible \<Rightarrow>
               if \<not> possible then ret (Inl reason)
               else seq (record_post env generation endpoint_index
                      (PostPossiblyDispatched (from_redacted_message AmbiguousDispatch
                         (after_dispatch_message reason))))
                    (\<lambda>outcome. ret (Inr outcome))
           | PostCompleted transport \<Rightarrow>
               seq (submit_to_endpoint env transport endpoint_index derived) (\<lambda>outcome.
               seq (record_post env generation endpoint_index outcome) (\<lambda>outcome.
                 ret (Inr outcome)))))"

section \<open>Lookups and scans\<close>

datatype LookupProgress =
    LookupInterrupted
  | LookupObserved TransactionStatusObservation
  | LookupFailed LookupFailure

definition lookup_or_interruption ::
  "'d coord_env \<Rightarrow> CandidateTransactionHash \<Rightarrow> ('d, LookupProgress) coord" where
  "lookup_or_interruption env candidate =
     seq (sample (lookup_race_at env)) (\<lambda>race.
       ret (case race of
         None \<Rightarrow> LookupInterrupted
       | Some get \<Rightarrow>
           (case transaction_status (env_codecs (co_store env)) (co_json env) get (co_client env) candidate of
              Inr observation \<Rightarrow> LookupObserved observation
            | Inl failure \<Rightarrow> LookupFailed failure)))"

fun lookup_diagnostic :: "LookupFailure \<Rightarrow> ChainSubmissionDiagnostic" where
  "lookup_diagnostic (LookupProtocol d) = d"
| "lookup_diagnostic (LookupTransport e) =
     from_redacted_message ReconciliationPending (lit (transport_message e))"

fun lookup_failure :: "LookupFailure \<Rightarrow> ChainSubmissionState \<Rightarrow> ChainSubmissionFailure" where
  "lookup_failure (LookupProtocol d) durable = with_durable_state Protocol durable (lit (diagnostic_message d))"
| "lookup_failure (LookupTransport e) durable = with_durable_state Transport durable (lit (transport_message e))"

definition tracking_expired_at ::
  "'d coord_env \<Rightarrow> StoredChainSubmission \<Rightarrow> u64 \<Rightarrow> ('d, bool) coord" where
  "tracking_expired_at env r now =
     (case tracking_started_at r of
        None \<Rightarrow> fail_with (with_durable_state InvariantViolation (stored_durable_state r)
          (lit ''Tracking record has no immutable tracking-start timestamp''))
      | Some started \<Rightarrow>
          ret (now < started \<or> saturating_sub now started \<ge> tracking_window_seconds (co_policy env)))"

definition tracking_expired :: "'d coord_env \<Rightarrow> StoredChainSubmission \<Rightarrow> ('d, bool) coord" where
  "tracking_expired env r =
     seq (on_error (map_failure (with_state (stored_durable_state r))) (now_seconds env)) (\<lambda>now.
       tracking_expired_at env r now)"

definition finish_inconclusive_tracking ::
  "'d coord_env \<Rightarrow> DerivedChainSubmission \<Rightarrow> StoredChainSubmission \<Rightarrow> ChainSubmissionDiagnostic option \<Rightarrow>
   ('d, StoredChainSubmission) coord" where
  "finish_inconclusive_tracking env derived r diagnostic =
     seq (on_error (map_failure (with_state (stored_durable_state r))) (now_seconds env)) (\<lambda>now.
     seq (tracking_expired_at env r now) (\<lambda>expired.
       let d = from_redacted_message TrackingWindowExpired
             (lit ''finite candidate tracking window expired without a definitive result'')
       in if expired
          then reconcile_with_durable_state env (derived_generation derived) (ObsTrackingWindowExpired d)
                 (Some d) (stored_durable_state r)
          else reconcile_with_durable_state env (derived_generation derived) CandidatePending
                 diagnostic (stored_durable_state r)))"

datatype RecoveryScan =
    RecoveryMatch u64 "u64 list"
  | RecoveryNoMatch RecoveryRetryAuthorization
  | RecoveryInterrupted

definition scan_tree ::
  "'d coord_env \<Rightarrow> DerivedChainSubmission \<Rightarrow> CandidateTransactionHash option \<Rightarrow>
   CapturedSubmissionOperation \<Rightarrow> ('d, RecoveryScan) coord" where
  "scan_tree env derived candidate op =
     seq (sample (scan_env_at env)) (\<lambda>scan.
     case scan_exact_layout scan (client_endpoints (co_client env)) derived candidate (captured_identity op) of
       Inr (ScanMatch p ps) \<Rightarrow> ret (RecoveryMatch p ps)
     | Inr (ScanNoMatch authorization) \<Rightarrow> ret (RecoveryNoMatch authorization)
     | Inl ScanInterrupted \<Rightarrow> ret RecoveryInterrupted
     | Inl (ScanInvalid d) \<Rightarrow>
         seq (reconcile_with_durable_state env (derived_generation derived) ContinueRecovery (Some d)
               DurableRecovering) (\<lambda>_.
           fail_with (with_durable_state Protocol DurableRecovering (lit (diagnostic_message d))))
     | Inl (ScanTransport e) \<Rightarrow>
         seq (reconcile_with_durable_state env (derived_generation derived) ContinueRecovery
               (Some (from_redacted_message ReconciliationPending (lit (transport_message e))))
               DurableRecovering) (\<lambda>_.
           fail_with (with_durable_state Transport DurableRecovering (lit (transport_message e)))))"

definition end_hashless :: "'d coord_env \<Rightarrow> DerivedChainSubmission \<Rightarrow> ('d, ChainSubmissionResult) coord" where
  "end_hashless env derived =
     seq (classify_dispatched_post env (derived_generation derived)
           (ObsSubmittedWithoutHash (from_redacted_message ChainSubmissionDiagnosticKind.NullifierAlreadySpent
              (lit ''vote chain reported nullifier already spent after ambiguous dispatch''))))
       result_of"

definition settle_nullifier_spent_after_dispatch ::
  "'d coord_env \<Rightarrow> StoreAdvancementRequest \<Rightarrow> CapturedSubmissionOperation \<Rightarrow> DerivedChainSubmission \<Rightarrow>
   StoredChainSubmission \<Rightarrow> ChainRecoveryMode \<Rightarrow> ('d, ChainSubmissionResult) coord" where
  "settle_nullifier_spent_after_dispatch env request op derived current recovery =
     (if recovery = StatusOnly then end_hashless env derived
      else seq (scan_tree env derived None op) (\<lambda>scan.
        case scan of
          RecoveryMatch p ps \<Rightarrow> confirm_by_tree env request op derived p ps
        | RecoveryNoMatch _ \<Rightarrow> end_hashless env derived
        | RecoveryInterrupted \<Rightarrow> result_of current))"

section \<open>Recovery\<close>

text \<open>
  The functions below take as \<open>resume\<close> the attempt loop with the budget that remains after a
  recovery retry; the loop itself passes it on to them.
\<close>

type_synonym 'd resume = "DerivedChainSubmission \<Rightarrow> StoredChainSubmission \<Rightarrow> ('d, ChainSubmissionResult) coord"

text \<open>
  The POST of a recovery retry under its in-flight guard: \<open>Inl\<close> returns from the pass, \<open>Inr\<close> is the
  record of an ambiguous outcome.
\<close>

definition recovery_retry_post ::
  "'d coord_env \<Rightarrow> StoreAdvancementRequest \<Rightarrow> CapturedSubmissionOperation \<Rightarrow> DerivedChainSubmission \<Rightarrow>
   StoredChainSubmission \<Rightarrow> ChainRecoveryMode \<Rightarrow> nat \<Rightarrow>
   ('d, ChainSubmissionResult + StoredChainSubmission) coord" where
  "recovery_retry_post env request op derived reserved recovery used =
     (let generation = derived_generation derived;
          finish = (\<lambda>m. seq m (\<lambda>res. ret (Inl res)));
          is_final_attempt = (used + 1 = maximum_post_attempts (co_policy env));
          continue = (\<lambda>r. if is_final_attempt then finish (result_of r) else ret (Inr r))
      in seq (race_post env derived reserved) (\<lambda>progress.
      case progress of
        Inl reason \<Rightarrow> finish (result_of reserved)
      | Inr (PostAccepted candidate) \<Rightarrow>
          seq (classify_dispatched_post env generation (UsableCandidateHash candidate)) (\<lambda>r.
            if \<not> returned_candidate_is_unusable r then finish (result_of r) else continue r)
      | Inr (PostPossiblyDispatched d) \<Rightarrow>
          seq (classify_dispatched_post env generation (PossiblyDispatched d)) continue
      | Inr (PostRejected code kind d candidate) \<Rightarrow>
          if has_unresolved_dispatch (stored_state reserved) \<and> kind = ChainRejectionKind.NullifierAlreadySpent
          then finish (settle_nullifier_spent_after_dispatch env request op derived reserved recovery)
          else seq (classify_dispatched_post env generation (DefiniteRejection d)) (\<lambda>r.
            fail_with (with_durable_state Protocol (stored_durable_state r) (lit (diagnostic_message d))))
      | Inr (PostDefinitelyUnsent e) \<Rightarrow>
          seq (reconcile_with_durable_state env generation DefinitelyUnsent
                (Some (from_redacted_message ReconciliationPending (lit (transport_message e))))
                DurableRecovering) (\<lambda>_.
            fail_with (with_durable_state Transport DurableRecovering (lit (transport_message e))))
      | Inr (PostLocalFailure d) \<Rightarrow>
          seq (reconcile_with_durable_state env generation ContinueRecovery (Some d) DurableRecovering) (\<lambda>_.
            fail_with (with_durable_state Protocol DurableRecovering (lit (diagnostic_message d))))))"

definition submit_recovery_retry ::
  "'d coord_env \<Rightarrow> 'd resume \<Rightarrow> StoreAdvancementRequest \<Rightarrow> CapturedSubmissionOperation \<Rightarrow>
   DerivedChainSubmission \<Rightarrow> StoredChainSubmission \<Rightarrow> ChainRecoveryMode \<Rightarrow> nat \<Rightarrow>
   ('d, ChainSubmissionResult) coord" where
  "submit_recovery_retry env resume request op derived reserved recovery used =
     seq (interruption env op) (\<lambda>interrupted.
     if interrupted \<noteq> None then result_of reserved
     else
     seq (on_error (map_failure (with_state DurableRecovering))
           (register_guard env (generation_identity (derived_generation derived)))) (\<lambda>key.
     seq (and_drop (drop_guard env key) (recovery_retry_post env request op derived reserved recovery used))
       (\<lambda>posted.
     case posted of
       Inl res \<Rightarrow> ret res
     | Inr ambiguous \<Rightarrow>
         seq (interruption env op) (\<lambda>interrupted.
         if interrupted \<noteq> None then result_of ambiguous
         else
         seq (backoff env used) (\<lambda>delay.
         seq (reserve_ambiguous_retry_after_backoff env delay (derived_generation derived) ambiguous)
           (\<lambda>reservation.
         case reservation of
           Inl r \<Rightarrow> result_of r
         | Inr r \<Rightarrow> resume derived r))))))"

definition wait_before_retry :: "'d coord_env \<Rightarrow> nat \<Rightarrow> ('d, Interruption option) coord" where
  "wait_before_retry env used =
     (if used > 0 then seq (backoff env (used - 1)) (wait_backoff_or_interruption env) else ret None)"

definition recover_if_enabled ::
  "'d coord_env \<Rightarrow> 'd resume \<Rightarrow> StoreAdvancementRequest \<Rightarrow> CapturedSubmissionOperation \<Rightarrow>
   DerivedChainSubmission \<Rightarrow> StoredChainSubmission \<Rightarrow> ChainRecoveryMode \<Rightarrow> nat \<Rightarrow>
   ('d, ChainSubmissionResult) coord" where
  "recover_if_enabled env resume request op derived r recovery used =
     (case stored_state r of
        Recovering candidate _ \<Rightarrow>
          if recovery = StatusOnly \<or> is_imported_delegation request then result_of r
          else
          seq (interruption env op) (\<lambda>interrupted.
          if interrupted \<noteq> None then result_of r
          else
          seq (scan_tree env derived candidate op) (\<lambda>scan.
          case scan of
            RecoveryMatch p ps \<Rightarrow> confirm_by_tree env request op derived p ps
          | RecoveryInterrupted \<Rightarrow> result_of r
          | RecoveryNoMatch authorization \<Rightarrow>
              if used \<ge> maximum_post_attempts (co_policy env) then result_of r
              else
              seq (interruption env op) (\<lambda>interrupted.
              if interrupted \<noteq> None then result_of r
              else
              seq (wait_before_retry env used) (\<lambda>waited.
              if waited \<noteq> None then result_of r
              else
              seq (interruption env op) (\<lambda>interrupted.
              if interrupted \<noteq> None then result_of r
              else
              seq (on_error (map_failure (with_state DurableRecovering)) (now_seconds env)) (\<lambda>now.
              seq (on_error (map_failure (attach_state (stored_durable_state r)))
                    (call_store env (\<lambda>fault.
                       reserve_recovery_retry (co_store env) fault request authorization now))) (\<lambda>reserved.
                submit_recovery_retry env resume request op derived reserved recovery used)))))))
      | _ \<Rightarrow> result_of r)"

section \<open>Reconciliation\<close>

definition is_terminal_failure :: "StoreAdvancementRequest \<Rightarrow> DerivedChainSubmission \<Rightarrow> bool" where
  "is_terminal_failure request derived \<longleftrightarrow>
     is_imported_delegation request \<or> is_combined (target (generation_identity (derived_generation derived)))"

definition reconcile_tracking ::
  "'d coord_env \<Rightarrow> 'd resume \<Rightarrow> StoreAdvancementRequest \<Rightarrow> CapturedSubmissionOperation \<Rightarrow>
   DerivedChainSubmission \<Rightarrow> StoredChainSubmission \<Rightarrow> ChainRecoveryMode \<Rightarrow> nat \<Rightarrow>
   CandidateTransactionHash \<Rightarrow> ('d, ChainSubmissionResult) coord" where
  "reconcile_tracking env resume request op derived r recovery used candidate =
     (let generation = derived_generation derived in
      seq (interruption env op) (\<lambda>interrupted.
      if interrupted \<noteq> None then result_of r
      else
      seq (lookup_or_interruption env candidate) (\<lambda>progress.
      case progress of
        LookupInterrupted \<Rightarrow> result_of r
      | LookupObserved StatusPending \<Rightarrow>
          seq (finish_inconclusive_tracking env derived r None) (\<lambda>r.
            recover_if_enabled env resume request op derived r recovery used)
      | LookupFailed failure \<Rightarrow>
          seq (tracking_expired env r) (\<lambda>expired.
          if expired then
            seq (finish_inconclusive_tracking env derived r (Some (lookup_diagnostic failure))) (\<lambda>r.
              recover_if_enabled env resume request op derived r recovery used)
          else
            seq (reconcile_with_durable_state env generation CandidatePending
                  (Some (lookup_diagnostic failure)) DurableTracking) (\<lambda>_.
              fail_with (lookup_failure failure DurableTracking)))
      | LookupObserved (CommittedFailure _) \<Rightarrow>
          let d = from_redacted_message ChainRejected
                (lit ''tracked vote-chain transaction committed unsuccessfully'')
          in seq (reconcile_with_durable_state env generation
                   (if is_terminal_failure request derived then TerminalCandidateFailure d
                    else CandidateCommittedFailure d) (Some d) DurableTracking) result_of
      | LookupObserved (CommittedSuccess committed) \<Rightarrow>
          confirm_by_hash env request op derived candidate committed DurableTracking)))"

definition reconcile_candidate ::
  "'d coord_env \<Rightarrow> 'd resume \<Rightarrow> StoreAdvancementRequest \<Rightarrow> CapturedSubmissionOperation \<Rightarrow>
   DerivedChainSubmission \<Rightarrow> StoredChainSubmission \<Rightarrow> ChainRecoveryMode \<Rightarrow> nat \<Rightarrow>
   CandidateTransactionHash \<Rightarrow> ('d, ChainSubmissionResult) coord" where
  "reconcile_candidate env resume request op derived r recovery used candidate =
     (let generation = derived_generation derived;
          recover = (\<lambda>r. recover_if_enabled env resume request op derived r recovery used)
      in seq (interruption env op) (\<lambda>interrupted.
      if interrupted \<noteq> None then result_of r
      else
      seq (lookup_or_interruption env candidate) (\<lambda>progress.
      case progress of
        LookupInterrupted \<Rightarrow> result_of r
      | LookupObserved (CommittedSuccess committed) \<Rightarrow>
          confirm_by_hash env request op derived candidate committed DurableRecovering
      | LookupObserved (CommittedFailure _) \<Rightarrow>
          if is_terminal_failure request derived then
            let d = from_redacted_message ChainRejected
                  (if is_imported_delegation request
                   then lit ''imported vote-chain transaction committed unsuccessfully''
                   else lit ''combined vote-chain transaction committed unsuccessfully'')
            in seq (reconcile_with_durable_state env generation (TerminalCandidateFailure d) (Some d)
                     DurableRecovering) result_of
          else
            seq (reconcile_with_durable_state env generation
                  (CandidateCommittedFailure (from_redacted_message ChainRejected
                     (lit ''recovery candidate committed unsuccessfully''))) None DurableRecovering) recover
      | LookupObserved StatusPending \<Rightarrow>
          seq (reconcile_with_durable_state env generation CandidatePending None DurableRecovering) recover
      | LookupFailed failure \<Rightarrow>
          seq (reconcile_with_durable_state env generation ContinueRecovery
                (Some (lookup_diagnostic failure)) DurableRecovering) recover)))"

definition reconcile_existing ::
  "'d coord_env \<Rightarrow> 'd resume \<Rightarrow> StoreAdvancementRequest \<Rightarrow> CapturedSubmissionOperation \<Rightarrow>
   DerivedChainSubmission \<Rightarrow> StoredChainSubmission \<Rightarrow> ChainRecoveryMode \<Rightarrow> nat \<Rightarrow>
   ('d, ChainSubmissionResult) coord" where
  "reconcile_existing env resume request op derived r recovery used =
     (case stored_state r of
        Tracking candidate \<Rightarrow> reconcile_tracking env resume request op derived r recovery used candidate
      | Recovering None _ \<Rightarrow> recover_if_enabled env resume request op derived r recovery used
      | Recovering (Some candidate) _ \<Rightarrow>
          reconcile_candidate env resume request op derived r recovery used candidate
      | _ \<Rightarrow> result_of r)"

section \<open>The attempt loop\<close>

text \<open>
  What one attempt does with its outcome: \<open>Inl\<close> returns from the pass, \<open>Inr\<close> goes on with the
  record and whether an ambiguous dispatch was seen.
\<close>

definition handle_post_outcome ::
  "'d coord_env \<Rightarrow> 'd resume \<Rightarrow> StoreAdvancementRequest \<Rightarrow> CapturedSubmissionOperation \<Rightarrow>
   ChainRecoveryMode \<Rightarrow> nat \<Rightarrow> DerivedChainSubmission \<Rightarrow> StoredChainSubmission \<Rightarrow> bool \<Rightarrow>
   PostAttemptOutcome \<Rightarrow> ('d, ChainSubmissionResult + StoredChainSubmission \<times> bool) coord" where
  "handle_post_outcome env resume request op recovery attempt_index derived reserved ambiguity_seen outcome =
     (let generation = derived_generation derived;
          finish = (\<lambda>m. seq m (\<lambda>res. ret (Inl res)));
          is_final = (attempt_index + 1 = maximum_post_attempts (co_policy env))
      in case outcome of
        PostAccepted candidate \<Rightarrow>
          seq (classify_dispatched_post env generation (UsableCandidateHash candidate)) (\<lambda>r.
            if returned_candidate_is_unusable r then ret (Inr (r, True))
            else finish (reconcile_existing env resume request op derived r recovery (attempt_index + 1)))
      | PostRejected code kind d candidate \<Rightarrow>
          if ambiguity_seen \<and> kind = ChainRejectionKind.NullifierAlreadySpent
          then finish (settle_nullifier_spent_after_dispatch env request op derived reserved recovery)
          else
            let terminal = (\<not> ambiguity_seen \<and> is_combined (target (generation_identity generation)) \<and>
                  kind \<noteq> ChainRejectionKind.NullifierAlreadySpent)
            in seq (classify_dispatched_post env generation
                     (if terminal then TerminalRejection d else DefiniteRejection d)) (\<lambda>r.
                 if ambiguity_seen
                 then fail_with (with_durable_state Protocol (stored_durable_state r)
                        (lit (diagnostic_message d)))
                 else finish (result_of r))
      | PostPossiblyDispatched d \<Rightarrow>
          seq (classify_dispatched_post env generation (PossiblyDispatched d)) (\<lambda>r.
          seq (interruption env op) (\<lambda>interrupted.
            if interrupted \<noteq> None then finish (result_of r) else ret (Inr (r, True))))
      | PostLocalFailure d \<Rightarrow>
          if \<not> ambiguity_seen then
            seq (release_fresh_reservation env generation) (\<lambda>_.
              fail_with (without_state Protocol (lit (diagnostic_message d))))
          else fail_with (with_durable_state Protocol DurableRecovering (lit (diagnostic_message d)))
      | PostDefinitelyUnsent e \<Rightarrow>
          if ambiguity_seen then
            seq (reconcile_with_durable_state env generation DefinitelyUnsent
                  (Some (from_redacted_message ReconciliationPending (lit (transport_message e))))
                  DurableRecovering) (\<lambda>r.
              if is_final
              then fail_with (with_durable_state Transport DurableRecovering (lit (transport_message e)))
              else ret (Inr (r, True)))
          else
            seq (release_fresh_reservation env generation) (\<lambda>_.
              if is_final then fail_with (without_state Transport (lit (transport_message e)))
              else ret (Inr (reserved, False))))"

text \<open>After an attempt that did not return: the backoff and the reservation of the next one.\<close>

definition reserve_next_attempt ::
  "'d coord_env \<Rightarrow> StoreAdvancementRequest \<Rightarrow> nat \<Rightarrow> DerivedChainSubmission \<Rightarrow>
   StoredChainSubmission \<Rightarrow> bool \<Rightarrow>
   ('d, ChainSubmissionResult + DerivedChainSubmission \<times> StoredChainSubmission \<times> bool) coord" where
  "reserve_next_attempt env request attempt_index derived reserved ambiguity_seen =
     (let finish = (\<lambda>m. seq m (\<lambda>res. ret (Inl res))) in
      if attempt_index + 1 = maximum_post_attempts (co_policy env) then finish (result_of reserved)
      else
      seq (backoff env attempt_index) (\<lambda>delay.
      if ambiguity_seen then
        seq (reserve_ambiguous_retry_after_backoff env delay (derived_generation derived) reserved)
          (\<lambda>reservation.
        case reservation of
          Inl r \<Rightarrow> finish (result_of r)
        | Inr r \<Rightarrow> ret (Inr (derived, r, True)))
      else
        seq (wait_backoff_or_interruption env delay) (\<lambda>interrupted.
        case interrupted of
          Some reason \<Rightarrow> finish (interrupted_without_state reason)
        | None \<Rightarrow>
            seq (now_seconds env) (\<lambda>now.
            seq (call_store env (\<lambda>fault.
                   admit (co_store env) fault request True (word_of_nat (attempt_index + 2)) now)) (\<lambda>admission.
            case admission of
              Ready retry r fresh \<Rightarrow>
                if fresh \<and> derived_generation retry = derived_generation derived
                then ret (Inr (retry, r, False)) else finish (result_of r)
            | Authoritative r \<Rightarrow> finish (result_of r)
            | NoAuthoritativeState \<Rightarrow> fail_with (without_state InvariantViolation
                (lit ''definitely-unsent retry did not reserve the same generation'')))))))"

text \<open>The body of one iteration, under its in-flight guard.\<close>

definition attempt_once ::
  "'d coord_env \<Rightarrow> 'd resume \<Rightarrow> StoreAdvancementRequest \<Rightarrow> CapturedSubmissionOperation \<Rightarrow>
   ChainRecoveryMode \<Rightarrow> nat \<Rightarrow> DerivedChainSubmission \<Rightarrow> StoredChainSubmission \<Rightarrow> bool \<Rightarrow>
   ('d, ChainSubmissionResult + DerivedChainSubmission \<times> StoredChainSubmission \<times> bool) coord" where
  "attempt_once env resume request op recovery attempt_index derived reserved ambiguity_seen =
     (let generation = derived_generation derived;
          finish = (\<lambda>m. seq m (\<lambda>res. ret (Inl res)));
          give_up = (\<lambda>reason. if ambiguity_seen then finish (result_of reserved)
            else seq (release_fresh_reservation env generation) (\<lambda>_.
                   finish (interrupted_without_state reason)))
      in
      seq (interruption env op) (\<lambda>interrupted.
      case interrupted of
        Some reason \<Rightarrow> give_up reason
      | None \<Rightarrow>
      seq (attempt (register_guard env (generation_identity generation))) (\<lambda>guard.
      case guard of
        Inl e \<Rightarrow>
          if ambiguity_seen then raise e
          else seq (release_fresh_reservation env generation) (\<lambda>_. raise e)
      | Inr key \<Rightarrow>
          and_drop (drop_guard env key)
            (seq (race_post env derived reserved) (\<lambda>progress.
             case progress of
               Inl reason \<Rightarrow> give_up reason
             | Inr outcome \<Rightarrow>
                 seq (handle_post_outcome env resume request op recovery attempt_index derived reserved
                       ambiguity_seen outcome) (\<lambda>flow.
                 case flow of
                   Inl res \<Rightarrow> ret (Inl res)
                 | Inr (r, seen) \<Rightarrow> reserve_next_attempt env request attempt_index derived r seen))))))"

text \<open>
  The loop over the remaining attempts, the index of the current one being the configured maximum
  less what remains. The recovery retry that an accepted POST can lead to uses one more attempt.
\<close>

fun attempt_loop ::
  "'d coord_env \<Rightarrow> StoreAdvancementRequest \<Rightarrow> CapturedSubmissionOperation \<Rightarrow> ChainRecoveryMode \<Rightarrow> nat \<Rightarrow>
   DerivedChainSubmission \<Rightarrow> StoredChainSubmission \<Rightarrow> bool \<Rightarrow> ('d, ChainSubmissionResult) coord" where
  "attempt_loop env request op recovery 0 derived reserved ambiguity_seen =
     panic ''validated attempt bound is nonzero''"
| "attempt_loop env request op recovery (Suc n) derived reserved ambiguity_seen =
     seq (attempt_once env
           (\<lambda>d r. attempt_loop env request op recovery (n - 1) d r (is_retryable_dispatch_ambiguity r))
           request op recovery (maximum_post_attempts (co_policy env) - Suc n) derived reserved
           ambiguity_seen) (\<lambda>flow.
     case flow of
       Inl res \<Rightarrow> ret res
     | Inr (d, r, seen) \<Rightarrow> attempt_loop env request op recovery n d r seen)"

definition submit_reserved_attempts ::
  "'d coord_env \<Rightarrow> StoreAdvancementRequest \<Rightarrow> CapturedSubmissionOperation \<Rightarrow> ChainRecoveryMode \<Rightarrow> nat \<Rightarrow>
   DerivedChainSubmission \<Rightarrow> StoredChainSubmission \<Rightarrow> ('d, ChainSubmissionResult) coord" where
  "submit_reserved_attempts env request op recovery first_attempt_index derived reserved =
     attempt_loop env request op recovery
       (maximum_post_attempts (co_policy env) - first_attempt_index) derived reserved
       (is_retryable_dispatch_ambiguity reserved)"

section \<open>Advancing\<close>

definition advance_in_epoch ::
  "'d coord_env \<Rightarrow> StoreAdvancementRequest \<Rightarrow> ChainRecoveryMode \<Rightarrow> u64 \<Rightarrow> ('d, ChainSubmissionResult) coord" where
  "advance_in_epoch env request recovery operation_epoch =
     (let op = \<lparr>captured_identity = request_identity request, host_operation_epoch = operation_epoch\<rparr> in
      seq (sample (lease_at env)) (\<lambda>lease.
      seq (from_result (map_err Failed lease)) (\<lambda>_.
      seq (interruption env op) (\<lambda>interrupted.
      seq (now_seconds env) (\<lambda>now.
      seq (call_store env (\<lambda>fault. admit (co_store env) fault request (interrupted = None) 1 now))
        (\<lambda>admission.
      case admission of
        NoAuthoritativeState \<Rightarrow>
          seq (interruption env op) (\<lambda>interrupted.
          case interrupted of
            Some InterruptCancelled \<Rightarrow> ret ResultCancelled
          | Some InterruptStaleEpoch \<Rightarrow> fail_with (without_state InvalidInput
              (lit ''host operation epoch changed before chain submission''))
          | None \<Rightarrow> fail_with (without_state InvariantViolation
              (lit ''admission returned no state for an active operation'')))
      | Authoritative r \<Rightarrow> result_of r
      | Ready derived r fresh \<Rightarrow>
          if fresh then submit_reserved_attempts env request op recovery 0 derived r
          else
          seq (if recovery = StatusOnly \<and> is_retryable_dispatch_ambiguity r \<and>
                  \<not> is_imported_delegation request
               then seq (interruption env op) (\<lambda>i. ret (i = None)) else ret False) (\<lambda>retry.
          if retry then
            seq (on_error (map_failure (with_state (stored_durable_state r))) (now_seconds env)) (\<lambda>now.
            seq (on_error (map_failure (attach_state (stored_durable_state r)))
                  (call_store env (\<lambda>fault.
                     reserve_ambiguous_retry (co_store env) fault (derived_generation derived) now)))
              (\<lambda>reserved. submit_reserved_attempts env request op recovery 0 derived reserved))
          else
            reconcile_existing env
              (\<lambda>d r. submit_reserved_attempts env request op recovery 1 d r)
              request op derived r recovery 0)))))))"

definition advance_with_recovery ::
  "'d coord_env \<Rightarrow> StoreAdvancementRequest \<Rightarrow> ChainRecoveryMode \<Rightarrow> ('d, ChainSubmissionResult) coord" where
  "advance_with_recovery env request recovery =
     seq (sample (host_epoch_at env)) (\<lambda>operation_epoch.
       advance_in_epoch env request recovery operation_epoch)"

definition advance ::
  "'d coord_env \<Rightarrow> StoreAdvancementRequest \<Rightarrow> ('d, ChainSubmissionResult) coord" where
  "advance env request = advance_with_recovery env request StatusOnly"

end
