(* ===== verification/Store_Outcomes.thy ===== *)
theory Store_Outcomes
  imports Store_Calls
begin

text \<open>
  What the caller of a store operation learns from its answer: an error leaves the database as it
  was and claims only a state the record has, and a success says what the record is now.
\<close>

section \<open>Truthful failures\<close>

definition truthful :: "StoredChainSubmission option \<Rightarrow> ChainSubmissionFailure \<Rightarrow> bool" where
  "truthful x f \<longleftrightarrow>
     (case strongest_state f of
        None \<Rightarrow> True
      | Some s \<Rightarrow>
          (case evidence s of
             Durable \<Rightarrow> \<exists>r. x = Some r \<and> stored_durable_state r = failure_state s
           | KnownPossiblyDispatched \<Rightarrow> x \<noteq> None))"

definition errs :: "('e \<Rightarrow> bool) \<Rightarrow> 'e + 'a \<Rightarrow> bool" where
  "errs P r \<longleftrightarrow> (\<forall>e. r = Inl e \<longrightarrow> P e)"

named_theorems errs_intros

lemma errs_Inl [simp]: "errs P (Inl e) \<longleftrightarrow> P e"
  by (simp add: errs_def)

lemma errs_Inr [simp, errs_intros]: "errs P (Inr x)"
  by (simp add: errs_def)

lemma errs_and_then [errs_intros]:
  "errs P r \<Longrightarrow> (\<And>x. r = Inr x \<Longrightarrow> errs P (f x)) \<Longrightarrow> errs P (and_then r f)"
  by (cases r) simp_all

lemma errs_map_err [errs_intros]: "(\<And>e. r = Inl e \<Longrightarrow> P (g e)) \<Longrightarrow> errs P (map_err g r)"
  by (cases r) simp_all

lemma errs_ok_or [errs_intros]: "P e \<Longrightarrow> errs P (ok_or e x)"
  by (cases x) (simp_all add: ok_or_def)

lemma truthful_simps [simp]:
  "truthful x (without_state k m)"
  "truthful x (storage_error env e)"
  "truthful x (map_generation_error v)"
  "truthful x (with_durable_state k s m) \<longleftrightarrow> (\<exists>r. x = Some r \<and> stored_durable_state r = s)"
  "truthful x (transition_failure s m) \<longleftrightarrow> (\<exists>r. x = Some r \<and> stored_durable_state r = s)"
  "truthful x (with_known_possible_dispatch k m) \<longleftrightarrow> x \<noteq> None"
  "truthful x (possible_dispatch_error f) \<longleftrightarrow> x \<noteq> None"
  by (simp_all add: truthful_def without_state_def storage_error_def map_generation_error_def
      with_durable_state_def transition_failure_def with_known_possible_dispatch_def
      possible_dispatch_error_def)

lemma truthful_preserve:
  "truthful (Some r) f \<Longrightarrow> truthful (Some r) (preserve_loaded_state f (Some r))"
  by (auto simp: preserve_loaded_state_def split: option.splits)

lemma derive_errs [errs_intros]: "errs (truthful x) (derive env db request)"
  by (auto simp: derive_def intro: errs_intros)

lemma verify_batch_roster_errs [errs_intros]: "errs (truthful x) (verify_batch_roster request ids)"
  by (auto simp: verify_batch_roster_def split: option.split)

lemma persist_mutable_errs [errs_intros]: "errs (truthful x) (persist_mutable env r db)"
  by (auto simp: persist_mutable_def intro: errs_intros)

lemma preserved_errs [errs_intros]:
  "errs (truthful (Some r)) m \<Longrightarrow> errs (truthful (Some r)) (map_err (\<lambda>e. preserve_loaded_state e (Some r)) m)"
  by (cases m) (simp_all add: truthful_preserve)

lemma ensure_generation_errs [errs_intros]: "errs (truthful (Some r)) (ensure_generation r g)"
  by (simp add: ensure_generation_def)

lemma abs_store_load:
  assumes "db_inv env db" and "valid_identity i"
  shows "load_submission env db i = Inr (abs_store env db i)"
  using load_submission_total [OF assms] by (auto simp: abs_store_def)

lemma transact_outcome:
  assumes "transact env fault operation db = (res, db')"
    and "errs (truthful x) (operation db)"
  shows "case res of Inl f \<Rightarrow> db' = db \<and> truthful x f | Inr y \<Rightarrow> operation db = Inr (y, db')"
  using assms by (auto simp: transact_def split: storage_fault.splits sum.splits)

section \<open>Transitions and reservations\<close>

lemma apply_observation_outcome:
  assumes inv: "db_inv env db" and i: "valid_identity (generation_identity g)"
    and row: "abs_store env db (generation_identity g) = Some r"
    and ob: "valid_observation ob" "bounded_diagnostic e" and now: "now \<le> i64_max"
    and call: "apply_observation env fault g ob e now db = (res, db')"
  shows "case res of
      Inl f \<Rightarrow> db' = db \<and> truthful (Some r) f
    | Inr r' \<Rightarrow> db_inv env db' \<and> stored_identity r' = generation_identity g \<and>
        stored_digest r' = stored_digest r \<and>
        committed_post_reservations r' = committed_post_reservations r \<and>
        tracking_started_at r' = (if is_tracking (stored_state r') \<and> tracking_started_at r = None
          then Some (updated_at r') else tracking_started_at r) \<and>
        apply_submission_observation (Some (stored_state r))
          (effective_observation (generation_identity g) ob db) = Inr (Some (stored_state r')) \<and>
        (abs_store env db' (generation_identity g) = Some (reload_record r') \<or>
         abs_store env db' (generation_identity g) = None \<and> is_combined (target (generation_identity g)) \<and>
           stored_durable_state r' = DurableRejected)"
proof -
  let ?i = "generation_identity g"
  have load: "load_submission env db ?i = Inr (Some r)"
    using abs_store_load [OF inv i] row by simp
  note wf = loaded_wf [OF inv i load]
  have errs: "errs (truthful (Some r)) (apply_observation_tx env g ob e now db)"
    unfolding apply_observation_tx_def require_row_def
    by (auto simp: load Let_def intro!: errs_intros)
  from transact_outcome [OF call [unfolded apply_observation_def] errs] show ?thesis
  proof (cases res)
    case (Inr r')
    then have tx: "apply_observation_tx env g ob e now db = Inr (r', db')"
      using transact_outcome [OF call [unfolded apply_observation_def] errs] by simp
    then obtain s where step: "apply_submission_observation (Some (stored_state r))
        (effective_observation ?i ob db) = Inr (Some s)"
      and r': "r' = settle_after_transition (stored_durable_state r) e now (r\<lparr>stored_state := s\<rparr>)"
      by (auto simp: apply_observation_tx_def result_simps require_row_Inr load Let_def split: if_splits)
    note new = stored_wf_transition [OF wf(1) step effective_observation_valid [OF ob(1)] ob(2) now,
        of "stored_durable_state r"]
    have keeps: "db_inv env db'"
      using apply_observation_keeps [OF inv i ob now, of fault] call by (simp add: keeps_def)
    have "abs_store env db' ?i = Some (reload_record r') \<or>
        abs_store env db' ?i = None \<and> is_combined (target ?i) \<and> stored_durable_state r' = DurableRejected"
    proof (cases "retires_combined_generation (stored_durable_state r) r'")
      case True
      then have "record_step (Some r) None"
        using retired_step [OF step] r' by simp
      from keeps_delete(2) [OF inv i load this] True tx step r' wf(2) show ?thesis
        by (auto simp: apply_observation_tx_def result_simps require_row_Inr load Let_def
            retires_combined_generation_def split: if_splits)
    next
      case False
      from transition_persists [OF inv i load _ new(2,1), of ob "domain db"] obtain db2 where
        "persist_mutable env r' db = Inr db2" "abs_store env db2 ?i = Some (reload_record r')"
        using step r' by auto
      with False tx step r' show ?thesis
        by (auto simp: apply_observation_tx_def result_simps require_row_Inr load Let_def)
    qed
    with Inr keeps step r' wf(2) show ?thesis
      by (simp add: settle_tracking)
  qed simp
qed

lemma reserve_ambiguous_retry_outcome:
  assumes inv: "db_inv env db" and i: "valid_identity (generation_identity g)"
    and row: "abs_store env db (generation_identity g) = Some r" and now: "now \<le> i64_max"
    and call: "reserve_ambiguous_retry env fault g now db = (res, db')"
  shows "case res of
      Inl f \<Rightarrow> db' = db \<and> truthful (Some r) f
    | Inr r' \<Rightarrow> db_inv env db' \<and> stored_identity r' = generation_identity g \<and>
        stored_digest r' = stored_digest r \<and>
        permits_ambiguous_retry (stored_state r) \<and> stored_state r' = stored_state r \<and>
        unat (committed_post_reservations r') = unat (committed_post_reservations r) + 1 \<and>
        abs_store env db' (generation_identity g) = Some (reload_record r')"
proof -
  let ?i = "generation_identity g"
  have load: "load_submission env db ?i = Inr (Some r)"
    using abs_store_load [OF inv i] row by simp
  note wf = loaded_wf [OF inv i load]
  let ?tx = "\<lambda>db. and_then (require_row env db ?i
      (lit ''submission disappeared before ambiguous retry reservation'')) (\<lambda>r.
    and_then (ensure_generation r g) (\<lambda>_.
    if \<not> permits_ambiguous_retry (stored_state r)
    then Inl (with_durable_state InvariantViolation (stored_durable_state r)
           (lit ''ambiguous retry requires a hashless possibly-dispatched recovery row''))
    else
    and_then (ok_or (with_durable_state InvariantViolation DurableRecovering
        (lit ''submission reservation counter overflowed''))
        (next_reservation (committed_post_reservations r))) (\<lambda>n.
    let r' = r\<lparr>committed_post_reservations := n, updated_at := max now (updated_at r)\<rparr>
    in and_then (persist_mutable env r' db) (\<lambda>db'. Inr (r', db')))))"
  have errs: "errs (truthful (Some r)) (?tx db)"
    unfolding require_row_def
    by (auto simp: load Let_def intro!: errs_intros elim: permits_ambiguous_retry_Recovering)
  note out = transact_outcome [OF call [unfolded reserve_ambiguous_retry_def] errs]
  show ?thesis
  proof (cases res)
    case (Inr r')
    then obtain n where p: "permits_ambiguous_retry (stored_state r)"
      and n: "next_reservation (committed_post_reservations r) = Some n"
      and r': "r' = r\<lparr>committed_post_reservations := n, updated_at := max now (updated_at r)\<rparr>"
      and db': "persist_mutable env r' db = Inr db'"
      using out by (auto simp: result_simps require_row_Inr load Let_def split: if_splits)
    obtain d where d: "stored_state r = Recovering None d"
      using p by (rule permits_ambiguous_retry_Recovering)
    then have "r' = r\<lparr>committed_post_reservations := n, stored_state := Recovering None d,
        updated_at := max now (updated_at r)\<rparr>"
      using r' by simp
    from reservation_persists [OF inv i load d _ n now this] db'
    have "db_inv env db'" "abs_store env db' ?i = Some (reload_record r')"
      by (auto simp: keeps_def)
    moreover have "unat n = unat (committed_post_reservations r) + 1"
      using n by (auto simp: next_reservation_Some_iff word_less_nat_alt unat_word_ariths)
    ultimately show ?thesis
      using Inr p r' wf(2) by simp
  qed (use out in simp)
qed

lemma reserve_recovery_retry_outcome:
  assumes env: "derivation_ok env" and inv: "db_inv env db" and i: "valid_identity (request_identity request)"
    and row: "abs_store env db (request_identity request) = Some r" and now: "now \<le> i64_max"
    and call: "reserve_recovery_retry env fault request a now db = (res, db')"
  shows "case res of
      Inl f \<Rightarrow> db' = db \<and> truthful (Some r) f
    | Inr r' \<Rightarrow> db_inv env db' \<and> stored_identity r' = request_identity request \<and>
        stored_digest r' = stored_digest r \<and>
        (\<exists>d. stored_state r = Recovering (authorized_candidate a) d \<and> stored_state r' = Recovering None d) \<and>
        unat (committed_post_reservations r') = unat (committed_post_reservations r) + 1 \<and>
        abs_store env db' (request_identity request) = Some (reload_record r')"
proof -
  let ?i = "request_identity request"
  have load: "load_submission env db ?i = Inr (Some r)"
    using abs_store_load [OF inv i] row by simp
  then have load': "?i = authorized_identity a \<Longrightarrow> load_submission env db (authorized_identity a) = Inr (Some r)"
    by simp
  note wf = loaded_wf [OF inv i load]
  note call' = call [unfolded reserve_recovery_retry_def]
  have errs: "errs (truthful (Some r)) (case a of a \<Rightarrow>
    if ?i \<noteq> authorized_identity a
    then Inl (without_state InvalidInput
           (lit ''recovery request does not match its authorization identity''))
    else
    and_then (require_row env db (authorized_identity a)
        (lit ''submission disappeared before recovery retry reservation'')) (\<lambda>r.
    if stored_digest r \<noteq> authorized_digest a
    then Inl (with_durable_state InvalidInput (stored_durable_state r)
           (lit ''recovery authorization belongs to a different generation''))
    else
    and_then (map_err (\<lambda>e. preserve_loaded_state e (Some r)) (derive env db (derivation request)))
      (\<lambda>derived.
    and_then (map_err (\<lambda>e. preserve_loaded_state e (Some r))
        (verify_batch_roster request (ordered_proposal_ids derived))) (\<lambda>_.
    and_then (ensure_generation r (derived_generation derived)) (\<lambda>_.
    case stored_state r of
      Recovering candidate d \<Rightarrow>
        if candidate \<noteq> authorized_candidate a
        then Inl (with_durable_state InvariantViolation (stored_durable_state r)
               (lit ''recovery authorization no longer matches durable state''))
        else
          and_then (ok_or (with_durable_state InvariantViolation DurableRecovering
              (lit ''recovery reservation counter overflowed''))
              (next_reservation (committed_post_reservations r))) (\<lambda>n.
          let r' = r\<lparr>committed_post_reservations := n, stored_state := Recovering None d,
                     updated_at := max now (updated_at r)\<rparr>
          in and_then (persist_mutable env r' db) (\<lambda>db'. Inr (r', db')))
    | _ \<Rightarrow> Inl (with_durable_state InvariantViolation (stored_durable_state r)
             (lit ''recovery authorization no longer matches durable state'')))))))"
    unfolding require_row_def
    by (cases "?i = authorized_identity a")
      (auto simp: load' Let_def intro!: errs_intros split: SubmissionRecordState.split)
  note out = transact_outcome [OF call' errs]
  show ?thesis
  proof (cases res)
    case (Inr r')
    then obtain n d where same: "?i = authorized_identity a"
      and st: "stored_state r = Recovering (authorized_candidate a) d"
      and n: "next_reservation (committed_post_reservations r) = Some n"
      and r': "r' = r\<lparr>committed_post_reservations := n, stored_state := Recovering None d,
        updated_at := max now (updated_at r)\<rparr>"
      and db': "persist_mutable env r' db = Inr db'"
      using out by (auto simp: result_simps require_row_Inr load' Let_def
          split: if_splits SubmissionRecordState.splits)
    from reservation_persists [OF inv i load st disjI2 [OF refl] n now r'] db'
    have "db_inv env db'" "abs_store env db' ?i = Some (reload_record r')"
      by (auto simp: keeps_def)
    moreover have "unat n = unat (committed_post_reservations r) + 1"
      using n by (auto simp: next_reservation_Some_iff word_less_nat_alt unat_word_ariths)
    ultimately show ?thesis
      using Inr st r' wf(2) by simp
  qed (use out in simp)
qed

lemma remove_fresh_reservation_outcome:
  assumes inv: "db_inv env db" and i: "valid_identity (generation_identity g)"
    and row: "abs_store env db (generation_identity g) = Some r"
    and call: "remove_fresh_reservation env fault g now db = (res, db')"
  shows "case res of
      Inl f \<Rightarrow> db' = db \<and> truthful (Some r) f
    | Inr _ \<Rightarrow> db_inv env db' \<and> stored_state r = Submitting \<and> abs_store env db' (generation_identity g) = None"
proof -
  let ?i = "generation_identity g"
  have load: "load_submission env db ?i = Inr (Some r)"
    using abs_store_load [OF inv i] row by simp
  have errs: "errs (truthful (Some r)) (and_then (require_row env db ?i (lit ''fresh reservation disappeared''))
      (\<lambda>r. and_then (ensure_generation r g) (\<lambda>_.
      if stored_state r \<noteq> Submitting
      then Inl (with_durable_state InvariantViolation (stored_durable_state r)
             (lit ''only a fresh Submitting reservation can be removed''))
      else Inr ((), sql_delete (has_key ?i) db))))"
    unfolding require_row_def by (auto simp: load intro!: errs_intros)
  note out = transact_outcome [OF call [unfolded remove_fresh_reservation_def] errs]
  show ?thesis
  proof (cases res)
    case (Inr u)
    then have st: "stored_state r = Submitting" and db': "db' = sql_delete (has_key ?i) db"
      using out by (auto simp: result_simps require_row_Inr load split: if_splits)
    from released [OF st] have "record_step (Some r) None" .
    from keeps_delete [OF inv i load this] show ?thesis
      using Inr st db' by (simp add: keeps_def)
  qed (use out in simp)
qed

section \<open>Confirmation\<close>

lemma commit_confirmation_errs [errs_intros]:
  "errs (truthful (Some r)) (commit_confirmation env r derived v now db)"
  unfolding commit_confirmation_def Let_def confirmation_removed_row_def
  by (auto intro!: errs_intros)

lemma commit_confirmation_outcome:
  assumes inv: "db_inv env db" and i: "valid_identity i" and load: "load_submission env db i = Inr (Some r)"
    and v: "valid_state (Confirmed v)" and now: "now \<le> i64_max"
    and ok: "commit_confirmation env r derived v now db = Inr (commit, db')"
  shows "\<exists>r'. commit = CommitConfirmed r' \<and> db_inv env db' \<and> stored_identity r' = i \<and> stored_digest r' = stored_digest r \<and>
    stored_state r' = Confirmed v \<and> committed_post_reservations r' = committed_post_reservations r \<and>
    abs_store env db' i = Some (reload_record r')"
proof -
  let ?r' = "r\<lparr>stored_state := Confirmed v, stored_diagnostic := None,
      updated_at := max now (updated_at r)\<rparr>"
  obtain d where step: "apply_submission_observation (Some (stored_state r)) (ObsConfirmed v) =
      Inr (Some (Confirmed v))"
    and db': "persist_mutable env ?r' (db\<lparr>domain := d\<rparr>) = Inr db'" and commit: "commit = CommitConfirmed ?r'"
    using ok by (auto simp: commit_confirmation_def result_simps Let_def dest: apply_confirmed_some)
  have "effective_observation i (ObsConfirmed v) db = ObsConfirmed v"
    by (simp add: effective_observation_def)
  with step have eff: "apply_submission_observation (Some (stored_state r)) (effective_observation i (ObsConfirmed v) db) =
      Inr (Some (stored_state ?r'))"
    by simp
  note wf = loaded_wf [OF inv i load]
  from transition_persists [OF inv i load eff confirmed_wf(2,1) [OF wf(1) v now], of d] db'
  have "keeps env db db'" "abs_store env db' i = Some (reload_record ?r')"
    by auto
  then show ?thesis
    using commit wf(2) by (auto simp: keeps_def)
qed

definition commit_spec ::
  "'d store_env \<Rightarrow> ChainSubmissionIdentity \<Rightarrow> StoredChainSubmission \<Rightarrow> 'd voting_db \<Rightarrow> ConfirmationCommit \<Rightarrow> bool" where
  "commit_spec env i r db' commit \<longleftrightarrow>
     (case commit of
        CommitInterrupted r' \<Rightarrow> r' = r \<and> db_inv env db' \<and> abs_store env db' i = Some r
      | CommitConfirmed r' \<Rightarrow> db_inv env db' \<and> stored_identity r' = i \<and> stored_digest r' = stored_digest r \<and> (\<exists>v. stored_state r' = Confirmed v) \<and>
          committed_post_reservations r' = committed_post_reservations r \<and>
          abs_store env db' i = Some (reload_record r'))"

lemma confirm_committed_outcome:
  assumes inv: "db_inv env db" and i: "valid_identity (generation_identity g)"
    and row: "abs_store env db (generation_identity g) = Some r" and now: "now \<le> i64_max" and h: "length h = 32"
    and call: "confirm_committed env fault request g h events allowed now db = (res, db')"
  shows "case res of
      Inl f \<Rightarrow> db' = db \<and> truthful (Some r) f
    | Inr commit \<Rightarrow> commit_spec env (generation_identity g) r db' commit"
proof -
  let ?i = "generation_identity g"
  have load: "load_submission env db ?i = Inr (Some r)"
    using abs_store_load [OF inv i] row by simp
  let ?tx = "\<lambda>db. and_then (require_row env db ?i (lit ''submission disappeared before confirmation'')) (\<lambda>r.
       and_then (ensure_generation r g) (\<lambda>_.
       and_then (map_err (\<lambda>e. preserve_loaded_state e (Some r)) (derive env db (derivation request)))
         (\<lambda>derived.
       if derived_generation derived \<noteq> g
       then Inl (with_durable_state InvalidInput (stored_durable_state r)
              (lit ''semantic generation changed before confirmation''))
       else if \<not> allowed then Inr (CommitInterrupted r, db)
       else
       and_then (map_err (\<lambda>e. with_durable_state Protocol (stored_durable_state r) (voting_error_text e))
           (if is_imported_delegation request
            then validate_imported_delegation_confirmation (env_codecs env) (derived_bound derived) h events
            else validate_hash_confirmation (env_codecs env) derived h events)) (\<lambda>conf.
         commit_confirmation env r derived conf now db))))"
  have errs: "errs (truthful (Some r)) (?tx db)"
    unfolding require_row_def by (auto simp: load intro!: errs_intros)
  note out = transact_outcome [OF call [unfolded confirm_committed_def] errs]
  show ?thesis
  proof (cases res)
    case (Inr commit)
    then have "commit = CommitInterrupted r \<and> db' = db \<or>
        (\<exists>v derived. valid_state (Confirmed v) \<and> commit_confirmation env r derived v now db = Inr (commit, db'))"
      using out validate_hash_confirmation_valid [OF _ h] validate_imported_delegation_confirmation_valid [OF _ h]
      by (fastforce simp: result_simps require_row_Inr load split: if_splits)
    then show ?thesis
      using Inr inv row commit_confirmation_outcome [OF inv i load _ now]
      by (fastforce simp: commit_spec_def)
  qed (use out in simp)
qed

lemma confirm_tree_outcome:
  assumes inv: "db_inv env db" and i: "valid_identity (generation_identity g)"
    and row: "abs_store env db (generation_identity g) = Some r" and now: "now \<le> i64_max"
    and ps: "length ps < 2 ^ 32"
    and call: "confirm_tree env fault request g p ps allowed now db = (res, db')"
  shows "case res of
      Inl f \<Rightarrow> db' = db \<and> truthful (Some r) f
    | Inr commit \<Rightarrow> commit_spec env (generation_identity g) r db' commit"
proof -
  let ?i = "generation_identity g"
  have load: "load_submission env db ?i = Inr (Some r)"
    using abs_store_load [OF inv i] row by simp
  let ?tx = "\<lambda>db. and_then (require_row env db ?i (lit ''submission disappeared before tree confirmation'')) (\<lambda>r.
       and_then (ensure_generation r g) (\<lambda>_.
       and_then (map_err (\<lambda>e. preserve_loaded_state e (Some r)) (derive env db (derivation request)))
         (\<lambda>derived.
       and_then (map_err (\<lambda>e. preserve_loaded_state e (Some r))
           (verify_batch_roster request (ordered_proposal_ids derived))) (\<lambda>_.
       if derived_generation derived \<noteq> g
       then Inl (with_durable_state InvalidInput (stored_durable_state r)
              (lit ''semantic generation changed before tree confirmation''))
       else if \<not> allowed then Inr (CommitInterrupted r, db)
       else
       and_then (map_err (\<lambda>e. with_durable_state Protocol (stored_durable_state r)
             (confirmation_error_text e)) (confirmation_from_tree p ps)) (\<lambda>conf.
         commit_confirmation env r derived conf now db)))))"
  have errs: "errs (truthful (Some r)) (?tx db)"
    unfolding require_row_def by (auto simp: load intro!: errs_intros)
  note out = transact_outcome [OF call [unfolded confirm_tree_def] errs]
  show ?thesis
  proof (cases res)
    case (Inr commit)
    then have "commit = CommitInterrupted r \<and> db' = db \<or>
        (\<exists>v derived. valid_state (Confirmed v) \<and> commit_confirmation env r derived v now db = Inr (commit, db'))"
      using out confirmed_by_tree_valid_state [OF _ ps]
      by (fastforce simp: result_simps require_row_Inr load split: if_splits)
    then show ?thesis
      using Inr inv row commit_confirmation_outcome [OF inv i load _ now]
      by (fastforce simp: commit_spec_def)
  qed (use out in simp)
qed

section \<open>Admission\<close>

lemma load_submission_errs [errs_intros]: "errs (truthful x) (load_submission env db i)"
  by (auto simp: load_submission_def intro!: errs_intros split: option.split)

lemma validate_target_errs [errs_intros]: "errs (truthful x) (validate_target request)"
  by (auto simp: validate_target_def Let_def intro!: errs_intros
      split: SubmissionDerivationRequest.split ChainSubmissionTarget.split)

lemma admit_fresh_errs: "errs (truthful x) (admit_fresh env request batch n now db)"
  by (auto simp: admit_fresh_def admit_imported_def guard_combined_fresh_def guard_combined_recovery_def
      guard_predecessor_def guard_superseded_def insert_fresh_def insert_imported_delegation_def Let_def
      intro!: errs_intros split: option.split)

lemma preserve_loaded_None [simp]: "preserve_loaded_state e None = e"
  by (simp add: preserve_loaded_state_def split: option.split)

lemma derive_batch_errs: "errs (truthful x) (derive_batch env request x db)"
  by (cases x) (auto simp: derive_batch_def intro!: errs_intros
      dest: derive_errs [unfolded errs_def, rule_format] verify_batch_roster_errs [unfolded errs_def, rule_format])

lemma admit_existing_errs: "errs (truthful (Some r)) (admit_existing env request r batch db)"
  by (auto simp: admit_existing_def intro!: errs_intros split: option.split)

lemma normalize_abandoned_errs: "errs (truthful (Some r)) (normalize_abandoned env r now db)"
  by (auto simp: normalize_abandoned_def Let_def intro!: errs_intros)

lemma admit_tx_errs:
  assumes "load_submission env db (request_identity request) = Inr x"
  shows "errs (truthful x) (admit_tx env request allowed n now db)"
  using assms
  by (cases x) (auto simp: admit_tx_def intro!: errs_intros derive_batch_errs admit_existing_errs
      normalize_abandoned_errs admit_fresh_errs split: prod.split)

lemma admitted_generation:
  assumes env: "derivation_ok env" and tx: "admit_tx env request allowed n now db = Inr (admission, db')"
    and ready: "admission = Ready d r fresh"
  shows "generation_identity (derived_generation d) = request_identity request \<and>
    stored_digest r = generation_digest (derived_generation d)"
proof -
  have "derive env db (derivation request) = Inr d \<and> stored_digest r = generation_digest (derived_generation d)"
    using tx ready
    by (auto simp: admit_tx_def admit_existing_def admit_fresh_def admit_imported_def fresh_record_def
        adopted_imported_delegation_def ensure_generation_def result_simps Let_def
        split: if_splits option.splits dest: derive_batch_Inr)
  then show ?thesis
    using derive_Inr(1) [OF env] by (auto simp: request_identity_def)
qed

lemma admit_outcome:
  assumes env: "derivation_ok env" and inv: "db_inv env db" and i: "valid_identity (request_identity request)"
    and now: "now \<le> i64_max" and n: "n \<le> i64_max"
    and call: "admit env fault request allowed n now db = (res, db')"
  shows "case res of
      Inl f \<Rightarrow> db' = db \<and> truthful (abs_store env db (request_identity request)) f
    | Inr admission \<Rightarrow> db_inv env db' \<and>
        admission_spec allowed n now admission (abs_store env db (request_identity request))
          (abs_store env db' (request_identity request)) \<and>
        (\<forall>d r fresh. admission = Ready d r fresh \<longrightarrow>
           generation_identity (derived_generation d) = request_identity request \<and>
           stored_digest r = generation_digest (derived_generation d))"
proof -
  let ?x = "abs_store env db (request_identity request)"
  note load = abs_store_load [OF inv i]
  show ?thesis
  proof (cases "validate_target request")
    case (Inl e)
    with call validate_target_errs [of ?x request] show ?thesis
      by (auto simp: admit_def)
  next
    case (Inr u)
    obtain res0 where tr: "transact env fault (admit_tx env request allowed n now) db = (res0, db')"
      and res: "res = map_err (\<lambda>e. if admit_normalizes env fault request db then possible_dispatch_error e else e) res0"
      using call Inr by (auto simp: admit_def Let_def split: prod.splits)
    note out = transact_outcome [OF tr admit_tx_errs [OF load]]
    show ?thesis
    proof (cases res0)
      case (Inl e)
      with out res load show ?thesis
        by (auto simp: admit_normalizes_def split: option.splits sum.splits)
    next
      case (Inr admission)
      then have tx: "admit_tx env request allowed n now db = Inr (admission, db')"
        using out by simp
      have "generation_identity (derived_generation d) = request_identity request \<and>
          stored_digest r = generation_digest (derived_generation d)" if "admission = Ready d r fresh" for d r fresh
        using tx that by (rule_tac admitted_generation [OF env])
      with admit_tx_spec [OF env inv i _ now n tx] \<open>validate_target request = Inr u\<close> Inr res show ?thesis
        by (auto simp: keeps_def)
    qed
  qed
qed

end
