(* ===== verification/Store_Properties.thy ===== *)
theory Store_Properties
  imports Store_Outcomes
begin

text \<open>
  The promises of the SQLite store: what runs of calls preserve, what an admission, a transition
  and a retry reservation do, and what a failed admission says about the record. A small concrete
  store shows that the hypotheses can be met.
\<close>

section \<open>A concrete store\<close>

definition sample_env :: "unit store_env" where
  "sample_env =
     \<lparr>env_codecs = sample_codecs, sql_error_text = (\<lambda>_. []),
      derive_generation = (\<lambda>db request. Inr
        \<lparr>derived_bound =
           \<lparr>bound_generation =
              \<lparr>generation_identity = derivation_identity request, generation_digest = replicate 32 7\<rparr>,
            bound_expected_layout = LayoutVote (replicate 32 1) (replicate 32 2),
            bound_ordered_proposal_ids = [1]\<rparr>,
         derived_request = RequestVoteBatch \<lparr>wire_votes = []\<rparr>\<rparr>),
      round_exists = (\<lambda>_ _ _. True), bundle_columns = (\<lambda>_ _ _ _. None),
      delegate_cast_recovery = (\<lambda>_ _ _ _. False),
      apply_confirmed_generation = (\<lambda>_ _ _. Inr ()),
      retire_rejected_combined_generation = (\<lambda>_ _ _ _. Inr ())\<rparr>"

definition sample_identity :: ChainSubmissionIdentity where
  "sample_identity = \<lparr>wallet_id = [1], network = Mainnet, vote_round_id = replicate 32 0,
     bundle_index = 0, target = TargetDelegation\<rparr>"

definition sample_generation :: ChainSubmissionGeneration where
  "sample_generation = \<lparr>generation_identity = sample_identity, generation_digest = replicate 32 7\<rparr>"

definition sample_record :: StoredChainSubmission where
  "sample_record = adopted_imported_delegation sample_generation (replicate 32 9) 5"

definition sample_db :: "unit voting_db" where
  "sample_db = \<lparr>chain_submissions =
     (case imported_row sample_codecs sample_record (replicate 32 9) of Inr row \<Rightarrow> [row] | Inl _ \<Rightarrow> []),
     domain = ()\<rparr>"

lemma sample_env_ok [simp]: "derivation_ok sample_env"
  by (auto simp: derivation_ok_def sample_env_def derived_generation_def imported_candidate_def)

lemma sample_identity_valid [simp]: "valid_identity sample_identity"
  by (simp add: sample_identity_def valid_identity_def wf_identity_def)

lemma sample_db_ok [simp]:
  "db_inv sample_env sample_db" "bundle_exclusive sample_db"
  "load_submission sample_env sample_db sample_identity = Inr (Some sample_record)"
proof -
  have codecs: "env_codecs sample_env = sample_codecs"
    by (simp add: sample_env_def)
  obtain row where row: "imported_row sample_codecs sample_record (replicate 32 9) = Inr row"
    "row_inv sample_codecs row" "row_for sample_codecs sample_identity row"
    "load_one sample_identity row = Inr sample_record"
    using row_inv_imported_row [of sample_generation "replicate 32 9" 5 sample_codecs]
    by (auto simp: sample_record_def sample_generation_def) (auto simp: sample_identity_def)
  then show "db_inv sample_env sample_db" "bundle_exclusive sample_db"
    by (simp_all add: sample_db_def db_inv_def bundle_exclusive_def codecs)
  show "load_submission sample_env sample_db sample_identity = Inr (Some sample_record)"
    using row by (simp add: sample_db_def load_submission_def has_key_def row_for_def)
qed

lemma sample_record_sel [simp]:
  "stored_state sample_record = Tracking (replicate 32 9)" "stored_identity sample_record = sample_identity"
  "stored_digest sample_record = replicate 32 7" "tracking_started_at sample_record = Some 5"
  "generation_identity sample_generation = sample_identity" "target sample_identity = TargetDelegation"
  "generation_digest sample_generation = replicate 32 7" "committed_post_reservations sample_record = 0"
  by (simp_all add: sample_record_def adopted_imported_delegation_def sample_generation_def
      sample_identity_def)

lemma sample_abs [simp]: "abs_store sample_env sample_db sample_identity = Some sample_record"
  by (simp add: abs_store_def)

section \<open>Runs of calls\<close>

text \<open>
  C8: Table invariant. Any sequence of store calls with arguments the Rust types admit, faults
  included, started on a table that satisfies the invariant keeps it: every row loads as a
  well-formed record of its own identity and satisfies the schema, transaction hashes have one
  owner, at most one submission of a bundle is unresolved, and each record only moves along the
  steps of the abstract store.
\<close>

theorem store_runs_keep_invariant:
  assumes "derivation_ok env" and "db_inv env db" and "bundle_exclusive db" and "list_all call_ok calls"
  shows "db_inv env (fold (exec_call env) calls db) \<and> bundle_exclusive (fold (exec_call env) calls db) \<and>
    (\<forall>j. valid_identity j \<longrightarrow>
       record_step\<^sup>*\<^sup>* (abs_store env db j) (abs_store env (fold (exec_call env) calls db) j))"
  using sqlite_run_inv [of env db calls] sqlite_run_steps [of env db calls] assms by blast

theorem store_runs_keep_invariant_witness:
  "bundle_exclusive (fold (exec_call sample_env)
     [CallReconcile NoFault sample_generation CandidatePending None 9,
      CallAdmit (CommitFault []) (request_vote sample_identity) True 1 9] sample_db)"
  using store_runs_keep_invariant [of sample_env sample_db
      "[CallReconcile NoFault sample_generation CandidatePending None 9,
        CallAdmit (CommitFault []) (request_vote sample_identity) True 1 9]"]
  by (simp add: request_vote_def request_identity_def)

lemma successor_trans: "successor a b \<Longrightarrow> successor b c \<Longrightarrow> successor a c"
  by (auto simp: successor_def)

lemma successor_refl: "successor r r"
  by (simp add: successor_def)

definition survives :: "StoredChainSubmission \<Rightarrow> StoredChainSubmission option \<Rightarrow> bool" where
  "survives r x \<longleftrightarrow>
     (\<exists>r'. x = Some r' \<and> successor r r' \<and> stored_durable_state r' \<noteq> DurableSubmitting \<and>
        (terminal_state (stored_state r) \<longrightarrow> stored_durable_state r' = stored_durable_state r))"

lemma survives_step:
  assumes "\<not> is_combined (target (stored_identity r))"
    and "record_step x y" and "survives r x"
  shows "survives r y"
proof -
  obtain r' where r': "x = Some r'" "successor r r'" "stored_durable_state r' \<noteq> DurableSubmitting"
    "terminal_state (stored_state r) \<longrightarrow> stored_durable_state r' = stored_durable_state r"
    using assms(3) by (auto simp: survives_def)
  have "target (stored_identity r') = target (stored_identity r)"
    using r'(2) by (simp add: successor_def)
  with assms(1,2) r' show ?thesis
    by (cases "stored_state r'")
      (auto simp: survives_def terminal_state_def durable_step_simps elim!: record_step_SomeE
        dest: successor_trans)
qed

text \<open>
  C5: Dispatch evidence survives. Once the record of a standalone submission is past its first
  reservation, no sequence of store calls deletes it, changes its identity, generation or creation
  time, lowers its reservation count, moves its tracking start, or takes it out of a terminal
  state.
\<close>

theorem dispatched_record_survives:
  assumes "derivation_ok env" and "db_inv env db" and "bundle_exclusive db" and "list_all call_ok calls"
    and "valid_identity j" and "abs_store env db j = Some r"
    and "stored_state r \<noteq> Submitting" and "\<not> is_combined (target (stored_identity r))"
  shows "\<exists>r'. abs_store env (fold (exec_call env) calls db) j = Some r' \<and>
    stored_identity r' = stored_identity r \<and> stored_digest r' = stored_digest r \<and>
    created_at r' = created_at r \<and> committed_post_reservations r \<le> committed_post_reservations r' \<and>
    (tracking_started_at r = None \<or> tracking_started_at r' = tracking_started_at r) \<and>
    stored_state r' \<noteq> Submitting \<and>
    (terminal_state (stored_state r) \<longrightarrow> stored_durable_state r' = stored_durable_state r)"
proof -
  have "survives r (abs_store env db j)"
    using assms(6,7) successor_refl by (cases "stored_state r") (auto simp: survives_def)
  then have "survives r (abs_store env (fold (exec_call env) calls db) j)"
    using sqlite_run_preserves [of "survives r" env db calls j] survives_step [OF assms(8)] assms(1-5)
    by blast
  then show ?thesis
    by (auto simp: survives_def successor_def)
qed

theorem dispatched_record_survives_witness:
  "\<exists>r'. abs_store sample_env (fold (exec_call sample_env)
     [CallRemoveFresh NoFault sample_generation 9] sample_db) sample_identity = Some r' \<and>
     stored_digest r' = replicate 32 7 \<and> tracking_started_at r' = Some 5"
  using dispatched_record_survives [of sample_env sample_db
      "[CallRemoveFresh NoFault sample_generation 9]" sample_identity sample_record]
  by auto

section \<open>Admission\<close>

lemma admit_Inr:
  "admit env fault request allowed n now db = (Inr res, db') \<Longrightarrow>
     validate_target request = Inr () \<and> admit_tx env request allowed n now db = Inr (res, db')"
  by (auto simp: admit_def transact_def Let_def result_simps
      split: sum.splits storage_fault.splits prod.splits)

lemma admit_fresh_guarded:
  assumes "admit_tx env request allowed n now db = Inr (res, db')" and "allowed"
    and "load_submission env db (request_identity request) = Inr None"
  shows "guard_predecessor env (request_identity request) db = Inr ()"
  using assms by (auto simp: admit_tx_def admit_fresh_def result_simps)

definition bundle_sibling :: "ChainSubmissionIdentity \<Rightarrow> ChainSubmissionIdentity \<Rightarrow> bool" where
  "bundle_sibling i j \<longleftrightarrow> wallet_id j = wallet_id i \<and> network j = network i \<and>
     vote_round_id j = vote_round_id i \<and> bundle_index j = bundle_index i"

lemma guard_predecessor_siblings:
  assumes inv: "db_inv env db" and guard: "guard_predecessor env i db = Inr ()"
    and j: "valid_identity j" "bundle_sibling i j" and r: "abs_store env db j = Some r"
  shows "stored_durable_state r \<in> {DurableConfirmed, DurableRejected}"
proof -
  have load: "load_submission env db j = Inr (Some r)"
    using r load_submission_total [OF inv j(1)] by (auto simp: abs_store_def)
  from loaded_row [OF inv j(1) load] obtain row where row: "row \<in> set (chain_submissions db)"
    "row_for (env_codecs env) j row" "load_one j row = Inr r" by metis
  then have "same_bundle env i row" "on_network i row"
    using j(2) by (auto simp: row_for_def bundle_sibling_def same_bundle_def on_network_def)
  then have "\<not> unresolved_row row"
    using guard row(1) by (auto simp: guard_predecessor_def list_ex_iff split: if_splits)
  then show ?thesis
    using unresolved_row_loaded [OF row(3)] by (simp add: unresolved_state_def)
qed

text \<open>
  C20: Admission. A successful admission returns no authoritative state only for an absent record
  when work is not allowed, returns an existing record unchanged, normalizes an abandoned
  reservation to recovery without any work, and hands out a fresh reservation only where no record
  existed, after storing it and only when every other submission of the bundle is confirmed or
  rejected.
\<close>

theorem admission_contract:
  assumes "derivation_ok env" and "db_inv env db" and "valid_identity (request_identity request)"
    and "now \<le> i64_max" and "n \<le> i64_max"
    and "admit env fault request allowed n now db = (Inr res, db')"
  shows "admission_spec allowed n now res (abs_store env db (request_identity request))
      (abs_store env db' (request_identity request)) \<and>
    (\<forall>d r j s. res = Ready d r True \<longrightarrow> valid_identity j \<longrightarrow> bundle_sibling (request_identity request) j \<longrightarrow>
       abs_store env db j = Some s \<longrightarrow> stored_durable_state s \<in> {DurableConfirmed, DurableRejected})"
proof -
  from admit_Inr [OF assms(6)] have tx: "validate_target request = Inr ()"
    "admit_tx env request allowed n now db = Inr (res, db')"
    by auto
  note spec = admit_tx_spec [OF assms(1-3) tx(1) assms(4,5) tx(2)]
  have "guard_predecessor env (request_identity request) db = Inr ()" if "res = Ready d r True" for d r
  proof -
    have "load_submission env db (request_identity request) = Inr None" "allowed"
      using spec that load_submission_total [OF assms(2,3)] by (auto simp: abs_store_def)
    then show ?thesis
      using admit_fresh_guarded [OF tx(2)] by simp
  qed
  with spec guard_predecessor_siblings [OF assms(2)] show ?thesis
    by blast
qed

definition sample_vote :: ChainSubmissionIdentity where
  "sample_vote = sample_identity\<lparr>target := TargetVote 1\<rparr>"

lemma sample_vote_valid [simp]: "valid_identity sample_vote" "target sample_vote = TargetVote 1"
  by (simp_all add: sample_vote_def sample_identity_def valid_identity_def wf_identity_def)

definition empty_db :: "unit voting_db" where
  "empty_db = \<lparr>chain_submissions = [], domain = ()\<rparr>"

lemma sample_admission:
  "\<exists>d r db'. admit sample_env NoFault (request_vote sample_vote) True 1 9 empty_db = (Inr (Ready d r True), db')"
proof -
  let ?g = "\<lparr>generation_identity = sample_vote, generation_digest = replicate 32 7\<rparr>"
  obtain row where row: "fresh_row sample_codecs (fresh_record ?g 1 9) = Inr row" "row_inv sample_codecs row"
    using row_inv_fresh_row [of ?g 1 9 sample_codecs] by auto
  then have "schema_ok row" by (simp add: row_inv_def)
  with row(1) show ?thesis
    by (simp add: admit_def validate_target_def request_vote_def request_identity_def transact_def
        admit_tx_def load_submission_def derive_batch_def is_batch_def admit_fresh_def
        guard_combined_fresh_def guard_combined_recovery_def guard_predecessor_def guard_superseded_def
        is_imported_delegation_def derive_def verify_batch_roster_def insert_fresh_def
        sql_insert_def empty_db_def sample_env_def derived_generation_def Let_def)
qed

theorem admission_contract_witness:
  "\<exists>r db'. admit sample_env NoFault (request_vote sample_vote) True 1 9 empty_db = (Inr r, db') \<and>
     abs_store sample_env db' sample_vote \<noteq> None"
proof -
  obtain d r db' where
    ok: "admit sample_env NoFault (request_vote sample_vote) True 1 9 empty_db = (Inr (Ready d r True), db')"
    using sample_admission by blast
  have "db_inv sample_env empty_db" by (simp add: db_inv_def empty_db_def)
  then have "abs_store sample_env db' sample_vote = Some r"
    using admission_contract [OF _ _ _ _ _ ok] by (simp add: request_vote_def request_identity_def)
  with ok show ?thesis by auto
qed

section \<open>Transitions\<close>

lemma retire_rejected:
  assumes inv: "db_inv env db" and i: "valid_identity (generation_identity g)"
    and load: "load_submission env db (generation_identity g) = Inr (Some r)"
    and gen: "ensure_generation r g = Inr ()"
    and step: "apply_submission_observation (Some (stored_state r))
      (effective_observation (generation_identity g) ob db) = Inr (Some (Rejected d))"
    and out: "stored_durable_state r \<noteq> DurableRejected" "is_combined (target (generation_identity g))"
  shows "case retire_rejected_combined_generation env db (generation_identity g) d (max now (updated_at r)) of
      Inl err \<Rightarrow> apply_observation env NoFault g ob e now db = (Inl (map_generation_error err), db)
    | Inr tables \<Rightarrow> \<exists>r' db'. apply_observation env NoFault g ob e now db = (Inr r', db') \<and>
        stored_state r' = Rejected d \<and> abs_store env db' (generation_identity g) = None \<and> domain db' = tables"
proof -
  let ?r' = "settle_after_transition (stored_durable_state r) e now (r\<lparr>stored_state := Rejected d\<rparr>)"
  have settled: "stored_diagnostic ?r' = Some d" "updated_at ?r' = max now (updated_at r)" "stored_state ?r' = Rejected d"
    by (simp_all add: settle_after_transition_def Let_def)
  have retires: "retires_combined_generation (stored_durable_state r) ?r'"
    using out loaded_wf(2) [OF inv i load] by (simp add: retires_combined_generation_def)
  have "record_step (Some r) None"
    using retired_step [OF step retires] by simp
  from keeps_delete(2) [OF inv i load this] show ?thesis
    using load gen step retires settled
    by (auto simp: apply_observation_def transact_def apply_observation_tx_def Let_def split: sum.splits)
qed

lemma DurableRejected_iff: "durable_state s = DurableRejected \<longleftrightarrow> (\<exists>d. s = Rejected d)"
  by (cases s) simp_all

text \<open>
  C30: Transitions. Applying an observation to a stored generation does what the transition
  function says, and the schema never gets in its way. A refused observation is reported with the
  stored state and changes nothing. An accepted one stores exactly the resulting state. The rejection
  of a combined generation instead retires the generation with its diagnostic and the later of the
  two times: if that succeeds the row is removed together with the retirement's changes of the
  other tables, and if it fails its error is returned and nothing changes.
\<close>

theorem observation_implements_transition:
  assumes "db_inv env db" and "valid_identity i" and "i = generation_identity g"
    and "load_submission env db i = Inr (Some r)" and "ensure_generation r g = Inr ()"
    and "valid_observation ob" and "bounded_diagnostic e" and "now \<le> i64_max"
  shows "case apply_submission_observation (Some (stored_state r)) (effective_observation i ob db) of
      Inl err \<Rightarrow> apply_observation env NoFault g ob e now db =
        (Inl (transition_failure (stored_durable_state r) (transition_error_text err)), db)
    | Inr None \<Rightarrow> apply_observation env NoFault g ob e now db =
        (Inl (transition_failure (stored_durable_state r)
           (lit ''transition unexpectedly removed durable row'')), db)
    | Inr (Some s) \<Rightarrow>
        if durable_state s = DurableRejected \<and> stored_durable_state r \<noteq> DurableRejected \<and> is_combined (target i)
        then \<exists>d. s = Rejected d \<and>
          (case retire_rejected_combined_generation env db i d (max now (updated_at r)) of
             Inl err \<Rightarrow> apply_observation env NoFault g ob e now db = (Inl (map_generation_error err), db)
           | Inr tables \<Rightarrow> \<exists>r' db'. apply_observation env NoFault g ob e now db = (Inr r', db') \<and>
               stored_state r' = s \<and> abs_store env db' i = None \<and> domain db' = tables)
        else \<exists>r' db'. apply_observation env NoFault g ob e now db = (Inr r', db') \<and>
          stored_state r' = s \<and> abs_store env db' i = Some (reload_record r') \<and> domain db' = domain db"
proof (cases "apply_submission_observation (Some (stored_state r)) (effective_observation i ob db)")
  case (Inl err)
  then show ?thesis
    using assms(3-5) by (simp add: apply_observation_def transact_def apply_observation_tx_def Let_def)
next
  case (Inr x)
  show ?thesis
  proof (cases x)
    case None
    with Inr show ?thesis
      using assms(3-5) by (simp add: apply_observation_def transact_def apply_observation_tx_def Let_def)
  next
    case (Some s)
    note step = Inr [unfolded Some]
    show ?thesis
    proof (cases "durable_state s = DurableRejected \<and> stored_durable_state r \<noteq> DurableRejected \<and>
        is_combined (target i)")
      case True
      then obtain d where d: "s = Rejected d"
        by (auto simp: DurableRejected_iff)
      show ?thesis
        using True step d retire_rejected [OF assms(1) assms(2,4,5) [unfolded assms(3)] step [unfolded assms(3) d],
            where e = e and now = now]
        unfolding assms(3) by simp
    next
      case False
      from apply_observation_accepted [OF assms(1,3,2,4-8) step False] show ?thesis
        using step False by (auto simp: abs_store_def)
    qed
  qed
qed

text \<open>A table with one fresh reservation, and an environment whose retirements are listed.\<close>

definition fresh_db :: "'d \<Rightarrow> ChainSubmissionGeneration \<Rightarrow> 'd voting_db" where
  "fresh_db tables g = \<lparr>chain_submissions =
     (case fresh_row sample_codecs (fresh_record g 1 5) of Inr row \<Rightarrow> [row] | Inl _ \<Rightarrow> []), domain = tables\<rparr>"

lemma fresh_db_ok:
  assumes "env_codecs env = sample_codecs" "valid_identity (generation_identity g)" "length (generation_digest g) = 32"
  shows "db_inv env (fresh_db tables g)"
    "load_submission env (fresh_db tables g) (generation_identity g) = Inr (Some (fresh_record g 1 5))"
    "domain (fresh_db tables g) = tables"
proof -
  obtain row where row: "fresh_row sample_codecs (fresh_record g 1 5) = Inr row" "row_inv sample_codecs row"
    "row_for sample_codecs (generation_identity g) row" "load_one (generation_identity g) row = Inr (fresh_record g 1 5)"
    using row_inv_fresh_row [OF assms(2,3), of 1 5 sample_codecs] by auto
  then show "db_inv env (fresh_db tables g)"
    by (simp add: fresh_db_def db_inv_def assms(1))
  show "load_submission env (fresh_db tables g) (generation_identity g) = Inr (Some (fresh_record g 1 5))"
    using row by (simp add: fresh_db_def load_submission_def has_key_def row_for_def)
qed (simp add: fresh_db_def)

definition combined_generation :: ChainSubmissionGeneration where
  "combined_generation = \<lparr>generation_identity = sample_identity\<lparr>target := TargetDelegateAndVoteBatch (replicate 32 3)\<rparr>,
     generation_digest = replicate 32 7\<rparr>"

definition retiring_env :: "(ChainSubmissionIdentity \<times> ChainSubmissionDiagnostic \<times> u64) list store_env" where
  "retiring_env =
     \<lparr>env_codecs = sample_codecs, sql_error_text = (\<lambda>_. []), derive_generation = (\<lambda>_ _. Inl (VotingInternal [])),
      round_exists = (\<lambda>_ _ _. True), bundle_columns = (\<lambda>_ _ _ _. None), delegate_cast_recovery = (\<lambda>_ _ _ _. False),
      apply_confirmed_generation = (\<lambda>db _ _. Inr (domain db)),
      retire_rejected_combined_generation = (\<lambda>db i d t.
        if is_combined (target i) then Inr (domain db @ [(i, d, t)])
        else Inl (VotingInternal (lit ''only a combined generation retires on rejection'')))\<rparr>"

theorem observation_implements_transition_witness:
  "\<exists>r' db'. apply_observation retiring_env NoFault combined_generation
       (TerminalRejection (from_redacted_message ChainRejected [])) None 9 (fresh_db [] combined_generation) = (Inr r', db') \<and>
     abs_store retiring_env db' (generation_identity combined_generation) = None \<and>
     domain db' = [(generation_identity combined_generation, from_redacted_message ChainRejected [], 9)]"
proof -
  let ?g = combined_generation and ?d = "from_redacted_message ChainRejected []"
  have valid: "valid_identity (generation_identity ?g)" "length (generation_digest ?g) = 32"
      "is_combined (target (generation_identity ?g))"
    by (simp_all add: combined_generation_def sample_identity_def valid_identity_def wf_identity_def)
  have codecs: "env_codecs retiring_env = sample_codecs"
    by (simp add: retiring_env_def)
  note db = fresh_db_ok [where tables = "[]", OF codecs valid(1,2)]
  have gen: "ensure_generation (fresh_record ?g 1 5) ?g = Inr ()"
    and new: "stored_state (fresh_record ?g 1 5) = Submitting" "max 9 (updated_at (fresh_record ?g 1 5)) = 9"
    by (simp_all add: ensure_generation_def fresh_record_def max_def)
  have bounded: "bounded_diagnostic (Some ?d)"
    by (simp add: bounded_diagnostic_def from_redacted_message_def bounded_redacted_text_def)
  have step: "apply_submission_observation (Some Submitting) (effective_observation (generation_identity ?g)
      (TerminalRejection ?d) (fresh_db [] ?g)) = Inr (Some (Rejected ?d))"
    by (simp add: effective_observation_def apply_Submitting)
  have retire: "retire_rejected_combined_generation retiring_env (fresh_db [] ?g) (generation_identity ?g) ?d 9 =
      Inr [(generation_identity ?g, ?d, 9)]"
    using valid(3) db(3) by (simp add: retiring_env_def)
  show ?thesis
    using observation_implements_transition [OF db(1) valid(1) refl db(2) gen, where ob = "TerminalRejection ?d" and e = None and now = 9]
      bounded valid(3) retire
    unfolding new step by (auto simp: bounded_diagnostic_def)
qed

section \<open>Retry reservations\<close>

text \<open>The diagnostics of a recovery that has no dispatch of unknown outcome to retry.\<close>

definition resolved_kinds :: "ChainSubmissionDiagnosticKind set" where
  "resolved_kinds = {AmbiguousAttemptsExhausted, ChainSubmissionDiagnosticKind.NullifierAlreadySpent,
     TrackingWindowExpired, ChainRejected, ReconciliationPending, StorageFailure}"

lemma permits_ambiguous_retry_iff:
  "permits_ambiguous_retry s \<longleftrightarrow> (\<exists>d. s = Recovering None d \<and> diagnostic_kind d \<notin> resolved_kinds)"
proof -
  have "ambiguous_kind k \<longleftrightarrow> k \<notin> resolved_kinds" for k
    by (cases k) (simp_all add: resolved_kinds_def ambiguous_kind_def)
  then show ?thesis
    by (cases s rule: permits_ambiguous_retry.cases) auto
qed

lemma reserve_ambiguous_retry_granted:
  assumes "db_inv env db" and "valid_identity (generation_identity g)"
    and "load_submission env db (generation_identity g) = Inr (Some r)"
    and "ensure_generation r g = Inr ()" and "now \<le> i64_max"
    and "permits_ambiguous_retry (stored_state r)" "committed_post_reservations r < i64_max"
  shows "\<exists>r' db'. reserve_ambiguous_retry env NoFault g now db = (Inr r', db') \<and>
    stored_state r' = stored_state r \<and>
    unat (committed_post_reservations r') = unat (committed_post_reservations r) + 1 \<and>
    abs_store env db' (generation_identity g) = Some (reload_record r')"
proof -
  let ?n = "committed_post_reservations r + 1"
  let ?r' = "r\<lparr>committed_post_reservations := ?n, updated_at := max now (updated_at r)\<rparr>"
  have next_n: "next_reservation (committed_post_reservations r) = Some ?n"
    using assms(7) by (simp add: next_reservation_Some_iff)
  obtain d where d: "stored_state r = Recovering None d"
    using assms(6) permits_ambiguous_retry_Recovering by blast
  then have "?r' = r\<lparr>committed_post_reservations := ?n, stored_state := Recovering None d,
      updated_at := max now (updated_at r)\<rparr>"
    by simp
  from reservation_persists [OF assms(1-3) d _ next_n assms(5) this] obtain db' where
    "persist_mutable env ?r' db = Inr db'" "abs_store env db' (generation_identity g) = Some (reload_record ?r')"
    by auto
  moreover have "unat ?n = unat (committed_post_reservations r) + 1"
    using assms(7) by (simp add: word_less_nat_alt unat_word_ariths)
  ultimately show ?thesis
    using assms(3,4,6) next_n by (simp add: reserve_ambiguous_retry_def transact_def Let_def)
qed

lemma reserve_ambiguous_retry_refused:
  assumes "load_submission env db (generation_identity g) = Inr (Some r)" and "ensure_generation r g = Inr ()"
    and "\<not> permits_ambiguous_retry (stored_state r) \<or> i64_max \<le> committed_post_reservations r"
  shows "\<exists>m. reserve_ambiguous_retry env NoFault g now db =
    (Inl (with_durable_state InvariantViolation (stored_durable_state r) m), db)"
proof -
  have "next_reservation (committed_post_reservations r) = None" if "i64_max \<le> committed_post_reservations r"
    using that by (cases "next_reservation (committed_post_reservations r)") (auto simp: next_reservation_Some_iff)
  moreover have "stored_durable_state r = DurableRecovering" if "permits_ambiguous_retry (stored_state r)"
    using that by (auto elim: permits_ambiguous_retry_Recovering)
  ultimately show ?thesis
    using assms by (auto simp: reserve_ambiguous_retry_def transact_def)
qed

text \<open>
  C31: Retry reservations. For a stored generation, a record in hashless recovery whose diagnostic
  is an ambiguous dispatch or an invalid protocol response gets a retry reservation as long as its
  counter is below the largest signed 64-bit value. A reservation is only ever granted in hashless
  recovery below that limit, and never after a definite rejection, an expired tracking window, an
  exhausted or reconciling attempt or a storage failure. It stores the same state with the counter
  one higher, without wrapping. Every record it must not be granted for is an invariant violation
  that names the stored state and changes nothing.
\<close>

theorem ambiguous_retry_reservation:
  assumes "db_inv env db" and "valid_identity (generation_identity g)"
    and "load_submission env db (generation_identity g) = Inr (Some r)"
    and "ensure_generation r g = Inr ()" and "now \<le> i64_max"
  shows "(\<forall>d. stored_state r = Recovering None d \<and> diagnostic_kind d \<in> {AmbiguousDispatch, InvalidProtocolResponse} \<and>
        committed_post_reservations r < i64_max \<longrightarrow>
        (\<exists>r' db'. reserve_ambiguous_retry env NoFault g now db = (Inr r', db'))) \<and>
    (\<forall>r' db'. reserve_ambiguous_retry env NoFault g now db = (Inr r', db') \<longrightarrow>
        (\<exists>d. stored_state r = Recovering None d \<and> diagnostic_kind d \<notin> resolved_kinds) \<and>
        committed_post_reservations r < i64_max \<and> stored_state r' = stored_state r \<and>
        unat (committed_post_reservations r') = unat (committed_post_reservations r) + 1 \<and>
        abs_store env db' (generation_identity g) = Some (reload_record r')) \<and>
    ((\<forall>d. stored_state r = Recovering None d \<longrightarrow>
        diagnostic_kind d \<in> resolved_kinds \<or> i64_max \<le> committed_post_reservations r) \<longrightarrow>
        (\<exists>m. reserve_ambiguous_retry env NoFault g now db =
           (Inl (with_durable_state InvariantViolation (stored_durable_state r) m), db)))"
proof (cases "permits_ambiguous_retry (stored_state r) \<and> committed_post_reservations r < i64_max")
  case True
  then obtain r' db' where "reserve_ambiguous_retry env NoFault g now db = (Inr r', db')" "stored_state r' = stored_state r"
      "unat (committed_post_reservations r') = unat (committed_post_reservations r) + 1"
      "abs_store env db' (generation_identity g) = Some (reload_record r')"
    using reserve_ambiguous_retry_granted [OF assms] by blast
  then show ?thesis
    using True by (auto simp: permits_ambiguous_retry_iff)
next
  case False
  then obtain m where "reserve_ambiguous_retry env NoFault g now db =
      (Inl (with_durable_state InvariantViolation (stored_durable_state r) m), db)"
    using reserve_ambiguous_retry_refused [OF assms(3,4)] by (auto simp: not_less)
  then show ?thesis
    using False by (auto simp: permits_ambiguous_retry_iff resolved_kinds_def)
qed

definition vote_generation :: ChainSubmissionGeneration where
  "vote_generation = \<lparr>generation_identity = sample_vote, generation_digest = replicate 32 7\<rparr>"

text \<open>A vote whose reservation was abandoned and has been normalized to recovery.\<close>

definition recovering_db :: "unit voting_db" where
  "recovering_db = exec_call sample_env (CallAdmit NoFault (request_vote sample_vote) False 1 9) (fresh_db () vote_generation)"

lemma vote_generation_ok [simp]:
  "generation_identity vote_generation = sample_vote" "length (generation_digest vote_generation) = 32"
  by (simp_all add: vote_generation_def)

lemma submitting_db_ok:
  "db_inv sample_env (fresh_db () vote_generation)"
  "load_submission sample_env (fresh_db () vote_generation) sample_vote = Inr (Some (fresh_record vote_generation 1 5))"
  using fresh_db_ok [of sample_env vote_generation "()"] by (simp_all add: sample_env_def)

lemma request_vote_simps [simp]:
  "request_identity (request_vote i) = i" "validate_target (request_vote sample_vote) = Inr ()"
  by (simp_all add: request_vote_def request_identity_def validate_target_def)

lemma recovering_db_ok:
  obtains r d where "db_inv sample_env recovering_db" "load_submission sample_env recovering_db sample_vote = Inr (Some r)"
    "ensure_generation r vote_generation = Inr ()" "stored_state r = Recovering None d"
    "diagnostic_kind d = AmbiguousDispatch" "committed_post_reservations r = 1"
proof -
  let ?r = "fresh_record vote_generation 1 5" and ?db = "fresh_db () vote_generation"
  have st: "stored_state ?r = Submitting"
    by (simp add: fresh_record_def)
  obtain r db' where normal: "normalize_abandoned sample_env ?r 9 ?db = Inr (r, db')" "keeps sample_env ?db db'"
      "stored_state r = Recovering None abandoned_diagnostic" "abs_store sample_env db' sample_vote = Some (reload_record r)"
    using normalize_abandoned_ok [OF submitting_db_ok(1) sample_vote_valid(1) submitting_db_ok(2) st, of 9] by auto
  have db: "recovering_db = db'"
    using normal(1) st
    by (simp add: recovering_db_def admit_def admit_tx_def transact_def submitting_db_ok)
  have inv: "db_inv sample_env db'"
    using normal(2) submitting_db_ok(1) by (simp add: keeps_def)
  have "stored_identity r = sample_vote" "stored_digest r = generation_digest vote_generation" "committed_post_reservations r = 1"
    using normal(1) by (auto simp: normalize_abandoned_def result_simps Let_def fresh_record_def)
  then show thesis
    using that [of "reload_record r"] inv normal(3,4) abs_store_load [OF inv sample_vote_valid(1)]
    by (auto simp: db ensure_generation_def reload_record_def reload_diagnostic_def abandoned_diagnostic_def
        from_redacted_message_def)
qed

theorem ambiguous_retry_reservation_witness:
  "\<exists>r' db'. reserve_ambiguous_retry sample_env NoFault vote_generation 9 recovering_db = (Inr r', db') \<and>
     committed_post_reservations r' = 2"
proof -
  obtain r d where r: "db_inv sample_env recovering_db" "load_submission sample_env recovering_db sample_vote = Inr (Some r)"
    "ensure_generation r vote_generation = Inr ()" "stored_state r = Recovering None d"
    "diagnostic_kind d = AmbiguousDispatch" "committed_post_reservations r = 1"
    by (rule recovering_db_ok)
  note retry = ambiguous_retry_reservation [of sample_env recovering_db vote_generation r 9, simplified, OF r(1-3)]
  obtain r' db' where ok: "reserve_ambiguous_retry sample_env NoFault vote_generation 9 recovering_db = (Inr r', db')"
    using retry r(4-6) by auto
  then have "unat (committed_post_reservations r') = 2"
    using retry r(6) by auto
  then have "committed_post_reservations r' = 2"
    using word_unat_eq_iff [of "committed_post_reservations r'" 2] by simp
  then show ?thesis
    using ok by blast
qed

section \<open>Failed admissions\<close>

lemma truthful_None: "truthful None f \<longleftrightarrow> strongest_state f = None"
  by (auto simp: truthful_def split: option.splits ChainSubmissionStateEvidence.splits)

lemma admit_Inl:
  assumes "admit env fault request allowed n now db = (Inl f, db')" "validate_target request = Inr u"
  shows "(\<exists>m. fault = BeginFault m \<and> f = storage_error env (StorageFault m)) \<or>
    (\<forall>m. fault \<noteq> BeginFault m) \<and>
    (\<exists>e. f = (if admit_normalizes env fault request db then possible_dispatch_error e else e) \<and>
       (admit_tx env request allowed n now db = Inl e \<or>
        (\<exists>m. fault = CommitFault m \<and> e = storage_error env (StorageFault m))))"
  using assms
  by (auto simp: admit_def transact_def Let_def admit_normalizes_def split: storage_fault.splits sum.splits)

lemma preserve_loaded_marks:
  "truthful None e \<Longrightarrow> strongest_state (preserve_loaded_state e (Some r)) =
     Some \<lparr>failure_state = stored_durable_state r, evidence = Durable\<rparr>"
  by (auto simp: truthful_def preserve_loaded_state_def with_durable_state_def
      split: option.splits ChainSubmissionStateEvidence.splits)

lemma preserved_marks [errs_intros]:
  "errs (truthful None) m \<Longrightarrow>
   errs (\<lambda>f. strongest_state f = Some \<lparr>failure_state = stored_durable_state r, evidence = Durable\<rparr>)
     (map_err (\<lambda>e. preserve_loaded_state e (Some r)) m)"
  by (cases m) (simp_all add: preserve_loaded_marks)

lemma admit_existing_marks:
  assumes "load_submission env db (request_identity request) = Inr (Some r)" "stored_state r \<noteq> Submitting"
  shows "errs (\<lambda>f. strongest_state f = Some \<lparr>failure_state = stored_durable_state r, evidence = Durable\<rparr>)
    (admit_tx env request allowed n now db)"
  using assms
  by (auto simp: admit_tx_def derive_batch_def admit_existing_def ensure_generation_def with_durable_state_def
      intro!: errs_intros split: option.split)

text \<open>
  C32: What a failed admission says. The failure names no state when no record is stored, or when the
  request's target is malformed or the transaction does not begin, so that no record was read. Otherwise
  an admission that fails on an abandoned reservation, whose transaction may have been sent, always
  reports the possible dispatch, also when only its commit fails. A failure on any other record names the
  state it is stored with, except for a failed commit, which may name none.
\<close>

theorem failed_admission_state:
  assumes "db_inv env db" and "valid_identity (request_identity request)"
    and "admit env fault request allowed n now db = (Inl f, db')"
  shows "case abs_store env db (request_identity request) of
      None \<Rightarrow> strongest_state f = None
    | Some r \<Rightarrow>
        if validate_target request \<noteq> Inr () \<or> (\<exists>m. fault = BeginFault m) then strongest_state f = None
        else if stored_state r = Submitting
        then strongest_state f = Some \<lparr>failure_state = DurableRecovering, evidence = KnownPossiblyDispatched\<rparr>
        else strongest_state f = Some \<lparr>failure_state = stored_durable_state r, evidence = Durable\<rparr> \<or>
          (\<exists>m. fault = CommitFault m) \<and> strongest_state f = None"
proof (cases "validate_target request")
  case (Inl e)
  then have "strongest_state f = None"
    using assms(3) validate_target_errs [of None request] by (simp add: admit_def truthful_None)
  then show ?thesis
    using Inl by (simp split: option.split)
next
  case (Inr u)
  note load = abs_store_load [OF assms(1,2)]
  have bare: "strongest_state (storage_error env x) = None" for x
    by (simp add: storage_error_def without_state_def)
  have marked: "strongest_state (possible_dispatch_error x) =
      Some \<lparr>failure_state = DurableRecovering, evidence = KnownPossiblyDispatched\<rparr>" for x
    by (simp add: possible_dispatch_error_def with_known_possible_dispatch_def)
  show ?thesis
  proof (cases "abs_store env db (request_identity request)")
    case None
    then show ?thesis
      using admit_Inl [OF assms(3) Inr] admit_tx_errs [OF load, of allowed n now] load bare
      by (auto simp: errs_def truthful_None admit_normalizes_def)
  next
    case (Some r)
    then show ?thesis
      using admit_Inl [OF assms(3) Inr] admit_existing_marks [of env db request r allowed n now] load bare marked Inr
      by (auto simp: errs_def admit_normalizes_def)
  qed
qed

text \<open>An abandoned reservation whose normalization does not commit.\<close>

theorem failed_admission_state_witness:
  "\<exists>f. admit sample_env (CommitFault []) (request_vote sample_vote) False 1 9 (fresh_db () vote_generation) =
     (Inl f, fresh_db () vote_generation) \<and>
     strongest_state f = Some \<lparr>failure_state = DurableRecovering, evidence = KnownPossiblyDispatched\<rparr>"
proof -
  let ?db = "fresh_db () vote_generation" and ?r = "fresh_record vote_generation 1 5"
  have r: "abs_store sample_env ?db sample_vote = Some ?r" "stored_state ?r = Submitting"
    by (simp_all add: abs_store_def submitting_db_ok fresh_record_def)
  obtain f where f: "admit sample_env (CommitFault []) (request_vote sample_vote) False 1 9 ?db = (Inl f, ?db)"
    by (cases "admit_tx sample_env (request_vote sample_vote) False 1 9 ?db")
      (auto simp: admit_def transact_def Let_def split: prod.splits)
  then show ?thesis
    using failed_admission_state [OF submitting_db_ok(1) _ f] r by simp
qed

end
