(* ===== verification/Coordinator_Bounds.thy ===== *)
theory Coordinator_Bounds
  imports Submission_Coordinator Store_Properties
begin

text \<open>
  What one pass of the coordinator never does: it makes at most the configured number of POSTs and
  it never panics. Both are proved by one compositional predicate that counts the POSTs of a
  program and excludes a panic.
\<close>

section \<open>Counting POSTs\<close>

definition runs :: "(coord_error + 'a \<Rightarrow> nat \<Rightarrow> bool) \<Rightarrow> ('d, 'a) coord \<Rightarrow> bool" where
  "runs Q m \<longleftrightarrow> (\<forall>w. \<exists>k.
     length (world_posts (snd (m w))) = length (world_posts w) + k \<and> Q (fst (m w)) k)"

definition no_panic :: "coord_error + 'a \<Rightarrow> bool" where
  "no_panic r \<longleftrightarrow> (\<forall>m. r \<noteq> Inl (Panicked m))"

definition quiet :: "('d, 'a) coord \<Rightarrow> bool" where
  "quiet = runs (\<lambda>r k. k = 0 \<and> no_panic r)"

definition yields :: "('a \<Rightarrow> bool) \<Rightarrow> ('d, 'a) coord \<Rightarrow> bool" where
  "yields P = runs (\<lambda>r k. k = 0 \<and> no_panic r \<and> (\<forall>x. r = Inr x \<longrightarrow> P x))"

definition within :: "nat \<Rightarrow> ('d, 'a) coord \<Rightarrow> bool" where
  "within n = runs (\<lambda>r k. k \<le> n \<and> no_panic r)"

named_theorems quiet_intros

lemma no_panic_simps [simp]:
  "no_panic (Inr x)" "no_panic (Inl e) \<longleftrightarrow> (\<forall>m. e \<noteq> Panicked m)"
  by (auto simp: no_panic_def)

lemma no_panic_map_err [simp]: "no_panic (map_err (map_failure f) r) \<longleftrightarrow> no_panic r"
proof (cases r)
  case (Inl e)
  then show ?thesis by (cases e) simp_all
qed simp

lemma no_panic_Failed [simp]: "no_panic (map_err Failed r)"
  by (cases r) simp_all

lemma runs_mono: "runs P m \<Longrightarrow> (\<And>r k. P r k \<Longrightarrow> Q r k) \<Longrightarrow> runs Q m"
  unfolding runs_def by blast

lemma runs_ret [simp]: "runs Q (ret x) \<longleftrightarrow> Q (Inr x) 0"
  by (simp add: runs_def ret_def)

lemma runs_raise [simp]: "runs Q (raise e) \<longleftrightarrow> Q (Inl e) 0"
  by (simp add: runs_def raise_def)

lemma runs_from_result [simp]: "runs Q (from_result r) \<longleftrightarrow> Q r 0"
  by (simp add: runs_def from_result_def)

lemma runs_seq:
  assumes "runs P m" and "\<And>e k. P (Inl e) k \<Longrightarrow> Q (Inl e) k"
    and "\<And>x k. P (Inr x) k \<Longrightarrow> runs (\<lambda>r j. Q r (k + j)) (f x)"
  shows "runs Q (seq m f)"
  unfolding runs_def
proof
  fix w
  obtain k where m: "length (world_posts (snd (m w))) = length (world_posts w) + k" "P (fst (m w)) k"
    using assms(1) unfolding runs_def by blast
  show "\<exists>k. length (world_posts (snd (seq m f w))) = length (world_posts w) + k \<and> Q (fst (seq m f w)) k"
  proof (cases "m w")
    case (Pair r w')
    show ?thesis
    proof (cases r)
      case (Inl e)
      with m Pair assms(2) show ?thesis by (auto simp: seq_def)
    next
      case (Inr x)
      with m(2) Pair have "runs (\<lambda>r j. Q r (k + j)) (f x)" using assms(3) by simp
      then obtain j where "length (world_posts (snd (f x w'))) = length (world_posts w') + j"
        "Q (fst (f x w')) (k + j)"
        unfolding runs_def by blast
      with m(1) Pair Inr show ?thesis
        by (intro exI [of _ "k + j"]) (simp add: seq_def)
    qed
  qed
qed

lemma runs_on_error: "runs (\<lambda>r. Q (map_err g r)) m \<Longrightarrow> runs Q (on_error g m)"
  by (simp add: runs_def on_error_def case_prod_beta)

lemma runs_attempt: "runs (\<lambda>r. Q (Inr r)) m \<Longrightarrow> runs Q (attempt m)"
  by (simp add: runs_def attempt_def case_prod_beta)

lemma runs_drop_guard: "runs Q m \<Longrightarrow> runs Q (and_drop (drop_guard env key) m)"
  by (simp add: runs_def and_drop_def drop_guard_def Let_def case_prod_beta)

section \<open>Quiet programs\<close>

lemma quiet_seq [quiet_intros]:
  assumes "quiet m" and "\<And>x. quiet (f x)"
  shows "quiet (seq m f)"
  unfolding quiet_def
  by (rule runs_seq [OF assms(1) [unfolded quiet_def]]) (use assms(2) in \<open>auto simp: quiet_def\<close>)

lemma within_seq_yields:
  assumes "yields P m" and "\<And>x. P x \<Longrightarrow> within n (f x)"
  shows "within n (seq m f)"
  unfolding within_def
  by (rule runs_seq [OF assms(1) [unfolded yields_def]]) (use assms(2) in \<open>auto simp: within_def\<close>)

lemma quiet_yields: "quiet m \<Longrightarrow> yields (\<lambda>_. True) m"
  by (simp add: quiet_def yields_def)

lemma yields_quiet: "yields P m \<Longrightarrow> quiet m"
  unfolding quiet_def yields_def by (erule runs_mono) simp

lemma within_seq_quiet: "quiet m \<Longrightarrow> (\<And>x. within n (f x)) \<Longrightarrow> within n (seq m f)"
  using within_seq_yields [OF quiet_yields] by blast

lemma within_seq_result:
  assumes "within n m" and "\<And>x. quiet (f x)"
  shows "within n (seq m f)"
  unfolding within_def
proof (rule runs_seq [OF assms(1) [unfolded within_def]])
  fix x k assume "k \<le> n \<and> no_panic (Inr x :: coord_error + 'b)"
  then show "runs (\<lambda>r j. k + j \<le> n \<and> no_panic r) (f x)"
    using assms(2) [of x] unfolding quiet_def by (auto elim!: runs_mono)
qed auto

lemma quiet_within: "quiet m \<Longrightarrow> within n m"
  unfolding quiet_def within_def by (erule runs_mono) simp

lemma within_mono: "within n m \<Longrightarrow> n \<le> k \<Longrightarrow> within k m"
  unfolding within_def by (erule runs_mono) simp

lemma quiet_ret [quiet_intros]: "quiet (ret x)"
  by (simp add: quiet_def)

lemma quiet_fail_with [quiet_intros]: "quiet (fail_with e)"
  by (simp add: quiet_def fail_with_def)

lemma quiet_result_of [quiet_intros]: "quiet (result_of r)"
  by (simp add: quiet_def result_of_def)

lemma quiet_sample [quiet_intros]: "quiet (sample f)"
  by (simp add: quiet_def runs_def sample_def)

lemma quiet_on_error [quiet_intros]: "quiet m \<Longrightarrow> quiet (on_error (map_failure g) m)"
  unfolding quiet_def by (rule runs_on_error) simp

lemma quiet_call_store [quiet_intros]: "quiet (call_store env operation)"
  by (simp add: quiet_def runs_def call_store_def Let_def split: prod.splits)

lemma yields_call_store:
  assumes "\<And>fault db res. fst (operation fault db) = Inr res \<Longrightarrow> P res"
  shows "yields P (call_store (env :: 'd coord_env) operation)"
  unfolding yields_def runs_def
proof
  fix w :: "'d world"
  let ?t = "world_tick w"
  let ?res = "operation (fault_at env ?t) (others_at env ?t (world_db w))"
  show "\<exists>k. length (world_posts (snd (call_store env operation w))) = length (world_posts w) + k \<and> k = 0 \<and>
      no_panic (fst (call_store env operation w)) \<and> (\<forall>x. fst (call_store env operation w) = Inr x \<longrightarrow> P x)"
    using assms [of "fault_at env ?t" "others_at env ?t (world_db w)"]
    by (cases ?res) (auto simp: call_store_def map_err_eq_Inr)
qed

lemma quiet_now_seconds [quiet_intros]: "quiet (now_seconds env)"
  unfolding now_seconds_def
  by (auto intro!: quiet_intros split: option.split)

lemma quiet_interruption [quiet_intros]: "quiet (interruption env op)"
  unfolding interruption_def by (rule quiet_sample)

lemma quiet_interrupted_without_state [quiet_intros]: "quiet (interrupted_without_state reason)"
  by (cases reason) (auto intro: quiet_intros)

lemma quiet_wait_backoff [quiet_intros]: "quiet (wait_backoff_or_interruption env delay)"
  unfolding wait_backoff_or_interruption_def by (rule quiet_sample)

lemma quiet_backoff:
  "i < length (retry_backoffs (co_policy env)) \<Longrightarrow> quiet (backoff env i)"
  by (simp add: backoff_def quiet_ret)

lemma quiet_register_guard [quiet_intros]: "quiet (register_guard env identity)"
  by (auto simp: quiet_def runs_def register_guard_def Let_def split: sum.splits)

lemma quiet_classify [quiet_intros]: "quiet (classify_dispatched_post env g ob)"
  unfolding classify_dispatched_post_def by (intro quiet_intros)

lemma quiet_release [quiet_intros]: "quiet (release_fresh_reservation env g)"
  unfolding release_fresh_reservation_def by (intro quiet_intros)

lemma quiet_reconcile [quiet_intros]: "quiet (reconcile_with_durable_state env g ob d s)"
  unfolding reconcile_with_durable_state_def by (intro quiet_intros)

lemma quiet_reserve_ambiguous [quiet_intros]:
  "quiet (reserve_ambiguous_retry_after_backoff env delay g r)"
  unfolding reserve_ambiguous_retry_after_backoff_def
  by (auto intro!: quiet_intros split: option.split)

lemma quiet_allowed_now [quiet_intros]: "quiet (allowed_now env op)"
  unfolding allowed_now_def by (intro quiet_intros)

lemma quiet_confirm_by_hash [quiet_intros]: "quiet (confirm_by_hash env request op d h c s)"
  unfolding confirm_by_hash_def by (intro quiet_intros)

lemma quiet_confirm_by_tree [quiet_intros]: "quiet (confirm_by_tree env request op d p ps)"
  unfolding confirm_by_tree_def by (intro quiet_intros)

lemma quiet_lookup [quiet_intros]: "quiet (lookup_or_interruption env h)"
  unfolding lookup_or_interruption_def by (intro quiet_intros)

lemma quiet_tracking_expired_at [quiet_intros]: "quiet (tracking_expired_at env r now)"
  unfolding tracking_expired_at_def by (auto intro: quiet_intros split: option.split)

lemma quiet_tracking_expired [quiet_intros]: "quiet (tracking_expired env r)"
  unfolding tracking_expired_def by (intro quiet_intros)

lemma quiet_finish_tracking [quiet_intros]: "quiet (finish_inconclusive_tracking env d r e)"
  unfolding finish_inconclusive_tracking_def Let_def
  by (auto intro!: quiet_intros)

lemma quiet_scan_tree [quiet_intros]: "quiet (scan_tree env d h op)"
  unfolding scan_tree_def
  by (auto intro!: quiet_intros split: sum.split RecoveryScanOutcome.split RecoveryScanFailure.split)

lemma quiet_end_hashless [quiet_intros]: "quiet (end_hashless env d)"
  unfolding end_hashless_def by (intro quiet_intros)

lemma quiet_settle [quiet_intros]:
  "quiet (settle_nullifier_spent_after_dispatch env request op d r recovery)"
  unfolding settle_nullifier_spent_after_dispatch_def
  by (cases "recovery = StatusOnly")
    (auto intro!: quiet_intros split: RecoveryScan.split)

section \<open>Requests fit their identities\<close>

definition request_fits :: "DerivedChainSubmission \<Rightarrow> bool" where
  "request_fits d \<longleftrightarrow>
     (case derived_request d of
        RequestVoteBatch _ \<Rightarrow>
          (\<exists>dig. target (generation_identity (derived_generation d)) = TargetVoteBatch dig)
      | RequestDelegateAndVoteBatch _ \<Rightarrow>
          batch_digest (target (generation_identity (derived_generation d))) \<noteq> None
      | _ \<Rightarrow> True)"

text \<open>The derivation of a generation gives its wire request the kind of its target.\<close>

definition derivation_fits :: "'d store_env \<Rightarrow> bool" where
  "derivation_fits env \<longleftrightarrow> (\<forall>db request d. derive_generation env db request = Inr d \<longrightarrow> request_fits d)"

lemma derive_fits: "derivation_fits env \<Longrightarrow> derive env db request = Inr d \<Longrightarrow> request_fits d"
  by (auto simp: derivation_fits_def derive_def result_simps)

lemma admit_imported_fits:
  "derivation_fits env \<Longrightarrow> admit_imported env request now db = Inr (Ready d r f, db') \<Longrightarrow> request_fits d"
  by (auto simp: admit_imported_def result_simps Let_def split: if_splits intro: derive_fits)

lemma admit_existing_fits:
  assumes "derivation_fits env" and "admit_existing env request r batch db = Inr (Ready d r' f, db')"
    and "\<And>d. batch = Some d \<Longrightarrow> request_fits d"
  shows "request_fits d"
  using assms by (auto simp: admit_existing_def result_simps split: if_splits option.splits intro: derive_fits)

lemma admit_fresh_fits:
  assumes "derivation_fits env" and "admit_fresh env request batch n now db = Inr (Ready d r f, db')"
    and "\<And>d. batch = Some d \<Longrightarrow> request_fits d"
  shows "request_fits d"
  using assms
  by (auto simp: admit_fresh_def result_simps Let_def split: if_splits option.splits
      intro: derive_fits admit_imported_fits)

lemma derive_batch_fits:
  "derivation_fits env \<Longrightarrow> derive_batch env request x db = Inr (Some d) \<Longrightarrow> request_fits d"
  by (auto dest: derive_batch_Inr intro: derive_fits)

lemma admit_fits:
  assumes "derivation_fits env" and "fst (admit env fault request allowed n now db) = Inr (Ready d r f)"
  shows "request_fits d"
proof -
  obtain db' where "admit_tx env request allowed n now db = Inr (Ready d r f, db')"
    using assms(2)
    by (auto simp: admit_def transact_def Let_def result_simps
        split: sum.splits storage_fault.splits prod.splits)
  then show ?thesis
    using assms(1)
    by (auto simp: admit_tx_def result_simps split: if_splits option.splits
        intro: admit_existing_fits admit_fresh_fits derive_batch_fits)
qed

section \<open>One pass\<close>

definition policy_ok :: "'d coord_env \<Rightarrow> bool" where
  "policy_ok env \<longleftrightarrow>
     0 < maximum_post_attempts (co_policy env) \<and>
     length (retry_backoffs (co_policy env)) + 1 = maximum_post_attempts (co_policy env) \<and>
     client_endpoints (co_client env) \<noteq> []"

lemma coordinator_policy_new_ok:
  assumes "coordinator_policy_new window attempts backoffs = Inr policy"
  shows "maximum_post_attempts policy = attempts" "retry_backoffs policy = backoffs"
    "length backoffs + 1 = attempts" "0 < attempts" "attempts \<le> 8"
  using assms
  by (auto simp: coordinator_policy_new_def MAX_POST_ATTEMPTS_PER_PASS_def Let_def split: if_splits)

lemma quiet_submit_to_endpoint:
  "request_fits d \<Longrightarrow> quiet (submit_to_endpoint env transport i d)"
  by (auto simp: submit_to_endpoint_def request_fits_def Let_def
      split: ChainSubmissionRequest.splits option.splits intro: quiet_intros)

lemma within_record_post: "within (Suc 0) (record_post env g i outcome)"
  by (simp add: within_def runs_def record_post_def)

lemma within_race_post:
  assumes "policy_ok env" and "request_fits d"
  shows "within (Suc 0) (race_post env d r)"
proof -
  have post: "within (Suc 0) (seq (record_post env g i outcome) (\<lambda>x. ret (Inr x)))" for g i outcome
    by (rule within_seq_result [OF within_record_post quiet_ret])
  show ?thesis
    unfolding race_post_def Let_def using assms
    by (auto simp: policy_ok_def split: post_race.split
        intro!: within_seq_quiet [OF quiet_sample] within_seq_quiet [OF quiet_submit_to_endpoint]
          quiet_within [OF quiet_ret] post)
qed

lemma within_and_drop: "within n m \<Longrightarrow> within n (and_drop (drop_guard env key) m)"
  unfolding within_def by (rule runs_drop_guard)

text \<open>Programs that continue only with values of some kind.\<close>

named_theorems yields_intros

lemma yields_ret [yields_intros]: "P x \<Longrightarrow> yields P (ret x)"
  by (simp add: yields_def)

lemma yields_fail_with [yields_intros]: "yields P (fail_with e)"
  by (simp add: yields_def fail_with_def)

lemma yields_seq [yields_intros]:
  assumes "quiet m" and "\<And>x. yields P (f x)"
  shows "yields P (seq m f)"
  unfolding yields_def
  by (rule runs_seq [OF assms(1) [unfolded quiet_def]]) (use assms(2) in \<open>auto simp: yields_def\<close>)

definition ensures :: "nat \<Rightarrow> ('a \<Rightarrow> bool) \<Rightarrow> ('d, 'a) coord \<Rightarrow> bool" where
  "ensures n P = runs (\<lambda>r k. k \<le> n \<and> no_panic r \<and> (\<forall>x. r = Inr x \<longrightarrow> P x))"

lemma ensures_seq:
  assumes "within n m" and "\<And>x. yields P (f x)"
  shows "ensures n P (seq m f)"
  unfolding ensures_def
proof (rule runs_seq [OF assms(1) [unfolded within_def]])
  fix x k assume "k \<le> n \<and> no_panic (Inr x :: coord_error + 'b)"
  then show "runs (\<lambda>r j. k + j \<le> n \<and> no_panic r \<and> (\<forall>x. r = Inr x \<longrightarrow> P x)) (f x)"
    using assms(2) [of x] unfolding yields_def by (auto elim!: runs_mono)
qed auto

lemma within_seq_ensures:
  assumes "ensures n P m" and "\<And>x. P x \<Longrightarrow> within k (f x)"
  shows "within (n + k) (seq m f)"
  unfolding within_def
proof (rule runs_seq [OF assms(1) [unfolded ensures_def]], goal_cases)
  case (2 x j)
  then show ?case
    using assms(2) [of x] unfolding within_def by (auto elim!: runs_mono)
qed auto

lemma ensures_and_drop: "ensures n P m \<Longrightarrow> ensures n P (and_drop (drop_guard env key) m)"
  unfolding ensures_def by (rule runs_drop_guard)

lemma recovery_retry_post_ensures:
  assumes "policy_ok env" and "request_fits d"
  shows "ensures (Suc 0) (\<lambda>x. \<forall>y. x = Inr y \<longrightarrow> used + 1 \<noteq> maximum_post_attempts (co_policy env))
    (recovery_retry_post env request op d r recovery used)"
  unfolding recovery_retry_post_def Let_def
  by (rule ensures_seq [OF within_race_post [OF assms]])
    (auto intro!: yields_intros quiet_intros split: sum.split PostAttemptOutcome.split)

lemma within_submit_recovery_retry:
  assumes ok: "policy_ok env" "request_fits d" and used: "used < maximum_post_attempts (co_policy env)"
    and resume: "\<And>r. used + 1 < maximum_post_attempts (co_policy env) \<Longrightarrow> within n (resume d r)"
  shows "within (Suc n) (submit_recovery_retry env resume request op d r recovery used)"
proof -
  have go_on: "within n (seq (backoff env used) (\<lambda>delay.
      seq (reserve_ambiguous_retry_after_backoff env delay (derived_generation d) x) (\<lambda>reservation.
        case reservation of Inl r \<Rightarrow> result_of r | Inr r \<Rightarrow> resume d r)))"
    if "used + 1 \<noteq> maximum_post_attempts (co_policy env)" for x
  proof -
    have "used < length (retry_backoffs (co_policy env))" "used + 1 < maximum_post_attempts (co_policy env)"
      using that used ok(1) by (auto simp: policy_ok_def)
    then show ?thesis
      by (auto intro!: within_seq_quiet [OF quiet_backoff] within_seq_quiet [OF quiet_reserve_ambiguous]
          quiet_within [OF quiet_result_of] resume split: sum.split)
  qed
  have "within (Suc 0 + n) (seq (and_drop (drop_guard env key)
      (recovery_retry_post env request op d r recovery used)) (\<lambda>posted.
      case posted of Inl res \<Rightarrow> ret res | Inr ambiguous \<Rightarrow>
        seq (interruption env op) (\<lambda>interrupted.
        if interrupted \<noteq> None then result_of ambiguous
        else seq (backoff env used) (\<lambda>delay.
          seq (reserve_ambiguous_retry_after_backoff env delay (derived_generation d) ambiguous)
            (\<lambda>reservation. case reservation of Inl r \<Rightarrow> result_of r | Inr r \<Rightarrow> resume d r)))))" for key
    by (rule within_seq_ensures [OF ensures_and_drop [OF recovery_retry_post_ensures [OF ok]]])
      (auto intro!: quiet_within [OF quiet_ret] within_seq_quiet [OF quiet_interruption]
        quiet_within [OF quiet_result_of] go_on split: sum.split)
  then show ?thesis
    unfolding submit_recovery_retry_def
    by (auto intro!: within_seq_quiet [OF quiet_interruption] quiet_within [OF quiet_result_of]
        within_seq_quiet [OF quiet_on_error [OF quiet_register_guard]])
qed

text \<open>The POSTs a recovery may still make: none once the budget is used up.\<close>

definition recovery_budget :: "'d coord_env \<Rightarrow> nat \<Rightarrow> nat \<Rightarrow> nat" where
  "recovery_budget env used n = (if used < maximum_post_attempts (co_policy env) then Suc n else 0)"

lemma within_recover_if_enabled:
  assumes ok: "policy_ok env" "request_fits d"
    and resume: "\<And>r. used + 1 < maximum_post_attempts (co_policy env) \<Longrightarrow> within n (resume d r)"
  shows "within (recovery_budget env used n) (recover_if_enabled env resume request op d r recovery used)"
proof -
  have retry: "within (recovery_budget env used n) (submit_recovery_retry env resume request op d r recovery used)"
    if "used < maximum_post_attempts (co_policy env)" for r
    using within_submit_recovery_retry [where resume = resume, OF ok that resume] that by (simp add: recovery_budget_def)
  have wait: "quiet (wait_before_retry env used)" if "used < maximum_post_attempts (co_policy env)"
    using that ok(1) by (auto simp: wait_before_retry_def policy_ok_def intro!: quiet_intros quiet_backoff)
  show ?thesis
    unfolding recover_if_enabled_def
    by (auto intro!: within_seq_quiet [OF quiet_interruption] quiet_within [OF quiet_result_of]
        within_seq_quiet [OF quiet_scan_tree] quiet_within [OF quiet_confirm_by_tree]
        within_seq_quiet [OF wait] within_seq_quiet [OF quiet_on_error [OF quiet_now_seconds]]
        within_seq_quiet [OF quiet_on_error [OF quiet_call_store]] retry
        split: SubmissionRecordState.split RecoveryScan.split)
qed

lemma within_reconcile_existing:
  assumes ok: "policy_ok env" "request_fits d"
    and resume: "\<And>r. used + 1 < maximum_post_attempts (co_policy env) \<Longrightarrow> within n (resume d r)"
  shows "within (recovery_budget env used n) (reconcile_existing env resume request op d r recovery used)"
proof -
  note recover = within_recover_if_enabled [where resume = resume, OF ok resume]
  show ?thesis
    unfolding reconcile_existing_def reconcile_tracking_def reconcile_candidate_def Let_def
    by (auto intro!: within_seq_quiet [OF quiet_interruption] quiet_within [OF quiet_result_of]
        within_seq_quiet [OF quiet_lookup] within_seq_quiet [OF quiet_finish_tracking] recover
        within_seq_quiet [OF quiet_tracking_expired] within_seq_quiet [OF quiet_reconcile]
        quiet_within [OF quiet_fail_with] quiet_within [OF quiet_confirm_by_hash]
        split: SubmissionRecordState.split option.split LookupProgress.split
          TransactionStatusObservation.split)
qed

text \<open>Programs that return from the pass or go on, with at most k POSTs before they go on.\<close>

definition continues_with :: "nat \<Rightarrow> ('b + 'a \<Rightarrow> bool) \<Rightarrow> nat \<Rightarrow> ('d, 'b + 'a) coord \<Rightarrow> bool" where
  "continues_with n P k =
     runs (\<lambda>res j. j \<le> n \<and> no_panic res \<and> (\<forall>x. res = Inr x \<longrightarrow> P x \<and> (isl x \<or> j \<le> k)))"

lemma continues_with_yields: "yields P m \<Longrightarrow> continues_with n P k m"
  unfolding yields_def continues_with_def by (erule runs_mono) auto

lemma continues_with_finish:
  assumes "within n m" and "\<And>res. P (Inl res)"
  shows "continues_with n P k (seq m (\<lambda>res. ret (Inl res)))"
  unfolding continues_with_def
  by (rule runs_seq [OF assms(1) [unfolded within_def]]) (use assms(2) in auto)

lemma continues_with_seq_quiet:
  assumes "quiet m" and "\<And>x. continues_with n P k (f x)"
  shows "continues_with n P k (seq m f)"
  unfolding continues_with_def
  by (rule runs_seq [OF assms(1) [unfolded quiet_def]]) (use assms(2) in \<open>auto simp: continues_with_def\<close>)

lemma handle_post_outcome_continues:
  assumes ok: "policy_ok env" "request_fits d"
    and resume: "\<And>r. i + 2 < maximum_post_attempts (co_policy env) \<Longrightarrow> within n (resume d r)"
  shows "continues_with (recovery_budget env (i + 1) n) (\<lambda>_. True) 0
    (handle_post_outcome env resume request op recovery i d r seen outcome)"
proof -
  have reconcile: "within (recovery_budget env (i + 1) n)
      (reconcile_existing env resume request op d r recovery (i + 1))" for r
    by (rule within_reconcile_existing [OF ok]) (simp add: resume)
  show ?thesis
  proof (cases outcome)
    case (PostAccepted h)
    show ?thesis
      unfolding handle_post_outcome_def Let_def PostAccepted PostAttemptOutcome.case
      by (rule continues_with_seq_quiet [OF quiet_classify])
        (simp add: continues_with_finish [OF reconcile, simplified] continues_with_yields yields_ret)
  qed (auto simp: handle_post_outcome_def Let_def intro!: continues_with_yields yields_intros quiet_intros)
qed

definition next_attempt_ok ::
  "'d coord_env \<Rightarrow> nat \<Rightarrow> ChainSubmissionResult + DerivedChainSubmission \<times> StoredChainSubmission \<times> bool \<Rightarrow> bool" where
  "next_attempt_ok env i flow \<longleftrightarrow>
     (case flow of Inl _ \<Rightarrow> True
      | Inr (d, r, seen) \<Rightarrow> request_fits d \<and> i + 1 \<noteq> maximum_post_attempts (co_policy env))"

lemma next_attempt_ok_Inl [simp]: "next_attempt_ok env i (Inl res)"
  by (simp add: next_attempt_ok_def)

definition admission_fits :: "StoreAdmission \<Rightarrow> bool" where
  "admission_fits x \<longleftrightarrow> (case x of Ready d _ _ \<Rightarrow> request_fits d | _ \<Rightarrow> True)"

lemma yields_admit:
  assumes "derivation_fits (co_store env)"
  shows "yields admission_fits (call_store env (\<lambda>fault. admit (co_store env) fault request allowed n now))"
  by (rule yields_call_store)
    (use admit_fits [OF assms] in \<open>auto simp: admission_fits_def split: StoreAdmission.split\<close>)

lemma yields_seq_yields:
  assumes "yields Q m" and "\<And>x. Q x \<Longrightarrow> yields P (f x)"
  shows "yields P (seq m f)"
  unfolding yields_def
  by (rule runs_seq [OF assms(1) [unfolded yields_def]]) (use assms(2) in \<open>auto simp: yields_def\<close>)

lemma reserve_next_attempt_yields:
  assumes ok: "policy_ok env" and fits: "derivation_fits (co_store env)" "request_fits d"
    and i: "i < maximum_post_attempts (co_policy env)"
  shows "yields (next_attempt_ok env i) (reserve_next_attempt env request i d r seen)"
proof (cases "i + 1 = maximum_post_attempts (co_policy env)")
  case True
  then show ?thesis
    by (auto simp: reserve_next_attempt_def intro!: yields_intros quiet_intros)
next
  case False
  then have backoff: "quiet (backoff env i)"
    using ok i by (intro quiet_backoff) (auto simp: policy_ok_def)
  show ?thesis
    unfolding reserve_next_attempt_def Let_def using False fits(2)
    by (auto intro!: yields_ret yields_fail_with yields_seq_yields [OF yields_admit [OF fits(1)]]
        yields_seq [OF backoff]
        yields_seq [OF quiet_reserve_ambiguous] yields_seq [OF quiet_wait_backoff]
        yields_seq [OF quiet_now_seconds] yields_seq [OF quiet_result_of]
        yields_seq [OF quiet_interrupted_without_state]
        simp: next_attempt_ok_def admission_fits_def
        split: sum.split option.split StoreAdmission.split)
qed

lemma continues_with_after:
  assumes "within j m" and "\<And>x. continues_with n P k (f x)"
  shows "continues_with (j + n) P (j + k) (seq m f)"
  unfolding continues_with_def
proof (rule runs_seq [OF assms(1) [unfolded within_def]], goal_cases)
  case (2 x l)
  then show ?case
    using assms(2) [of x] unfolding continues_with_def by (auto elim!: runs_mono)
qed auto

lemma continues_with_then:
  assumes "continues_with n (\<lambda>_. True) 0 m" and "\<And>x. yields P (f x)" and "\<And>res. P (Inl res)"
  shows "continues_with n P 0 (seq m (\<lambda>flow. case flow of Inl res \<Rightarrow> ret (Inl res) | Inr x \<Rightarrow> f x))"
  unfolding continues_with_def
proof (rule runs_seq [OF assms(1) [unfolded continues_with_def]], goal_cases)
  case (2 flow l)
  then show ?case
    using runs_mono [OF assms(2) [unfolded yields_def]] assms(3) by (cases flow) auto
qed auto

lemma yields_raise: "no_panic (Inl e :: coord_error + unit) \<Longrightarrow> yields P (raise e)"
  by (simp add: yields_def)

lemma continues_with_seq_yields:
  assumes "yields Q m" and "\<And>x. Q x \<Longrightarrow> continues_with n P k (f x)"
  shows "continues_with n P k (seq m f)"
  unfolding continues_with_def
  by (rule runs_seq [OF assms(1) [unfolded yields_def]])
    (use assms(2) in \<open>auto simp: continues_with_def\<close>)

lemma continues_with_and_drop:
  "continues_with n P k m \<Longrightarrow> continues_with n P k (and_drop (drop_guard env key) m)"
  unfolding continues_with_def by (rule runs_drop_guard)

lemma yields_attempt_register:
  "yields (\<lambda>r. no_panic r) (attempt (register_guard env identity))"
  unfolding yields_def
  by (rule runs_attempt) (use quiet_register_guard in \<open>auto simp: quiet_def elim: runs_mono\<close>)

lemma attempt_once_continues:
  assumes ok: "policy_ok env" and fits: "derivation_fits (co_store env)" "request_fits d"
    and i: "i < maximum_post_attempts (co_policy env)"
    and resume: "\<And>r. i + 2 < maximum_post_attempts (co_policy env) \<Longrightarrow> within n (resume d r)"
  shows "continues_with (Suc (recovery_budget env (i + 1) n)) (next_attempt_ok env i) (Suc 0)
    (attempt_once env resume request op recovery i d r seen)"
proof -
  let ?b = "recovery_budget env (i + 1) n"
  define give_up where "give_up reason = (if seen then seq (result_of r) (\<lambda>res. ret (Inl res))
      else seq (release_fresh_reservation env (derived_generation d))
        (\<lambda>_. seq (interrupted_without_state reason) (\<lambda>res. ret (Inl res)))
      :: ('a, ChainSubmissionResult + DerivedChainSubmission \<times> StoredChainSubmission \<times> bool) coord)" for reason
  have give_up: "continues_with k (next_attempt_ok env i) j (give_up reason)" for k j reason
    unfolding give_up_def by (auto intro!: continues_with_yields yields_intros quiet_intros)
  have handled: "continues_with ?b (next_attempt_ok env i) 0
      (seq (handle_post_outcome env resume request op recovery i d r seen outcome) (\<lambda>flow.
         case flow of Inl res \<Rightarrow> ret (Inl res)
         | Inr (r, seen) \<Rightarrow> reserve_next_attempt env request i d r seen))" for outcome
    by (rule continues_with_then [OF handle_post_outcome_continues [where resume = resume, OF ok fits(2) resume]])
      (use reserve_next_attempt_yields [OF ok fits i] in auto)
  have "continues_with (Suc 0 + ?b) (next_attempt_ok env i) (Suc 0 + 0) (seq (race_post env d r) (\<lambda>progress.
      case progress of
        Inl reason \<Rightarrow> give_up reason
      | Inr outcome \<Rightarrow>
          seq (handle_post_outcome env resume request op recovery i d r seen outcome) (\<lambda>flow.
          case flow of Inl res \<Rightarrow> ret (Inl res)
          | Inr (r, seen) \<Rightarrow> reserve_next_attempt env request i d r seen)))"
  proof (rule continues_with_after [OF within_race_post [OF ok fits(2)]])
    fix progress
    show "continues_with ?b (next_attempt_ok env i) 0 (case progress of
        Inl reason \<Rightarrow> give_up reason
      | Inr outcome \<Rightarrow>
          seq (handle_post_outcome env resume request op recovery i d r seen outcome) (\<lambda>flow.
          case flow of Inl res \<Rightarrow> ret (Inl res)
          | Inr (r, seen) \<Rightarrow> reserve_next_attempt env request i d r seen))"
      by (cases progress) (simp_all only: sum.case give_up handled)
  qed
  note posted = continues_with_and_drop [OF this]
  have failed: "continues_with (Suc ?b) (next_attempt_ok env i) (Suc 0)
      (if seen then raise e else seq (release_fresh_reservation env (derived_generation d)) (\<lambda>_. raise e))"
    if "no_panic (Inl e :: coord_error + SubmissionOperationKey)" for e
    using that by (auto intro!: continues_with_yields yields_raise yields_seq [OF quiet_release])
  have guarded: "continues_with (Suc ?b) (next_attempt_ok env i) (Suc 0) (case guard of
        Inl e \<Rightarrow> if seen then raise e
          else seq (release_fresh_reservation env (derived_generation d)) (\<lambda>_. raise e)
      | Inr key \<Rightarrow> and_drop (drop_guard env key) (seq (race_post env d r) (\<lambda>progress.
          case progress of
            Inl reason \<Rightarrow> give_up reason
          | Inr outcome \<Rightarrow>
              seq (handle_post_outcome env resume request op recovery i d r seen outcome) (\<lambda>flow.
              case flow of Inl res \<Rightarrow> ret (Inl res)
              | Inr (r, seen) \<Rightarrow> reserve_next_attempt env request i d r seen))))"
    if "no_panic guard" for guard :: "coord_error + SubmissionOperationKey"
    using that failed posted by (cases guard) simp_all
  show ?thesis
    unfolding attempt_once_def Let_def give_up_def [symmetric]
  proof (rule continues_with_seq_quiet [OF quiet_interruption], goal_cases)
    case (1 interrupted)
    show ?case
    proof (cases interrupted)
      case None
      show ?thesis
        unfolding None option.case
        by (rule continues_with_seq_yields [OF yields_attempt_register]) (rule guarded)
    next
      case (Some reason)
      show ?thesis
        unfolding Some option.case by (rule give_up)
    qed
  qed
qed

lemma within_attempt_loop:
  assumes ok: "policy_ok env" and fits: "derivation_fits (co_store env)"
  shows "0 < n \<Longrightarrow> n \<le> maximum_post_attempts (co_policy env) \<Longrightarrow> request_fits d \<Longrightarrow>
    within n (attempt_loop env request op recovery n d r seen)"
proof (induction n arbitrary: d r seen rule: less_induct)
  case (less n)
  then obtain m where n: "n = Suc m"
    by (cases n) auto
  let ?max = "maximum_post_attempts (co_policy env)"
  let ?i = "?max - Suc m"
  let ?resume = "\<lambda>d r. attempt_loop env request op recovery (m - 1) d r (is_retryable_dispatch_ambiguity r)"
  have i: "?i < ?max"
    using less.prems(2) n by simp
  have resume: "within (m - 1) (?resume d r)" if "?i + 2 < ?max" for r
    using that less.prems n by (intro less.IH) auto
  have budget: "recovery_budget env (?i + 1) (m - 1) = m"
    using less.prems(2) n by (auto simp: recovery_budget_def)
  note once = attempt_once_continues [where resume = ?resume, OF ok fits less.prems(3) i resume,
      unfolded budget]
  show ?case
    unfolding n attempt_loop.simps within_def
  proof (rule runs_seq [OF once [unfolded continues_with_def]], goal_cases)
    case (3 flow k)
    consider (Inl) res where "flow = Inl res" | (Inr) x where "flow = Inr x"
      by (cases flow) auto
    then show ?case
    proof cases
      case Inl
      with 3 show ?thesis by simp
    next
      case Inr
      obtain d' r' s' where x: "x = (d', r', s')"
        by (cases x)
      have "k \<le> 1" "request_fits d'" "0 < m"
        using 3 Inr x less.prems(2) n by (auto simp: next_attempt_ok_def)
      then have "within m (attempt_loop env request op recovery m d' r' s')"
        using less.prems(2) n by (intro less.IH) auto
      with \<open>k \<le> 1\<close> show ?thesis
        unfolding Inr x within_def by (auto elim!: runs_mono)
    qed
  qed auto
qed

lemma quiet_lease: "quiet (from_result (map_err Failed lease))"
  by (simp add: quiet_def)

lemma within_advance_in_epoch:
  assumes ok: "policy_ok env" and fits: "derivation_fits (co_store env)"
  shows "within (maximum_post_attempts (co_policy env)) (advance_in_epoch env request recovery epoch)"
proof -
  let ?max = "maximum_post_attempts (co_policy env)"
  let ?submit = "\<lambda>op mode i. submit_reserved_attempts env request op mode i"
  have fresh: "within ?max (?submit op mode 0 d r)" if "request_fits d" for op mode d r
    using that ok within_attempt_loop [OF ok fits, of ?max d]
    by (simp add: submit_reserved_attempts_def policy_ok_def)
  have resume: "within (?max - 1) (?submit op mode 1 d r)" if "request_fits d" "0 + 1 < ?max" for op mode d r
    using that within_attempt_loop [OF ok fits, of "?max - 1" d]
    by (simp add: submit_reserved_attempts_def)
  have "recovery_budget env 0 (?max - 1) = ?max"
    using ok by (simp add: recovery_budget_def policy_ok_def)
  then have existing: "within ?max (reconcile_existing env (?submit op mode (Suc 0)) request op d r mode 0)"
    if "request_fits d" for op mode d r
    using within_reconcile_existing [OF ok that, of 0 "?max - 1" "?submit op mode 1", OF resume [OF that]] by simp
  show ?thesis
    unfolding advance_in_epoch_def Let_def
    by (auto intro!: within_seq_quiet [OF quiet_sample] within_seq_quiet [OF quiet_lease]
        within_seq_quiet [OF quiet_interruption] within_seq_quiet [OF quiet_now_seconds]
        within_seq_yields [OF yields_admit [OF fits]] quiet_within [OF quiet_ret]
        quiet_within [OF quiet_fail_with] quiet_within [OF quiet_result_of]
        within_seq_quiet [OF quiet_on_error [OF quiet_now_seconds]]
        within_seq_quiet [OF quiet_on_error [OF quiet_call_store]]
        within_seq_quiet [OF quiet_ret] within_seq_quiet [OF quiet_seq [OF quiet_interruption quiet_ret]]
        fresh existing
        simp: admission_fits_def split: StoreAdmission.split option.split Interruption.split)
qed

lemma constructed_policy_ok:
  assumes "coordinator_policy_new window attempts backoffs = Inr (co_policy env)"
    and "client_with_timing api net endpoints timing = Inr (co_client env)"
  shows "policy_ok env"
  using coordinator_policy_new_ok [OF assms(1)] client_with_timing_length [OF assms(2)]
  by (auto simp: policy_ok_def)

text \<open>
  C11: Bounded dispatch. A pass of a coordinator whose policy and client come from their validating
  constructors makes at most the configured number of POSTs, which is at most eight, whatever the
  transport, the clock, the storage, the host and other passes do.
\<close>

theorem advance_posts_bounded:
  assumes "coordinator_policy_new window attempts backoffs = Inr (co_policy env)"
    and "client_with_timing api net endpoints timing = Inr (co_client env)"
    and "derivation_fits (co_store env)"
  shows "length (world_posts (snd (advance_in_epoch env request recovery epoch w))) \<le>
      length (world_posts w) + attempts \<and> attempts \<le> 8"
proof -
  from within_advance_in_epoch [OF constructed_policy_ok [OF assms(1,2)] assms(3)] obtain k where
    "length (world_posts (snd (advance_in_epoch env request recovery epoch w))) = length (world_posts w) + k"
    "k \<le> maximum_post_attempts (co_policy env)"
    unfolding within_def runs_def by blast
  then show ?thesis
    using coordinator_policy_new_ok [OF assms(1)] by simp
qed

definition sample_wire :: VoteCommitmentWire where
  "sample_wire = \<lparr>wire_van_nullifier = replicate 32 0, wire_vote_authority_note_new = [],
     wire_vote_commitment = [], wire_proposal_id = 1, wire_vote_proof = [], wire_vote_round_id = [],
     wire_anchor_height = 0, wire_r_vpk = [], wire_vote_auth_sig = []\<rparr>"

definition sample_coord_store :: "unit store_env" where
  "sample_coord_store = sample_env\<lparr>derive_generation := (\<lambda>db request. Inr
     \<lparr>derived_bound =
        \<lparr>bound_generation =
           \<lparr>generation_identity = derivation_identity request, generation_digest = replicate 32 7\<rparr>,
         bound_expected_layout = LayoutVote (replicate 32 1) (replicate 32 2),
         bound_ordered_proposal_ids = [1]\<rparr>,
      derived_request = RequestVote sample_wire\<rparr>)\<rparr>"

text \<open>A host that never interrupts, a chain that accepts every POST and never finds a transaction.\<close>

definition sample_coord :: "unit coord_env" where
  "sample_coord =
     \<lparr>co_store = sample_coord_store, co_json = sample_json,
      co_client = \<lparr>client_endpoints = [lit ''a''], client_timing = default_timing\<rparr>,
      co_policy = \<lparr>tracking_window_seconds = 60, maximum_post_attempts = 2, retry_backoffs = [seconds 1]\<rparr>,
      cancelled_at = (\<lambda>_. False), host_epoch_at = (\<lambda>_. 0), clock_at = (\<lambda>_. Some 9),
      fault_at = (\<lambda>_. NoFault), others_at = (\<lambda>_ db. db), registry_at = (\<lambda>_ r. r),
      lease_at = (\<lambda>_. Inr ()), post_race_at = (\<lambda>_. PostCompleted (\<lambda>_ _. Delivered (Inr sample_answer))),
      lookup_race_at = (\<lambda>_. None), backoff_race_at = (\<lambda>_ _. None), scan_env_at = (\<lambda>_. sample_scan)\<rparr>"

definition sample_world :: "unit world" where
  "sample_world = \<lparr>world_db = empty_db,
     world_registry = \<lparr>counts = Mapping.empty, in_flight_poisoned = False\<rparr>, world_tick = 0, world_posts = []\<rparr>"

lemma sample_coord_constructed:
  "coordinator_policy_new (seconds 60) 2 [seconds 1] = Inr (co_policy sample_coord)"
  "client_with_timing sample_url_api Mainnet [lit ''a''] default_timing = Inr (co_client sample_coord)"
  "derivation_fits (co_store sample_coord)"
proof -
  show "coordinator_policy_new (seconds 60) 2 [seconds 1] = Inr (co_policy sample_coord)"
    by (simp add: coordinator_policy_new_def sample_coord_def seconds_def MAX_POST_ATTEMPTS_PER_PASS_def
        MAX_RETRY_BACKOFF_def)
  have "canonicalize_chain_base_url sample_url_api (lit ''a'') Mainnet = Inr (lit ''a'')"
    by (auto simp: canonicalize_chain_base_url_def sample_url_api_def lit_def trim_def
        is_whitespace_def trim_end_slashes_def)
  then show "client_with_timing sample_url_api Mainnet [lit ''a''] default_timing = Inr (co_client sample_coord)"
    by (simp add: client_with_timing_def sample_coord_def default_timing_def timing_new_def
        MAX_CHAIN_ENDPOINTS_def MIN_CHAIN_POST_TIMEOUT_def MAX_CHAIN_REQUEST_TIMEOUT_def seconds_def)
  show "derivation_fits (co_store sample_coord)"
    by (simp add: derivation_fits_def sample_coord_def sample_coord_store_def request_fits_def)
qed

theorem advance_posts_bounded_witness:
  "length (world_posts (snd (advance_in_epoch sample_coord (request_vote sample_vote) StatusOnly 0 sample_world))) \<le> 2"
  using advance_posts_bounded [OF sample_coord_constructed, of "request_vote sample_vote" StatusOnly 0 sample_world]
  by (simp add: sample_world_def)

text \<open>
  C37: No panic. Under the same conditions a pass never panics: neither the backoff table nor the
  endpoint list is indexed out of range, no batch is posted under an identity without a digest, and
  the end of the attempt loop is not reached.
\<close>

theorem advance_never_panics:
  assumes "coordinator_policy_new window attempts backoffs = Inr (co_policy env)"
    and "client_with_timing api net endpoints timing = Inr (co_client env)"
    and "derivation_fits (co_store env)"
  shows "fst (advance_in_epoch env request recovery epoch w) \<noteq> Inl (Panicked message)"
proof -
  from within_advance_in_epoch [OF constructed_policy_ok [OF assms(1,2)] assms(3)] show ?thesis
    unfolding within_def runs_def no_panic_def by blast
qed

theorem advance_never_panics_witness:
  "fst (advance_in_epoch sample_coord (request_vote sample_vote) ExactTree 0 sample_world) \<noteq>
     Inl (Panicked ''index out of bounds'')"
  by (rule advance_never_panics [OF sample_coord_constructed])

end
