(* ===== verification/Coordinator_Steps.thy ===== *)
theory Coordinator_Steps
  imports Coordinator_Bounds Store_Outcomes
begin

text \<open>
  The proof rules for the coordinator: what a pass knows of the world at each of its points, and a
  weakest-precondition rule for each call it makes. A pass either holds the record of its
  submission, as the last store call left it, or has none and has dispatched nothing.
\<close>

section \<open>Evidence from the network\<close>

fun outcome_ok :: "PostAttemptOutcome \<Rightarrow> bool" where
  "outcome_ok (PostAccepted h) \<longleftrightarrow> length h = 32"
| "outcome_ok (PostPossiblyDispatched d) \<longleftrightarrow> bounded_diagnostic (Some d)"
| "outcome_ok (PostRejected code kind d c) \<longleftrightarrow> bounded_diagnostic (Some d)"
| "outcome_ok (PostLocalFailure d) \<longleftrightarrow> bounded_diagnostic (Some d)"
| "outcome_ok (PostDefinitelyUnsent e) \<longleftrightarrow> True"

lemma bounded_invalid_protocol [simp]: "bounded_diagnostic (Some (invalid_protocol m))"
  by (simp add: invalid_protocol_def)

lemma normalize_candidate_hash_length: "normalize_candidate_hash codecs v = Some h \<Longrightarrow> length h = 32"
  by (auto simp: normalize_candidate_hash_def candidate_from_str_Inr split: if_splits sum.splits)

lemma classify_result_ok: "outcome_ok (classify_result codecs status parsed)"
  by (auto simp: classify_result_def Let_def normalize_candidate_hash_length
      split: option.splits Option.bind_split dest!: normalize_candidate_hash_length)

lemma validate_json_response_errs: "errs (\<lambda>d. bounded_diagnostic (Some d)) (validate_json_response r)"
  by (auto simp: validate_json_response_def Let_def)

lemma parse_post_response_ok: "outcome_ok (parse_post_response codecs json r endpoint digest)"
  using validate_json_response_errs [of r] classify_result_ok
  by (auto simp: parse_post_response_def gateway_shaped_route_answer_def replaced_route_answer_def
      check_batch_digest_def errs_def split: option.splits sum.splits BatchDigestJson.splits if_splits)

lemma submit_with_dispatch_ok:
  "outcome_ok (submit_with_dispatch codecs json transport client k request digest)"
  by (auto simp: submit_with_dispatch_def post_def Let_def classify_delivery_def parse_post_response_ok
      split: sum.split post_delivery.split)

definition lookup_ok :: "LookupFailure \<Rightarrow> bool" where
  "lookup_ok f \<longleftrightarrow> (\<forall>d. f = LookupProtocol d \<longrightarrow> bounded_diagnostic (Some d))"

lemma errs_if: "(c \<Longrightarrow> errs P x) \<Longrightarrow> (\<not> c \<Longrightarrow> errs P y) \<Longrightarrow> errs P (if c then x else y)"
  by simp

lemma parse_status_response_errs:
  "errs (\<lambda>d. bounded_diagnostic (Some d)) (parse_status_response json r)"
  unfolding parse_status_response_def Let_def
  by (intro errs_and_then errs_ok_or errs_if validate_json_response_errs errs_Inr
      errs_Inl [THEN iffD2] bounded_invalid_protocol)

lemma observe_lookup_errs: "errs lookup_ok (observe_lookup json answer)"
proof -
  have "errs lookup_ok (map_err LookupProtocol (parse_status_response json r))" for r
    using parse_status_response_errs [of json r]
    by (cases "parse_status_response json r") (simp_all add: lookup_ok_def)
  then show ?thesis
    by (simp add: observe_lookup_def lookup_ok_def split: option.split sum.split)
qed

lemma status_loop_errs:
  "(\<And>f. failure = Some f \<Longrightarrow> lookup_ok f) \<Longrightarrow> errs lookup_ok (status_loop json get hash t urls seen failure)"
proof (induction urls arbitrary: seen failure)
  case Nil
  then show ?case by (auto simp: lookup_ok_def split: option.split)
next
  case (Cons url urls)
  let ?o = "observe_lookup json (get (chain_request (join_chain_url url [lit ''tx'', hash]) False t))"
  have "errs lookup_ok ?o" by (rule observe_lookup_errs)
  then show ?case
    using Cons.IH Cons.prems
    by (cases ?o) (auto split: TransactionStatusObservation.split)
qed

lemma transaction_status_errs: "errs lookup_ok (transaction_status codecs json get client h)"
  unfolding transaction_status_def by (rule status_loop_errs) simp

lemma lookup_diagnostic_bounded: "lookup_ok f \<Longrightarrow> bounded_diagnostic (Some (lookup_diagnostic f))"
  by (cases f) (simp_all add: lookup_ok_def)

definition scan_ok :: "RecoveryScanFailure \<Rightarrow> bool" where
  "scan_ok f \<longleftrightarrow> (\<forall>d. f = ScanInvalid d \<longrightarrow> bounded_diagnostic (Some d))"

lemma scan_ok_simps [simp]:
  "scan_ok (scan_invalid m)" "scan_ok ScanInterrupted" "scan_ok (ScanTransport e)"
  by (simp_all add: scan_ok_def scan_invalid_def)

lemma fold_results_errs: "(\<And>s x. errs P (f s x)) \<Longrightarrow> errs P (fold_results f s xs)"
  by (induction xs arbitrary: s) (auto intro!: errs_intros)

lemma get_json_errs: "errs scan_ok (get_json_with_size env parse poll n url)"
  by (auto simp: get_json_with_size_def split: option.split sum.split)

lemma decode_leaf_errs: "errs scan_ok (decode_leaf env encoded label)"
  by (auto simp: decode_leaf_def intro!: errs_intros)

lemma scan_leaf_errs: "errs scan_ok (scan_leaf env snapshot expected st encoded)"
  by (auto simp: scan_leaf_def Let_def intro!: errs_intros decode_leaf_errs split: option.split)

lemma scan_block_errs: "errs scan_ok (scan_block env snapshot expected st block)"
  by (auto simp: scan_block_def intro!: errs_intros decode_leaf_errs fold_results_errs scan_leaf_errs)

lemma scan_page_errs: "errs scan_ok (scan_page env endpoint round snapshot expected st)"
  by (auto simp: scan_page_def Let_def intro!: errs_intros get_json_errs fold_results_errs scan_block_errs)

lemma scan_loop_errs: "errs scan_ok (scan_loop env endpoint round snapshot expected n st)"
proof (induction n arbitrary: st)
  case 0
  then show ?case by (subst scan_loop.simps) simp
next
  case (Suc n)
  then show ?case
    by (subst scan_loop.simps) (auto intro!: errs_intros scan_page_errs)
qed

lemma scan_exact_layout_errs: "errs scan_ok (scan_exact_layout env endpoints derived candidate i)"
  by (auto simp: scan_exact_layout_def snapshot_root_def Let_def
      intro!: errs_intros get_json_errs scan_loop_errs decode_leaf_errs split: list.split option.split)

lemma scan_match_short:
  assumes "scan_exact_layout env endpoints derived candidate i = Inr (ScanMatch p ps)"
  shows "length ps < 2 ^ 32"
proof -
  let ?E = "layout_leaves (expected_layout derived)"
  obtain endpoint round snapshot bytes st where
    small: "\<not> tree_next_index snapshot > MAX_RECOVERY_LEAVES"
    and loop: "scan_loop env endpoint round snapshot ?E MAX_RECOVERY_LEAF_REQUESTS (initial_scan bytes) = Inr st"
    and outcome: "ScanMatch p ps = scan_outcome ?E \<lparr>authorized_identity = i,
      authorized_digest = generation_digest (derived_generation derived), authorized_candidate = candidate\<rparr> st"
    using assms
    by (auto simp: scan_exact_layout_def Let_def result_simps split: if_splits list.splits)
  have inv: "scan_inv env snapshot ?E st" "sc_next_index st = tree_next_index snapshot"
    using scan_loop_inv [OF loop initial_scan_inv] by simp_all
  have "unat p \<in> occurrences ?E (sc_frontier st)" and ps: "length ps = length ?E - 1"
    using inv(1) outcome by (auto simp: scan_inv_def scan_outcome_def split: option.splits)
  then have "length ?E \<le> unat (tree_next_index snapshot)"
    using inv by (auto simp: occurrences_def scan_inv_def)
  moreover have "unat (tree_next_index snapshot) \<le> 2 ^ 24"
    using small by (simp add: MAX_RECOVERY_LEAVES_def TREE_DEPTH_def word_le_nat_alt not_less)
  ultimately show ?thesis using ps by simp
qed

section \<open>What a pass knows of the world\<close>

definition ordinal :: "StoredChainSubmission \<Rightarrow> nat" where
  "ordinal r = unat (committed_post_reservations r)"

abbreviation row :: "'d coord_env \<Rightarrow> ChainSubmissionIdentity \<Rightarrow> 'd world \<Rightarrow> StoredChainSubmission option" where
  "row env i w \<equiv> abs_store (co_store env) (world_db w) i"

text \<open>A record in memory and the one a load gives: a load bounds the diagnostic text again.\<close>

definition row_like :: "StoredChainSubmission \<Rightarrow> StoredChainSubmission \<Rightarrow> bool" where
  "row_like r0 r \<longleftrightarrow> r0 = r \<or> r0 = reload_record r"

definition event_ordinal :: "post_event \<Rightarrow> nat" where
  "event_ordinal e = (case post_row e of None \<Rightarrow> 0 | Some r \<Rightarrow> ordinal r)"

definition event_reserved :: "'d coord_env \<Rightarrow> ChainSubmissionIdentity \<Rightarrow> post_event \<Rightarrow> bool" where
  "event_reserved env i e \<longleftrightarrow>
     generation_identity (post_generation e) = i \<and>
     (\<exists>r. post_row e = Some r \<and> stored_identity r = i \<and>
        stored_digest r = generation_digest (post_generation e) \<and>
        (stored_state r = Submitting \<or> (\<exists>d. stored_state r = Recovering None d)) \<and>
        0 < ordinal r \<and>
        post_endpoint e = (ordinal r - 1) mod length (client_endpoints (co_client env)))"

fun possibly_dispatched :: "PostAttemptOutcome \<Rightarrow> bool" where
  "possibly_dispatched (PostAccepted _) = True"
| "possibly_dispatched (PostPossiblyDispatched _) = True"
| "possibly_dispatched _ = False"

definition dispatched :: "'d world \<Rightarrow> bool" where
  "dispatched w \<longleftrightarrow> (\<exists>e \<in> set (world_posts w). possibly_dispatched (post_outcome e))"

definition good :: "'d coord_env \<Rightarrow> ChainSubmissionIdentity \<Rightarrow> 'd world \<Rightarrow> bool" where
  "good env i w \<longleftrightarrow>
     db_inv (co_store env) (world_db w) \<and> (\<forall>e \<in> set (world_posts w). event_reserved env i e) \<and>
     sorted_wrt (<) (map event_ordinal (world_posts w))"

text \<open>
  The record a result speaks of: it is stored, or it was the rejection of a combined generation,
  whose row the same transaction retires.
\<close>

definition backed :: "'d coord_env \<Rightarrow> ChainSubmissionIdentity \<Rightarrow> StoredChainSubmission \<Rightarrow> 'd world \<Rightarrow> bool" where
  "backed env i r w \<longleftrightarrow>
     (\<exists>r0. row env i w = Some r0 \<and> row_like r0 r) \<or>
     row env i w = None \<and> is_combined (target i) \<and> stored_durable_state r = DurableRejected"

definition settled ::
  "'d coord_env \<Rightarrow> ChainSubmissionGeneration \<Rightarrow> StoredChainSubmission \<Rightarrow> 'd world \<Rightarrow> bool" where
  "settled env g r w \<longleftrightarrow>
     good env (generation_identity g) w \<and> stored_identity r = generation_identity g \<and>
     stored_digest r = generation_digest g \<and> backed env (generation_identity g) r w \<and>
     (\<forall>e \<in> set (world_posts w). event_ordinal e \<le> ordinal r)"

definition holding ::
  "'d coord_env \<Rightarrow> ChainSubmissionGeneration \<Rightarrow> StoredChainSubmission \<Rightarrow> 'd world \<Rightarrow> bool" where
  "holding env g r w \<longleftrightarrow> settled env g r w \<and> row env (generation_identity g) w \<noteq> None"

text \<open>\<open>b\<close> says that a record existed when the pass began: like a dispatch it must not be forgotten.\<close>

definition failed ::
  "'d coord_env \<Rightarrow> ChainSubmissionIdentity \<Rightarrow> bool \<Rightarrow> coord_error \<Rightarrow> 'd world \<Rightarrow> bool" where
  "failed env i b e w \<longleftrightarrow>
     good env i w \<and> (b \<or> dispatched w \<longrightarrow> row env i w \<noteq> None) \<and>
     (\<forall>f. e = Failed f \<longrightarrow> truthful (row env i w) f \<and>
        (dispatched w \<longrightarrow> strongest_state f \<noteq> None \<or> f = in_flight_poison_failure))"

definition finished ::
  "'d coord_env \<Rightarrow> ChainSubmissionIdentity \<Rightarrow> bool \<Rightarrow> ChainSubmissionResult \<Rightarrow> 'd world \<Rightarrow> bool" where
  "finished env i b res w \<longleftrightarrow>
     good env i w \<and>
     (if res = ResultCancelled then row env i w = None \<and> \<not> b \<and> \<not> dispatched w
      else \<exists>r. stored_identity r = i \<and> public_result r = Inr res \<and> backed env i r w)"

definition vacant ::
  "'d coord_env \<Rightarrow> ChainSubmissionIdentity \<Rightarrow> bool \<Rightarrow> nat \<Rightarrow> 'd world \<Rightarrow> bool" where
  "vacant env i b k w \<longleftrightarrow>
     good env i w \<and> row env i w = None \<and> \<not> b \<and> \<not> dispatched w \<and>
     (\<forall>e \<in> set (world_posts w). event_ordinal e \<le> k)"

definition lone ::
  "'d coord_env \<Rightarrow> ChainSubmissionGeneration \<Rightarrow> bool \<Rightarrow> nat \<Rightarrow> StoredChainSubmission \<Rightarrow> 'd world \<Rightarrow> bool" where
  "lone env g b k r w \<longleftrightarrow>
     holding env g r w \<and> stored_state r = Submitting \<and> \<not> b \<and> \<not> dispatched w \<and> ordinal r = k"

text \<open>A reservation that no POST has used: fresh, or made after an ambiguous dispatch.\<close>

definition reserved_for ::
  "'d coord_env \<Rightarrow> ChainSubmissionGeneration \<Rightarrow> StoredChainSubmission \<Rightarrow> 'd world \<Rightarrow> bool" where
  "reserved_for env g r w \<longleftrightarrow>
     holding env g r w \<and> 0 < ordinal r \<and> (\<forall>e \<in> set (world_posts w). event_ordinal e < ordinal r) \<and>
     (stored_state r = Submitting \<or> (\<exists>d. stored_state r = Recovering None d))"

definition armed ::
  "'d coord_env \<Rightarrow> ChainSubmissionGeneration \<Rightarrow> bool \<Rightarrow> nat \<Rightarrow> StoredChainSubmission \<Rightarrow> bool \<Rightarrow> 'd world \<Rightarrow> bool" where
  "armed env g b k r seen w \<longleftrightarrow>
     reserved_for env g r w \<and>
     (if seen then \<exists>d. stored_state r = Recovering None d else lone env g b (Suc k) r w)"

text \<open>
  What a pass relies on: validated policy and endpoints, a clock that SQLite can store, the promise
  of derivation, and the lease, whose refusal carries no state and under which no other pass
  changes the record of this identity.
\<close>

definition pass_ok :: "'d coord_env \<Rightarrow> ChainSubmissionIdentity \<Rightarrow> bool" where
  "pass_ok env i \<longleftrightarrow>
     policy_ok env \<and> maximum_post_attempts (co_policy env) \<le> 8 \<and> derivation_ok (co_store env) \<and>
     valid_identity i \<and> (\<forall>t now. clock_at env t = Some now \<longrightarrow> now \<le> i64_max) \<and>
     (\<forall>t f. lease_at env t = Inl f \<longrightarrow> strongest_state f = None) \<and>
     (\<forall>t db. db_inv (co_store env) db \<longrightarrow>
        db_inv (co_store env) (others_at env t db) \<and>
        abs_store (co_store env) (others_at env t db) i = abs_store (co_store env) db i)"

lemmas world_defs = good_def backed_def settled_def holding_def failed_def finished_def vacant_def
  lone_def reserved_for_def armed_def dispatched_def

lemma tick_simps [simp]:
  "good env i (w\<lparr>world_tick := t\<rparr>) = good env i w"
  "backed env i r (w\<lparr>world_tick := t\<rparr>) = backed env i r w"
  "settled env g r (w\<lparr>world_tick := t\<rparr>) = settled env g r w"
  "holding env g r (w\<lparr>world_tick := t\<rparr>) = holding env g r w"
  "failed env i b e (w\<lparr>world_tick := t\<rparr>) = failed env i b e w"
  "finished env i b res (w\<lparr>world_tick := t\<rparr>) = finished env i b res w"
  "vacant env i b k (w\<lparr>world_tick := t\<rparr>) = vacant env i b k w"
  "lone env g b k r (w\<lparr>world_tick := t\<rparr>) = lone env g b k r w"
  "reserved_for env g r (w\<lparr>world_tick := t\<rparr>) = reserved_for env g r w"
  "armed env g b k r seen (w\<lparr>world_tick := t\<rparr>) = armed env g b k r seen w"
  "dispatched (w\<lparr>world_tick := t\<rparr>) = dispatched w"
  by (simp_all add: world_defs)

lemma registry_simps [simp]:
  "good env i (w\<lparr>world_registry := x\<rparr>) = good env i w"
  "backed env i r (w\<lparr>world_registry := x\<rparr>) = backed env i r w"
  "settled env g r (w\<lparr>world_registry := x\<rparr>) = settled env g r w"
  "holding env g r (w\<lparr>world_registry := x\<rparr>) = holding env g r w"
  "failed env i b e (w\<lparr>world_registry := x\<rparr>) = failed env i b e w"
  "finished env i b res (w\<lparr>world_registry := x\<rparr>) = finished env i b res w"
  "vacant env i b k (w\<lparr>world_registry := x\<rparr>) = vacant env i b k w"
  "lone env g b k r (w\<lparr>world_registry := x\<rparr>) = lone env g b k r w"
  "reserved_for env g r (w\<lparr>world_registry := x\<rparr>) = reserved_for env g r w"
  "armed env g b k r seen (w\<lparr>world_registry := x\<rparr>) = armed env g b k r seen w"
  "dispatched (w\<lparr>world_registry := x\<rparr>) = dispatched w"
  by (simp_all add: world_defs)

lemma row_like_sel:
  assumes "row_like r0 r"
  shows "stored_identity r0 = stored_identity r" "stored_digest r0 = stored_digest r"
    "stored_durable_state r0 = stored_durable_state r" "candidate_of (stored_state r0) = candidate_of (stored_state r)"
    "ordinal r0 = ordinal r" "tracking_started_at r0 = tracking_started_at r"
  using assms by (auto simp: row_like_def ordinal_def)

lemma row_like_permits: "row_like r0 r \<Longrightarrow> permits_ambiguous_retry (stored_state r0) = permits_ambiguous_retry (stored_state r)"
  by (cases "stored_state r")
    (auto simp: row_like_def reload_record_def reload_diagnostic_def elim!: permits_ambiguous_retry.elims)

lemma holding_row:
  assumes "holding env g r w"
  obtains r0 where "row env (generation_identity g) w = Some r0" "row_like r0 r"
    "stored_durable_state r0 = stored_durable_state r"
  using assms row_like_sel(3) by (auto simp: holding_def settled_def backed_def)

lemma settled_holding: "settled env g r w \<Longrightarrow> stored_durable_state r \<noteq> DurableRejected \<Longrightarrow> holding env g r w"
  by (auto simp: holding_def settled_def backed_def)

lemma holding_settled [simp]: "holding env g r w \<Longrightarrow> settled env g r w"
  by (simp add: holding_def)

section \<open>Rules for programs\<close>

definition ends :: "('e \<Rightarrow> 'w \<Rightarrow> bool) \<Rightarrow> ('a \<Rightarrow> 'w \<Rightarrow> bool) \<Rightarrow> 'e + 'a \<Rightarrow> 'w \<Rightarrow> bool" where
  "ends E Q res w = (case res of Inl e \<Rightarrow> E e w | Inr x \<Rightarrow> Q x w)"

lemma ends_simps [simp]: "ends E Q (Inl e) w = E e w" "ends E Q (Inr x) w = Q x w"
  by (simp_all add: ends_def)

lemma wp_bind:
  "wp m (ends E Q) w \<Longrightarrow> (\<And>x w'. Q x w' \<Longrightarrow> wp (f x) (ends E R) w') \<Longrightarrow> wp (seq m f) (ends E R) w"
  by (erule wp_seqI) auto

lemma wp_weaken:
  "wp m (ends E Q) w \<Longrightarrow> (\<And>e w'. E e w' \<Longrightarrow> E' e w') \<Longrightarrow> (\<And>x w'. Q x w' \<Longrightarrow> R x w') \<Longrightarrow> wp m (ends E' R) w"
  by (erule wp_mono) (auto simp: ends_def split: sum.splits)

lemma wp_post: "wp m (ends E Q) w \<Longrightarrow> (\<And>x w'. Q x w' \<Longrightarrow> R x w') \<Longrightarrow> wp m (ends E R) w"
  by (rule wp_weaken)

lemma wp_mapped_error:
  "wp m (ends E Q) w \<Longrightarrow> (\<And>e w'. E e w' \<Longrightarrow> E' (g e) w') \<Longrightarrow> wp (on_error g m) (ends E' Q) w"
  unfolding wp_on_error by (erule wp_mono) (auto simp: ends_def split: sum.splits)

lemma wp_fail_with [simp]: "wp (fail_with f) (ends E Q) w = E (Failed f) w"
  by (simp add: fail_with_def wp_raise)

lemma wp_panic [simp]: "wp (panic m) (ends E Q) w = E (Panicked m) w"
  by (simp add: panic_def wp_raise)

lemma wp_ret_ends [simp]: "wp (ret x) (ends E Q) w = Q x w"
  by (simp add: wp_ret)

lemma wp_sample: "(\<And>x t. wp (f x) R (w\<lparr>world_tick := t\<rparr>)) \<Longrightarrow> wp (seq (sample g) f) R w"
  by (simp add: wp_seq) (simp add: wp_def sample_def)

lemma wp_interruption: "(\<And>x t. wp (f x) R (w\<lparr>world_tick := t\<rparr>)) \<Longrightarrow> wp (seq (interruption env op) f) R w"
  unfolding interruption_def by (rule wp_sample)

lemma wp_allowed_now: "(\<And>x t. wp (f x) R (w\<lparr>world_tick := t\<rparr>)) \<Longrightarrow> wp (seq (allowed_now env op) f) R w"
  by (simp add: wp_seq allowed_now_def interruption_def) (simp add: wp_def sample_def ret_def)

lemma wp_wait_backoff:
  "(\<And>x t. wp (f x) R (w\<lparr>world_tick := t\<rparr>)) \<Longrightarrow> wp (seq (wait_backoff_or_interruption env delay) f) R w"
  unfolding wait_backoff_or_interruption_def by (rule wp_sample)

lemma wp_backoff:
  "E (Panicked ''index out of bounds'') w \<Longrightarrow> (\<And>x. wp (f x) (ends E R) w) \<Longrightarrow> wp (seq (backoff env k) f) (ends E R) w"
  by (simp add: backoff_def wp_seq) (simp add: wp_def ret_def panic_def raise_def)

lemma wp_register_guard:
  assumes "\<And>key x t. Q (Inr key) (w\<lparr>world_registry := x, world_tick := t\<rparr>)"
    and "\<And>x t. Q (Inl (Failed in_flight_poison_failure)) (w\<lparr>world_registry := x, world_tick := t\<rparr>)"
  shows "wp (register_guard env i) Q w"
  using assms by (auto simp: wp_def register_guard_def register_in_flight_def Let_def)

lemma wp_drop_guard:
  "wp m (ends E Q) w \<Longrightarrow> (\<And>e w x t. E e w \<Longrightarrow> E e (w\<lparr>world_registry := x, world_tick := t\<rparr>)) \<Longrightarrow>
   (\<And>y w x t. Q y w \<Longrightarrow> Q y (w\<lparr>world_registry := x, world_tick := t\<rparr>)) \<Longrightarrow>
   wp (and_drop (drop_guard env key) m) (ends E Q) w"
  unfolding wp_and_drop by (erule wp_mono) (auto simp: ends_def drop_guard_def Let_def split: sum.splits)

text \<open>An error of a call that left the record and the log of POSTs as they were.\<close>

definition refused ::
  "'d coord_env \<Rightarrow> ChainSubmissionIdentity \<Rightarrow> 'd world \<Rightarrow> coord_error \<Rightarrow> 'd world \<Rightarrow> bool" where
  "refused env i w e w' \<longleftrightarrow>
     (\<exists>f. e = Failed f \<and> truthful (row env i w) f) \<and> good env i w' \<and> row env i w' = row env i w \<and>
     world_posts w' = world_posts w"

lemma refused_tick [simp]: "refused env i (w\<lparr>world_tick := t\<rparr>) = refused env i w"
  by (intro ext) (simp add: refused_def)

lemma wp_now_seconds:
  assumes "pass_ok env i" and "good env i w"
  shows "wp (now_seconds env) (ends (refused env i w)
    (\<lambda>now w'. now \<le> i64_max \<and> (\<exists>t. w' = w\<lparr>world_tick := t\<rparr>))) w"
  unfolding now_seconds_def
  using assms by (auto simp: wp_def seq_def sample_def fail_with_def ret_def raise_def refused_def pass_ok_def
      split: option.split)

lemma wp_call_store:
  assumes ok: "pass_ok env i" and w: "good env i w"
    and op: "\<And>fault db res db'. db_inv (co_store env) db \<Longrightarrow> abs_store (co_store env) db i = row env i w \<Longrightarrow>
      op fault db = (res, db') \<Longrightarrow>
      case res of Inl f \<Rightarrow> db' = db \<and> truthful (row env i w) f
        | Inr x \<Rightarrow> db_inv (co_store env) db' \<and> Q x (abs_store (co_store env) db' i)"
  shows "wp (call_store env op) (ends (refused env i w)
    (\<lambda>x w'. good env i w' \<and> world_posts w' = world_posts w \<and> Q x (row env i w'))) w"
proof -
  let ?t = "world_tick w"
  let ?db = "others_at env ?t (world_db w)"
  have db: "db_inv (co_store env) ?db" "abs_store (co_store env) ?db i = row env i w"
    using ok w by (simp_all add: pass_ok_def good_def)
  obtain res db' where call: "op (fault_at env ?t) ?db = (res, db')"
    by (cases "op (fault_at env ?t) ?db")
  show ?thesis
    using op [OF db call] call db w
    by (cases res) (auto simp: wp_def call_store_def Let_def refused_def good_def)
qed

lemma wp_clocked_call:
  assumes ok: "pass_ok env i" and w: "good env i w"
    and op: "\<And>now fault db res db'. now \<le> i64_max \<Longrightarrow> db_inv (co_store env) db \<Longrightarrow>
      abs_store (co_store env) db i = row env i w \<Longrightarrow> op now fault db = (res, db') \<Longrightarrow>
      case res of Inl f \<Rightarrow> db' = db \<and> truthful (row env i w) f
        | Inr x \<Rightarrow> db_inv (co_store env) db' \<and> Q x (abs_store (co_store env) db' i)"
  shows "wp (seq (now_seconds env) (\<lambda>now. call_store env (op now))) (ends (refused env i w)
    (\<lambda>x w'. good env i w' \<and> world_posts w' = world_posts w \<and> Q x (row env i w'))) w"
proof (rule wp_bind [OF wp_now_seconds [OF ok w]])
  fix now w' assume now: "now \<le> i64_max \<and> (\<exists>t. w' = w\<lparr>world_tick := t\<rparr>)"
  then obtain t where w': "w' = w\<lparr>world_tick := t\<rparr>" by blast
  have "wp (call_store env (op now)) (ends (refused env i w')
      (\<lambda>x w''. good env i w'' \<and> world_posts w'' = world_posts w' \<and> Q x (row env i w''))) w'"
    by (rule wp_call_store [OF ok]) (use w' w op [OF conjunct1 [OF now]] in \<open>simp_all cong: sum.case_cong\<close>)
  then
  show "wp (call_store env (op now)) (ends (refused env i w)
      (\<lambda>x w'. good env i w' \<and> world_posts w' = world_posts w \<and> Q x (row env i w'))) w'"
    by (simp add: w')
qed

lemma refused_failed:
  assumes "refused env i w e w'" and "row env i w = Some r0" and "stored_durable_state r0 = s"
  shows "failed env i b (map_failure (attach_state s) e) w'"
    and "failed env i b (map_failure (with_state s) e) w'"
    and "failed env i b (map_failure possible_dispatch_error e) w'"
proof -
  obtain f where f: "e = Failed f" "truthful (Some r0) f" "good env i w'" "row env i w' = Some r0"
    using assms(1,2) by (auto simp: refused_def)
  show "failed env i b (map_failure (attach_state s) e) w'"
    using f assms(3) by (auto simp: failed_def attach_state_def with_state_def with_durable_state_def truthful_def)
  show "failed env i b (map_failure (with_state s) e) w'"
    using f assms(3) by (auto simp: failed_def with_state_def with_durable_state_def truthful_def)
  show "failed env i b (map_failure possible_dispatch_error e) w'"
    using f assms(3)
    by (auto simp: failed_def) (simp add: possible_dispatch_error_def with_known_possible_dispatch_def)
qed

section \<open>Rules for the calls of the store\<close>

text \<open>How an observation moved the record: a candidate owned by another row counts as ambiguous.\<close>

definition moved :: "StoredChainSubmission \<Rightarrow> SubmissionObservation \<Rightarrow> StoredChainSubmission \<Rightarrow> bool" where
  "moved r ob r' \<longleftrightarrow>
     (\<exists>r0 ob'. row_like r0 r \<and>
        apply_submission_observation (Some (stored_state r0)) ob' = Inr (Some (stored_state r')) \<and>
        (ob' = ob \<or> (\<exists>h d. ob = UsableCandidateHash h \<and> ob' = PossiblyDispatched d)))"

lemma effective_observation_cases:
  "effective_observation i ob db = ob \<or>
     (\<exists>h d. ob = UsableCandidateHash h \<and> effective_observation i ob db = PossiblyDispatched d)"
  by (auto simp: effective_observation_def split: SubmissionObservation.split)

lemma settledI:
  assumes "good env (generation_identity g) w" and "stored_identity r = generation_identity g"
    and "stored_digest r = generation_digest g"
    and "\<forall>e \<in> set (world_posts w). event_ordinal e \<le> ordinal r"
    and "row env (generation_identity g) w = Some (reload_record r) \<or>
      row env (generation_identity g) w = None \<and> is_combined (target (generation_identity g)) \<and>
        stored_durable_state r = DurableRejected"
  shows "settled env g r w"
  using assms by (auto simp: settled_def backed_def row_like_def)

lemma wp_observe:
  assumes ok: "pass_ok env (generation_identity g)" and w: "holding env g r w"
    and ob: "valid_observation ob" "bounded_diagnostic e"
  shows "wp (seq (now_seconds env) (\<lambda>now. call_store env (\<lambda>fault. apply_observation (co_store env) fault g ob e now)))
    (ends (refused env (generation_identity g) w)
      (\<lambda>r' w'. settled env g r' w' \<and> world_posts w' = world_posts w \<and> ordinal r' = ordinal r \<and> moved r ob r')) w"
proof -
  let ?i = "generation_identity g"
  let ?Q = "\<lambda>r' x. stored_identity r' = ?i \<and> stored_digest r' = generation_digest g \<and> ordinal r' = ordinal r \<and>
    moved r ob r' \<and> (x = Some (reload_record r') \<or>
      x = None \<and> is_combined (target ?i) \<and> stored_durable_state r' = DurableRejected)"
  obtain r0 where r0: "row env ?i w = Some r0" "row_like r0 r"
    using w by (rule holding_row)
  have digest: "stored_digest r = generation_digest g" and g: "good env ?i w"
    using w by (simp_all add: holding_def settled_def)
  have i: "valid_identity ?i"
    using ok by (simp add: pass_ok_def)
  have op: "case res of Inl f \<Rightarrow> db' = db \<and> truthful (row env ?i w) f
      | Inr x \<Rightarrow> db_inv (co_store env) db' \<and> ?Q x (abs_store (co_store env) db' ?i)"
    if "now \<le> i64_max" "db_inv (co_store env) db" "abs_store (co_store env) db ?i = row env ?i w"
      "apply_observation (co_store env) fault g ob e now db = (res, db')" for now fault db res db'
  proof -
    have "abs_store (co_store env) db ?i = Some r0"
      using that(3) r0(1) by simp
    from apply_observation_outcome [OF that(2) i this ob that(1,4)]
    show ?thesis
      using r0 digest row_like_sel [OF r0(2)] effective_observation_cases [of ?i ob db]
      by (cases res) (auto simp: moved_def ordinal_def)
  qed
  have below: "\<forall>e \<in> set (world_posts w). event_ordinal e \<le> ordinal r"
    using w by (simp add: holding_def settled_def)
  show ?thesis
    by (rule wp_post [OF wp_clocked_call [OF ok g, where Q = ?Q, OF op]])
      (use below in \<open>auto intro!: settledI\<close>)
qed

lemma wp_classify:
  assumes ok: "pass_ok env (generation_identity g)" and w: "holding env g r w" and ob: "valid_observation ob"
  shows "wp (classify_dispatched_post env g ob) (ends (failed env (generation_identity g) b)
    (\<lambda>r' w'. settled env g r' w' \<and> world_posts w' = world_posts w \<and> ordinal r' = ordinal r \<and> moved r ob r')) w"
  unfolding classify_dispatched_post_def classify_post_def
  using w
  by (intro wp_mapped_error [OF wp_observe [OF ok w ob]])
    (auto elim: holding_row intro: refused_failed(3))

lemma wp_reconcile:
  assumes ok: "pass_ok env (generation_identity g)" and w: "holding env g r w"
    and ob: "valid_observation ob" "bounded_diagnostic e" and s: "stored_durable_state r = s"
  shows "wp (reconcile_with_durable_state env g ob e s) (ends (failed env (generation_identity g) b)
    (\<lambda>r' w'. settled env g r' w' \<and> world_posts w' = world_posts w \<and> ordinal r' = ordinal r \<and> moved r ob r')) w"
  unfolding reconcile_with_durable_state_def reconcile_def
proof (rule wp_mapped_error [OF wp_observe [OF ok w ob]])
  fix e w' assume "refused env (generation_identity g) w e w'"
  with w s show "failed env (generation_identity g) b (map_failure (attach_state s) e) w'"
    by (auto elim!: holding_row intro: refused_failed(1))
qed

lemma wp_clock_held:
  assumes ok: "pass_ok env (generation_identity g)" and w: "holding env g r w" and s: "stored_durable_state r = s"
  shows "wp (on_error (map_failure (with_state s)) (now_seconds env)) (ends (failed env (generation_identity g) b)
      (\<lambda>now w'. now \<le> i64_max \<and> (\<exists>t. w' = w\<lparr>world_tick := t\<rparr>))) w"
    and "wp (on_error (map_failure (attach_state s)) (now_seconds env)) (ends (failed env (generation_identity g) b)
      (\<lambda>now w'. now \<le> i64_max \<and> (\<exists>t. w' = w\<lparr>world_tick := t\<rparr>))) w"
proof -
  have good: "good env (generation_identity g) w"
    using w by (simp add: holding_def settled_def)
  have refusal: "failed env (generation_identity g) b (map_failure (with_state s) e) w'"
      "failed env (generation_identity g) b (map_failure (attach_state s) e) w'"
    if "refused env (generation_identity g) w e w'" for e w'
    using that w s by (auto elim!: holding_row intro: refused_failed(1,2))
  show "wp (on_error (map_failure (with_state s)) (now_seconds env)) (ends (failed env (generation_identity g) b)
      (\<lambda>now w'. now \<le> i64_max \<and> (\<exists>t. w' = w\<lparr>world_tick := t\<rparr>))) w"
    by (rule wp_mapped_error [OF wp_now_seconds [OF ok good]]) (rule refusal(1))
  show "wp (on_error (map_failure (attach_state s)) (now_seconds env)) (ends (failed env (generation_identity g) b)
      (\<lambda>now w'. now \<le> i64_max \<and> (\<exists>t. w' = w\<lparr>world_tick := t\<rparr>))) w"
    by (rule wp_mapped_error [OF wp_now_seconds [OF ok good]]) (rule refusal(2))
qed

lemma wp_held_call:
  assumes ok: "pass_ok env (generation_identity g)" and w: "holding env g r w" and s: "stored_durable_state r = s"
    and op: "\<And>fault db r0 res db'. db_inv (co_store env) db \<Longrightarrow> row_like r0 r \<Longrightarrow>
      abs_store (co_store env) db (generation_identity g) = Some r0 \<Longrightarrow> op fault db = (res, db') \<Longrightarrow>
      case res of Inl f \<Rightarrow> db' = db \<and> truthful (Some r0) f
        | Inr x \<Rightarrow> db_inv (co_store env) db' \<and> Q x (abs_store (co_store env) db' (generation_identity g))"
  shows "wp (on_error (map_failure (attach_state s)) (call_store env op)) (ends (failed env (generation_identity g) b)
    (\<lambda>x w'. good env (generation_identity g) w' \<and> world_posts w' = world_posts w \<and>
       Q x (row env (generation_identity g) w'))) w"
proof -
  let ?i = "generation_identity g"
  obtain r0 where r0: "row env ?i w = Some r0" "row_like r0 r"
    using w by (rule holding_row)
  have g: "good env ?i w"
    using w by (simp add: holding_def settled_def)
  show ?thesis
  proof (rule wp_mapped_error [OF wp_call_store [OF ok g]])
    fix e w' assume "refused env ?i w e w'"
    then show "failed env ?i b (map_failure (attach_state s) e) w'"
      using r0 row_like_sel(3) [OF r0(2)] s by (auto intro: refused_failed(1))
  qed (use op r0 in \<open>simp cong: sum.case_cong\<close>)
qed

lemma wp_release:
  assumes ok: "pass_ok env (generation_identity g)" and w: "lone env g b k r w"
  shows "wp (release_fresh_reservation env g) (ends (failed env (generation_identity g) b)
    (\<lambda>_ w'. vacant env (generation_identity g) b k w')) w"
proof -
  have h: "holding env g r w" and s: "stored_durable_state r = DurableSubmitting"
    using w by (simp_all add: lone_def)
  have i: "valid_identity (generation_identity g)"
    using ok by (simp add: pass_ok_def)
  show ?thesis
    unfolding release_fresh_reservation_def
  proof (rule wp_bind [OF wp_clock_held(1) [OF ok h s]], elim conjE exE)
    fix now w' t assume w': "w' = w\<lparr>world_tick := t\<rparr>"
    have h': "holding env g r w'" using h w' by simp
    have "wp (on_error (map_failure (attach_state DurableSubmitting))
        (call_store env (\<lambda>fault. remove_fresh_reservation (co_store env) fault g now)))
      (ends (failed env (generation_identity g) b) (\<lambda>_ w''. good env (generation_identity g) w'' \<and>
         world_posts w'' = world_posts w' \<and> row env (generation_identity g) w'' = None)) w'"
      by (rule wp_held_call [OF ok h' s, where Q = "\<lambda>_ x. x = None"])
        (drule remove_fresh_reservation_outcome [OF _ i, rotated 2], auto split: sum.splits)
    then show "wp (on_error (map_failure (attach_state DurableSubmitting))
        (call_store env (\<lambda>fault. remove_fresh_reservation (co_store env) fault g now)))
      (ends (failed env (generation_identity g) b) (\<lambda>_. vacant env (generation_identity g) b k)) w'"
      by (rule wp_post) (use w w' in \<open>auto simp: vacant_def lone_def holding_def settled_def dispatched_def\<close>)
  qed
qed

lemma newly_reserved:
  assumes "holding env g r w" and "world_posts w' = world_posts w" and "good env (generation_identity g) w'"
    and "stored_identity r' = generation_identity g" and "stored_digest r' = stored_digest r"
    and "ordinal r' = ordinal r + 1" and "row env (generation_identity g) w' = Some (reload_record r')"
    and "\<exists>d. stored_state r' = Recovering None d"
  shows "reserved_for env g r' w'"
  using assms by (fastforce simp: reserved_for_def holding_def settled_def backed_def row_like_def)

lemma wp_reserve_ambiguous:
  assumes ok: "pass_ok env (generation_identity g)" and w: "holding env g r w" and now: "now \<le> i64_max"
    and s: "stored_durable_state r = s"
  shows "wp (on_error (map_failure (attach_state s))
      (call_store env (\<lambda>fault. reserve_ambiguous_retry (co_store env) fault g now)))
    (ends (failed env (generation_identity g) b)
      (\<lambda>r' w'. reserved_for env g r' w' \<and> permits_ambiguous_retry (stored_state r'))) w"
proof -
  let ?i = "generation_identity g"
  let ?Q = "\<lambda>r' x. stored_identity r' = ?i \<and> stored_digest r' = stored_digest r \<and>
    ordinal r' = ordinal r + 1 \<and> permits_ambiguous_retry (stored_state r') \<and> x = Some (reload_record r')"
  have i: "valid_identity ?i"
    using ok by (simp add: pass_ok_def)
  have op: "case res of Inl f \<Rightarrow> db' = db \<and> truthful (Some r0) f
      | Inr x \<Rightarrow> db_inv (co_store env) db' \<and> ?Q x (abs_store (co_store env) db' ?i)"
    if "db_inv (co_store env) db" "row_like r0 r" "abs_store (co_store env) db ?i = Some r0"
      "reserve_ambiguous_retry (co_store env) fault g now db = (res, db')" for fault db r0 res db'
    using reserve_ambiguous_retry_outcome [OF that(1) i that(3) now that(4)] row_like_sel [OF that(2)]
    by (cases res) (auto simp: ordinal_def)
  show ?thesis
    by (rule wp_post [OF wp_held_call [OF ok w s, where Q = ?Q, OF op]])
      (auto intro!: newly_reserved [OF w] elim: permits_ambiguous_retry_Recovering)
qed

lemma wp_reserve_recovery:
  assumes ok: "pass_ok env (generation_identity g)" and w: "holding env g r w" and now: "now \<le> i64_max"
    and s: "stored_durable_state r = s" and req: "request_identity request = generation_identity g"
  shows "wp (on_error (map_failure (attach_state s))
      (call_store env (\<lambda>fault. reserve_recovery_retry (co_store env) fault request a now)))
    (ends (failed env (generation_identity g) b)
      (\<lambda>r' w'. reserved_for env g r' w' \<and> (\<exists>d. stored_state r' = Recovering None d))) w"
proof -
  let ?i = "generation_identity g"
  let ?Q = "\<lambda>r' x. stored_identity r' = ?i \<and> stored_digest r' = stored_digest r \<and>
    ordinal r' = ordinal r + 1 \<and> (\<exists>d. stored_state r' = Recovering None d) \<and> x = Some (reload_record r')"
  have i: "valid_identity (request_identity request)" and env: "derivation_ok (co_store env)"
    using ok req by (simp_all add: pass_ok_def)
  have op: "case res of Inl f \<Rightarrow> db' = db \<and> truthful (Some r0) f
      | Inr x \<Rightarrow> db_inv (co_store env) db' \<and> ?Q x (abs_store (co_store env) db' ?i)"
    if "db_inv (co_store env) db" "row_like r0 r" "abs_store (co_store env) db ?i = Some r0"
      "reserve_recovery_retry (co_store env) fault request a now db = (res, db')" for fault db r0 res db'
    using reserve_recovery_retry_outcome [OF env that(1) i _ now that(4), of r0] that(3) row_like_sel [OF that(2)] req
    by (cases res) (auto simp: ordinal_def)
  show ?thesis
    by (rule wp_post [OF wp_held_call [OF ok w s, where Q = ?Q, OF op]])
      (auto intro!: newly_reserved [OF w])
qed

lemma wp_result_backed:
  assumes "good env i w" and "stored_identity r = i" and "backed env i r w"
  shows "wp (result_of r) (ends (failed env i b) (finished env i b)) w"
proof (cases "public_result r")
  case (Inl f)
  then have f: "stored_durable_state r = DurableSubmitting"
    "f = with_durable_state InvariantViolation DurableSubmitting
      (lit ''Submitting must be normalized before returning from an advancement pass'')"
    by (auto simp: public_result_def split: SubmissionRecordState.splits)
  with assms(3) obtain r0 where "row env i w = Some r0" "stored_durable_state r0 = DurableSubmitting"
    using row_like_sel(3) by (auto simp: backed_def)
  with f Inl assms show ?thesis
    by (auto simp: result_of_def wp_from_result failed_def with_durable_state_def truthful_def)
next
  case (Inr res)
  then have "res \<noteq> ResultCancelled"
    by (auto simp: public_result_def split: SubmissionRecordState.splits)
  with assms Inr show ?thesis
    by (auto simp: result_of_def wp_from_result finished_def)
qed

lemma wp_result_of:
  "settled env g r w \<Longrightarrow>
   wp (result_of r) (ends (failed env (generation_identity g) b) (finished env (generation_identity g) b)) w"
  by (auto simp: settled_def intro: wp_result_backed)

definition committed_rows ::
  "ChainSubmissionGeneration \<Rightarrow> StoredChainSubmission \<Rightarrow> ConfirmationCommit \<Rightarrow> StoredChainSubmission option \<Rightarrow> bool" where
  "committed_rows g r commit x \<longleftrightarrow>
     stored_identity (commit_record commit) = generation_identity g \<and>
     stored_digest (commit_record commit) = stored_digest r \<and> ordinal (commit_record commit) = ordinal r \<and>
     (\<exists>r0. x = Some r0 \<and> row_like r0 (commit_record commit))"

lemma commit_spec_rows:
  assumes "commit_spec (co_store env) (generation_identity g) r0 db commit" and "row_like r0 r"
    and "stored_identity r = generation_identity g"
  shows "committed_rows g r commit (abs_store (co_store env) db (generation_identity g))"
  using assms row_like_sel [OF assms(2)]
  by (cases commit) (auto simp: commit_spec_def committed_rows_def row_like_def ordinal_def)

lemma commit_spec_inv: "commit_spec env i r db commit \<Longrightarrow> db_inv env db"
  by (cases commit) (simp_all add: commit_spec_def)

lemma committed_settled:
  assumes "holding env g r w" and "good env (generation_identity g) w'" and "world_posts w' = world_posts w"
    and "committed_rows g r commit (row env (generation_identity g) w')"
  shows "settled env g (commit_record commit) w'"
  using assms by (auto simp: holding_def settled_def backed_def committed_rows_def)

lemma wp_commit:
  assumes ok: "pass_ok env (generation_identity g)" and w: "holding env g r w" and s: "stored_durable_state r = s"
    and op: "\<And>now allowed fault db r0 res db'. now \<le> i64_max \<Longrightarrow> db_inv (co_store env) db \<Longrightarrow>
      abs_store (co_store env) db (generation_identity g) = Some r0 \<Longrightarrow> operation allowed now fault db = (res, db') \<Longrightarrow>
      case res of Inl f \<Rightarrow> db' = db \<and> truthful (Some r0) f
        | Inr x \<Rightarrow> commit_spec (co_store env) (generation_identity g) r0 db' x"
  shows "wp (seq (on_error (map_failure (with_state s)) (now_seconds env)) (\<lambda>now.
      seq (allowed_now env captured) (\<lambda>allowed.
      seq (on_error (map_failure (attach_state s)) (call_store env (operation allowed now)))
        (\<lambda>commit. result_of (commit_record commit)))))
    (ends (failed env (generation_identity g) b) (finished env (generation_identity g) b)) w"
proof (rule wp_bind [OF wp_clock_held(1) [OF ok w s]], elim conjE exE, rule wp_allowed_now)
  fix now w1 t1 allowed t
  assume now: "now \<le> i64_max" and w1: "w1 = w\<lparr>world_tick := t1\<rparr>"
  let ?w = "w1\<lparr>world_tick := t\<rparr>"
  have h: "holding env g r ?w" and ident: "stored_identity r = generation_identity g"
    using w w1 by (simp_all add: holding_def settled_def)
  have call: "case res of Inl f \<Rightarrow> db' = db \<and> truthful (Some r0) f
      | Inr x \<Rightarrow> db_inv (co_store env) db' \<and>
          committed_rows g r x (abs_store (co_store env) db' (generation_identity g))"
    if "db_inv (co_store env) db" "row_like r0 r" "abs_store (co_store env) db (generation_identity g) = Some r0"
      "operation allowed now fault db = (res, db')" for fault db r0 res db'
    using op [OF now that(1,3,4)] commit_spec_rows [OF _ that(2) ident]
    by (cases res) (simp_all add: commit_spec_inv)
  show "wp (seq (on_error (map_failure (attach_state s)) (call_store env (operation allowed now)))
        (\<lambda>commit. result_of (commit_record commit)))
      (ends (failed env (generation_identity g) b) (finished env (generation_identity g) b)) ?w"
    by (rule wp_bind [OF wp_held_call [OF ok h s, where Q = "committed_rows g r", OF call]])
      (auto intro!: wp_result_of committed_settled [OF h])
qed

lemma held_candidate_length:
  assumes ok: "pass_ok env (generation_identity g)" and w: "holding env g r w"
    and h: "candidate_of (stored_state r) = Some h"
  shows "length h = 32"
proof -
  obtain r0 where r0: "row env (generation_identity g) w = Some r0" "row_like r0 r"
    using w by (rule holding_row)
  have inv: "db_inv (co_store env) (world_db w)" and i: "valid_identity (generation_identity g)"
    using w ok by (simp_all add: holding_def settled_def good_def pass_ok_def)
  have "load_submission (co_store env) (world_db w) (generation_identity g) = Inr (Some r0)"
    using abs_store_load [OF inv i] r0(1) by simp
  then have "stored_wf r0"
    by (rule loaded_wf(1) [OF inv i])
  moreover have "candidate_of (stored_state r0) = Some h"
    using h row_like_sel(4) [OF r0(2)] by simp
  ultimately show ?thesis
    by (cases "stored_state r0") (auto simp: stored_wf_def valid_hash_def)
qed

lemma wp_confirm_by_hash:
  assumes ok: "pass_ok env (generation_identity (derived_generation derived))"
    and w: "holding env (derived_generation derived) r w" and s: "stored_durable_state r = s"
    and h: "candidate_of (stored_state r) = Some h"
  shows "wp (confirm_by_hash env request captured derived h committed s)
    (ends (failed env (generation_identity (derived_generation derived)) b)
      (finished env (generation_identity (derived_generation derived)) b)) w"
  unfolding confirm_by_hash_def
proof (rule wp_commit [OF ok w s])
  have i: "valid_identity (generation_identity (derived_generation derived))"
    using ok by (simp add: pass_ok_def)
  note len = held_candidate_length [OF ok w h]
  show "case res of Inl f \<Rightarrow> db' = db \<and> truthful (Some r0) f
      | Inr x \<Rightarrow> commit_spec (co_store env) (generation_identity (derived_generation derived)) r0 db' x"
    if "now \<le> i64_max" "db_inv (co_store env) db"
      "abs_store (co_store env) db (generation_identity (derived_generation derived)) = Some r0"
      "confirm_committed (co_store env) fault request (derived_generation derived) h
         (committed_events committed) allowed now db = (res, db')" for now allowed fault db r0 res db'
    using confirm_committed_outcome [OF that(2) i that(3) that(1) len that(4)] .
qed

lemma wp_confirm_by_tree:
  assumes ok: "pass_ok env (generation_identity (derived_generation derived))"
    and w: "holding env (derived_generation derived) r w" and s: "stored_durable_state r = DurableRecovering"
    and ps: "length ps < 2 ^ 32"
  shows "wp (confirm_by_tree env request captured derived p ps)
    (ends (failed env (generation_identity (derived_generation derived)) b)
      (finished env (generation_identity (derived_generation derived)) b)) w"
  unfolding confirm_by_tree_def
proof (rule wp_commit [OF ok w s])
  have i: "valid_identity (generation_identity (derived_generation derived))"
    using ok by (simp add: pass_ok_def)
  show "case res of Inl f \<Rightarrow> db' = db \<and> truthful (Some r0) f
      | Inr x \<Rightarrow> commit_spec (co_store env) (generation_identity (derived_generation derived)) r0 db' x"
    if "now \<le> i64_max" "db_inv (co_store env) db"
      "abs_store (co_store env) db (generation_identity (derived_generation derived)) = Some r0"
      "confirm_tree (co_store env) fault request (derived_generation derived) p ps allowed now db = (res, db')"
    for now allowed fault db r0 res db'
    using confirm_tree_outcome [OF that(2) i that(3) that(1) ps that(4)] .
qed

section \<open>Rules for posting, admission and scans\<close>

lemma held_failures:
  assumes "holding env g r w"
  shows "failed env (generation_identity g) b (Panicked m) w"
    and "stored_durable_state r = s \<Longrightarrow>
      failed env (generation_identity g) b (Failed (with_durable_state k s text)) w"
    and "failed env (generation_identity g) b (Failed in_flight_poison_failure) w"
proof -
  obtain r0 where r0: "row env (generation_identity g) w = Some r0" "stored_durable_state r0 = stored_durable_state r"
    using assms by (rule holding_row)
  have good: "good env (generation_identity g) w"
    using assms by (simp add: holding_def settled_def)
  show "failed env (generation_identity g) b (Panicked m) w"
    using good r0 by (simp add: failed_def)
  show "failed env (generation_identity g) b (Failed (with_durable_state k s text)) w"
    if "stored_durable_state r = s"
    using good r0 that by (auto simp: failed_def with_durable_state_def truthful_def)
  show "failed env (generation_identity g) b (Failed in_flight_poison_failure) w"
    using good r0 by (simp add: failed_def in_flight_poison_failure_def)
qed

lemma refused_undispatched:
  assumes "refused env i w e w'" and "\<not> dispatched w" and "b \<Longrightarrow> row env i w \<noteq> None"
  shows "failed env i b e w'"
  using assms by (auto simp: refused_def failed_def dispatched_def)

text \<open>What a POST under a reservation leaves behind.\<close>

definition raced ::
  "'d coord_env \<Rightarrow> ChainSubmissionGeneration \<Rightarrow> StoredChainSubmission \<Rightarrow> 'd world \<Rightarrow>
   Interruption + PostAttemptOutcome \<Rightarrow> 'd world \<Rightarrow> bool" where
  "raced env g r w progress w' \<longleftrightarrow>
     (case progress of
        Inl reason \<Rightarrow> \<exists>t. w' = w\<lparr>world_tick := t\<rparr>
      | Inr out \<Rightarrow> outcome_ok out \<and> holding env g r w' \<and>
          (\<not> possibly_dispatched out \<longrightarrow> dispatched w' = dispatched w))"

lemma recorded:
  assumes w: "reserved_for env g r w" and out: "outcome_ok out"
    and k: "k = (ordinal r - 1) mod length (client_endpoints (co_client env))"
  shows "wp (seq (record_post env g k out) (\<lambda>x. ret (Inr x))) (ends E (raced env g r w)) w"
proof -
  obtain r0 where r0: "row env (generation_identity g) w = Some r0" "row_like r0 r"
    using w by (auto simp: reserved_for_def elim: holding_row)
  let ?e = "\<lparr>post_endpoint = k, post_generation = g, post_row = Some r0, post_outcome = out\<rparr>"
  let ?w = "w\<lparr>world_posts := world_posts w @ [?e]\<rparr>"
  have st: "stored_state r0 = Submitting \<or> (\<exists>d. stored_state r0 = Recovering None d)"
    using w r0(2) by (auto simp: reserved_for_def row_like_def reload_record_def)
  have "event_reserved env (generation_identity g) ?e"
    using w k st row_like_sel [OF r0(2)]
    by (auto simp: event_reserved_def reserved_for_def holding_def settled_def)
  then have "holding env g r ?w"
    using w r0 row_like_sel(5) [OF r0(2)]
    by (auto simp: reserved_for_def holding_def settled_def good_def backed_def event_ordinal_def sorted_wrt_append
        less_imp_le)
  moreover have "dispatched ?w = dispatched w" if "\<not> possibly_dispatched out"
    using that by (auto simp: dispatched_def)
  ultimately show ?thesis
    using out r0(1) by (simp add: wp_def seq_def record_post_def ret_def raced_def)
qed

lemma reserved_tick: "raced env g r (w\<lparr>world_tick := t\<rparr>) = raced env g r w"
proof (intro ext)
  fix progress w'
  have "(\<exists>s. w' = w\<lparr>world_tick := t\<rparr>\<lparr>world_tick := s\<rparr>) = (\<exists>s. w' = w\<lparr>world_tick := s\<rparr>)"
    by simp
  then show "raced env g r (w\<lparr>world_tick := t\<rparr>) progress w' = raced env g r w progress w'"
    by (auto simp: raced_def split: sum.splits)
qed

lemma tick_ex [simp]: "\<exists>s. w\<lparr>world_tick := t\<rparr> = w\<lparr>world_tick := s\<rparr>"
  by blast

lemma wp_submit_to_endpoint:
  assumes "holding env g r w" and "derived_generation derived = g"
  shows "wp (submit_to_endpoint env transport k derived) (ends (failed env (generation_identity g) b)
    (\<lambda>out w'. outcome_ok out \<and> w' = w)) w"
  using assms(2) held_failures(1) [OF assms(1)]
  by (auto simp: submit_to_endpoint_def Let_def submit_with_dispatch_ok
      split: ChainSubmissionRequest.split option.split ChainSubmissionTarget.split)

lemma wp_race_post:
  assumes w: "reserved_for env (derived_generation derived) r w"
  shows "wp (race_post env derived r) (ends (failed env (generation_identity (derived_generation derived)) b)
    (raced env (derived_generation derived) r w)) w"
proof -
  let ?g = "derived_generation derived"
  have held: "holding env ?g r (w\<lparr>world_tick := t\<rparr>)" for t
    using w by (simp add: reserved_for_def)
  note post = recorded [of env ?g r "w\<lparr>world_tick := t\<rparr>" for t, unfolded reserved_tick, OF _ _ refl, unfolded One_nat_def]
  show ?thesis
    unfolding race_post_def Let_def
    using w held_failures(1) [OF held [of "world_tick w"]]
    by (auto simp: ordinal_def [symmetric] raced_def [of env ?g r w "Inl reason" for reason] intro!: wp_sample post
        wp_bind [OF wp_submit_to_endpoint [OF held refl]]
        split: post_race.split)
qed

end
