(* ===== verification/Coordinator_Safety.thy ===== *)
theory Coordinator_Safety
  imports Coordinator_Steps
begin

text \<open>
  What a whole pass of the coordinator guarantees, whatever the network, the storage, the host and
  other passes do: every POST is made under its own durable reservation, a dispatch that may have
  reached the chain is never forgotten, and what the caller is told is what the database says.
\<close>

section \<open>How observations move the record\<close>

lemma row_like_state:
  assumes "row_like r0 r"
  shows "stored_state r = Submitting \<Longrightarrow> stored_state r0 = Submitting"
    and "stored_state r = Tracking h \<Longrightarrow> stored_state r0 = Tracking h"
    and "stored_state r = Recovering c d \<Longrightarrow> \<exists>d'. stored_state r0 = Recovering c d'"
  using assms by (auto simp: row_like_def reload_record_def)

lemma moved_Recovering:
  assumes "moved r ob r'" and "stored_state r = Recovering c d"
    and "ob \<in> {ContinueRecovery, DefinitelyUnsent, CandidatePending} \<or> (\<exists>x. ob = DefiniteRejection x)"
  shows "\<exists>d'. stored_state r' = Recovering c d'"
  using assms by (auto simp: moved_def apply_Recovering dest!: row_like_state(3))

lemma moved_Tracking:
  assumes "moved r CandidatePending r'" and "stored_state r = Tracking h"
  shows "stored_state r' = Tracking h"
  using assms by (auto simp: moved_def apply_Tracking dest!: row_like_state(2))

definition postable :: "SubmissionRecordState \<Rightarrow> bool" where
  "postable s \<longleftrightarrow> s = Submitting \<or> (\<exists>d. s = Recovering None d)"

lemma row_like_postable: "row_like r0 r \<Longrightarrow> postable (stored_state r) \<Longrightarrow> postable (stored_state r0)"
  by (auto simp: row_like_def reload_record_def postable_def)

lemma moved_postable:
  assumes "moved r ob r'" and "postable (stored_state r)"
    and "(\<exists>d. ob = PossiblyDispatched d) \<or> (\<exists>d. ob = DefiniteRejection d)"
  shows "\<exists>d. stored_state r' = Recovering None d"
  using assms
  by (auto simp: moved_def dest!: row_like_postable) (auto simp: postable_def apply_Recovering apply_Submitting)

section \<open>Scans and their ends\<close>

definition flow :: "('a \<Rightarrow> 'w \<Rightarrow> bool) \<Rightarrow> ('c \<Rightarrow> 'w \<Rightarrow> bool) \<Rightarrow> 'a + 'c \<Rightarrow> 'w \<Rightarrow> bool" where
  "flow Q R x w = (case x of Inl a \<Rightarrow> Q a w | Inr c \<Rightarrow> R c w)"

lemma flow_simps [simp]: "flow Q R (Inl a) w = Q a w" "flow Q R (Inr c) w = R c w"
  by (simp_all add: flow_def)

lemma wp_finish: "wp m (ends E Q) w \<Longrightarrow> wp (seq m (\<lambda>x. ret (Inl x))) (ends E (flow Q R)) w"
  by (erule wp_bind) simp

lemma wp_reconcile_fail:
  assumes ok: "pass_ok env (generation_identity g)" and w: "holding env g r w"
    and st: "stored_state r = Recovering c d" and e: "bounded_diagnostic e"
    and ob: "ob \<in> {ContinueRecovery, DefinitelyUnsent}"
  shows "wp (seq (reconcile_with_durable_state env g ob e DurableRecovering)
      (\<lambda>_. fail_with (with_durable_state k DurableRecovering text)))
    (ends (failed env (generation_identity g) b) Q) w"
proof -
  have v: "valid_observation ob" and s: "stored_durable_state r = DurableRecovering"
    using ob st by auto
  show ?thesis
    using moved_Recovering [OF _ st] ob
    by (intro wp_bind [OF wp_reconcile [OF ok w v e s]])
      (fastforce intro!: held_failures(2) [OF settled_holding])
qed

lemma wp_scan_tree:
  assumes ok: "pass_ok env (generation_identity (derived_generation derived))"
    and w: "holding env (derived_generation derived) r w" and st: "stored_state r = Recovering c d"
  shows "wp (scan_tree env derived h captured) (ends (failed env (generation_identity (derived_generation derived)) b)
    (\<lambda>scan w'. (\<exists>t. w' = w\<lparr>world_tick := t\<rparr>) \<and> (\<forall>p ps. scan = RecoveryMatch p ps \<longrightarrow> length ps < 2 ^ 32))) w"
proof -
  let ?g = "derived_generation derived"
  have held: "holding env ?g r (w\<lparr>world_tick := t\<rparr>)" for t
    using w by simp
  have bounded: "bounded_diagnostic (Some e)"
    if "scan_exact_layout x endpoints derived h i = Inl (ScanInvalid e)" for x endpoints i e
    using scan_exact_layout_errs [of x endpoints derived h i] that by (simp add: scan_ok_def)
  show ?thesis
    unfolding scan_tree_def
    by (rule wp_sample)
      (auto split: sum.split RecoveryScanFailure.split RecoveryScanOutcome.split
        dest: bounded scan_match_short intro!: wp_reconcile_fail [OF ok held st])
qed

lemma wp_end_hashless:
  assumes ok: "pass_ok env (generation_identity (derived_generation derived))"
    and w: "holding env (derived_generation derived) r w"
  shows "wp (end_hashless env derived) (ends (failed env (generation_identity (derived_generation derived)) b)
    (finished env (generation_identity (derived_generation derived)) b)) w"
  unfolding end_hashless_def
  by (rule wp_bind [OF wp_classify [OF ok w]]) (auto intro: wp_result_of)

lemma wp_settle:
  assumes ok: "pass_ok env (generation_identity (derived_generation derived))"
    and w: "holding env (derived_generation derived) r w" and st: "stored_state r = Recovering c d"
  shows "wp (settle_nullifier_spent_after_dispatch env request captured derived r recovery)
    (ends (failed env (generation_identity (derived_generation derived)) b)
      (finished env (generation_identity (derived_generation derived)) b)) w"
proof -
  have held: "holding env (derived_generation derived) r (w\<lparr>world_tick := t\<rparr>)" for t
    using w by simp
  have s: "stored_durable_state r = DurableRecovering"
    using st by simp
  show ?thesis
    unfolding settle_nullifier_spent_after_dispatch_def
    using wp_end_hashless [OF ok w] wp_end_hashless [OF ok held]
    by (auto intro!: wp_bind [OF wp_scan_tree [OF ok w st]] wp_confirm_by_tree [OF ok held s]
        wp_result_of [OF holding_settled [OF held]] split: RecoveryScan.split)
qed

section \<open>Recovery\<close>

abbreviation concludes ::
  "'d coord_env \<Rightarrow> DerivedChainSubmission \<Rightarrow> bool \<Rightarrow> coord_error + ChainSubmissionResult \<Rightarrow> 'd world \<Rightarrow> bool" where
  "concludes env derived b \<equiv> ends (failed env (generation_identity (derived_generation derived)) b)
     (finished env (generation_identity (derived_generation derived)) b)"

abbreviation decides ::
  "'d coord_env \<Rightarrow> DerivedChainSubmission \<Rightarrow> bool \<Rightarrow> ('c \<Rightarrow> 'd world \<Rightarrow> bool) \<Rightarrow>
   coord_error + (ChainSubmissionResult + 'c) \<Rightarrow> 'd world \<Rightarrow> bool" where
  "decides env derived b R \<equiv> ends (failed env (generation_identity (derived_generation derived)) b)
     (flow (finished env (generation_identity (derived_generation derived)) b) R)"

definition resume_ok :: "'d coord_env \<Rightarrow> DerivedChainSubmission \<Rightarrow> bool \<Rightarrow> 'd resume \<Rightarrow> bool" where
  "resume_ok env derived b resume \<longleftrightarrow>
     (\<forall>r w. reserved_for env (derived_generation derived) r w \<and> permits_ambiguous_retry (stored_state r) \<longrightarrow>
        wp (resume derived r) (concludes env derived b) w)"

definition ambiguous ::
  "'d coord_env \<Rightarrow> DerivedChainSubmission \<Rightarrow> StoredChainSubmission \<Rightarrow> 'd world \<Rightarrow> bool" where
  "ambiguous env derived r w \<longleftrightarrow>
     holding env (derived_generation derived) r w \<and> (\<exists>d. stored_state r = Recovering None d)"

lemma ambiguousI:
  "settled env (derived_generation derived) r w \<Longrightarrow> stored_state r = Recovering None d \<Longrightarrow> ambiguous env derived r w"
  by (auto simp: ambiguous_def intro: settled_holding)

lemma unusable_state: "returned_candidate_is_unusable r \<Longrightarrow> \<exists>d. stored_state r = Recovering None d"
  by (auto simp: returned_candidate_is_unusable_def split: SubmissionRecordState.splits option.splits)

lemma wp_recovery_retry_post:
  assumes ok: "pass_ok env (generation_identity (derived_generation derived))"
    and w: "reserved_for env (derived_generation derived) r w" and st: "stored_state r = Recovering None d"
  shows "wp (recovery_retry_post env request captured derived r recovery used)
    (decides env derived b (ambiguous env derived)) w"
proof -
  let ?g = "derived_generation derived"
  have held0: "holding env ?g r (w\<lparr>world_tick := t\<rparr>)" for t
    using w by (simp add: reserved_for_def)
  have post: "postable (stored_state r)"
    using st by (simp add: postable_def)
  have cont: "wp (if used + 1 = maximum_post_attempts (co_policy env)
        then seq (result_of r') (\<lambda>res. ret (Inl res)) else ret (Inr r'))
      (decides env derived b (ambiguous env derived)) w'"
    if "settled env ?g r' w'" "\<exists>d. stored_state r' = Recovering None d" for r' w'
    using that by (auto intro!: wp_finish wp_result_of intro: ambiguousI)
  show ?thesis
    unfolding recovery_retry_post_def Let_def
  proof (rule wp_bind [OF wp_race_post [OF w]], goal_cases)
    case (1 progress w')
    then consider (interrupted) reason t where "progress = Inl reason" "w' = w\<lparr>world_tick := t\<rparr>"
      | (posted) out where "progress = Inr out" "outcome_ok out" "holding env ?g r w'"
      by (auto simp: raced_def split: sum.splits)
    then show ?case
    proof cases
      case interrupted
      then show ?thesis
        using held0 by (auto intro!: wp_finish wp_result_of)
    next
      case posted
      note held = posted(3)
      show ?thesis
      proof (cases out)
        case (PostAccepted h)
        with posted have v: "valid_observation (UsableCandidateHash h)" by simp
        show ?thesis
          unfolding posted PostAccepted sum.case PostAttemptOutcome.case
          by (rule wp_bind [OF wp_classify [OF ok held v]])
            (use cont in \<open>auto intro!: wp_finish wp_result_of dest: unusable_state\<close>)
      next
        case (PostPossiblyDispatched e)
        with posted have v: "valid_observation (PossiblyDispatched e)" by simp
        show ?thesis
          unfolding posted PostPossiblyDispatched sum.case PostAttemptOutcome.case
          by (rule wp_bind [OF wp_classify [OF ok held v]])
            (use cont moved_postable [OF _ post] in blast)
      next
        case (PostRejected code kind e h)
        with posted have v: "valid_observation (DefiniteRejection e)" by simp
        have "wp (seq (classify_dispatched_post env ?g (DefiniteRejection e)) (\<lambda>r.
            fail_with (with_durable_state Protocol (stored_durable_state r) (lit (diagnostic_message e)))))
          (decides env derived b (ambiguous env derived)) w'"
          by (rule wp_bind [OF wp_classify [OF ok held v]])
            (use moved_postable [OF _ post] in \<open>fastforce intro!: held_failures(2) [OF settled_holding]\<close>)
        then show ?thesis
          unfolding posted PostRejected sum.case PostAttemptOutcome.case
          by (auto intro!: wp_finish wp_settle [OF ok held st])
      qed (use posted in \<open>auto intro!: wp_reconcile_fail [OF ok held st]\<close>)
    qed
  qed
qed

lemma wp_reserve_ambiguous_clocked:
  assumes ok: "pass_ok env (generation_identity g)" and w: "holding env g r w" and s: "stored_durable_state r = s"
  shows "wp (on_error (map_failure (attach_state s))
      (seq (now_seconds env) (\<lambda>now. seq (call_store env (\<lambda>fault. reserve_ambiguous_retry (co_store env) fault g now))
        (\<lambda>r. ret (Inr r)))))
    (ends (failed env (generation_identity g) b) (flow Q
      (\<lambda>r' w'. reserved_for env g r' w' \<and> permits_ambiguous_retry (stored_state r')))) w"
  unfolding on_error_seq on_error_ret
proof (rule wp_bind [OF wp_clock_held(2) [OF ok w s]], elim conjE exE)
  fix now w' t assume now: "now \<le> i64_max" and w': "w' = w\<lparr>world_tick := t\<rparr>"
  have held: "holding env g r w'"
    using w w' by simp
  show "wp (seq (on_error (map_failure (attach_state s))
      (call_store env (\<lambda>fault. reserve_ambiguous_retry (co_store env) fault g now))) (\<lambda>r. ret (Inr r)))
    (ends (failed env (generation_identity g) b) (flow Q
      (\<lambda>r' w'. reserved_for env g r' w' \<and> permits_ambiguous_retry (stored_state r')))) w'"
    by (rule wp_bind [OF wp_reserve_ambiguous [OF ok held now s]]) simp
qed

lemma wp_reserve_after_backoff:
  assumes ok: "pass_ok env (generation_identity (derived_generation derived))" and w: "ambiguous env derived r w"
  shows "wp (reserve_ambiguous_retry_after_backoff env delay (derived_generation derived) r)
    (ends (failed env (generation_identity (derived_generation derived)) b)
      (flow (ambiguous env derived)
        (\<lambda>r' w'. reserved_for env (derived_generation derived) r' w' \<and> permits_ambiguous_retry (stored_state r')))) w"
proof -
  let ?g = "derived_generation derived"
  have amb: "ambiguous env derived r (w\<lparr>world_tick := t\<rparr>)" and held: "holding env ?g r (w\<lparr>world_tick := t\<rparr>)" for t
    using w by (simp_all add: ambiguous_def)
  have store: "wp (on_error (map_failure (attach_state (stored_durable_state r)))
        (seq (now_seconds env) (\<lambda>now. seq (call_store env (\<lambda>fault. reserve_ambiguous_retry (co_store env) fault ?g now))
          (\<lambda>r. ret (Inr r)))))
      (ends (failed env (generation_identity ?g) b) (flow (ambiguous env derived)
        (\<lambda>r' w'. reserved_for env ?g r' w' \<and> permits_ambiguous_retry (stored_state r')))) (w\<lparr>world_tick := t\<rparr>)" for t
    by (rule wp_reserve_ambiguous_clocked [OF ok held refl])
  show ?thesis
    unfolding reserve_ambiguous_retry_after_backoff_def
    by (rule wp_wait_backoff) (use amb store in \<open>auto split: option.split\<close>)
qed

lemma wp_submit_recovery_retry:
  assumes ok: "pass_ok env (generation_identity (derived_generation derived))"
    and resume: "resume_ok env derived b resume"
    and w: "reserved_for env (derived_generation derived) r w" and st: "stored_state r = Recovering None d"
  shows "wp (submit_recovery_retry env resume request captured derived r recovery used)
    (concludes env derived b) w"
proof -
  let ?g = "derived_generation derived"
  have held: "holding env ?g r (w\<lparr>world_registry := x, world_tick := t\<rparr>)"
    and res: "reserved_for env ?g r (w\<lparr>world_registry := x, world_tick := t\<rparr>)" for x t
    using w by (simp_all add: reserved_for_def)
  have held0: "holding env ?g r (w\<lparr>world_tick := t\<rparr>)" for t
    using w by (simp add: reserved_for_def)
  have again: "wp (seq (interruption env captured) (\<lambda>interrupted.
         if interrupted \<noteq> None then result_of r'
         else
         seq (backoff env used) (\<lambda>delay.
         seq (reserve_ambiguous_retry_after_backoff env delay ?g r')
           (\<lambda>reservation. case reservation of Inl r \<Rightarrow> result_of r | Inr r \<Rightarrow> resume derived r))))
      (concludes env derived b) w'" if "ambiguous env derived r' w'" for r' w'
  proof -
    have amb: "ambiguous env derived r' (w'\<lparr>world_tick := t\<rparr>)"
      and h: "holding env ?g r' (w'\<lparr>world_tick := t\<rparr>)" for t
      using that by (simp_all add: ambiguous_def)
    show ?thesis
      using resume
      by (auto simp: ambiguous_def resume_ok_def intro!: wp_interruption wp_backoff held_failures(1) [OF h]
          wp_result_of holding_settled [OF h] wp_bind [OF wp_reserve_after_backoff [OF ok amb]] split: sum.split)
  qed
  have guarded: "wp (and_drop (drop_guard env key) (recovery_retry_post env request captured derived r recovery used))
      (decides env derived b (ambiguous env derived)) (w\<lparr>world_registry := x, world_tick := t\<rparr>)" for key x t
    by (rule wp_drop_guard [OF wp_recovery_retry_post [OF ok res st]])
      (auto simp: ambiguous_def flow_def split: sum.splits)
  have register: "wp (on_error (map_failure (with_state DurableRecovering)) (register_guard env (generation_identity ?g)))
      (ends (failed env (generation_identity ?g) b) (\<lambda>key w'. \<exists>x t. w' = w\<lparr>world_registry := x, world_tick := t\<rparr>))
      (w\<lparr>world_tick := t\<rparr>)" for t
    unfolding wp_on_error
    by (rule wp_register_guard) (use held st in \<open>auto simp: with_state_def intro!: held_failures(2)\<close>)
  show ?thesis
    unfolding submit_recovery_retry_def
  proof (rule wp_interruption, goal_cases)
    case (1 interrupted t)
    show ?case
    proof (cases "interrupted = None")
      case True
      then show ?thesis
        by (simp del: not_None_eq) (rule wp_bind [OF register],
            auto intro!: wp_bind [OF guarded] again split: sum.split simp del: not_None_eq)
    qed (use wp_result_of [OF holding_settled [OF held0]] in auto)
  qed
qed

lemma wp_wait_before_retry:
  assumes "E (Panicked ''index out of bounds'') w" and "\<And>x t. wp (f x) (ends E Q) (w\<lparr>world_tick := t\<rparr>)"
  shows "wp (seq (wait_before_retry env used) f) (ends E Q) w"
  using assms(2) [of None "world_tick w"] assms
  by (auto simp: wait_before_retry_def seq_assoc intro!: wp_backoff wp_wait_backoff simp: wp_seq [of "ret None"] wp_ret)

lemma wp_recover_if_enabled:
  assumes ok: "pass_ok env (generation_identity (derived_generation derived))"
    and resume: "resume_ok env derived b resume"
    and req: "request_identity request = generation_identity (derived_generation derived)"
    and w: "settled env (derived_generation derived) r w"
  shows "wp (recover_if_enabled env resume request captured derived r recovery used) (concludes env derived b) w"
proof (cases "\<exists>c d. stored_state r = Recovering c d")
  case True
  let ?g = "derived_generation derived"
  obtain c d where st: "stored_state r = Recovering c d" using True by blast
  then have held: "holding env ?g r (w\<lparr>world_tick := t\<rparr>)" and s: "stored_durable_state r = DurableRecovering" for t
    using w by (auto intro!: settled_holding)
  note unchanged = wp_result_of [OF holding_settled [OF held]]
  have reserve: "wp (seq (on_error (map_failure (with_state DurableRecovering)) (now_seconds env)) (\<lambda>now.
      seq (on_error (map_failure (attach_state s'))
        (call_store env (\<lambda>fault. reserve_recovery_retry (co_store env) fault request a now))) (\<lambda>reserved.
          submit_recovery_retry env resume request captured derived reserved recovery used)))
      (concludes env derived b) (w\<lparr>world_tick := t\<rparr>)" if "stored_durable_state r = s'" for a t s'
    by (rule wp_bind [OF wp_clock_held(1) [OF ok held s]])
      (auto intro!: wp_bind [OF wp_reserve_recovery [OF ok held _ that req]] wp_submit_recovery_retry [OF ok resume])
  show ?thesis
    unfolding recover_if_enabled_def st SubmissionRecordState.case
    using wp_result_of [OF w] unchanged wp_confirm_by_tree [OF ok held s] held_failures(1) [OF held]
    by (auto intro!: wp_interruption wp_wait_before_retry reserve wp_bind [OF wp_scan_tree [OF ok held st]]
        simp: s split: RecoveryScan.split)
qed (use wp_result_of [OF w] in \<open>auto simp: recover_if_enabled_def split: SubmissionRecordState.split\<close>)

section \<open>Reconciliation\<close>

lemma wp_lookup:
  assumes "\<And>progress t. (\<And>f. progress = LookupFailed f \<Longrightarrow> lookup_ok f) \<Longrightarrow> wp (f progress) R (w\<lparr>world_tick := t\<rparr>)"
  shows "wp (seq (lookup_or_interruption env h) f) R w"
proof -
  have "lookup_ok e" if "transaction_status codecs json get client h = Inl e" for codecs json get client e
    using transaction_status_errs [of codecs json get client h] that by simp
  then show ?thesis
    unfolding lookup_or_interruption_def seq_assoc
    by (intro wp_sample) (auto simp: wp_seq [of "ret x" for x] wp_ret intro!: assms split: option.splits sum.splits)
qed

lemma wp_seq_fail_with: "wp (seq (fail_with e) f) (ends E Q) w = E (Failed e) w"
  by (simp add: wp_seq fail_with_def wp_raise)

lemma wp_tracking_expired_at:
  assumes w: "holding env g r w" and f: "\<And>x. wp (f x) (ends (failed env (generation_identity g) b) Q) w"
  shows "wp (seq (tracking_expired_at env r now) f) (ends (failed env (generation_identity g) b) Q) w"
  unfolding tracking_expired_at_def
  using f held_failures(2) [OF w refl]
  by (auto simp: wp_seq [of "ret x" for x] wp_ret wp_seq_fail_with split: option.split)

lemma wp_tracking_expired:
  assumes ok: "pass_ok env (generation_identity g)" and w: "holding env g r w"
    and f: "\<And>x t. wp (f x) (ends (failed env (generation_identity g) b) Q) (w\<lparr>world_tick := t\<rparr>)"
  shows "wp (seq (tracking_expired env r) f) (ends (failed env (generation_identity g) b) Q) w"
  unfolding tracking_expired_def seq_assoc
  using w f by (intro wp_bind [OF wp_clock_held(1) [OF ok w refl]]) (auto intro!: wp_tracking_expired_at)

lemma wp_finish_tracking:
  assumes ok: "pass_ok env (generation_identity (derived_generation derived))"
    and w: "holding env (derived_generation derived) r w" and e: "bounded_diagnostic e"
  shows "wp (finish_inconclusive_tracking env derived r e)
    (ends (failed env (generation_identity (derived_generation derived)) b) (settled env (derived_generation derived))) w"
proof -
  have held: "holding env (derived_generation derived) r (w\<lparr>world_tick := t\<rparr>)" for t
    using w by simp
  show ?thesis
    unfolding finish_inconclusive_tracking_def Let_def
    using e
    by (intro wp_bind [OF wp_clock_held(1) [OF ok w refl]])
      (auto intro!: wp_tracking_expired_at held wp_post [OF wp_reconcile [OF ok held]])
qed

lemma wp_reconcile_settled:
  assumes ok: "pass_ok env (generation_identity g)" and w: "holding env g r w"
    and ob: "valid_observation ob" "bounded_diagnostic e" and s: "stored_durable_state r = s"
    and f: "\<And>r' w'. settled env g r' w' \<Longrightarrow> wp (f r') (ends (failed env (generation_identity g) b) Q) w'"
  shows "wp (seq (reconcile_with_durable_state env g ob e s) f) (ends (failed env (generation_identity g) b) Q) w"
  by (rule wp_bind [OF wp_reconcile [OF ok w ob s]]) (use f in auto)

lemma wp_reconcile_tracking:
  assumes ok: "pass_ok env (generation_identity (derived_generation derived))"
    and resume: "resume_ok env derived b resume"
    and req: "request_identity request = generation_identity (derived_generation derived)"
    and w: "holding env (derived_generation derived) r w" and st: "stored_state r = Tracking h"
  shows "wp (reconcile_tracking env resume request captured derived r recovery used h) (concludes env derived b) w"
proof -
  let ?g = "derived_generation derived"
  have held: "holding env ?g r (w\<lparr>world_tick := t\<rparr>)" and s: "stored_durable_state r = DurableTracking"
    and c: "candidate_of (stored_state r) = Some h" for t
    using w st by simp_all
  note unchanged = wp_result_of [OF holding_settled [OF held]] wp_result_of [OF holding_settled [OF w]]
  note recover = wp_recover_if_enabled [OF ok resume req]
  have pending: "wp (seq (reconcile_with_durable_state env ?g CandidatePending (Some (lookup_diagnostic f)) DurableTracking)
      (\<lambda>_. fail_with (lookup_failure f DurableTracking))) (concludes env derived b) (w\<lparr>world_tick := t\<rparr>)"
    if "lookup_ok f" for f t
    using moved_Tracking [OF _ st] lookup_diagnostic_bounded [OF that]
    by (intro wp_bind [OF wp_reconcile [OF ok held _ _ s]])
      (cases f; fastforce intro!: held_failures(2) [OF settled_holding])+
  have failed_lookup: "wp (seq (tracking_expired env r) (\<lambda>expired.
      if expired then seq (finish_inconclusive_tracking env derived r (Some (lookup_diagnostic f))) (\<lambda>r.
        recover_if_enabled env resume request captured derived r recovery used)
      else seq (reconcile_with_durable_state env ?g CandidatePending (Some (lookup_diagnostic f)) DurableTracking)
        (\<lambda>_. fail_with (lookup_failure f DurableTracking)))) (concludes env derived b) (w\<lparr>world_tick := t\<rparr>)"
    if "lookup_ok f" for f t
    using pending [OF that] lookup_diagnostic_bounded [OF that]
    by (auto intro!: wp_tracking_expired [OF ok held] wp_bind [OF wp_finish_tracking [OF ok held]] recover)
  show ?thesis
    unfolding reconcile_tracking_def Let_def
    using unchanged
    by (auto intro!: wp_interruption wp_lookup failed_lookup wp_reconcile_settled [OF ok held _ _ s] wp_result_of wp_bind [OF wp_finish_tracking [OF ok held]] recover
        wp_confirm_by_hash [OF ok held s c]
        split: LookupProgress.split TransactionStatusObservation.split simp del: not_None_eq)
qed

lemma wp_reconcile_candidate:
  assumes ok: "pass_ok env (generation_identity (derived_generation derived))"
    and resume: "resume_ok env derived b resume"
    and req: "request_identity request = generation_identity (derived_generation derived)"
    and w: "holding env (derived_generation derived) r w" and st: "stored_state r = Recovering (Some h) d"
  shows "wp (reconcile_candidate env resume request captured derived r recovery used h) (concludes env derived b) w"
proof -
  let ?g = "derived_generation derived"
  have held: "holding env ?g r (w\<lparr>world_tick := t\<rparr>)" and s: "stored_durable_state r = DurableRecovering"
    and c: "candidate_of (stored_state r) = Some h" for t
    using w st by simp_all
  note unchanged = wp_result_of [OF holding_settled [OF held]] wp_result_of [OF holding_settled [OF w]]
  note recover = wp_recover_if_enabled [OF ok resume req]
  show ?thesis
    unfolding reconcile_candidate_def Let_def
    using unchanged lookup_diagnostic_bounded
    by (auto intro!: wp_interruption wp_lookup wp_reconcile_settled [OF ok held _ _ s] recover wp_result_of
        wp_confirm_by_hash [OF ok held s c]
        split: LookupProgress.split TransactionStatusObservation.split simp del: not_None_eq)
qed

lemma wp_reconcile_existing:
  assumes ok: "pass_ok env (generation_identity (derived_generation derived))"
    and resume: "resume_ok env derived b resume"
    and req: "request_identity request = generation_identity (derived_generation derived)"
    and w: "settled env (derived_generation derived) r w"
  shows "wp (reconcile_existing env resume request captured derived r recovery used) (concludes env derived b) w"
  unfolding reconcile_existing_def
  using wp_result_of [OF w] wp_recover_if_enabled [OF ok resume req w] settled_holding [OF w]
  by (auto split: SubmissionRecordState.split option.split
      intro!: wp_reconcile_tracking [OF ok resume req] wp_reconcile_candidate [OF ok resume req])

section \<open>One attempt\<close>

definition posted ::
  "'d coord_env \<Rightarrow> ChainSubmissionGeneration \<Rightarrow> bool \<Rightarrow> nat \<Rightarrow> StoredChainSubmission \<Rightarrow> bool \<Rightarrow>
   PostAttemptOutcome \<Rightarrow> 'd world \<Rightarrow> bool" where
  "posted env g b k r seen out w \<longleftrightarrow>
     outcome_ok out \<and> holding env g r w \<and>
     (if seen then \<exists>d. stored_state r = Recovering None d
      else stored_state r = Submitting \<and> (\<not> possibly_dispatched out \<longrightarrow> lone env g b (Suc k) r w))"

definition undecided ::
  "'d coord_env \<Rightarrow> DerivedChainSubmission \<Rightarrow> bool \<Rightarrow> nat \<Rightarrow> StoredChainSubmission \<times> bool \<Rightarrow> 'd world \<Rightarrow> bool" where
  "undecided env derived b k x w \<longleftrightarrow>
     (if snd x then ambiguous env derived (fst x) w
      else vacant env (generation_identity (derived_generation derived)) b (Suc k) w \<and>
        k + 1 \<noteq> maximum_post_attempts (co_policy env))"

lemma vacant_failed:
  assumes "vacant env i b k w" and "strongest_state f = None"
  shows "failed env i b (Failed f) w"
  using assms by (simp add: vacant_def failed_def truthful_def)

lemma wp_handle_rejection:
  assumes ok: "pass_ok env (generation_identity (derived_generation derived))"
    and w: "posted env (derived_generation derived) b k r seen (PostRejected code kind d h) w"
  shows "wp (handle_post_outcome env resume request captured recovery k derived r seen (PostRejected code kind d h))
    (decides env derived b (undecided env derived b k)) w"
proof -
  let ?g = "derived_generation derived"
  have held: "holding env ?g r w" and v: "valid_observation (DefiniteRejection d)" "valid_observation (TerminalRejection d)"
    and p: "postable (stored_state r)"
    using w by (auto simp: posted_def postable_def split: if_splits)
  have fails: "wp (seq (classify_dispatched_post env ?g (DefiniteRejection d)) (\<lambda>r'.
      fail_with (with_durable_state Protocol (stored_durable_state r') (lit (diagnostic_message d)))))
    (decides env derived b (undecided env derived b k)) w"
    by (rule wp_bind [OF wp_classify [OF ok held v(1)]])
      (use moved_postable [OF _ p] in \<open>fastforce intro!: held_failures(2) [OF settled_holding]\<close>)
  have ends_pass: "wp (seq (classify_dispatched_post env ?g ob) (\<lambda>r. seq (result_of r) (\<lambda>res. ret (Inl res))))
    (decides env derived b (undecided env derived b k)) w" if "valid_observation ob" for ob
    by (rule wp_bind [OF wp_classify [OF ok held that]]) (auto intro!: wp_finish wp_result_of)
  show ?thesis
  proof (cases seen)
    case True
    then obtain e where "stored_state r = Recovering None e"
      using w by (auto simp: posted_def)
    with True fails show ?thesis
      unfolding handle_post_outcome_def Let_def
      by (auto intro!: wp_finish wp_settle [OF ok held])
  qed (use ends_pass v in \<open>auto simp: handle_post_outcome_def Let_def\<close>)
qed

lemma wp_handle_unsent:
  assumes ok: "pass_ok env (generation_identity (derived_generation derived))"
    and w: "posted env (derived_generation derived) b k r seen out w"
    and out: "(\<exists>d. out = PostLocalFailure d) \<or> (\<exists>e. out = PostDefinitelyUnsent e)"
  shows "wp (handle_post_outcome env resume request captured recovery k derived r seen out)
    (decides env derived b (undecided env derived b k)) w"
proof (cases seen)
  case True
  then obtain d where held: "holding env (derived_generation derived) r w" and st: "stored_state r = Recovering None d"
    using w by (auto simp: posted_def)
  have s: "stored_durable_state r = DurableRecovering"
    using st by simp
  have unsent: "wp (seq (reconcile_with_durable_state env (derived_generation derived) DefinitelyUnsent
        (Some (from_redacted_message ReconciliationPending t)) DurableRecovering) (\<lambda>r.
      if final then fail_with (with_durable_state Transport DurableRecovering m) else ret (Inr (r, True))))
    (decides env derived b (undecided env derived b k)) w" for t final m
  proof (rule wp_bind [OF wp_reconcile [OF ok held _ _ s]], goal_cases)
    case (3 r' w')
    then obtain d' where st': "stored_state r' = Recovering None d'"
      using moved_Recovering [OF _ st] by blast
    then have "holding env (derived_generation derived) r' w'"
      using 3 by (intro settled_holding) simp_all
    from held_failures(2) [OF this] ambiguousI [OF _ st'] 3 st' show ?case
      by (auto simp: undecided_def)
  qed simp_all
  show ?thesis
    using out True unsent held_failures(2) [OF held s]
    by (auto simp: handle_post_outcome_def Let_def)
next
  case False
  then have lone: "lone env (derived_generation derived) b (Suc k) r w"
    using w out by (auto simp: posted_def)
  show ?thesis
    using out False
    by (auto simp: handle_post_outcome_def Let_def without_state_def undecided_def
        intro!: wp_bind [OF wp_release [OF ok lone]] vacant_failed)
qed

lemma wp_handle_post_outcome:
  assumes ok: "pass_ok env (generation_identity (derived_generation derived))"
    and resume: "resume_ok env derived b resume"
    and req: "request_identity request = generation_identity (derived_generation derived)"
    and w: "posted env (derived_generation derived) b k r seen out w"
  shows "wp (handle_post_outcome env resume request captured recovery k derived r seen out)
    (decides env derived b (undecided env derived b k)) w"
proof -
  let ?g = "derived_generation derived"
  have held: "holding env ?g r w" and p: "postable (stored_state r)"
    using w by (auto simp: posted_def postable_def split: if_splits)
  show ?thesis
  proof (cases out)
    case (PostAccepted h)
    with w have v: "valid_observation (UsableCandidateHash h)"
      by (simp add: posted_def)
    show ?thesis
      unfolding PostAccepted handle_post_outcome_def Let_def PostAttemptOutcome.case
      by (rule wp_bind [OF wp_classify [OF ok held v]])
        (auto simp: undecided_def intro!: wp_finish wp_reconcile_existing [OF ok resume req]
          dest!: unusable_state intro: ambiguousI)
  next
    case (PostPossiblyDispatched d)
    with w have v: "valid_observation (PossiblyDispatched d)"
      by (simp add: posted_def)
    show ?thesis
      unfolding PostPossiblyDispatched handle_post_outcome_def Let_def PostAttemptOutcome.case
    proof (rule wp_bind [OF wp_classify [OF ok held v]], goal_cases)
      case (1 r' w')
      then obtain d' where st': "stored_state r' = Recovering None d'"
        using moved_postable [OF _ p] by blast
      then have "ambiguous env derived r' w'"
        using 1 ambiguousI by blast
      with 1 show ?case
        by (auto simp: undecided_def ambiguous_def intro!: wp_interruption wp_finish wp_result_of)
    qed
  qed (use w wp_handle_rejection [OF ok] wp_handle_unsent [OF ok w] in auto)
qed

section \<open>The attempt loop\<close>

lemma row_identity:
  assumes ok: "pass_ok env i" and w: "good env i w" and r: "row env i w = Some r"
  shows "stored_identity r = i"
proof -
  have inv: "db_inv (co_store env) (world_db w)" and i: "valid_identity i"
    using w ok by (simp_all add: good_def pass_ok_def)
  show ?thesis
    using loaded_wf(2) [OF inv i] abs_store_load [OF inv i] r by simp
qed

text \<open>What an admission tells the pass.\<close>

definition admitted ::
  "'d coord_env \<Rightarrow> ChainSubmissionIdentity \<Rightarrow> bool \<Rightarrow> u64 \<Rightarrow> 'd world \<Rightarrow> StoreAdmission \<Rightarrow> 'd world \<Rightarrow> bool" where
  "admitted env i allowed n w admission w' \<longleftrightarrow>
     good env i w' \<and> world_posts w' = world_posts w \<and>
     (\<exists>now. admission_spec allowed n now admission (row env i w) (row env i w')) \<and>
     (\<forall>d r fresh. admission = Ready d r fresh \<longrightarrow>
        generation_identity (derived_generation d) = i \<and>
        stored_digest r = generation_digest (derived_generation d))"

lemma wp_admit:
  assumes ok: "pass_ok env (request_identity request)" and w: "good env (request_identity request) w"
    and n: "n \<le> i64_max" and b: "\<not> dispatched w" "b \<Longrightarrow> row env (request_identity request) w \<noteq> None"
    and f: "\<And>admission w'. admitted env (request_identity request) allowed n w admission w' \<Longrightarrow>
      wp (f admission) (ends (failed env (request_identity request) b) Q) w'"
  shows "wp (seq (now_seconds env) (\<lambda>now.
      seq (call_store env (\<lambda>fault. admit (co_store env) fault request allowed n now)) f))
    (ends (failed env (request_identity request) b) Q) w"
proof -
  let ?i = "request_identity request"
  let ?P = "\<lambda>admission x. (\<exists>now. admission_spec allowed n now admission (row env ?i w) x) \<and>
     (\<forall>d r fresh. admission = Ready d r fresh \<longrightarrow>
        generation_identity (derived_generation d) = ?i \<and>
        stored_digest r = generation_digest (derived_generation d))"
  have i: "valid_identity ?i" and env: "derivation_ok (co_store env)"
    using ok by (simp_all add: pass_ok_def)
  have op: "case res of Inl f \<Rightarrow> db' = db \<and> truthful (row env ?i w) f
      | Inr x \<Rightarrow> db_inv (co_store env) db' \<and> ?P x (abs_store (co_store env) db' ?i)"
    if "now \<le> i64_max" "db_inv (co_store env) db" "abs_store (co_store env) db ?i = row env ?i w"
      "admit (co_store env) fault request allowed n now db = (res, db')" for now fault db res db'
    using admit_outcome [OF env that(2) i that(1) n that(4)] that(3)
    by (cases res) auto
  have refusal: "failed env ?i b e w'" if "refused env ?i w e w'" for e w'
    by (rule refused_undispatched [OF that]) (use b in auto)
  have "wp (seq (seq (now_seconds env) (\<lambda>now. call_store env (\<lambda>fault. admit (co_store env) fault request allowed n now))) f)
      (ends (failed env ?i b) Q) w"
    by (rule wp_bind [OF wp_weaken [OF wp_clocked_call [OF ok w, where Q = ?P, OF op]]])
      (use f refusal in \<open>auto simp: admitted_def\<close>)
  then show ?thesis
    by (simp add: seq_assoc)
qed

lemma fresh_armed:
  assumes w: "vacant env i b k w" and adm: "admitted env i True n w (Ready d r True) w'"
    and n: "unat n = Suc k"
  shows "armed env (derived_generation d) b k r False w'" and "settled env (derived_generation d) r w'"
proof -
  obtain now where r: "r = fresh_record (derived_generation d) n now" "row env i w' = Some r"
    using adm by (auto simp: admitted_def)
  have ident: "generation_identity (derived_generation d) = i"
    using adm by (auto simp: admitted_def)
  have same: "world_posts w' = world_posts w" "good env i w'"
    using adm by (simp_all add: admitted_def)
  have fresh: "stored_state r = Submitting" "ordinal r = Suc k" "stored_identity r = i"
    "stored_digest r = generation_digest (derived_generation d)"
    using r(1) n ident by (simp_all add: fresh_record_def ordinal_def)
  have below: "\<forall>e \<in> set (world_posts w'). event_ordinal e \<le> k" and idle: "\<not> b" "\<not> dispatched w'"
    using w same by (auto simp: vacant_def dispatched_def)
  show settled: "settled env (derived_generation d) r w'"
    using same fresh ident r(2) below by (auto simp: settled_def backed_def row_like_def)
  show "armed env (derived_generation d) b k r False w'"
    using settled fresh below idle r(2) ident
    by (simp add: armed_def reserved_for_def lone_def holding_def less_Suc_eq_le)
qed

lemma wp_interrupted_vacant:
  assumes "vacant env i b k w"
  shows "wp (interrupted_without_state reason) (ends (failed env i b) (finished env i b)) w"
  using assms vacant_failed [OF assms]
  by (cases reason) (auto simp: finished_def vacant_def without_state_def)

definition next_armed ::
  "'d coord_env \<Rightarrow> DerivedChainSubmission \<Rightarrow> bool \<Rightarrow> nat \<Rightarrow>
   DerivedChainSubmission \<times> StoredChainSubmission \<times> bool \<Rightarrow> 'd world \<Rightarrow> bool" where
  "next_armed env derived b k x w \<longleftrightarrow>
     derived_generation (fst x) = derived_generation derived \<and>
     armed env (derived_generation derived) b k (fst (snd x)) (snd (snd x)) w"

lemma wp_readmission:
  assumes ok: "pass_ok env (generation_identity (derived_generation derived))"
    and req: "request_identity request = generation_identity (derived_generation derived)"
    and k: "k < maximum_post_attempts (co_policy env)"
    and w: "vacant env (generation_identity (derived_generation derived)) b (Suc k) w"
  shows "wp (seq (now_seconds env) (\<lambda>now.
      seq (call_store env (\<lambda>fault. admit (co_store env) fault request True (word_of_nat (k + 2)) now)) (\<lambda>admission.
      case admission of
        Ready retry r fresh \<Rightarrow>
          if fresh \<and> derived_generation retry = derived_generation derived
          then ret (Inr (retry, r, False)) else seq (result_of r) (\<lambda>res. ret (Inl res))
      | Authoritative r \<Rightarrow> seq (result_of r) (\<lambda>res. ret (Inl res))
      | NoAuthoritativeState \<Rightarrow> fail_with (without_state InvariantViolation
          (lit ''definitely-unsent retry did not reserve the same generation'')))))
    (decides env derived b (next_armed env derived b (Suc k))) w"
proof -
  let ?i = "generation_identity (derived_generation derived)"
  let ?n = "word_of_nat (k + 2) :: u64"
  have "k + 2 \<le> 9"
    using ok k by (simp add: pass_ok_def)
  then have "unat ?n = k + 2"
    by (subst unat_of_nat) simp
  then have n: "unat ?n = Suc (Suc k)" "?n \<le> i64_max"
    using \<open>k + 2 \<le> 9\<close> by (simp_all only: word_le_nat_alt) simp_all
  have ok': "pass_ok env (request_identity request)"
    using ok req by simp
  have start: "good env (request_identity request) w" "\<not> dispatched w" "b \<Longrightarrow> row env (request_identity request) w \<noteq> None"
    "row env ?i w = None"
    using w req by (auto simp: vacant_def)
  show ?thesis
    unfolding req [symmetric]
  proof (rule wp_admit [OF ok' start(1) n(2) start(2,3)], assumption, goal_cases)
    case (1 admission w')
    then have adm: "admitted env ?i True ?n w admission w'"
      using req by simp
    show ?case
    proof (cases admission)
      case (Ready d r fresh)
      have good: "good env ?i w'" and row: "row env ?i w' = Some r"
        using adm Ready by (cases fresh; auto simp: admitted_def)+
      have backed: "wp (result_of r) (concludes env derived b) w'"
        by (rule wp_result_backed [OF good row_identity [OF ok good row]])
          (use row in \<open>simp add: backed_def row_like_def\<close>)
      have "armed env (derived_generation d) b (Suc k) r False w'" if fresh
        using fresh_armed(1) [OF w _ n(1)] adm Ready that by simp
      then show ?thesis
        using backed Ready req by (auto simp: next_armed_def intro!: wp_finish)
    qed (use adm start(4) in \<open>auto simp: admitted_def\<close>)
  qed
qed

lemma permitted_armed:
  assumes "reserved_for env g r w" and "permits_ambiguous_retry (stored_state r)"
  shows "armed env g b k r True w"
  using assms by (auto simp: armed_def elim: permits_ambiguous_retry_Recovering)

lemma wp_reserve_next_attempt:
  assumes ok: "pass_ok env (generation_identity (derived_generation derived))"
    and req: "request_identity request = generation_identity (derived_generation derived)"
    and k: "k < maximum_post_attempts (co_policy env)" and w: "undecided env derived b k (r, seen) w"
  shows "wp (reserve_next_attempt env request k derived r seen)
    (decides env derived b (next_armed env derived b (Suc k))) w"
proof (cases seen)
  case True
  then have amb: "ambiguous env derived r w"
    using w by (simp add: undecided_def)
  then have held: "holding env (derived_generation derived) r w"
    by (simp add: ambiguous_def)
  show ?thesis
    unfolding reserve_next_attempt_def Let_def
    using True held
    by (auto simp: next_armed_def ambiguous_def intro!: wp_finish wp_result_of wp_backoff held_failures(1)
        wp_bind [OF wp_reserve_after_backoff [OF ok amb]] permitted_armed split: sum.split)
next
  case False
  let ?i = "generation_identity (derived_generation derived)"
  have v: "vacant env ?i b (Suc k) w" "k + 1 \<noteq> maximum_post_attempts (co_policy env)"
    using w False by (simp_all add: undecided_def)
  then have tick: "vacant env ?i b (Suc k) (w\<lparr>world_tick := t\<rparr>)" for t
    by simp
  have "failed env ?i b (Panicked m) w" for m
    using v(1) by (simp add: vacant_def failed_def)
  then show ?thesis
    unfolding reserve_next_attempt_def Let_def
    using False v(2)
    by (auto intro!: wp_backoff wp_wait_backoff wp_finish wp_interrupted_vacant [OF tick]
        wp_readmission [OF ok req k tick, simplified] split: option.split)
qed

lemma raced_posted:
  assumes w: "armed env g b k r seen w" and race: "raced env g r w (Inr out) w'"
  shows "posted env g b k r seen out w'"
  using assms by (auto simp: raced_def posted_def armed_def lone_def)

lemma wp_give_up:
  assumes ok: "pass_ok env (generation_identity (derived_generation derived))"
    and w: "armed env (derived_generation derived) b k r seen w"
  shows "wp (if seen then seq (result_of r) (\<lambda>res. ret (Inl res))
      else seq (release_fresh_reservation env (derived_generation derived)) (\<lambda>_.
        seq (interrupted_without_state reason) (\<lambda>res. ret (Inl res))))
    (decides env derived b R) w"
  using w
  by (auto simp: armed_def reserved_for_def intro!: wp_finish wp_result_of wp_bind [OF wp_release [OF ok]]
      wp_interrupted_vacant)

lemma wp_attempt_once:
  assumes ok: "pass_ok env (generation_identity (derived_generation derived))"
    and resume: "resume_ok env derived b resume"
    and req: "request_identity request = generation_identity (derived_generation derived)"
    and k: "k < maximum_post_attempts (co_policy env)"
    and w: "armed env (derived_generation derived) b k r seen w"
  shows "wp (attempt_once env resume request captured recovery k derived r seen)
    (decides env derived b (next_armed env derived b (Suc k))) w"
proof -
  let ?g = "derived_generation derived"
  let ?E = "failed env (generation_identity ?g) b"
  have armed: "armed env ?g b k r seen (w\<lparr>world_tick := t\<rparr>)" 
    "armed env ?g b k r seen (w\<lparr>world_registry := x, world_tick := t\<rparr>)" for x t
    using w by simp_all
  note give_up = wp_give_up [OF ok]
  have poisoned: "wp (if seen then raise (Failed in_flight_poison_failure)
      else seq (release_fresh_reservation env ?g) (\<lambda>_. raise (Failed in_flight_poison_failure)))
    (decides env derived b (next_armed env derived b (Suc k))) w'" if "armed env ?g b k r seen w'" for w'
  proof (cases seen)
    case True
    then show ?thesis
      using that by (auto simp: armed_def reserved_for_def wp_raise intro: held_failures(3))
  next
    case False
    then have "lone env ?g b (Suc k) r w'"
      using that by (simp add: armed_def)
    with False show ?thesis
      by (auto simp: wp_raise in_flight_poison_failure_def without_state_def
          intro!: wp_bind [OF wp_release [OF ok]] vacant_failed)
  qed
  have body: "wp (seq (race_post env derived r) (\<lambda>progress.
      case progress of
        Inl reason \<Rightarrow> if seen then seq (result_of r) (\<lambda>res. ret (Inl res))
          else seq (release_fresh_reservation env ?g) (\<lambda>_.
            seq (interrupted_without_state reason) (\<lambda>res. ret (Inl res)))
      | Inr outcome \<Rightarrow>
          seq (handle_post_outcome env resume request captured recovery k derived r seen outcome) (\<lambda>flow.
          case flow of
            Inl res \<Rightarrow> ret (Inl res)
          | Inr (r, seen) \<Rightarrow> reserve_next_attempt env request k derived r seen)))
    (decides env derived b (next_armed env derived b (Suc k))) w'" if w': "armed env ?g b k r seen w'" for w'
  proof (rule wp_bind [OF wp_race_post], goal_cases)
    case 1
    then show ?case using w' by (simp add: armed_def)
  next
    case (2 progress w'')
    show ?case
    proof (cases progress)
      case (Inl reason)
      with 2 w' have "armed env ?g b k r seen w''"
        by (auto simp: raced_def)
      then show ?thesis
        unfolding Inl sum.case by (rule give_up)
    next
      case (Inr out)
      from raced_posted [OF w'] 2 Inr have "posted env ?g b k r seen out w''" by simp
      from wp_handle_post_outcome [OF ok resume req this] show ?thesis
        unfolding Inr sum.case
        by (rule wp_bind) (auto split: sum.splits prod.splits intro!: wp_reserve_next_attempt [OF ok req k])
    qed
  qed
  have keep: "flow (finished env (generation_identity ?g) b) (next_armed env derived b (Suc k)) y
      (v\<lparr>world_registry := x, world_tick := t\<rparr>)"
    if "flow (finished env (generation_identity ?g) b) (next_armed env derived b (Suc k)) y v" for y v x t
    using that by (auto simp: flow_def next_armed_def split: sum.splits)
  show ?thesis
    unfolding attempt_once_def Let_def
  proof (rule wp_interruption, goal_cases)
    case (1 interrupted t)
    show ?case
    proof (cases interrupted)
      case (Some reason)
      show ?thesis
        unfolding Some option.case by (rule give_up [OF armed(1)])
    next
      case None
      show ?thesis
        unfolding None option.case wp_seq [of "attempt m" for m] wp_attempt
        by (rule wp_register_guard)
          (use poisoned armed(2) wp_drop_guard [OF body [OF armed(2)] _ keep] in simp_all)
    qed
  qed
qed

lemma armed_holding: "armed env g b k r seen w \<Longrightarrow> holding env g r w"
  by (simp add: armed_def reserved_for_def)

lemma wp_attempt_loop:
  assumes ok: "pass_ok env (generation_identity g)" and req: "request_identity request = generation_identity g"
  shows "n \<le> maximum_post_attempts (co_policy env) \<Longrightarrow> derived_generation derived = g \<Longrightarrow>
    armed env g b (maximum_post_attempts (co_policy env) - n) r seen w \<Longrightarrow>
    wp (attempt_loop env request captured recovery n derived r seen)
      (ends (failed env (generation_identity g) b) (finished env (generation_identity g) b)) w"
proof (induction n arbitrary: derived r seen w rule: less_induct)
  case (less n)
  let ?max = "maximum_post_attempts (co_policy env)"
  show ?case
  proof (cases n)
    case 0
    with held_failures(1) [OF armed_holding [OF less.prems(3)]] show ?thesis by simp
  next
    case (Suc m)
    let ?resume = "\<lambda>d r. attempt_loop env request captured recovery (m - 1) d r (is_retryable_dispatch_ambiguity r)"
    have ok': "pass_ok env (generation_identity (derived_generation derived))"
      and req': "request_identity request = generation_identity (derived_generation derived)"
      using ok req less.prems(2) by simp_all
    have resume: "resume_ok env derived b ?resume"
      unfolding resume_ok_def is_retryable_dispatch_ambiguity_def less.prems(2)
      using less.prems(1) Suc by (intro allI impI less.IH) (auto simp: less.prems(2) intro: permitted_armed)
    have k: "?max - Suc m < ?max" and step: "Suc (?max - Suc m) = ?max - m"
      using less.prems(1) Suc by simp_all
    have armed: "armed env (derived_generation derived) b (?max - Suc m) r seen w"
      using less.prems(2,3) Suc by simp
    have rest: "wp (attempt_loop env request captured recovery m d r s)
        (ends (failed env (generation_identity g) b) (finished env (generation_identity g) b)) w'"
      if "next_armed env derived b (?max - m) (d, r, s) w'" for d r s w'
      using that less.prems(1,2) Suc by (intro less.IH) (auto simp: next_armed_def)
    show ?thesis
      unfolding Suc attempt_loop.simps
      using rest less.prems(2)
      by (intro wp_bind [OF wp_attempt_once [OF ok' resume req' k armed, unfolded step less.prems(2)]])
        (auto split: sum.splits)
  qed
qed

lemma wp_submit_reserved:
  assumes ok: "pass_ok env (generation_identity (derived_generation derived))"
    and req: "request_identity request = generation_identity (derived_generation derived)"
    and w: "armed env (derived_generation derived) b k r (is_retryable_dispatch_ambiguity r) w"
    and k: "k \<le> maximum_post_attempts (co_policy env)"
  shows "wp (submit_reserved_attempts env request captured recovery k derived r) (concludes env derived b) w"
  unfolding submit_reserved_attempts_def
  by (rule wp_attempt_loop [OF ok req]) (use w k in simp_all)

section \<open>One pass\<close>

lemma wp_ready:
  assumes ok: "pass_ok env (request_identity request)"
    and start: "good env (request_identity request) w" "world_posts w = []"
    and b: "b = (row env (request_identity request) w \<noteq> None)"
    and adm: "admitted env (request_identity request) allowed 1 w (Ready derived r fresh) w'"
  shows "wp (if fresh then submit_reserved_attempts env request captured recovery 0 derived r
      else
      seq (if recovery = StatusOnly \<and> is_retryable_dispatch_ambiguity r \<and> \<not> is_imported_delegation request
           then seq (interruption env captured) (\<lambda>i. ret (i = None)) else ret False) (\<lambda>retry.
      if retry then
        seq (on_error (map_failure (with_state (stored_durable_state r))) (now_seconds env)) (\<lambda>now.
        seq (on_error (map_failure (attach_state (stored_durable_state r)))
              (call_store env (\<lambda>fault.
                 reserve_ambiguous_retry (co_store env) fault (derived_generation derived) now)))
          (\<lambda>reserved. submit_reserved_attempts env request captured recovery 0 derived reserved))
      else
        reconcile_existing env (\<lambda>d r. submit_reserved_attempts env request captured recovery 1 d r)
          request captured derived r recovery 0))
    (ends (failed env (request_identity request) b) (finished env (request_identity request) b)) w'"
proof -
  let ?g = "derived_generation derived"
  have req: "request_identity request = generation_identity ?g"
    using adm by (simp add: admitted_def)
  have ok': "pass_ok env (generation_identity ?g)"
    using ok req by simp
  have max: "0 < maximum_post_attempts (co_policy env)"
    using ok by (simp add: pass_ok_def policy_ok_def)
  show ?thesis
  proof (cases fresh)
    case True
    then have work: "allowed" "row env (request_identity request) w = None"
      using adm by (auto simp: admitted_def)
    then have "vacant env (request_identity request) b 0 w"
      using start b by (simp add: vacant_def dispatched_def)
    from fresh_armed(1) [OF this, of 1 derived r w'] adm True work
    have "armed env ?g b 0 r False w'" "\<not> is_retryable_dispatch_ambiguity r"
      by (simp_all add: admitted_def) (auto simp: is_retryable_dispatch_ambiguity_def fresh_record_def)
    with True show ?thesis
      using wp_submit_reserved [OF ok' req, of b 0 r w'] req by simp
  next
    case False
    have row: "row env (generation_identity ?g) w' = Some r" and good: "good env (generation_identity ?g) w'"
      and digest: "stored_digest r = generation_digest ?g" and posts: "world_posts w' = []"
      using adm False req start by (auto simp: admitted_def)
    have held: "holding env ?g r w'"
      using row good digest posts row_identity [OF ok' good row]
      by (simp add: holding_def settled_def backed_def row_like_def)
    then have tick: "holding env ?g r (w'\<lparr>world_tick := t\<rparr>)" for t
      by simp
    have resume: "resume_ok env derived b (\<lambda>d r. submit_reserved_attempts env request captured recovery (Suc 0) d r)"
      unfolding resume_ok_def
      using max by (auto intro!: wp_submit_reserved [OF ok' req] permitted_armed simp: is_retryable_dispatch_ambiguity_def)
    note existing = wp_reconcile_existing [OF ok' resume req]
    have retry: "wp (seq (on_error (map_failure (with_state (stored_durable_state r))) (now_seconds env)) (\<lambda>now.
        seq (on_error (map_failure (attach_state (stored_durable_state r)))
              (call_store env (\<lambda>fault. reserve_ambiguous_retry (co_store env) fault ?g now)))
          (\<lambda>reserved. submit_reserved_attempts env request captured recovery 0 derived reserved)))
      (concludes env derived b) (w'\<lparr>world_tick := t\<rparr>)" for t
      by (intro wp_bind [OF wp_clock_held(1) [OF ok' tick refl]])
        (auto intro!: wp_bind [OF wp_reserve_ambiguous [OF ok' tick _ refl]] wp_submit_reserved [OF ok' req]
          permitted_armed simp: is_retryable_dispatch_ambiguity_def)
    show ?thesis
      using False retry existing [OF holding_settled [OF held]] existing [OF holding_settled [OF tick]]
      unfolding req
      by (auto simp: seq_assoc wp_seq [of "ret x" for x] wp_ret intro!: wp_interruption)
  qed
qed

lemma wp_advance_in_epoch:
  assumes ok: "pass_ok env (request_identity request)"
    and start: "good env (request_identity request) w" "world_posts w = []"
    and b: "b = (row env (request_identity request) w \<noteq> None)"
  shows "wp (advance_in_epoch env request recovery epoch)
    (ends (failed env (request_identity request) b) (finished env (request_identity request) b)) w"
proof -
  let ?i = "request_identity request"
  have idle: "\<not> dispatched w"
    using start(2) by (simp add: dispatched_def)
  have stateless: "failed env ?i b (Failed f) w" if "strongest_state f = None" for f
    using start(1) idle b that by (simp add: failed_def truthful_def)
  have lease: "wp (seq (sample (lease_at env)) (\<lambda>lease. seq (from_result (map_err Failed lease)) f))
      (ends (failed env ?i b) (finished env ?i b)) w"
    if "\<And>t. wp (f ()) (ends (failed env ?i b) (finished env ?i b)) (w\<lparr>world_tick := t\<rparr>)" for f
    using that ok stateless
    by (cases "lease_at env (world_tick w)")
      (auto simp: wp_def seq_def sample_def from_result_def pass_ok_def split: sum.splits)
  have answer: "wp (case admission of
        NoAuthoritativeState \<Rightarrow> seq (interruption env captured) (\<lambda>interrupted.
          case interrupted of
            Some InterruptCancelled \<Rightarrow> ret ResultCancelled
          | Some InterruptStaleEpoch \<Rightarrow> fail_with (without_state InvalidInput m1)
          | None \<Rightarrow> fail_with (without_state InvariantViolation m2))
      | Authoritative r \<Rightarrow> result_of r
      | Ready derived r fresh \<Rightarrow> F derived r fresh)
    (ends (failed env ?i b) (finished env ?i b)) w'"
    if adm: "admitted env ?i allowed 1 (w\<lparr>world_tick := t\<rparr>) admission w'"
      and ready: "\<And>derived r fresh. admission = Ready derived r fresh \<Longrightarrow>
        wp (F derived r fresh) (ends (failed env ?i b) (finished env ?i b)) w'"
    for allowed t admission w' captured m1 m2 F
  proof (cases admission)
    case NoAuthoritativeState
    then have none: "good env ?i w'" "row env ?i w' = None" "\<not> b" "\<not> dispatched w'"
      using adm b idle by (auto simp: admitted_def dispatched_def)
    then have "vacant env ?i b (Max (insert 0 (event_ordinal ` set (world_posts w')))) w'"
      by (simp add: vacant_def)
    then have "failed env ?i b (Failed f) w'" if "strongest_state f = None" for f
      using vacant_failed that by blast
    then show ?thesis
      using NoAuthoritativeState none
      by (auto simp: finished_def without_state_def intro!: wp_interruption split: option.split Interruption.split)
  next
    case (Authoritative r)
    then have good: "good env ?i w'" and stored: "\<exists>r0. row env ?i w' = Some r0 \<and> row_like r0 r"
      using adm by (auto simp: admitted_def row_like_def)
    then have "stored_identity r = i'" if "i' = ?i" for i'
      using row_identity [OF ok good] row_like_sel(1) that by fastforce
    with good stored Authoritative show ?thesis
      by (auto intro!: wp_result_backed simp: backed_def)
  qed (use ready in simp)
  show ?thesis
    unfolding advance_in_epoch_def Let_def
  proof (rule lease, rule wp_interruption, goal_cases)
    case (1 t1 interrupted t)
    let ?w = "w\<lparr>world_tick := t1\<rparr>\<lparr>world_tick := t\<rparr>"
    have one: "(1 :: u64) \<le> i64_max"
      by simp
    have start': "good env ?i ?w" "\<not> dispatched ?w" "b \<Longrightarrow> row env ?i ?w \<noteq> None" "world_posts ?w = []"
      "b = (row env ?i ?w \<noteq> None)"
      using start idle b by simp_all
    show ?case
    proof (rule wp_admit [OF ok start'(1) one start'(2,3)], assumption, goal_cases)
      case (1 admission w')
      then have adm: "admitted env ?i (interrupted = None) 1 (w\<lparr>world_tick := t\<rparr>) admission w'"
        by simp
      show ?case
      proof (rule answer [OF adm], goal_cases)
        case (1 derived r fresh)
        show ?case
          by (rule wp_ready [OF ok start'(1,4,5), where allowed = "interrupted = None"]) (use adm 1 in \<open>simp add: admitted_def\<close>)
      qed
    qed
  qed
qed

lemma advance_concludes:
  assumes "pass_ok env (request_identity request)" and "db_inv (co_store env) (world_db w)"
    and "world_posts w = []" and "advance_with_recovery env request recovery w = (res, w')"
  shows "ends (failed env (request_identity request) (row env (request_identity request) w \<noteq> None))
    (finished env (request_identity request) (row env (request_identity request) w \<noteq> None)) res w'"
proof -
  let ?i = "request_identity request"
  have "good env ?i w"
    using assms(2,3) by (simp add: good_def)
  then have "wp (advance_with_recovery env request recovery)
      (ends (failed env ?i (row env ?i w \<noteq> None)) (finished env ?i (row env ?i w \<noteq> None))) w"
    unfolding advance_with_recovery_def
    using wp_advance_in_epoch [OF assms(1), of "w\<lparr>world_tick := t\<rparr>" for t] assms(3)
    by (intro wp_sample) simp
  then show ?thesis
    using assms(4) by (simp add: wp_def)
qed

section \<open>Guarantees\<close>

lemma sample_coord_pass_ok:
  "valid_identity i \<Longrightarrow> pass_ok sample_coord i"
  using constructed_policy_ok [OF sample_coord_constructed(1,2)]
  by (simp add: pass_ok_def derivation_ok_def sample_coord_def sample_coord_store_def derived_generation_def
      imported_candidate_def)

lemma request_vote_identity [simp]: "request_identity (request_vote i) = i"
  by (simp add: request_vote_def request_identity_def)

lemma sample_coord_db:
  "db_inv (co_store sample_coord) db = db_inv sample_env db"
  "abs_store (co_store sample_coord) db i = abs_store sample_env db i"
proof -
  have "storage_error sample_coord_store = storage_error sample_env"
    by (intro ext) (simp add: sample_coord_store_def storage_error_def)
  then show "abs_store (co_store sample_coord) db i = abs_store sample_env db i"
    by (simp add: sample_coord_def abs_store_def load_submission_def cong: option.case_cong)
  show "db_inv (co_store sample_coord) db = db_inv sample_env db"
    by (simp add: sample_coord_def sample_coord_store_def db_inv_def)
qed

lemma sample_starts:
  "db_inv (co_store sample_coord) (world_db sample_world)" "world_posts sample_world = []"
  "db_inv (co_store sample_coord) (world_db (sample_world\<lparr>world_db := sample_db\<rparr>))"
  by (simp_all add: sample_coord_db sample_world_def) (simp add: empty_db_def db_inv_def)

text \<open>
  C3: Reserved dispatch. Every POST of a pass, of either recovery mode, is made while the database
  holds a reservation for it: a record of the posted identity and generation digest that is fresh or
  recovering without a candidate. The ordinal of that reservation selects the endpoint, and no two
  POSTs of the pass share an ordinal.
\<close>

theorem posts_are_reserved:
  assumes "pass_ok env (request_identity request)" and "db_inv (co_store env) (world_db w)"
    and "world_posts w = []" and "advance_with_recovery env request recovery w = (res, w')"
  shows "(\<forall>e \<in> set (world_posts w'). event_reserved env (request_identity request) e) \<and>
    sorted_wrt (<) (map event_ordinal (world_posts w'))"
  using advance_concludes [OF assms]
  by (auto simp: ends_def failed_def finished_def good_def split: sum.splits)

theorem posts_are_reserved_witness:
  "sorted_wrt (<) (map event_ordinal
     (world_posts (snd (advance_with_recovery sample_coord (request_vote sample_vote) ExactTree sample_world))))"
  using posts_are_reserved [OF sample_coord_pass_ok sample_starts(1,2) prod.collapse [symmetric],
      of "request_vote sample_vote" ExactTree] by simp

text \<open>
  C1: No forgotten dispatch. If the submission had a record when the pass began, or a POST of the
  pass was accepted or may have been dispatched, the pass does not report a cancellation and the
  record is still stored when it ends, whether it returns or fails. The only exception is a combined
  generation reported as rejected, whose record is retired with the rejection.
\<close>

theorem dispatch_never_forgotten:
  assumes "pass_ok env (request_identity request)" and "db_inv (co_store env) (world_db w)"
    and "world_posts w = []" and "advance_with_recovery env request recovery w = (res, w')"
    and "abs_store (co_store env) (world_db w) (request_identity request) \<noteq> None \<or> dispatched w'"
  shows "res \<noteq> Inr ResultCancelled \<and>
    (abs_store (co_store env) (world_db w') (request_identity request) \<noteq> None \<or>
     is_combined (target (request_identity request)) \<and> (\<exists>d. res = Inr (ResultRejected d)))"
proof (cases res)
  case (Inl e)
  then show ?thesis
    using advance_concludes [OF assms(1-4)] assms(5) by (auto simp: failed_def)
next
  case (Inr result)
  have "result = ResultRejected d" if "public_result r = Inr result" "stored_state r = Rejected d" for r d
    using that by (simp add: public_result_def)
  moreover have "\<exists>d. stored_state r = Rejected d" if "stored_durable_state r = DurableRejected" for r
    using that by (cases "stored_state r") simp_all
  ultimately show ?thesis
    using advance_concludes [OF assms(1-4)] assms(5) Inr
    by (auto simp: finished_def backed_def split: if_splits) blast+
qed

theorem dispatch_never_forgotten_witness:
  "abs_store sample_env (world_db (snd (advance_with_recovery sample_coord (request_vote sample_identity) StatusOnly
     (sample_world\<lparr>world_db := sample_db\<rparr>)))) sample_identity \<noteq> None"
  using dispatch_never_forgotten [OF sample_coord_pass_ok sample_starts(3) _ prod.collapse [symmetric],
      of "request_vote sample_identity" StatusOnly] sample_starts(2)
  by (auto simp: sample_coord_db)

text \<open>
  C2: Truthful answers. A result of a pass is the public form of the stored record, or the rejection
  of a combined generation that was retired with it; a cancellation is reported only when nothing is
  stored and nothing may have been dispatched. A failure that claims a durable state names the state
  of the stored record, one that claims a known possible dispatch has a stored record, and after a
  possible dispatch in the pass every failure claims one of both, except the failure to register a
  further attempt in a poisoned in-flight registry.
\<close>

theorem answers_are_truthful:
  assumes "pass_ok env (request_identity request)" and "db_inv (co_store env) (world_db w)"
    and "world_posts w = []" and "advance_with_recovery env request recovery w = (res, w')"
  shows "case res of
      Inr result \<Rightarrow>
        if result = ResultCancelled
        then abs_store (co_store env) (world_db w') (request_identity request) = None \<and> \<not> dispatched w'
        else \<exists>r. public_result r = Inr result \<and> backed env (request_identity request) r w'
    | Inl (Failed f) \<Rightarrow>
        truthful (abs_store (co_store env) (world_db w') (request_identity request)) f \<and>
        (dispatched w' \<longrightarrow> strongest_state f \<noteq> None \<or> f = in_flight_poison_failure)
    | Inl (Panicked m) \<Rightarrow> True"
  using advance_concludes [OF assms]
  by (auto simp: ends_def failed_def finished_def split: sum.splits coord_error.splits if_splits)

theorem answers_are_truthful_witness:
  "case fst (advance_with_recovery sample_coord (request_vote sample_vote) ExactTree sample_world) of
      Inr result \<Rightarrow> result \<noteq> ResultCancelled \<longrightarrow> (\<exists>r. public_result r = Inr result)
    | Inl e \<Rightarrow> True"
  using answers_are_truthful [OF sample_coord_pass_ok sample_starts(1,2) prod.collapse [symmetric],
      of "request_vote sample_vote" ExactTree]
  by (auto split: sum.splits)

end
