(* ===== verification/Share_Order.thy ===== *)
theory Share_Order
  imports Submission_Generation Voting_Text "HOL-Library.Multiset"
begin

text \<open>
  Helper targets and the shuffled order of helpers
  (\<open>zcash_voting/src/share_policy/server_order.rs\<close>). Entropy is an argument. A \<open>usize\<close> is a natural
  number, with its width written out where the source checks or saturates.

  The lemmas show that a shuffle returns a permutation, that every permutation comes from some
  entropy, and that two entropies give the same order exactly when every drawn index agrees.
\<close>

section \<open>Helper targets\<close>

abbreviation usize_max :: nat where
  "usize_max \<equiv> 0xFFFFFFFFFFFFFFFF"

definition usize_saturating_mul :: "nat \<Rightarrow> nat \<Rightarrow> nat" where
  "usize_saturating_mul a b = min (a * b) usize_max"

definition usize_saturating_add :: "nat \<Rightarrow> nat \<Rightarrow> nat" where
  "usize_saturating_add a b = min (a + b) usize_max"

definition usize_checked_mul :: "nat \<Rightarrow> nat \<Rightarrow> nat option" where
  "usize_checked_mul a b = (if a * b \<le> usize_max then Some (a * b) else None)"

definition div_ceil :: "nat \<Rightarrow> nat \<Rightarrow> nat" where
  "div_ceil a b = a div b + (if a mod b > 0 then 1 else 0)"

definition VOTE_COMMITMENT_SHARE_COUNT :: nat where
  "VOTE_COMMITMENT_SHARE_COUNT = 16"

definition SHARE_HELPER_INITIAL_MAX_FRACTION_NUMERATOR :: nat where
  "SHARE_HELPER_INITIAL_MAX_FRACTION_NUMERATOR = 3"

definition SHARE_HELPER_INITIAL_MAX_FRACTION_DENOMINATOR :: nat where
  "SHARE_HELPER_INITIAL_MAX_FRACTION_DENOMINATOR = 4"

definition SHARE_HELPER_MAX_INITIAL_SHARES_PER_SERVER :: nat where
  "SHARE_HELPER_MAX_INITIAL_SHARES_PER_SERVER =
     VOTE_COMMITMENT_SHARE_COUNT * SHARE_HELPER_INITIAL_MAX_FRACTION_NUMERATOR
       div SHARE_HELPER_INITIAL_MAX_FRACTION_DENOMINATOR"

definition SHARE_HELPER_TARGET_COUNT_CAP :: nat where
  "SHARE_HELPER_TARGET_COUNT_CAP = 10"

definition SHARE_HELPER_PREFLIGHT_SOFT_TIMEOUT_MILLISECONDS :: u64 where
  "SHARE_HELPER_PREFLIGHT_SOFT_TIMEOUT_MILLISECONDS = 2000"

definition SHARE_HELPER_PREFLIGHT_HARD_TIMEOUT_MILLISECONDS :: u64 where
  "SHARE_HELPER_PREFLIGHT_HARD_TIMEOUT_MILLISECONDS = 30000"

definition SHARE_HELPER_POST_TIMEOUT_MILLISECONDS :: u64 where
  "SHARE_HELPER_POST_TIMEOUT_MILLISECONDS = 30000"

definition SHARE_INITIAL_DELIVERY_TIMEOUT_MILLISECONDS :: u64 where
  "SHARE_INITIAL_DELIVERY_TIMEOUT_MILLISECONDS = 60000"

definition SHARE_HELPER_MAX_CONCURRENT_POSTS :: nat where
  "SHARE_HELPER_MAX_CONCURRENT_POSTS = 128"

definition share_submission_target_count :: "nat \<Rightarrow> nat" where
  "share_submission_target_count server_count =
     min (server_count div 2 + server_count mod 2) SHARE_HELPER_TARGET_COUNT_CAP"

definition effective_share_submission_target_count :: "u32 \<Rightarrow> nat \<Rightarrow> nat" where
  "effective_share_submission_target_count stored_target_count server_count =
     (let target_count = (if stored_target_count = 0 then share_submission_target_count server_count
        else unat stored_target_count)
      in min (min target_count SHARE_HELPER_TARGET_COUNT_CAP) server_count)"

definition minimum_complete_batch_planning_server_count :: "nat \<Rightarrow> VotingError + nat" where
  "minimum_complete_batch_planning_server_count target_count =
     (if target_count = 0 then Inr 0
      else and_then (ok_or (VotingPanicked (lit ''share-count-derived assignment total fits usize''))
             (usize_checked_mul VOTE_COMMITMENT_SHARE_COUNT target_count)) (\<lambda>total.
        Inr (div_ceil total SHARE_HELPER_MAX_INITIAL_SHARES_PER_SERVER)))"

record ShareServerSelectionPolicy =
  policy_target_count :: u32
  policy_max_shares_per_server :: u32
  policy_min_server_count :: u32
  preflight_soft_timeout_milliseconds :: u64
  preflight_hard_timeout_milliseconds :: u64
  post_timeout_milliseconds :: u64
  initial_delivery_timeout_milliseconds :: u64
  max_concurrent_posts :: u32

definition share_server_selection_policy :: "nat \<Rightarrow> VotingError + ShareServerSelectionPolicy" where
  "share_server_selection_policy server_count =
     (let target_count = share_submission_target_count server_count in
      and_then (if server_count = 0 then Inr (0, 0)
                else if server_count = 1 then Inr (VOTE_COMMITMENT_SHARE_COUNT, 1)
                else and_then (minimum_complete_batch_planning_server_count target_count) (\<lambda>minimum.
                  Inr (SHARE_HELPER_MAX_INITIAL_SHARES_PER_SERVER, minimum)))
        (\<lambda>(max_shares_per_server, min_server_count).
      Inr \<lparr>policy_target_count = word_of_nat target_count,
           policy_max_shares_per_server = word_of_nat max_shares_per_server,
           policy_min_server_count = word_of_nat min_server_count,
           preflight_soft_timeout_milliseconds = SHARE_HELPER_PREFLIGHT_SOFT_TIMEOUT_MILLISECONDS,
           preflight_hard_timeout_milliseconds = SHARE_HELPER_PREFLIGHT_HARD_TIMEOUT_MILLISECONDS,
           post_timeout_milliseconds = SHARE_HELPER_POST_TIMEOUT_MILLISECONDS,
           initial_delivery_timeout_milliseconds = SHARE_INITIAL_DELIVERY_TIMEOUT_MILLISECONDS,
           max_concurrent_posts = word_of_nat SHARE_HELPER_MAX_CONCURRENT_POSTS\<rparr>))"

section \<open>Helper order\<close>

definition share_server_order_random_bytes_required :: "nat \<Rightarrow> nat" where
  "share_server_order_random_bytes_required server_count = usize_saturating_mul (server_count - 1) 8"

fun require_unique_loop :: "rust_str set \<Rightarrow> rust_str list \<Rightarrow> VotingError + unit" where
  "require_unique_loop seen [] = Inr ()"
| "require_unique_loop seen (url # urls) =
     (if url \<in> seen then Inl (VotingInvalidInput (lit ''server_urls must not contain duplicates''))
      else require_unique_loop (insert url seen) urls)"

definition require_unique_share_servers :: "rust_str list \<Rightarrow> VotingError + unit" where
  "require_unique_share_servers server_urls = require_unique_loop {} server_urls"

definition u64_from_le_bytes :: "bytes \<Rightarrow> u64" where
  "u64_from_le_bytes b = word_of_nat (foldr (\<lambda>x acc. unat x + 256 * acc) b 0)"

definition list_swap :: "nat \<Rightarrow> nat \<Rightarrow> 'a list \<Rightarrow> 'a list" where
  "list_swap i j xs = xs[i := xs ! j, j := xs ! i]"

text \<open>The loop \<open>for index in (1..len).rev()\<close>; the first argument is the index.\<close>

fun shuffle_loop :: "nat \<Rightarrow> bytes \<Rightarrow> 'a list \<Rightarrow> 'a list" where
  "shuffle_loop 0 random_bytes ordered = ordered"
| "shuffle_loop (Suc k) random_bytes ordered =
     (let sample = u64_from_le_bytes (take 8 random_bytes);
          swap_index = unat (sample mod word_of_nat (Suc k + 1))
      in shuffle_loop k (drop 8 random_bytes) (list_swap (Suc k) swap_index ordered))"

definition shuffled_share_server_order :: "rust_str list \<Rightarrow> bytes \<Rightarrow> VotingError + rust_str list" where
  "shuffled_share_server_order server_urls random_bytes =
     and_then (require_unique_share_servers server_urls) (\<lambda>_.
     let needed = share_server_order_random_bytes_required (length server_urls) in
     if length random_bytes < needed
     then Inl (VotingInvalidInput (lit ''server_random_bytes must contain at least '' @ decimal needed @
            lit '' bytes for '' @ decimal (length server_urls) @ lit '' servers''))
     else Inr (shuffle_loop (length server_urls - 1) random_bytes server_urls))"

definition select_share_submission_targets_from_order :: "rust_str list \<Rightarrow> nat \<Rightarrow> rust_str list" where
  "select_share_submission_targets_from_order server_urls target_count =
     take (min target_count (length server_urls)) server_urls"

definition select_share_submission_targets ::
  "rust_str list \<Rightarrow> nat \<Rightarrow> bytes \<Rightarrow> VotingError + rust_str list" where
  "select_share_submission_targets server_urls target_count server_random_bytes =
     (let target_count = min target_count (length server_urls) in
      if target_count = 0 then Inr []
      else and_then (shuffled_share_server_order server_urls server_random_bytes) (\<lambda>order.
        Inr (select_share_submission_targets_from_order order target_count)))"

definition resubmission_server_order_random_bytes_required :: "rust_str list \<Rightarrow> rust_str list \<Rightarrow> nat" where
  "resubmission_server_order_random_bytes_required configured_server_urls sent_to_urls =
     (let untried_count = length (filter (\<lambda>s. s \<notin> set sent_to_urls) configured_server_urls);
          already_sent_count = length (filter (\<lambda>s. s \<in> set sent_to_urls) configured_server_urls)
      in usize_saturating_add (share_server_order_random_bytes_required untried_count)
           (share_server_order_random_bytes_required already_sent_count))"

definition resubmission_server_order_from_groups ::
  "rust_str list \<Rightarrow> rust_str list \<Rightarrow> rust_str list" where
  "resubmission_server_order_from_groups untried_server_urls already_sent_server_urls =
     untried_server_urls @ already_sent_server_urls"

definition resubmission_server_order ::
  "rust_str list \<Rightarrow> rust_str list \<Rightarrow> bytes \<Rightarrow> VotingError + rust_str list" where
  "resubmission_server_order configured_server_urls sent_to_urls server_random_bytes =
     and_then (require_unique_share_servers configured_server_urls) (\<lambda>_.
     let untried = filter (\<lambda>s. s \<notin> set sent_to_urls) configured_server_urls;
         already_sent = filter (\<lambda>s. s \<in> set sent_to_urls) configured_server_urls;
         untried_bytes = share_server_order_random_bytes_required (length untried);
         already_sent_bytes = share_server_order_random_bytes_required (length already_sent);
         needed = resubmission_server_order_random_bytes_required configured_server_urls sent_to_urls
     in
     if length server_random_bytes < needed
     then Inl (VotingInvalidInput (lit ''server_random_bytes must contain at least '' @ decimal needed @
            lit '' bytes for resubmission order''))
     else
     and_then (shuffled_share_server_order untried (take untried_bytes server_random_bytes)) (\<lambda>first.
     and_then (shuffled_share_server_order already_sent
         (take already_sent_bytes (drop untried_bytes server_random_bytes))) (\<lambda>second.
       Inr (resubmission_server_order_from_groups first second))))"

definition resubmission_server_order_from_configured_order ::
  "rust_str list \<Rightarrow> rust_str list \<Rightarrow> rust_str list" where
  "resubmission_server_order_from_configured_order configured_server_urls sent_to_urls =
     resubmission_server_order_from_groups
       (filter (\<lambda>s. s \<notin> set sent_to_urls) configured_server_urls)
       (filter (\<lambda>s. s \<in> set sent_to_urls) configured_server_urls)"

lemma div_ceil_bounds:
  assumes "0 < b"
  shows div_ceil_lower: "a \<le> div_ceil a b * b" and div_ceil_upper: "div_ceil a b * b < a + b"
  using mod_less_divisor [OF assms, of a] div_mult_mod_eq [of a b] assms
  unfolding div_ceil_def add_mult_distrib by (split if_split; linarith)+

section \<open>Distinct helpers\<close>

lemma require_unique_loop_ok:
  "require_unique_loop seen urls = Inr () \<longleftrightarrow> distinct urls \<and> set urls \<inter> seen = {}"
  by (induction urls arbitrary: seen) auto

lemma require_unique_share_servers_ok [simp]:
  "require_unique_share_servers urls = Inr () \<longleftrightarrow> distinct urls"
  by (simp add: require_unique_share_servers_def require_unique_loop_ok)

lemma require_unique_share_servers_cases:
  "require_unique_share_servers urls =
     (if distinct urls then Inr () else Inl (VotingInvalidInput (lit ''server_urls must not contain duplicates'')))"
proof -
  have "require_unique_loop seen urls =
     (if distinct urls \<and> set urls \<inter> seen = {} then Inr ()
      else Inl (VotingInvalidInput (lit ''server_urls must not contain duplicates'')))" for seen
    by (induction urls arbitrary: seen) auto
  then show ?thesis
    by (simp add: require_unique_share_servers_def)
qed

section \<open>Swaps and shuffles\<close>

lemma length_list_swap [simp]: "length (list_swap i j xs) = length xs"
  by (simp add: list_swap_def)

lemma mset_list_swap [simp]:
  "i < length xs \<Longrightarrow> j < length xs \<Longrightarrow> mset (list_swap i j xs) = mset xs"
  by (simp add: list_swap_def mset_swap)

lemma nth_list_swap:
  "i < length xs \<Longrightarrow> j < length xs \<Longrightarrow>
   list_swap i j xs ! n = (if n = j then xs ! i else if n = i then xs ! j else xs ! n)"
  by (auto simp: list_swap_def nth_list_update)

lemma drop_list_swap [simp]:
  "i < n \<Longrightarrow> j < n \<Longrightarrow> drop n (list_swap i j xs) = drop n xs"
  by (simp add: list_swap_def)

text \<open>The index drawn for the swap with position \<open>i\<close>.\<close>

definition drawn_index :: "bytes \<Rightarrow> nat \<Rightarrow> nat" where
  "drawn_index random_bytes i = unat (u64_from_le_bytes (take 8 random_bytes) mod word_of_nat (i + 1))"

lemma unat_word_of_nat_u64: "n < 2 ^ 64 \<Longrightarrow> unat (word_of_nat n :: u64) = n"
  by (simp add: unat_of_nat take_bit_nat_eq_self)

lemma drawn_index_le: "Suc i < 2 ^ 64 \<Longrightarrow> drawn_index bs i \<le> i"
proof -
  assume "Suc i < 2 ^ 64"
  then have "unat (word_of_nat (i + 1) :: u64) = i + 1"
    by (intro unat_word_of_nat_u64) simp
  then show ?thesis
    by (simp add: drawn_index_def unat_mod_distrib less_Suc_eq_le [symmetric])
qed

lemma shuffle_loop_Suc:
  "shuffle_loop (Suc k) bs xs = shuffle_loop k (drop 8 bs) (list_swap (Suc k) (drawn_index bs (Suc k)) xs)"
  by (simp add: drawn_index_def)

declare shuffle_loop.simps(2) [simp del]

lemmas shuffle_loop_simps = shuffle_loop.simps(1) shuffle_loop_Suc

lemma shuffle_loop_mset:
  "k < length xs \<Longrightarrow> length xs < 2 ^ 64 \<Longrightarrow>
   mset (shuffle_loop k bs xs) = mset xs \<and> drop (Suc k) (shuffle_loop k bs xs) = drop (Suc k) xs"
proof (induction k arbitrary: bs xs)
  case (Suc k)
  let ?j = "drawn_index bs (Suc k)"
  let ?ys = "list_swap (Suc k) ?j xs"
  have j: "?j \<le> Suc k"
    using drawn_index_le [of "Suc k" bs] Suc.prems by simp
  have IH: "mset (shuffle_loop k (drop 8 bs) ?ys) = mset ?ys"
    "drop (Suc k) (shuffle_loop k (drop 8 bs) ?ys) = drop (Suc k) ?ys"
    using Suc.IH [of ?ys "drop 8 bs"] Suc.prems by simp_all
  from IH(2) have "drop 1 (drop (Suc k) (shuffle_loop k (drop 8 bs) ?ys)) = drop 1 (drop (Suc k) ?ys)"
    by (rule arg_cong)
  then show ?case
    using IH(1) j Suc.prems by (simp add: shuffle_loop_Suc)
qed simp

text \<open>The order below position \<open>k\<close> is settled by the remaining draws; position \<open>k\<close> by the first.\<close>

lemma shuffle_loop_nth:
  assumes "Suc k < length xs" "length xs < 2 ^ 64"
  shows "shuffle_loop (Suc k) bs xs ! Suc k = xs ! drawn_index bs (Suc k)"
proof -
  let ?j = "drawn_index bs (Suc k)"
  let ?ys = "list_swap (Suc k) ?j xs"
  have j: "?j \<le> Suc k"
    using drawn_index_le [of "Suc k" bs] assms by simp
  have "drop (Suc k) (shuffle_loop k (drop 8 bs) ?ys) ! 0 = drop (Suc k) ?ys ! 0"
    using shuffle_loop_mset [of k ?ys "drop 8 bs"] assms by simp
  moreover have "length (shuffle_loop k (drop 8 bs) ?ys) = length xs"
    using shuffle_loop_mset [of k ?ys "drop 8 bs"] assms by (metis Suc_lessD length_list_swap mset_eq_length)
  ultimately show ?thesis
    using assms j by (auto simp: shuffle_loop_Suc nth_list_swap)
qed

definition same_draws :: "nat \<Rightarrow> bytes \<Rightarrow> bytes \<Rightarrow> bool" where
  "same_draws k bs cs \<longleftrightarrow> (\<forall>i<k. drawn_index (drop (8 * i) bs) (k - i) = drawn_index (drop (8 * i) cs) (k - i))"

lemma same_draws_Suc:
  "same_draws (Suc k) bs cs \<longleftrightarrow>
   drawn_index bs (Suc k) = drawn_index cs (Suc k) \<and> same_draws k (drop 8 bs) (drop 8 cs)"
  by (auto simp: same_draws_def All_less_Suc2 add.commute)

lemma shuffle_loop_inj:
  "k < length xs \<Longrightarrow> length xs < 2 ^ 64 \<Longrightarrow> distinct xs \<Longrightarrow>
   shuffle_loop k bs xs = shuffle_loop k cs xs \<longleftrightarrow> same_draws k bs cs"
proof (induction k arbitrary: bs cs xs)
  case 0
  then show ?case
    by (simp add: same_draws_def)
next
  case (Suc k)
  let ?j = "\<lambda>b. drawn_index b (Suc k)"
  have j: "?j b < length xs" for b
    using drawn_index_le [of "Suc k" b] Suc.prems by simp
  have same: "shuffle_loop (Suc k) bs xs = shuffle_loop (Suc k) cs xs \<Longrightarrow> ?j bs = ?j cs"
    using shuffle_loop_nth [of k xs bs] shuffle_loop_nth [of k xs cs] Suc.prems j [of bs] j [of cs]
    by (metis nth_eq_iff_index_eq)
  have dist: "distinct (list_swap (Suc k) (?j bs) xs)"
    using Suc.prems j [of bs] by (metis mset_eq_imp_distinct_iff mset_list_swap)
  have "shuffle_loop k (drop 8 bs) (list_swap (Suc k) (?j bs) xs) =
      shuffle_loop k (drop 8 cs) (list_swap (Suc k) (?j bs) xs) \<longleftrightarrow> same_draws k (drop 8 bs) (drop 8 cs)"
    using Suc.prems by (intro Suc.IH dist) simp_all
  then show ?case
    using same by (auto simp: same_draws_Suc shuffle_loop_Suc)
qed

section \<open>Every order is drawn\<close>

fun le_bytes :: "nat \<Rightarrow> nat \<Rightarrow> bytes" where
  "le_bytes 0 n = []"
| "le_bytes (Suc m) n = word_of_nat (n mod 256) # le_bytes m (n div 256)"

lemma length_le_bytes [simp]: "length (le_bytes m n) = m"
  by (induction m arbitrary: n) auto

lemma foldr_le_bytes: "foldr (\<lambda>x acc. unat x + 256 * acc) (le_bytes m n) 0 = n mod 256 ^ m"
proof (induction m arbitrary: n)
  case (Suc m)
  have "unat (word_of_nat (n mod 256) :: u8) = n mod 256"
    by (simp add: unat_of_nat take_bit_nat_eq_self)
  then show ?case
    using Suc by (simp add: mod_mult2_eq)
qed simp

lemma u64_from_le_bytes_le_bytes [simp]: "u64_from_le_bytes (le_bytes 8 n) = word_of_nat n"
  by (rule word_unat_eq_iff [THEN iffD2])
    (simp add: u64_from_le_bytes_def foldr_le_bytes unat_of_nat take_bit_nat_def)

lemma drawn_index_surj: "j \<le> i \<Longrightarrow> Suc i < 2 ^ 64 \<Longrightarrow> drawn_index (le_bytes 8 j @ bs) i = j"
proof -
  assume "j \<le> i" "Suc i < 2 ^ 64"
  moreover from this have "unat (word_of_nat (i + 1) :: u64) = i + 1" "unat (word_of_nat j :: u64) = j"
    by (intro unat_word_of_nat_u64; simp)+
  ultimately show ?thesis
    by (simp add: drawn_index_def unat_mod_distrib)
qed

lemma drop_Suc_eq:
  assumes "k < length xs" "length ys = length xs" "drop (Suc k) xs = drop (Suc k) ys" "xs ! k = ys ! k"
  shows "drop k xs = drop k ys"
  using assms by (metis Cons_nth_drop_Suc)

lemma shuffle_loop_surj:
  "k < length xs \<Longrightarrow> length xs < 2 ^ 64 \<Longrightarrow> mset ys = mset xs \<Longrightarrow> drop (Suc k) xs = drop (Suc k) ys \<Longrightarrow>
   \<exists>bs. length bs = 8 * k \<and> shuffle_loop k bs xs = ys"
proof (induction k arbitrary: xs)
  case 0
  have "mset (take 1 ys) + mset (drop 1 ys) = mset (take 1 xs) + mset (drop 1 xs)"
    by (simp only: mset_append [symmetric] append_take_drop_id 0(3))
  then have *: "mset (take 1 ys) = mset (take 1 xs)"
    using 0(4) by simp
  have "length ys = length xs"
    using 0(3) by (rule mset_eq_length)
  then obtain x xs' y ys' where "xs = x # xs'" "ys = y # ys'"
    using 0(1) by (cases xs; cases ys) simp_all
  then have "ys = xs"
    using * 0(4) by simp
  then show ?case
    by simp
next
  case (Suc k)
  have len: "length ys = length xs"
    using Suc.prems(3) by (rule mset_eq_length)
  have "mset (take (k + 2) ys) + mset (drop (k + 2) ys) = mset (take (k + 2) xs) + mset (drop (k + 2) xs)"
    by (simp only: mset_append [symmetric] append_take_drop_id Suc.prems(3))
  then have "mset (take (k + 2) ys) = mset (take (k + 2) xs)"
    using Suc.prems(4) by simp
  then have "set (take (k + 2) ys) = set (take (k + 2) xs)"
    by (rule mset_eq_setD)
  moreover have "take (k + 2) ys ! Suc k \<in> set (take (k + 2) ys)"
    using Suc.prems(1) len by (intro nth_mem) simp
  ultimately have "ys ! Suc k \<in> set (take (k + 2) xs)"
    by simp
  then obtain j where "j < length (take (k + 2) xs)" "take (k + 2) xs ! j = ys ! Suc k"
    unfolding in_set_conv_nth by blast
  then have j: "j \<le> Suc k" "xs ! j = ys ! Suc k"
    by simp_all
  let ?zs = "list_swap (Suc k) j xs"
  have "drop (Suc k) ?zs = drop (Suc k) ys"
  proof (rule drop_Suc_eq)
    show "list_swap (Suc k) j xs ! Suc k = ys ! Suc k"
      using Suc.prems(1) j by (auto simp: nth_list_swap)
    show "drop (Suc (Suc k)) ?zs = drop (Suc (Suc k)) ys"
      using Suc.prems(4) j by simp
  qed (use Suc.prems(1) len in simp_all)
  then obtain bs where bs: "length bs = 8 * k" "shuffle_loop k bs ?zs = ys"
    using Suc.IH [of ?zs] Suc.prems j by auto
  show ?case
    using bs j Suc.prems
    by (intro exI [of _ "le_bytes 8 j @ bs"]) (simp add: shuffle_loop_Suc drawn_index_surj)
qed

section \<open>The contract of an order\<close>

text \<open>
  What placement relies on: an order of helpers is a permutation of distinct helpers, and it exists
  whenever the entropy it asks for is given.
\<close>

locale helper_order =
  fixes order :: "'a list \<Rightarrow> bytes \<Rightarrow> VotingError + 'a list"
    and need :: "'a list \<Rightarrow> nat"
  assumes order_permutes: "order xs bs = Inr ys \<Longrightarrow> length xs < 2 ^ 61 \<Longrightarrow> distinct xs \<and> mset ys = mset xs"
    and order_total: "distinct xs \<Longrightarrow> length xs < 2 ^ 61 \<Longrightarrow> need xs \<le> length bs \<Longrightarrow> \<exists>ys. order xs bs = Inr ys"
begin

lemma order_facts:
  assumes "order xs bs = Inr ys" "length xs < 2 ^ 61"
  shows "distinct ys" "set ys = set xs" "length ys = length xs"
  using order_permutes [OF assms] mset_eq_imp_distinct_iff mset_eq_setD mset_eq_length by blast+

lemma targets_of_order:
  assumes "order xs bs = Inr ys" "length xs < 2 ^ 61"
  shows "distinct (take n ys)" "set (take n ys) \<subseteq> set xs" "length (take n ys) = min n (length xs)"
  using order_facts [OF assms] set_take_subset [of n ys] by auto

end

lemma random_bytes_required_eq:
  "n < 2 ^ 61 \<Longrightarrow> share_server_order_random_bytes_required n = 8 * (n - 1)"
  by (simp add: share_server_order_random_bytes_required_def usize_saturating_mul_def min_def)

lemma shuffled_share_server_order_eq:
  assumes "distinct urls" "length urls < 2 ^ 61" "8 * (length urls - 1) \<le> length bs"
  shows "shuffled_share_server_order urls bs = Inr (shuffle_loop (length urls - 1) bs urls)"
  using assms
  by (simp add: shuffled_share_server_order_def require_unique_share_servers_cases random_bytes_required_eq)

lemma shuffle_all_mset:
  "length urls < 2 ^ 64 \<Longrightarrow> mset (shuffle_loop (length urls - Suc 0) bs urls) = mset urls"
  using shuffle_loop_mset [of "length urls - 1" urls bs] by (cases urls) simp_all

lemma shuffled_share_server_order_Inr:
  assumes "shuffled_share_server_order urls bs = Inr ys"
  shows "distinct urls" "ys = shuffle_loop (length urls - 1) bs urls"
  using assms
  by (auto simp: shuffled_share_server_order_def require_unique_share_servers_cases Let_def split: if_splits)

interpretation shuffled: helper_order shuffled_share_server_order
  "\<lambda>urls. share_server_order_random_bytes_required (length urls)"
proof
  show "distinct xs \<and> mset ys = mset xs"
    if "shuffled_share_server_order xs bs = Inr ys" "length xs < 2 ^ 61" for xs bs ys
    using shuffled_share_server_order_Inr [OF that(1)] that(2) by (simp add: shuffle_all_mset)
  show "\<exists>ys. shuffled_share_server_order xs bs = Inr ys"
    if "distinct xs" "length xs < 2 ^ 61" "share_server_order_random_bytes_required (length xs) \<le> length bs"
    for xs bs
    using shuffled_share_server_order_eq [of xs bs] that by (simp add: random_bytes_required_eq)
qed

lemma resubmission_server_order_Inr:
  assumes "resubmission_server_order urls sent bs = Inr ys"
  obtains first second where "ys = first @ second"
    "shuffled_share_server_order (filter (\<lambda>s. s \<notin> set sent) urls)
       (take (share_server_order_random_bytes_required (length (filter (\<lambda>s. s \<notin> set sent) urls))) bs) = Inr first"
    "\<exists>cs. shuffled_share_server_order (filter (\<lambda>s. s \<in> set sent) urls) cs = Inr second"
    "distinct urls"
  using assms
  by (auto simp: resubmission_server_order_def resubmission_server_order_from_groups_def
      require_unique_share_servers_cases Let_def and_then_eq_Inr split: if_splits)

lemma mset_filter_split: "mset (filter (\<lambda>s. \<not> P s) xs) + mset (filter P xs) = mset xs"
  by (induction xs) auto

interpretation resubmission: helper_order "\<lambda>urls. resubmission_server_order urls sent"
  "\<lambda>urls. resubmission_server_order_random_bytes_required urls sent" for sent
proof
  fix xs :: "rust_str list" and bs :: bytes
  assume short: "length xs < 2 ^ 61"
  let ?new = "filter (\<lambda>s. s \<notin> set sent) xs" and ?old = "filter (\<lambda>s. s \<in> set sent) xs"
  have new: "length ?new < 2 ^ 61"
    using short length_filter_le by (rule le_less_trans [rotated])
  have old: "length ?old < 2 ^ 61"
    using short length_filter_le by (rule le_less_trans [rotated])
  show "distinct xs \<and> mset ys = mset xs" if "resubmission_server_order xs sent bs = Inr ys" for ys
    using that
  proof (rule resubmission_server_order_Inr, goal_cases)
    case (1 first second)
    then show ?case
      using shuffled.order_permutes [OF 1(2) new] shuffled.order_permutes [OF _ old, of _ second]
        mset_filter_split [of "\<lambda>s. s \<in> set sent" xs] by auto
  qed
  assume dist: "distinct xs" and bytes: "resubmission_server_order_random_bytes_required xs sent \<le> length bs"
  have sum: "resubmission_server_order_random_bytes_required xs sent = 8 * (length ?new - 1) + 8 * (length ?old - 1)"
    using new old sum_length_filter_compl [of "\<lambda>s. s \<in> set sent" xs] short
    unfolding resubmission_server_order_random_bytes_required_def Let_def
    by (simp add: random_bytes_required_eq usize_saturating_add_def)
  show "\<exists>ys. resubmission_server_order xs sent bs = Inr ys"
    using dist bytes sum new old
    by (simp add: resubmission_server_order_def require_unique_share_servers_cases random_bytes_required_eq
        shuffled_share_server_order_eq Let_def)
qed

section \<open>Properties\<close>

text \<open>C38: For distinct helpers and enough entropy the shuffle succeeds with a permutation of the helpers;
  every permutation is the outcome of some entropy of exactly the required length; and two entropies
  give the same order exactly when every drawn swap index agrees, so index draws and orders are in
  bijection.\<close>

theorem shuffled_order_fair:
  assumes "distinct server_urls" "length server_urls < 2 ^ 61"
  shows "(\<forall>bs. 8 * (length server_urls - 1) \<le> length bs \<longrightarrow>
           (\<exists>order. shuffled_share_server_order server_urls bs = Inr order \<and> mset order = mset server_urls)) \<and>
         (\<forall>order. mset order = mset server_urls \<longrightarrow>
           (\<exists>bs. length bs = share_server_order_random_bytes_required (length server_urls) \<and>
             shuffled_share_server_order server_urls bs = Inr order)) \<and>
         (\<forall>bs cs. 8 * (length server_urls - 1) \<le> min (length bs) (length cs) \<longrightarrow>
           (shuffled_share_server_order server_urls bs = shuffled_share_server_order server_urls cs \<longleftrightarrow>
            same_draws (length server_urls - 1) bs cs))"
proof (intro conjI allI impI)
  let ?n = "length server_urls - 1"
  show "\<exists>order. shuffled_share_server_order server_urls bs = Inr order \<and> mset order = mset server_urls"
    if "8 * ?n \<le> length bs" for bs
    using assms that by (simp add: shuffled_share_server_order_eq shuffle_all_mset)
  show "\<exists>bs. length bs = share_server_order_random_bytes_required (length server_urls) \<and>
      shuffled_share_server_order server_urls bs = Inr order" if perm: "mset order = mset server_urls" for order
  proof (cases "server_urls = []")
    case True
    then show ?thesis
      using perm by (simp add: shuffled_share_server_order_eq random_bytes_required_eq)
  next
    case False
    then obtain bs where "length bs = 8 * ?n" "shuffle_loop ?n bs server_urls = order"
      using shuffle_loop_surj [of ?n server_urls order] perm assms mset_eq_length [OF perm] by auto
    then show ?thesis
      using assms by (intro exI [of _ bs]) (simp add: shuffled_share_server_order_eq random_bytes_required_eq)
  qed
  show "shuffled_share_server_order server_urls bs = shuffled_share_server_order server_urls cs \<longleftrightarrow>
      same_draws ?n bs cs" if "8 * ?n \<le> min (length bs) (length cs)" for bs cs
    using that assms shuffle_loop_inj [of ?n server_urls bs cs]
    by (cases "server_urls = []") (simp_all add: shuffled_share_server_order_eq same_draws_def)
qed

theorem shuffled_order_fair_witness:
  "\<exists>bs. length bs = 16 \<and> shuffled_share_server_order [lit ''a'', lit ''b'', lit ''c''] bs =
     Inr [lit ''c'', lit ''a'', lit ''b'']"
proof -
  have *: "distinct [lit ''a'', lit ''b'', lit ''c'']" "length [lit ''a'', lit ''b'', lit ''c''] < 2 ^ 61"
    by (simp_all add: lit_def)
  show ?thesis
    using shuffled_order_fair [OF *, THEN conjunct2, THEN conjunct1, rule_format,
        of "[lit ''c'', lit ''a'', lit ''b'']"]
    by (simp add: random_bytes_required_eq)
qed

end
