(* ===== verification/Share_Timing.thy ===== *)
theory Share_Timing
  imports Share_Order
begin

text \<open>
  The delayed submission time of a share
  (\<open>zcash_voting/src/share_policy/submission_schedule.rs\<close>) and the timing of status checks and
  resubmissions (\<open>zcash_voting/src/share_policy/timing.rs\<close>). Seconds are \<open>u64\<close> words; the products
  the source computes in \<open>u128\<close> are 128-bit words.
\<close>

section \<open>Submission schedule\<close>

definition SHARE_SUBMIT_AT_RANDOM_BYTES :: nat where
  "SHARE_SUBMIT_AT_RANDOM_BYTES = 8"

definition SHARE_SUBMIT_AT_MAX_DELAY_SECONDS :: u64 where
  "SHARE_SUBMIT_AT_MAX_DELAY_SECONDS = 100 * 60 * 60"

definition delayed_share_window_seconds :: "u64 \<Rightarrow> u64 \<Rightarrow> u64 option \<Rightarrow> bool \<Rightarrow> u64 option" where
  "delayed_share_window_seconds now_seconds vote_end_time_seconds last_moment_buffer single_share =
     (if single_share then None
      else case last_moment_buffer of
          None \<Rightarrow> None
        | Some buffer \<Rightarrow>
            if buffer = 0 then None
            else
              let deadline = saturating_sub vote_end_time_seconds buffer in
              if deadline \<le> now_seconds then None
              else Some (min (deadline - now_seconds) SHARE_SUBMIT_AT_MAX_DELAY_SECONDS))"

definition share_submit_at_random_bytes_required :: "u64 \<Rightarrow> u64 \<Rightarrow> u64 option \<Rightarrow> bool \<Rightarrow> nat" where
  "share_submit_at_random_bytes_required now_seconds vote_end_time_seconds last_moment_buffer single_share =
     (if delayed_share_window_seconds now_seconds vote_end_time_seconds last_moment_buffer single_share \<noteq> None
      then SHARE_SUBMIT_AT_RANDOM_BYTES else 0)"

text \<open>The upper half of the 128-bit product of the sample and the window.\<close>

definition sampled_delay :: "u64 \<Rightarrow> u64 \<Rightarrow> u64" where
  "sampled_delay sample window = ucast (drop_bit 64 ((ucast sample :: 128 word) * ucast window))"

definition scheduled_share_submit_at_from_entropy ::
  "u64 \<Rightarrow> u64 \<Rightarrow> u64 option \<Rightarrow> bool \<Rightarrow> bytes \<Rightarrow> VotingError + u64" where
  "scheduled_share_submit_at_from_entropy now_seconds vote_end_time_seconds last_moment_buffer single_share
     submit_at_random_bytes =
     (case delayed_share_window_seconds now_seconds vote_end_time_seconds last_moment_buffer single_share of
        None \<Rightarrow> Inr 0
      | Some window_seconds \<Rightarrow>
          if length submit_at_random_bytes < SHARE_SUBMIT_AT_RANDOM_BYTES
          then Inl (VotingInvalidInput (lit ''submit_at_random_bytes must contain at least '' @
                 decimal SHARE_SUBMIT_AT_RANDOM_BYTES @ lit '' bytes''))
          else
            let sample = u64_from_le_bytes (take 8 submit_at_random_bytes)
            in Inr (saturating_add now_seconds (sampled_delay sample window_seconds)))"

section \<open>Timing of status checks and resubmissions\<close>

definition SHARE_STATUS_CHECK_GRACE_SECONDS :: u64 where
  "SHARE_STATUS_CHECK_GRACE_SECONDS = 10"

definition SHARE_MIN_OVERDUE_THRESHOLD_SECONDS :: u64 where
  "SHARE_MIN_OVERDUE_THRESHOLD_SECONDS = 30"

definition SHARE_MAX_OVERDUE_THRESHOLD_SECONDS :: u64 where
  "SHARE_MAX_OVERDUE_THRESHOLD_SECONDS = 60 * 60"

definition SHARE_RESUBMIT_CUTOFF_SECONDS :: u64 where
  "SHARE_RESUBMIT_CUTOFF_SECONDS = 10"

definition SHARE_READY_POLL_INTERVAL_SECONDS :: u64 where
  "SHARE_READY_POLL_INTERVAL_SECONDS = 15"

definition SHARE_FUTURE_CHECK_MAX_DELAY_SECONDS :: u64 where
  "SHARE_FUTURE_CHECK_MAX_DELAY_SECONDS = 30"

definition SHARE_MIN_TRACKING_DELAY_SECONDS :: u64 where
  "SHARE_MIN_TRACKING_DELAY_SECONDS = 3"

definition LAST_MOMENT_BUFFER_FRACTION_NUMERATOR :: u64 where
  "LAST_MOMENT_BUFFER_FRACTION_NUMERATOR = 2"

definition LAST_MOMENT_BUFFER_FRACTION_DENOMINATOR :: u64 where
  "LAST_MOMENT_BUFFER_FRACTION_DENOMINATOR = 5"

definition LAST_MOMENT_BUFFER_MAX_SECONDS :: u64 where
  "LAST_MOMENT_BUFFER_MAX_SECONDS = 6 * 60 * 60"

record ShareTimingPolicy =
  status_check_grace_seconds :: u64
  min_overdue_threshold_seconds :: u64
  max_overdue_threshold_seconds :: u64
  resubmit_cutoff_seconds :: u64
  ready_poll_interval_seconds :: u64
  future_check_max_delay_seconds :: u64
  min_tracking_delay_seconds :: u64

definition share_timing_policy_default :: ShareTimingPolicy where
  "share_timing_policy_default =
     \<lparr>status_check_grace_seconds = SHARE_STATUS_CHECK_GRACE_SECONDS,
      min_overdue_threshold_seconds = SHARE_MIN_OVERDUE_THRESHOLD_SECONDS,
      max_overdue_threshold_seconds = SHARE_MAX_OVERDUE_THRESHOLD_SECONDS,
      resubmit_cutoff_seconds = SHARE_RESUBMIT_CUTOFF_SECONDS,
      ready_poll_interval_seconds = SHARE_READY_POLL_INTERVAL_SECONDS,
      future_check_max_delay_seconds = SHARE_FUTURE_CHECK_MAX_DELAY_SECONDS,
      min_tracking_delay_seconds = SHARE_MIN_TRACKING_DELAY_SECONDS\<rparr>"

record ShareTrackingSummary =
  summary_total :: u64
  summary_confirmed :: u64
  summary_waiting :: u64
  summary_ready :: u64
  summary_overdue :: u64

definition has_shares :: "ShareTrackingSummary \<Rightarrow> bool" where
  "has_shares summary \<longleftrightarrow> summary_total summary > 0"

record ShareDelegationRecord =
  share_round_id :: rust_str
  share_bundle_index :: u32
  share_proposal_id :: u32
  share_share_index :: u32
  share_sent_to_urls :: "rust_str list"
  share_ambiguous_urls :: "rust_str list"
  share_attempting_urls :: "rust_str list"
  share_target_count :: u32
  share_nullifier :: bytes
  share_confirmed :: bool
  share_submit_at :: u64
  share_created_at :: u64

definition last_moment_buffer_seconds :: "u64 \<Rightarrow> u64 \<Rightarrow> u64 option" where
  "last_moment_buffer_seconds ceremony_start_seconds vote_end_time_seconds =
     (if vote_end_time_seconds < ceremony_start_seconds then None
      else
        let duration = vote_end_time_seconds - ceremony_start_seconds in
        if duration = 0 then None
        else
          let numerator = (ucast duration :: 128 word) * ucast LAST_MOMENT_BUFFER_FRACTION_NUMERATOR;
              denominator = (ucast LAST_MOMENT_BUFFER_FRACTION_DENOMINATOR :: 128 word);
              buffer = (numerator + denominator - 1) div denominator;
              capped = min buffer (ucast LAST_MOMENT_BUFFER_MAX_SECONDS)
          in Some (ucast capped))"

definition last_moment_deadline_seconds :: "u64 \<Rightarrow> u64 \<Rightarrow> u64 option" where
  "last_moment_deadline_seconds ceremony_start_seconds vote_end_time_seconds =
     map_option (\<lambda>buffer. saturating_sub vote_end_time_seconds buffer)
       (last_moment_buffer_seconds ceremony_start_seconds vote_end_time_seconds)"

definition is_last_moment :: "u64 \<Rightarrow> u64 \<Rightarrow> u64 \<Rightarrow> bool" where
  "is_last_moment now_seconds ceremony_start_seconds vote_end_time_seconds =
     (case last_moment_deadline_seconds ceremony_start_seconds vote_end_time_seconds of
        None \<Rightarrow> False
      | Some deadline \<Rightarrow> now_seconds \<ge> deadline \<and> now_seconds < vote_end_time_seconds)"

definition share_recovery_base_time :: "ShareDelegationRecord \<Rightarrow> u64" where
  "share_recovery_base_time share =
     (if share_submit_at share > 0 then share_submit_at share else share_created_at share)"

definition is_share_ready_for_status_check ::
  "ShareDelegationRecord \<Rightarrow> u64 \<Rightarrow> ShareTimingPolicy \<Rightarrow> bool" where
  "is_share_ready_for_status_check share now_seconds policy =
     (if share_confirmed share then False
      else now_seconds \<ge> saturating_add (share_recovery_base_time share) (status_check_grace_seconds policy))"

definition overdue_threshold_seconds :: "ShareDelegationRecord \<Rightarrow> u64 \<Rightarrow> ShareTimingPolicy \<Rightarrow> u64" where
  "overdue_threshold_seconds share vote_end_time_seconds policy =
     (let base_time = share_recovery_base_time share;
          remaining_window = saturating_sub vote_end_time_seconds base_time;
          threshold = remaining_window div 4;
          max_threshold = max (max_overdue_threshold_seconds policy) (min_overdue_threshold_seconds policy)
      in min (max threshold (min_overdue_threshold_seconds policy)) max_threshold)"

definition is_share_resubmission_window_open :: "u64 \<Rightarrow> u64 \<Rightarrow> ShareTimingPolicy \<Rightarrow> bool" where
  "is_share_resubmission_window_open now_seconds vote_end_time_seconds policy \<longleftrightarrow>
     vote_end_time_seconds > saturating_add now_seconds (resubmit_cutoff_seconds policy)"

definition should_resubmit_share ::
  "ShareDelegationRecord \<Rightarrow> u64 \<Rightarrow> u64 \<Rightarrow> ShareTimingPolicy \<Rightarrow> bool" where
  "should_resubmit_share share now_seconds vote_end_time_seconds policy =
     (if share_confirmed share then False
      else
        let base_time = share_recovery_base_time share;
            retry_at = saturating_add base_time (overdue_threshold_seconds share vote_end_time_seconds policy)
        in now_seconds \<ge> retry_at \<and>
           is_share_resubmission_window_open now_seconds vote_end_time_seconds policy)"

definition min_second :: "u64 option \<Rightarrow> u64 \<Rightarrow> u64 option" where
  "min_second current candidate =
     (case current of
        Some c \<Rightarrow> if c \<le> candidate then Some c else Some candidate
      | None \<Rightarrow> Some candidate)"

text \<open>The loop over the unconfirmed shares; it returns the earliest future check and the two flags.\<close>

fun tracking_loop ::
  "u64 \<Rightarrow> ShareTimingPolicy \<Rightarrow> ShareDelegationRecord list \<Rightarrow> u64 option \<times> bool \<times> bool \<Rightarrow>
   u64 option \<times> bool \<times> bool" where
  "tracking_loop now_seconds policy [] acc = acc"
| "tracking_loop now_seconds policy (share # shares) (next_second, has_unconfirmed, has_ready) =
     (let base_time = share_recovery_base_time share;
          check_at = saturating_add base_time (status_check_grace_seconds policy)
      in if check_at > now_seconds
         then tracking_loop now_seconds policy shares (min_second next_second check_at, True, has_ready)
         else tracking_loop now_seconds policy shares (next_second, True, True))"

definition next_tracking_delay_seconds ::
  "ShareDelegationRecord list \<Rightarrow> u64 \<Rightarrow> ShareTimingPolicy \<Rightarrow> u64 option" where
  "next_tracking_delay_seconds shares now_seconds policy =
     (case tracking_loop now_seconds policy (filter (\<lambda>s. \<not> share_confirmed s) shares) (None, False, False) of
        (next_second, has_unconfirmed, has_ready) \<Rightarrow>
          if \<not> has_unconfirmed then None
          else
            let future_delay = map_option (\<lambda>next_at. min (saturating_sub next_at now_seconds)
                  (future_check_max_delay_seconds policy)) next_second;
                ready_delay = (if has_ready then Some (ready_poll_interval_seconds policy) else None);
                delay_seconds = (case (ready_delay, future_delay) of
                    (Some ready, Some future) \<Rightarrow> min ready future
                  | (Some ready, None) \<Rightarrow> ready
                  | (None, Some future) \<Rightarrow> future
                  | (None, None) \<Rightarrow> ready_poll_interval_seconds policy)
            in Some (max delay_seconds (min_tracking_delay_seconds policy)))"

text \<open>The counters are \<open>u64\<close>; the source adds with overflow checks only in debug builds.\<close>

fun summary_loop ::
  "u64 \<Rightarrow> u64 option \<Rightarrow> ShareTimingPolicy \<Rightarrow> ShareDelegationRecord list \<Rightarrow> ShareTrackingSummary \<Rightarrow>
   ShareTrackingSummary" where
  "summary_loop now_seconds vote_end policy [] summary = summary"
| "summary_loop now_seconds vote_end policy (share # shares) summary =
     summary_loop now_seconds vote_end policy shares
       (if share_confirmed share
        then summary\<lparr>summary_confirmed := summary_confirmed summary + 1\<rparr>
        else if (case vote_end of
                   Some vote_end_time \<Rightarrow> should_resubmit_share share now_seconds vote_end_time policy
                 | None \<Rightarrow> False)
        then summary\<lparr>summary_overdue := summary_overdue summary + 1\<rparr>
        else if is_share_ready_for_status_check share now_seconds policy
        then summary\<lparr>summary_ready := summary_ready summary + 1\<rparr>
        else summary\<lparr>summary_waiting := summary_waiting summary + 1\<rparr>)"

definition summarize_share_tracking ::
  "ShareDelegationRecord list \<Rightarrow> u64 \<Rightarrow> u64 option \<Rightarrow> ShareTimingPolicy \<Rightarrow> ShareTrackingSummary" where
  "summarize_share_tracking shares now_seconds vote_end_time_seconds policy =
     summary_loop now_seconds vote_end_time_seconds policy shares
       \<lparr>summary_total = word_of_nat (length shares), summary_confirmed = 0, summary_waiting = 0,
        summary_ready = 0, summary_overdue = 0\<rparr>"

section \<open>The sampled delay\<close>

lemma unat_u64_less: "unat (x :: u64) < 2 ^ 64"
  using unsigned_less [of x, where ?'a = nat] by simp

lemma unat_u128_of_u64 [simp]: "unat (ucast (x :: u64) :: 128 word) = unat x"
  using unat_u64_less [of x] by (simp add: unsigned_ucast_eq take_bit_nat_eq_self)

lemma unat_u64_product: "unat (x :: u64) * unat (y :: u64) < 2 ^ 64 * 2 ^ 64"
  using unat_u64_less [of x] unat_u64_less [of y] by (intro mult_strict_mono) simp_all

lemma unat_u64_mult_u128: "unat ((ucast (x :: u64) :: 128 word) * ucast y) = unat x * unat (y :: u64)"
  using unat_u64_product [of x y] by (simp add: unat_word_ariths)

lemma unat_sampled_delay: "unat (sampled_delay sample window) = unat sample * unat window div 2 ^ 64"
proof -
  let ?p = "(ucast sample :: 128 word) * ucast window"
  have "unat (drop_bit 64 ?p) = unat sample * unat window div 2 ^ 64"
    by (simp only: unat_drop_bit_eq unat_u64_mult_u128) (simp add: drop_bit_eq_div)
  moreover have "unat sample * unat window div 2 ^ 64 < 2 ^ 64"
    using unat_u64_product [of sample window] by (rule less_mult_imp_div_less)
  ultimately show ?thesis
    unfolding sampled_delay_def by (simp only: unsigned_ucast_eq take_bit_nat_eq_self) (simp add: take_bit_nat_eq_self)
qed

lemma sampled_delay_less: "0 < window \<Longrightarrow> sampled_delay sample window < window"
proof -
  assume "0 < window"
  then have "unat sample * unat window < unat window * 2 ^ 64"
    using unat_u64_less [of sample] by (simp add: unat_gt_0 mult.commute)
  then show ?thesis
    unfolding word_less_nat_alt unat_sampled_delay by (rule less_mult_imp_div_less)
qed

text \<open>Every delay of the window is drawn by the least sample that reaches it.\<close>

lemma sampled_delay_surj:
  assumes "d < window"
  shows "\<exists>sample. sampled_delay sample window = d"
proof -
  let ?w = "unat window" and ?d = "unat d"
  let ?s = "div_ceil (?d * 2 ^ 64) ?w"
  have dw: "?d < ?w"
    using assms by (simp add: word_less_nat_alt)
  then have bounds: "?d * 2 ^ 64 \<le> ?s * ?w" "?s * ?w < ?d * 2 ^ 64 + ?w"
    by (intro div_ceil_lower div_ceil_upper; simp)+
  have w: "?w < 2 ^ 64"
    by (rule unat_u64_less)
  have "Suc ?d * 2 ^ 64 \<le> ?w * 2 ^ 64"
    using dw by (intro mult_le_mono1) simp
  then have "?s * ?w < 2 ^ 64 * ?w"
    using bounds w unfolding mult_Suc mult.commute [of "2 ^ 64"] by linarith
  then have s: "unat (word_of_nat ?s :: u64) = ?s"
    by (intro unat_word_of_nat_u64) simp
  have "?s * ?w div 2 ^ 64 = ?d"
    using bounds w by (intro div_nat_eqI) (simp_all add: algebra_simps)
  then show ?thesis
    using s by (intro exI [of _ "word_of_nat ?s"]) (simp add: word_unat_eq_iff unat_sampled_delay)
qed

lemma delayed_share_window_Some:
  assumes "delayed_share_window_seconds now_seconds vote_end buffer single = Some window"
  obtains b where "buffer = Some b" "0 < window" "window \<le> SHARE_SUBMIT_AT_MAX_DELAY_SECONDS"
    "unat now_seconds + unat window \<le> unat vote_end - unat b"
proof -
  obtain b where b: "buffer = Some b" "\<not> saturating_sub vote_end b \<le> now_seconds"
    and w: "window = min (saturating_sub vote_end b - now_seconds) SHARE_SUBMIT_AT_MAX_DELAY_SECONDS"
    using assms by (auto simp: delayed_share_window_seconds_def Let_def split: if_splits option.splits)
  let ?d = "saturating_sub vote_end b"
  have "unat (?d - now_seconds) = unat ?d - unat now_seconds" "unat now_seconds < unat ?d"
    using b(2) by (simp_all add: unat_sub word_le_nat_alt)
  moreover have "unat window \<le> unat (?d - now_seconds)"
    by (simp add: w word_le_nat_alt [symmetric])
  ultimately have "unat now_seconds + unat window \<le> unat vote_end - unat b"
    using unat_saturating_sub [of vote_end b] by linarith
  moreover have "0 < window"
    using \<open>unat (?d - now_seconds) = _\<close> \<open>unat now_seconds < unat ?d\<close>
    by (simp add: w SHARE_SUBMIT_AT_MAX_DELAY_SECONDS_def word_less_nat_alt min_def)
  ultimately show thesis
    using that b(1) w by simp
qed

text \<open>C39: With eight random bytes the submission time is always produced. Without a delay window it is
  zero. With one it lies at or after the present, strictly before the last-moment boundary and
  strictly within the maximal delay; and every second of the window is the outcome of some entropy.\<close>

theorem submit_at_within_window:
  assumes "8 \<le> length submit_at_bytes"
  shows "\<exists>submit_at. scheduled_share_submit_at_from_entropy now_seconds vote_end buffer single submit_at_bytes =
             Inr submit_at \<and>
           (case delayed_share_window_seconds now_seconds vote_end buffer single of
              None \<Rightarrow> submit_at = 0
            | Some window \<Rightarrow>
                now_seconds \<le> submit_at \<and>
                unat submit_at < unat vote_end - unat (the buffer) \<and>
                unat submit_at < unat now_seconds + unat SHARE_SUBMIT_AT_MAX_DELAY_SECONDS \<and>
                (\<forall>delay<window. \<exists>bs. length bs = 8 \<and>
                   scheduled_share_submit_at_from_entropy now_seconds vote_end buffer single bs =
                     Inr (now_seconds + delay)))"
proof (cases "delayed_share_window_seconds now_seconds vote_end buffer single")
  case None
  then show ?thesis
    by (simp add: scheduled_share_submit_at_from_entropy_def)
next
  case (Some window)
  then obtain b where b: "buffer = Some b" "0 < window" "window \<le> SHARE_SUBMIT_AT_MAX_DELAY_SECONDS"
    and fits: "unat now_seconds + unat window \<le> unat vote_end - unat b"
    by (rule delayed_share_window_Some)
  have add: "saturating_add now_seconds d = now_seconds + d"
    "unat (now_seconds + d) = unat now_seconds + unat d" if "d < window" for d
  proof -
    have "unat now_seconds + unat d < 2 ^ 64"
      using fits that unat_u64_less [of vote_end] by (simp add: word_less_nat_alt)
    then show "saturating_add now_seconds d = now_seconds + d"
      "unat (now_seconds + d) = unat now_seconds + unat d"
      by (simp_all add: saturating_add_def unat_word_ariths)
  qed
  let ?d = "\<lambda>bs. sampled_delay (u64_from_le_bytes (take 8 bs)) window"
  have run: "scheduled_share_submit_at_from_entropy now_seconds vote_end buffer single bs = Inr (now_seconds + ?d bs)"
    if "8 \<le> length bs" for bs
    using that Some b(2)
    by (simp add: scheduled_share_submit_at_from_entropy_def SHARE_SUBMIT_AT_RANDOM_BYTES_def sampled_delay_less add(1))
  have reach: "\<exists>bs. length bs = 8 \<and>
      scheduled_share_submit_at_from_entropy now_seconds vote_end buffer single bs = Inr (now_seconds + d)"
    if d: "d < window" for d
  proof -
    obtain sample where "sampled_delay sample window = d"
      using sampled_delay_surj [OF d] by blast
    then show ?thesis
      by (intro exI [of _ "le_bytes 8 (unat sample)"]) (simp add: run)
  qed
  have "?d submit_at_bytes < window"
    using b(2) by (rule sampled_delay_less)
  then show ?thesis
    using assms b fits Some reach add(2) [of "?d submit_at_bytes"]
    by (intro exI [of _ "now_seconds + ?d submit_at_bytes"])
      (simp add: run [unfolded b(1)] word_le_nat_alt word_less_nat_alt)
qed

theorem submit_at_within_window_witness:
  "\<exists>submit_at. scheduled_share_submit_at_from_entropy 1000 2000 (Some 400) False (replicate 8 255) = Inr submit_at \<and>
     unat submit_at < 1600"
  using submit_at_within_window [of "replicate 8 255" 1000 2000 "Some 400" False]
  by (auto simp: delayed_share_window_seconds_def saturating_sub_def)

section \<open>The tracking cadence\<close>

definition check_at :: "ShareTimingPolicy \<Rightarrow> ShareDelegationRecord \<Rightarrow> u64" where
  "check_at policy share = saturating_add (share_recovery_base_time share) (status_check_grace_seconds policy)"

text \<open>The delay one share asks for on its own.\<close>

definition share_delay :: "u64 \<Rightarrow> ShareTimingPolicy \<Rightarrow> ShareDelegationRecord \<Rightarrow> u64" where
  "share_delay now_seconds policy share =
     (if check_at policy share > now_seconds
      then min (check_at policy share - now_seconds) (future_check_max_delay_seconds policy)
      else ready_poll_interval_seconds policy)"

lemma min_second_eq: "min_second current candidate = Some (case current of None \<Rightarrow> candidate | Some c \<Rightarrow> min c candidate)"
  by (simp add: min_second_def min_def split: option.split)

text \<open>What the loop has learned about the shares it has seen.\<close>

definition loop_delay :: "u64 \<Rightarrow> ShareTimingPolicy \<Rightarrow> u64 option \<Rightarrow> bool \<Rightarrow> u64 option" where
  "loop_delay now_seconds policy next_second has_ready =
     (case next_second of
        None \<Rightarrow> if has_ready then Some (ready_poll_interval_seconds policy) else None
      | Some n \<Rightarrow>
          let future = min (saturating_sub n now_seconds) (future_check_max_delay_seconds policy)
          in Some (if has_ready then min (ready_poll_interval_seconds policy) future else future))"

definition min_option :: "u64 option \<Rightarrow> u64 \<Rightarrow> u64" where
  "min_option current d = (case current of None \<Rightarrow> d | Some c \<Rightarrow> min c d)"

lemma min_option_simps [simp]: "min_option None d = d" "min_option (Some c) d = min c d"
  by (simp_all add: min_option_def)

lemma saturating_sub_min: "saturating_sub (min a b) n = min (saturating_sub a n) (saturating_sub b n)" for a b n :: u64
proof (cases "a \<le> b")
  case True
  then have "saturating_sub a n \<le> saturating_sub b n"
    unfolding word_le_nat_alt unat_saturating_sub by (rule diff_le_mono)
  then show ?thesis
    using True by (simp add: min_absorb1)
next
  case False
  then have "saturating_sub b n \<le> saturating_sub a n"
    unfolding word_le_nat_alt unat_saturating_sub by (intro diff_le_mono) linarith
  then show ?thesis
    using False by (simp add: min_absorb2)
qed

lemma saturating_sub_greater: "n < a \<Longrightarrow> saturating_sub a n = a - n" for a n :: u64
  by (metis saturating_sub_def order_less_asym)

lemma loop_delay_step:
  assumes "\<forall>n. next_second = Some n \<longrightarrow> n > now_seconds"
  shows "loop_delay now_seconds policy
      (if check_at policy share > now_seconds then min_second next_second (check_at policy share) else next_second)
      (if check_at policy share > now_seconds then has_ready else True) =
    Some (min_option (loop_delay now_seconds policy next_second has_ready) (share_delay now_seconds policy share))"
  using assms
  by (cases next_second)
    (simp_all add: loop_delay_def share_delay_def min_second_eq Let_def saturating_sub_min
      saturating_sub_greater min.assoc min.commute min.left_commute)

lemma tracking_loop_delay:
  assumes "\<forall>n. next_second = Some n \<longrightarrow> n > now_seconds"
    and "tracking_loop now_seconds policy shares (next_second, has_unconfirmed, has_ready) = (n', u', r')"
  shows "u' = (has_unconfirmed \<or> shares \<noteq> []) \<and>
    loop_delay now_seconds policy n' r' =
      fold (\<lambda>share acc. Some (min_option acc (share_delay now_seconds policy share))) shares
        (loop_delay now_seconds policy next_second has_ready)"
  using assms
proof (induction shares arbitrary: next_second has_unconfirmed has_ready)
  case (Cons share shares)
  let ?n = "if check_at policy share > now_seconds then min_second next_second (check_at policy share) else next_second"
  let ?r = "if check_at policy share > now_seconds then has_ready else True"
  have later: "\<forall>n. ?n = Some n \<longrightarrow> n > now_seconds"
    using Cons.prems(1) by (cases next_second) (simp_all add: min_second_eq)
  have run: "tracking_loop now_seconds policy shares (?n, True, ?r) = (n', u', r')"
    using Cons.prems(2) by (simp add: check_at_def [symmetric] Let_def split: if_splits)
  show ?case
    using Cons.IH [OF later run] unfolding loop_delay_step [OF Cons.prems(1)] by simp
qed simp

lemma fold_min_option:
  "fold (\<lambda>x acc. Some (min_option acc (f x))) xs (Some a) = Some (Min (insert a (f ` set xs)))"
proof (induction xs arbitrary: a)
  case (Cons x xs)
  then show ?case
    by (cases "xs = []") (simp_all add: insert_commute min.assoc min.left_commute)
qed simp

text \<open>C40: The tracking delay is absent exactly when every share is confirmed, and otherwise it is the least
  of the delays the unconfirmed shares ask for one by one, raised to the minimal tracking delay: a
  ready share asks for the poll interval, a later one for the capped time to its check.\<close>

theorem next_tracking_delay_is_least:
  "next_tracking_delay_seconds shares now_seconds policy =
     (if {share \<in> set shares. \<not> share_confirmed share} = {} then None
      else Some (max (Min (share_delay now_seconds policy ` {share \<in> set shares. \<not> share_confirmed share}))
                   (min_tracking_delay_seconds policy)))"
proof -
  let ?open = "filter (\<lambda>s. \<not> share_confirmed s) shares"
  obtain n u r where loop: "tracking_loop now_seconds policy ?open (None, False, False) = (n, u, r)"
    by (metis prod_cases3)
  have u: "u \<longleftrightarrow> ?open \<noteq> []" and delay: "loop_delay now_seconds policy n r =
      fold (\<lambda>share acc. Some (min_option acc (share_delay now_seconds policy share))) ?open None"
    using tracking_loop_delay [OF _ loop] by (simp_all add: loop_delay_def)
  have next_delay: "next_tracking_delay_seconds shares now_seconds policy =
      (if u then map_option (\<lambda>d. max d (min_tracking_delay_seconds policy)) (loop_delay now_seconds policy n r) else None)"
    if "u \<Longrightarrow> loop_delay now_seconds policy n r \<noteq> None"
    using that unfolding next_tracking_delay_seconds_def loop
    by (auto simp: loop_delay_def Let_def split: option.splits if_splits)
  show ?thesis
  proof (cases ?open)
    case Nil
    then show ?thesis
      using u next_delay by (auto simp: filter_empty_conv)
  next
    case (Cons s rest)
    then have set: "{share \<in> set shares. \<not> share_confirmed share} = insert s (set rest)"
      by (metis list.set(2) set_filter)
    have "loop_delay now_seconds policy n r = Some (Min (share_delay now_seconds policy ` insert s (set rest)))"
      using delay Cons by (simp add: fold_min_option)
    then show ?thesis
      using next_delay u Cons set by auto
  qed
qed

section \<open>Overdue shares\<close>

lemma overdue_threshold_bounds:
  "min_overdue_threshold_seconds policy \<le> overdue_threshold_seconds share vote_end policy"
  "overdue_threshold_seconds share vote_end policy
     \<le> max (max_overdue_threshold_seconds policy) (min_overdue_threshold_seconds policy)"
  by (auto simp: overdue_threshold_seconds_def Let_def)

lemma should_resubmit_share_open:
  assumes "should_resubmit_share share now_seconds vote_end policy"
  shows "\<not> share_confirmed share" "share_recovery_base_time share \<le> now_seconds" "now_seconds < vote_end"
proof -
  have le: "a \<le> saturating_add a b" for a b :: u64
    by (simp add: saturating_add_def word_le_nat_alt unat_word_ariths)
      (simp add: word_le_nat_alt [symmetric])
  show "\<not> share_confirmed share"
    using assms by (auto simp: should_resubmit_share_def)
  show "share_recovery_base_time share \<le> now_seconds" "now_seconds < vote_end"
    using assms le [of "share_recovery_base_time share"] le [of now_seconds]
    by (auto simp: should_resubmit_share_def is_share_resubmission_window_open_def Let_def
        intro: order_trans order_le_less_trans split: if_splits)
qed

lemma summary_loop_sum:
  "summary_confirmed (summary_loop now_seconds vote_end policy shares s) +
   summary_waiting (summary_loop now_seconds vote_end policy shares s) +
   summary_ready (summary_loop now_seconds vote_end policy shares s) +
   summary_overdue (summary_loop now_seconds vote_end policy shares s) =
   summary_confirmed s + summary_waiting s + summary_ready s + summary_overdue s + word_of_nat (length shares)"
  by (induction shares arbitrary: s) (simp_all add: ac_simps)

end
