(* ===== verification/Share_Placement.thy ===== *)
theory Share_Placement
  imports Share_Timing
begin

text \<open>
  Initial placement of shares on helpers
  (\<open>zcash_voting/src/share_policy/initial_placement.rs\<close>). The usage map of the source is a function
  that gives \<open>0\<close> for a helper without an entry. The lemmas show that the shares of a complete
  commitment can always be placed, evenly and within the quota.
\<close>

section \<open>Placement\<close>

record ShareSubmissionPlan =
  plan_immediate :: bool
  plan_submit_at :: u64
  plan_target_count :: u32
  plan_target_servers :: "rust_str list"

record ImmediateShareKey =
  immediate_bundle_index :: u32
  immediate_proposal_id :: u32
  immediate_share_index :: u32

record ShareSubmissionRandomBytesRequired =
  submit_at_random_bytes :: nat
  server_random_bytes :: nat

definition IMMEDIATE_SHARE_INDEX :: u32 where
  "IMMEDIATE_SHARE_INDEX = 0"

definition iter_min :: "u32 list \<Rightarrow> u32 option" where
  "iter_min xs = (case xs of [] \<Rightarrow> None | x # rest \<Rightarrow> Some (fold min rest x))"

definition round_immediate_share_key :: "u32 option \<Rightarrow> u32 list \<Rightarrow> ImmediateShareKey option" where
  "round_immediate_share_key highest_bundle_index voted_proposal_ids =
     Option.bind highest_bundle_index (\<lambda>bundle.
     Option.bind (iter_min voted_proposal_ids) (\<lambda>proposal.
       Some \<lparr>immediate_bundle_index = bundle, immediate_proposal_id = proposal,
             immediate_share_index = IMMEDIATE_SHARE_INDEX\<rparr>))"

definition share_submission_random_bytes_required ::
  "nat \<Rightarrow> nat \<Rightarrow> u64 \<Rightarrow> u64 \<Rightarrow> u64 option \<Rightarrow> bool \<Rightarrow> ShareSubmissionRandomBytesRequired" where
  "share_submission_random_bytes_required share_count server_count now_seconds vote_end_time_seconds
     last_moment_buffer single_share =
     \<lparr>submit_at_random_bytes = usize_saturating_mul
        (share_submit_at_random_bytes_required now_seconds vote_end_time_seconds last_moment_buffer single_share)
        share_count,
      server_random_bytes = usize_saturating_mul
        (share_server_order_random_bytes_required server_count) share_count\<rparr>"

definition require_share_servers :: "rust_str list \<Rightarrow> VotingError + unit" where
  "require_share_servers server_urls =
     (if server_urls = [] then Inl (VotingInvalidInput (lit ''server_urls must not be empty''))
      else require_unique_share_servers server_urls)"

definition build_share_submission_plan ::
  "bool \<Rightarrow> nat \<Rightarrow> rust_str list \<Rightarrow> u64 \<Rightarrow> VotingError + ShareSubmissionPlan" where
  "build_share_submission_plan immediate target_count target_servers submit_at =
     (if target_count < 2 ^ 32
      then Inr \<lparr>plan_immediate = immediate, plan_submit_at = submit_at,
                plan_target_count = word_of_nat target_count, plan_target_servers = target_servers\<rparr>
      else Inl (VotingInvalidInput (lit ''target_count '' @ decimal target_count @ lit '' does not fit u32'')))"

definition plan_share_submission ::
  "rust_str list \<Rightarrow> u64 \<Rightarrow> u64 \<Rightarrow> u64 option \<Rightarrow> bool \<Rightarrow> bytes \<Rightarrow> bytes \<Rightarrow> VotingError + ShareSubmissionPlan" where
  "plan_share_submission server_urls now_seconds vote_end_time_seconds last_moment_buffer single_share
     submit_at_bytes server_bytes =
     and_then (require_share_servers server_urls) (\<lambda>_.
     let target_count = share_submission_target_count (length server_urls) in
     and_then (select_share_submission_targets server_urls target_count server_bytes) (\<lambda>target_servers.
     and_then (scheduled_share_submit_at_from_entropy now_seconds vote_end_time_seconds last_moment_buffer
         single_share submit_at_bytes) (\<lambda>submit_at.
       build_share_submission_plan False target_count target_servers submit_at)))"

type_synonym server_usage = "rust_str \<Rightarrow> nat"

definition below_quota :: "nat option \<Rightarrow> server_usage \<Rightarrow> rust_str \<Rightarrow> bool" where
  "below_quota max_shares_per_server usage server =
     (case max_shares_per_server of None \<Rightarrow> True | Some maximum \<Rightarrow> usage server < maximum)"

definition select_batch_share_submission_targets ::
  "rust_str list \<Rightarrow> nat \<Rightarrow> nat option \<Rightarrow> server_usage \<Rightarrow> bytes \<Rightarrow>
   VotingError + rust_str list \<times> server_usage" where
  "select_batch_share_submission_targets server_urls target_count max_shares_per_server usage server_bytes =
     and_then (shuffled_share_server_order server_urls server_bytes) (\<lambda>randomized_order.
     let ranked = sort_key (\<lambda>(rank, server). (usage server, rank)) (enumerate 0 randomized_order);
         selected = map snd (take target_count
           (filter (\<lambda>(_, server). below_quota max_shares_per_server usage server) ranked))
     in
     if length selected \<noteq> target_count
     then Inl (VotingInvalidInput (lit ''cannot select '' @ decimal target_count @
            lit '' distinct helpers without exceeding the initial per-helper share quota''))
     else Inr (selected, fold (\<lambda>server u. u(server := u server + 1)) selected usage))"

definition checked_random_bytes_required :: "nat \<Rightarrow> nat \<Rightarrow> rust_str \<Rightarrow> VotingError + nat" where
  "checked_random_bytes_required per_share share_count name =
     ok_or (VotingInvalidInput (name @ lit '' requirement overflows usize''))
       (usize_checked_mul per_share share_count)"

text \<open>How many of the ranked helpers a batch is planned over.\<close>

definition planning_server_count :: "nat \<Rightarrow> nat \<Rightarrow> nat \<Rightarrow> nat" where
  "planning_server_count preferred_server_count minimum server_count =
     min (max preferred_server_count minimum) server_count"

text \<open>
  The loop over the shares of a batch; the arguments that change are the share index, the usage
  map and the shares that remain.
\<close>

fun plan_loop ::
  "rust_str list \<Rightarrow> nat \<Rightarrow> nat option \<Rightarrow> u64 \<Rightarrow> u64 \<Rightarrow> u64 option \<Rightarrow> bool \<Rightarrow> u32 option \<Rightarrow>
   bytes \<Rightarrow> nat \<Rightarrow> bytes \<Rightarrow> nat \<Rightarrow> nat \<Rightarrow> server_usage \<Rightarrow> nat \<Rightarrow> VotingError + ShareSubmissionPlan list" where
  "plan_loop servers target_count quota now_seconds vote_end buffer single immediate_index
     submit_bytes submit_per server_bytes server_per share_index usage 0 = Inr []"
| "plan_loop servers target_count quota now_seconds vote_end buffer single immediate_index
     submit_bytes submit_per server_bytes server_per share_index usage (Suc remaining) =
     and_then (select_batch_share_submission_targets servers target_count quota usage
         (take server_per (drop (share_index * server_per) server_bytes))) (\<lambda>(target_servers, usage').
     let immediate = (immediate_index = Some (word_of_nat share_index)) in
     and_then (if immediate then Inr 0
               else scheduled_share_submit_at_from_entropy now_seconds vote_end buffer single
                 (take submit_per (drop (share_index * submit_per) submit_bytes))) (\<lambda>submit_at.
     and_then (build_share_submission_plan immediate target_count target_servers submit_at) (\<lambda>plan.
     and_then (plan_loop servers target_count quota now_seconds vote_end buffer single immediate_index
         submit_bytes submit_per server_bytes server_per (share_index + 1) usage' remaining) (\<lambda>plans.
       Inr (plan # plans)))))"

definition plan_share_submissions_with_preferred_servers ::
  "nat \<Rightarrow> rust_str list \<Rightarrow> nat \<Rightarrow> u64 \<Rightarrow> u64 \<Rightarrow> u64 option \<Rightarrow> bool \<Rightarrow> u32 option \<Rightarrow> bytes \<Rightarrow> bytes \<Rightarrow>
   VotingError + ShareSubmissionPlan list" where
  "plan_share_submissions_with_preferred_servers share_count ranked_server_urls preferred_server_count
     now_seconds vote_end_time_seconds last_moment_buffer single_share immediate_index submit_bytes server_bytes =
     (if single_share \<and> share_count \<noteq> 1
      then Inl (VotingInvalidInput (lit ''single_share planning requires exactly one share payload, got '' @
             decimal share_count))
      else if (case immediate_index of None \<Rightarrow> False | Some index \<Rightarrow> unat index \<ge> share_count)
      then Inl (VotingInvalidInput (lit ''immediate_share_index must be less than share_count '' @
             decimal share_count))
      else if share_count = 0 then Inr []
      else
      and_then (require_share_servers ranked_server_urls) (\<lambda>_.
      if preferred_server_count > length ranked_server_urls
      then Inl (VotingInvalidInput
             (lit ''preferred_server_count must not exceed ranked_server_urls length''))
      else
      let submit_per = share_submit_at_random_bytes_required now_seconds vote_end_time_seconds
            last_moment_buffer single_share;
          server_per = share_server_order_random_bytes_required (length ranked_server_urls)
      in
      and_then (checked_random_bytes_required submit_per share_count (lit ''submit_at_random_bytes''))
        (\<lambda>submit_needed.
      and_then (checked_random_bytes_required server_per share_count (lit ''server_random_bytes''))
        (\<lambda>server_needed.
      if length submit_bytes < submit_needed
      then Inl (VotingInvalidInput (lit ''submit_at_random_bytes must contain at least '' @
             decimal submit_needed @ lit '' bytes''))
      else if length server_bytes < server_needed
      then Inl (VotingInvalidInput (lit ''server_random_bytes must contain at least '' @
             decimal server_needed @ lit '' bytes''))
      else
      let target_count = share_submission_target_count (length ranked_server_urls);
          complete_normal_batch = (share_count = VOTE_COMMITMENT_SHARE_COUNT \<and> \<not> single_share)
      in
      and_then (share_server_selection_policy (length ranked_server_urls)) (\<lambda>policy.
      let minimum = (if complete_normal_batch then unat (policy_min_server_count policy) else target_count) in
      if minimum > length ranked_server_urls
      then Inl (VotingInvalidInput (lit ''complete share batch requires at least '' @ decimal minimum @
             lit '' helpers to keep each helper at or below '' @
             decimal SHARE_HELPER_MAX_INITIAL_SHARES_PER_SERVER @ lit '' initial shares''))
      else
      let count = planning_server_count preferred_server_count minimum (length ranked_server_urls);
          quota = (if complete_normal_batch \<and> count > 1
                   then Some SHARE_HELPER_MAX_INITIAL_SHARES_PER_SERVER else None)
      in plan_loop (take count ranked_server_urls) target_count quota now_seconds vote_end_time_seconds
           last_moment_buffer single_share immediate_index submit_bytes submit_per server_bytes server_per
           0 (\<lambda>_. 0) share_count)))))"

definition plan_share_submissions ::
  "nat \<Rightarrow> rust_str list \<Rightarrow> u64 \<Rightarrow> u64 \<Rightarrow> u64 option \<Rightarrow> bool \<Rightarrow> u32 option \<Rightarrow> bytes \<Rightarrow> bytes \<Rightarrow>
   VotingError + ShareSubmissionPlan list" where
  "plan_share_submissions share_count server_urls =
     plan_share_submissions_with_preferred_servers share_count server_urls (length server_urls)"

section \<open>Helpers by usage\<close>

definition by_usage :: "server_usage \<Rightarrow> rust_str list \<Rightarrow> rust_str list" where
  "by_usage usage order = map snd (sort_key (\<lambda>(rank, server). (usage server, rank)) (enumerate 0 order))"

lemma mset_by_usage [simp]: "mset (by_usage usage order) = mset order"
proof -
  have "mset (by_usage usage order) = image_mset snd (mset (enumerate 0 order))"
    by (simp add: by_usage_def)
  also have "\<dots> = mset order"
    by (simp only: mset_map [symmetric] map_snd_enumerate)
  finally show ?thesis .
qed

lemma by_usage_facts [simp]:
  "distinct (by_usage usage order) \<longleftrightarrow> distinct order" "set (by_usage usage order) = set order"
  "length (by_usage usage order) = length order"
  using mset_by_usage mset_eq_imp_distinct_iff mset_eq_setD mset_eq_length by blast+

lemma sorted_by_usage: "sorted (map usage (by_usage usage order))"
proof -
  let ?key = "\<lambda>(rank :: nat, server). (usage server, rank)"
  let ?ranked = "sort_key ?key (enumerate 0 order)"
  have "sorted_wrt (\<lambda>x y. ?key x \<le> ?key y) ?ranked"
    using sorted_sort_key [of ?key "enumerate 0 order"] unfolding sorted_map .
  then have "sorted_wrt (\<lambda>x y. usage (snd x) \<le> usage (snd y)) ?ranked"
    by (rule sorted_wrt_mono_rel [rotated]) (auto simp: less_eq_prod_def)
  then show ?thesis
    by (simp add: by_usage_def sorted_map sorted_wrt_map)
qed

lemma map_snd_filter: "map snd (filter (\<lambda>(_, server). P server) xs) = filter P (map snd xs)"
  by (induction xs) auto

lemma select_batch_eq:
  assumes "shuffled_share_server_order servers bytes = Inr order"
  shows "select_batch_share_submission_targets servers target_count quota usage bytes =
    (let selected = take target_count (filter (below_quota quota usage) (by_usage usage order)) in
     if length selected \<noteq> target_count
     then Inl (VotingInvalidInput (lit ''cannot select '' @ decimal target_count @
            lit '' distinct helpers without exceeding the initial per-helper share quota''))
     else Inr (selected, fold (\<lambda>server u. u(server := u server + 1)) selected usage))"
  using assms
  by (simp add: select_batch_share_submission_targets_def by_usage_def Let_def take_map [symmetric] map_snd_filter)

lemma fold_use:
  "distinct selected \<Longrightarrow>
   fold (\<lambda>server u. u(server := u server + 1)) selected usage =
     (\<lambda>s. usage s + (if s \<in> set selected then 1 else 0))" for usage :: server_usage
  by (induction selected arbitrary: usage) (auto simp: fun_eq_iff)

section \<open>One balanced step\<close>

definition balanced :: "rust_str set \<Rightarrow> server_usage \<Rightarrow> bool" where
  "balanced S usage \<longleftrightarrow> (\<forall>a\<in>S. \<forall>b\<in>S. usage a \<le> usage b + 1)"

lemma take_filter_least:
  assumes "sorted (map usage xs)" "a \<in> set (take n (filter (below_quota quota usage) xs))"
    "b \<in> set xs" "b \<notin> set (take n (filter (below_quota quota usage) xs))"
  shows "usage a \<le> usage b"
proof (cases "below_quota quota usage b")
  case True
  let ?ys = "filter (below_quota quota usage) xs"
  have "sorted (map usage (take n ?ys @ drop n ?ys))"
    using assms(1) by (simp add: sorted_filter)
  moreover have "b \<in> set (take n ?ys @ drop n ?ys)"
    using True assms(3) by simp
  then have "b \<in> set (drop n ?ys)"
    using assms(4) unfolding set_append by blast
  ultimately show ?thesis
    using assms(2) unfolding map_append sorted_append by auto
next
  case False
  moreover have "below_quota quota usage a"
    using assms(2) by (auto dest: in_set_takeD)
  ultimately show ?thesis
    by (auto simp: below_quota_def split: option.splits)
qed

lemma balanced_step:
  assumes "balanced S usage" "T \<subseteq> S" "\<And>a b. a \<in> T \<Longrightarrow> b \<in> S - T \<Longrightarrow> usage a \<le> usage b"
  shows "balanced S (\<lambda>s. usage s + (if s \<in> T then 1 else 0))"
  using assms unfolding balanced_def by (fastforce split: if_splits)

text \<open>With a quota, the room that is left is found below it.\<close>

definition room :: "rust_str set \<Rightarrow> nat option \<Rightarrow> server_usage \<Rightarrow> nat \<Rightarrow> bool" where
  "room S quota usage demand \<longleftrightarrow>
     (case quota of None \<Rightarrow> True
      | Some maximum \<Rightarrow> (\<forall>s\<in>S. usage s \<le> maximum) \<and> sum usage S + demand \<le> maximum * card S)"

lemma room_below_quota:
  assumes "finite S" "balanced S usage" "room S quota usage n" "n \<le> card S"
  shows "n \<le> card {s \<in> S. below_quota quota usage s}"
proof (cases "\<exists>maximum. quota = Some maximum \<and> (\<exists>s\<in>S. usage s = maximum)")
  case False
  then have "{s \<in> S. below_quota quota usage s} = S"
    using assms(3) by (fastforce simp: room_def below_quota_def split: option.splits)
  then show ?thesis
    using assms(4) by simp
next
  case True
  then obtain maximum where quota: "quota = Some maximum" and full: "\<exists>s\<in>S. usage s = maximum"
    by blast
  have le: "usage s \<le> maximum" "maximum \<le> usage s + 1" if "s \<in> S" for s
    using assms(2,3) full that quota by (auto simp: room_def balanced_def)
  then have "maximum - usage s = (if usage s < maximum then 1 else 0)" if "s \<in> S" for s
    using that by force
  then have "(\<Sum>s\<in>S. maximum - usage s) = card {s \<in> S. usage s < maximum}"
    using assms(1) by (simp add: sum.If_cases Int_def)
  moreover have "(\<Sum>s\<in>S. maximum - usage s) = maximum * card S - sum usage S"
    using le(1) by (subst sum_subtractf_nat) (auto simp: mult.commute)
  ultimately show ?thesis
    using assms(3) quota by (simp add: room_def below_quota_def) linarith
qed

lemma room_step:
  assumes "room S quota usage (card T + later)" "finite S" "T \<subseteq> S" "\<forall>s\<in>T. below_quota quota usage s"
  shows "room S quota (\<lambda>s. usage s + (if s \<in> T then 1 else 0)) later"
proof (cases quota)
  case (Some maximum)
  have "(\<Sum>s\<in>S. if s \<in> T then 1 else 0) = card T"
    using sum.inter_restrict [OF assms(2), of "\<lambda>_. 1::nat" T] Int_absorb1 [OF assms(3)] by simp
  then have "(\<Sum>s\<in>S. usage s + (if s \<in> T then 1 else 0)) = sum usage S + card T"
    by (simp only: sum.distrib)
  then show ?thesis
    using assms(1,4) Some by (auto simp: room_def below_quota_def)
qed (simp add: room_def)

text \<open>
  One call of the selection: from a balanced usage with room for the targets it selects the wanted
  number of distinct helpers, and leaves the usage balanced with the remaining room.
\<close>

lemma select_batch_step:
  assumes "distinct servers" "length servers < 2 ^ 61"
    "share_server_order_random_bytes_required (length servers) \<le> length bytes"
    "n \<le> length servers" "balanced (set servers) usage" "room (set servers) quota usage (n + later)"
  obtains selected where
    "select_batch_share_submission_targets servers n quota usage bytes =
       Inr (selected, \<lambda>s. usage s + (if s \<in> set selected then 1 else 0))"
    "distinct selected" "length selected = n" "set selected \<subseteq> set servers"
    "balanced (set servers) (\<lambda>s. usage s + (if s \<in> set selected then 1 else 0))"
    "room (set servers) quota (\<lambda>s. usage s + (if s \<in> set selected then 1 else 0)) later"
proof -
  obtain order where order: "shuffled_share_server_order servers bytes = Inr order"
    using shuffled.order_total assms(1-3) by blast
  let ?xs = "by_usage usage order"
  let ?ys = "filter (below_quota quota usage) ?xs"
  let ?selected = "take n ?ys"
  let ?S = "set servers"
  let ?usage' = "\<lambda>s. usage s + (if s \<in> set ?selected then 1 else 0)"
  have xs: "distinct ?xs" "set ?xs = ?S"
    using shuffled.order_facts [OF order assms(2)] by simp_all
  have "room ?S quota usage n"
    using assms(6) by (auto simp: room_def split: option.splits)
  then have "n \<le> card {s \<in> ?S. below_quota quota usage s}"
    using assms(1,4,5) by (intro room_below_quota) (simp_all add: distinct_card)
  also have "\<dots> = length ?ys"
    using xs by (simp add: distinct_card [symmetric])
  finally have len: "length ?selected = n"
    by simp
  have dist: "distinct ?selected"
    using xs by simp
  have sub: "set ?selected \<subseteq> ?S" "\<forall>s \<in> set ?selected. below_quota quota usage s"
    using set_take_subset [of n ?ys] unfolding set_filter xs(2) by blast+
  have "balanced ?S ?usage'"
    using assms(5) sub(1)
  proof (rule balanced_step)
    show "usage a \<le> usage b" if "a \<in> set ?selected" "b \<in> ?S - set ?selected" for a b
    proof (rule take_filter_least [OF sorted_by_usage that(1)])
      show "b \<in> set ?xs"
        using that(2) by (simp only: xs(2) Diff_iff)
      show "b \<notin> set ?selected"
        using that(2) by (simp only: Diff_iff simp_thms)
    qed
  qed
  moreover have "room ?S quota ?usage' later"
  proof (rule room_step)
    show "room ?S quota usage (card (set ?selected) + later)"
      using assms(6) by (simp only: distinct_card [OF dist] len)
  qed (rule finite_set sub)+
  moreover have "select_batch_share_submission_targets servers n quota usage bytes = Inr (?selected, ?usage')"
    unfolding select_batch_eq [OF order] Let_def fold_use [OF dist] by (simp only: len simp_thms if_False)
  ultimately show thesis
    using dist len sub(1) by (intro that)
qed

section \<open>The whole batch\<close>

text \<open>How often a helper is a target of the plans.\<close>

definition assigned :: "ShareSubmissionPlan list \<Rightarrow> rust_str \<Rightarrow> nat" where
  "assigned plans server = length (filter (\<lambda>plan. server \<in> set (plan_target_servers plan)) plans)"

definition plan_for ::
  "rust_str list \<Rightarrow> nat \<Rightarrow> u64 \<Rightarrow> u64 \<Rightarrow> u64 option \<Rightarrow> bool \<Rightarrow> u32 option \<Rightarrow> bytes \<Rightarrow> nat \<Rightarrow> ShareSubmissionPlan \<Rightarrow> bool" where
  "plan_for servers target_count now_seconds vote_end buffer single immediate_index bytes share_index plan \<longleftrightarrow>
     plan_target_count plan = word_of_nat target_count \<and>
     distinct (plan_target_servers plan) \<and> length (plan_target_servers plan) = target_count \<and>
     set (plan_target_servers plan) \<subseteq> set servers \<and>
     plan_immediate plan = (immediate_index = Some (word_of_nat share_index)) \<and>
     (if plan_immediate plan then plan_submit_at plan = 0
      else scheduled_share_submit_at_from_entropy now_seconds vote_end buffer single bytes =
        Inr (plan_submit_at plan))"

lemma scheduled_with_required_bytes:
  assumes "share_submit_at_random_bytes_required now_seconds vote_end buffer single \<le> length bytes"
  shows "\<exists>t. scheduled_share_submit_at_from_entropy now_seconds vote_end buffer single bytes = Inr t"
  using assms
  by (cases "delayed_share_window_seconds now_seconds vote_end buffer single")
    (simp_all add: scheduled_share_submit_at_from_entropy_def share_submit_at_random_bytes_required_def)

lemma build_share_submission_plan_ok:
  "target_count < 2 ^ 32 \<Longrightarrow> build_share_submission_plan immediate target_count target_servers submit_at =
     Inr \<lparr>plan_immediate = immediate, plan_submit_at = submit_at,
          plan_target_count = word_of_nat target_count, plan_target_servers = target_servers\<rparr>"
  by (simp add: build_share_submission_plan_def)

lemma length_slice: "Suc i * k \<le> length bs \<Longrightarrow> length (take k (drop (i * k) bs)) = k"
  by simp

lemma assigned_Cons:
  "assigned (plan # plans) s = (if s \<in> set (plan_target_servers plan) then 1 else 0) + assigned plans s"
  by (simp add: assigned_def)

lemma plan_loop_places:
  assumes servers: "distinct servers" "length servers < 2 ^ 61" "n \<le> length servers" "n < 2 ^ 32"
    and server_per: "share_server_order_random_bytes_required (length servers) \<le> server_per"
    and submit_per: "submit_per = share_submit_at_random_bytes_required now_seconds vote_end buffer single"
    and "(share_index + remaining) * server_per \<le> length server_bytes"
    and "(share_index + remaining) * submit_per \<le> length submit_bytes"
    and "balanced (set servers) usage" "room (set servers) quota usage (remaining * n)"
  shows "\<exists>plans. plan_loop servers n quota now_seconds vote_end buffer single immediate_index
      submit_bytes submit_per server_bytes server_per share_index usage remaining = Inr plans \<and>
    length plans = remaining \<and>
    (\<forall>i<remaining. plan_for servers n now_seconds vote_end buffer single immediate_index
       (take submit_per (drop ((share_index + i) * submit_per) submit_bytes)) (share_index + i) (plans ! i)) \<and>
    balanced (set servers) (\<lambda>s. usage s + assigned plans s) \<and>
    room (set servers) quota (\<lambda>s. usage s + assigned plans s) 0"
  using assms(7-)
proof (induction remaining arbitrary: share_index usage)
  case 0
  then show ?case
    by (simp add: assigned_def)
next
  case (Suc remaining)
  let ?server = "take server_per (drop (share_index * server_per) server_bytes)"
  let ?submit = "take submit_per (drop (share_index * submit_per) submit_bytes)"
  have "Suc share_index * server_per \<le> length server_bytes"
    using Suc.prems(1) by (rule order_trans [rotated]) simp
  then have "share_server_order_random_bytes_required (length servers) \<le> length ?server"
    using server_per by (simp only: length_slice)
  then obtain selected where selected:
    "select_batch_share_submission_targets servers n quota usage ?server =
       Inr (selected, \<lambda>s. usage s + (if s \<in> set selected then 1 else 0))"
    "distinct selected" "length selected = n" "set selected \<subseteq> set servers"
    "balanced (set servers) (\<lambda>s. usage s + (if s \<in> set selected then 1 else 0))"
    "room (set servers) quota (\<lambda>s. usage s + (if s \<in> set selected then 1 else 0)) (remaining * n)"
    using select_batch_step [OF servers(1,2) _ servers(3) Suc.prems(3), of ?server quota "remaining * n"] Suc.prems(4)
    by auto
  have "Suc share_index * submit_per \<le> length submit_bytes"
    using Suc.prems(2) by (rule order_trans [rotated]) simp
  then have "share_submit_at_random_bytes_required now_seconds vote_end buffer single \<le> length ?submit"
    using submit_per by (simp only: length_slice order_refl)
  then obtain submit_at where submit_at:
    "scheduled_share_submit_at_from_entropy now_seconds vote_end buffer single ?submit = Inr submit_at"
    using scheduled_with_required_bytes by blast
  let ?immediate = "immediate_index = Some (word_of_nat share_index)"
  let ?plan = "\<lparr>plan_immediate = ?immediate, plan_submit_at = if ?immediate then 0 else submit_at,
     plan_target_count = word_of_nat n, plan_target_servers = selected\<rparr>"
  obtain plans where plans: "plan_loop servers n quota now_seconds vote_end buffer single immediate_index
      submit_bytes submit_per server_bytes server_per (share_index + 1)
      (\<lambda>s. usage s + (if s \<in> set selected then 1 else 0)) remaining = Inr plans"
    and rest: "length plans = remaining"
      "\<forall>i<remaining. plan_for servers n now_seconds vote_end buffer single immediate_index
         (take submit_per (drop ((share_index + 1 + i) * submit_per) submit_bytes)) (share_index + 1 + i) (plans ! i)"
      "balanced (set servers) (\<lambda>s. usage s + (if s \<in> set selected then 1 else 0) + assigned plans s)"
      "room (set servers) quota (\<lambda>s. usage s + (if s \<in> set selected then 1 else 0) + assigned plans s) 0"
    using Suc.IH [of "share_index + 1", OF _ _ selected(5,6)] Suc.prems(1,2) by auto
  have run: "plan_loop servers n quota now_seconds vote_end buffer single immediate_index
      submit_bytes submit_per server_bytes server_per share_index usage (Suc remaining) = Inr (?plan # plans)"
    using selected(1) submit_at plans servers(4) by (simp add: build_share_submission_plan_ok)
  have head: "plan_for servers n now_seconds vote_end buffer single immediate_index ?submit share_index ?plan"
    using selected(2-4) submit_at by (simp add: plan_for_def)
  show ?case
    using run head rest
    by (intro exI [of _ "?plan # plans"]) (simp add: assigned_Cons All_less_Suc2 add.assoc)
qed

section \<open>Enough helpers for the quota\<close>

lemma target_count_bounds:
  "share_submission_target_count n \<le> 10" "2 * share_submission_target_count n \<le> n + 1"
  "0 < n \<Longrightarrow> 0 < share_submission_target_count n" "share_submission_target_count n \<le> n"
  unfolding share_submission_target_count_def SHARE_HELPER_TARGET_COUNT_CAP_def min_def by presburger+

definition minimum_helpers :: "nat \<Rightarrow> nat" where
  "minimum_helpers n = (if n = 1 then 1 else div_ceil (16 * share_submission_target_count n) 12)"

lemma minimum_helpers_bounds:
  assumes "0 < n"
  shows "minimum_helpers n \<le> n" "1 < n \<Longrightarrow> 1 < minimum_helpers n" "0 < minimum_helpers n"
    "1 < n \<Longrightarrow> 16 * share_submission_target_count n \<le> 12 * minimum_helpers n"
    "share_submission_target_count n \<le> minimum_helpers n" "minimum_helpers n < 2 ^ 32"
  using div_ceil_upper [of 12 "16 * share_submission_target_count n"]
    div_ceil_lower [of 12 "16 * share_submission_target_count n"] target_count_bounds [of n] assms
  unfolding minimum_helpers_def by (auto split: if_splits)

lemma share_server_selection_policy_minimum:
  assumes "0 < n"
  obtains policy where "share_server_selection_policy n = Inr policy"
    "unat (policy_min_server_count policy) = minimum_helpers n"
proof -
  have "usize_checked_mul 16 (share_submission_target_count n) = Some (16 * share_submission_target_count n)"
    using target_count_bounds(1) [of n] by (simp add: usize_checked_mul_def)
  moreover have "unat (word_of_nat (minimum_helpers n) :: u32) = minimum_helpers n"
    using minimum_helpers_bounds(6) [OF assms] by (simp add: unat_of_nat take_bit_nat_eq_self)
  ultimately show thesis
    using assms target_count_bounds(3) [OF assms] that
    by (auto simp: share_server_selection_policy_def minimum_complete_batch_planning_server_count_def
        VOTE_COMMITMENT_SHARE_COUNT_def SHARE_HELPER_MAX_INITIAL_SHARES_PER_SERVER_def
        SHARE_HELPER_INITIAL_MAX_FRACTION_NUMERATOR_def SHARE_HELPER_INITIAL_MAX_FRACTION_DENOMINATOR_def
        minimum_helpers_def ok_or_def Let_def split: if_splits)
qed

lemma require_share_servers_ok: "require_share_servers urls = Inr () \<longleftrightarrow> urls \<noteq> [] \<and> distinct urls"
  by (simp add: require_share_servers_def)

lemma share_count_eq: "VOTE_COMMITMENT_SHARE_COUNT = 16" "SHARE_HELPER_MAX_INITIAL_SHARES_PER_SERVER = 12"
  by (simp_all add: VOTE_COMMITMENT_SHARE_COUNT_def SHARE_HELPER_MAX_INITIAL_SHARES_PER_SERVER_def
      SHARE_HELPER_INITIAL_MAX_FRACTION_NUMERATOR_def SHARE_HELPER_INITIAL_MAX_FRACTION_DENOMINATOR_def)

lemma share_submit_at_random_bytes_required_le:
  "share_submit_at_random_bytes_required now_seconds vote_end buffer single \<le> 8"
  by (simp add: share_submit_at_random_bytes_required_def SHARE_SUBMIT_AT_RANDOM_BYTES_def)

lemma assigned_outside:
  assumes "\<forall>i<length plans. set (plan_target_servers (plans ! i)) \<subseteq> S" "s \<notin> S"
  shows "assigned plans s = 0"
  using assms unfolding assigned_def by (auto simp: filter_empty_conv set_conv_nth [of plans])

text \<open>The checks before the loop all pass for a complete batch.\<close>

definition complete_batch_loop ::
  "rust_str list \<Rightarrow> nat \<Rightarrow> u64 \<Rightarrow> u64 \<Rightarrow> u64 option \<Rightarrow> u32 option \<Rightarrow> bytes \<Rightarrow> bytes \<Rightarrow>
   VotingError + ShareSubmissionPlan list" where
  "complete_batch_loop ranked width now_seconds vote_end buffer immediate_index submit_bytes server_bytes =
     plan_loop (take width ranked) (share_submission_target_count (length ranked))
       (if width > 1 then Some SHARE_HELPER_MAX_INITIAL_SHARES_PER_SERVER else None)
       now_seconds vote_end buffer False immediate_index
       submit_bytes (share_submit_at_random_bytes_required now_seconds vote_end buffer False)
       server_bytes (share_server_order_random_bytes_required (length ranked)) 0 (\<lambda>_. 0)
       VOTE_COMMITMENT_SHARE_COUNT"

lemma complete_batch_runs:
  assumes "ranked \<noteq> []" "distinct ranked" "length ranked \<le> 2 ^ 57" "preferred \<le> length ranked"
    and "\<forall>i. immediate_index = Some i \<longrightarrow> unat i < 16"
    and "16 * share_submit_at_random_bytes_required now_seconds vote_end buffer False \<le> length submit_bytes"
    and "16 * (8 * (length ranked - 1)) \<le> length server_bytes"
  shows "plan_share_submissions_with_preferred_servers VOTE_COMMITMENT_SHARE_COUNT ranked preferred
      now_seconds vote_end buffer False immediate_index submit_bytes server_bytes =
    complete_batch_loop ranked (planning_server_count preferred (minimum_helpers (length ranked)) (length ranked))
      now_seconds vote_end buffer immediate_index submit_bytes server_bytes"
proof -
  have n: "0 < length ranked" using assms(1) by simp
  obtain policy where policy: "share_server_selection_policy (length ranked) = Inr policy"
    "unat (policy_min_server_count policy) = minimum_helpers (length ranked)"
    using share_server_selection_policy_minimum [OF n] .
  have index: "\<not> (case immediate_index of None \<Rightarrow> False | Some index \<Rightarrow> unat index \<ge> 16)"
    using assms(5) by (auto split: option.splits)
  have server: "share_server_order_random_bytes_required (length ranked) = 8 * (length ranked - 1)"
    using assms(3) by (intro random_bytes_required_eq) simp
  have "checked_random_bytes_required (share_submit_at_random_bytes_required now_seconds vote_end buffer False) 16 name =
      Inr (share_submit_at_random_bytes_required now_seconds vote_end buffer False * 16)" for name
    using share_submit_at_random_bytes_required_le [of now_seconds vote_end buffer False]
    by (simp add: checked_random_bytes_required_def usize_checked_mul_def ok_or_def)
  moreover have "checked_random_bytes_required (8 * (length ranked - 1)) 16 name = Inr (8 * (length ranked - 1) * 16)" for name
    using assms(3) by (simp add: checked_random_bytes_required_def usize_checked_mul_def ok_or_def)
  ultimately show ?thesis
    using assms(3,4,6,7) index server policy minimum_helpers_bounds(1) [OF n]
      require_share_servers_ok [of ranked, THEN iffD2, OF conjI [OF assms(1,2)]]
    unfolding plan_share_submissions_with_preferred_servers_def complete_batch_loop_def share_count_eq Let_def
    by (simp add: mult.commute)
qed

lemma room_start:
  assumes "distinct ranked" "1 < length ranked" "minimum_helpers (length ranked) \<le> width" "width \<le> length ranked"
    and "quota = (if 1 < width then Some SHARE_HELPER_MAX_INITIAL_SHARES_PER_SERVER else None)"
  shows "room (set (take width ranked)) quota (\<lambda>_. 0) (16 * share_submission_target_count (length ranked))"
proof -
  have "card (set (take width ranked)) = width"
    using assms by (simp add: distinct_card)
  then show ?thesis
    using minimum_helpers_bounds(4) [of "length ranked"] assms by (cases ranked) (auto simp: room_def share_count_eq)
qed

lemma complete_batch_places:
  assumes "ranked \<noteq> []" "distinct ranked" "length ranked \<le> 2 ^ 57"
    and width: "minimum_helpers (length ranked) \<le> width" "width \<le> length ranked"
    and bytes: "16 * submit_per \<le> length submit_bytes" "16 * (8 * (length ranked - 1)) \<le> length server_bytes"
    and submit_per: "submit_per = share_submit_at_random_bytes_required now_seconds vote_end buffer False"
  obtains plans where "complete_batch_loop ranked width now_seconds vote_end buffer immediate_index
      submit_bytes server_bytes = Inr plans" "length plans = 16"
    "\<forall>i<16. plan_for (take width ranked) (share_submission_target_count (length ranked)) now_seconds vote_end
       buffer False immediate_index (take submit_per (drop (i * submit_per) submit_bytes)) i (plans ! i)"
    "balanced (set (take width ranked)) (assigned plans)"
    "1 < width \<longrightarrow> (\<forall>s\<in>set (take width ranked). assigned plans s \<le> 12)"
proof -
  let ?n = "length ranked" and ?planned = "take width ranked"
  let ?t = "share_submission_target_count ?n" and ?per = "share_server_order_random_bytes_required ?n"
  define quota where "quota = (if 1 < width then Some SHARE_HELPER_MAX_INITIAL_SHARES_PER_SERVER else None)"
  have n: "0 < ?n" using assms(1) by simp
  have len: "length ?planned = width"
    using width by simp
  have server: "share_server_order_random_bytes_required m = 8 * (m - 1)" if "m \<le> ?n" for m
    using assms(3) that by (intro random_bytes_required_eq) simp
  have "room (set ?planned) quota (\<lambda>_. 0) (16 * ?t)"
    using room_start [OF assms(2) _ width quota_def] width(2) by (cases "1 < ?n") (auto simp: room_def quota_def)
  then have "\<exists>plans. plan_loop ?planned ?t quota now_seconds vote_end buffer False immediate_index
      submit_bytes submit_per server_bytes ?per 0 (\<lambda>_. 0) 16 = Inr plans \<and> length plans = 16 \<and>
    (\<forall>i<16. plan_for ?planned ?t now_seconds vote_end buffer False immediate_index
       (take submit_per (drop ((0 + i) * submit_per) submit_bytes)) (0 + i) (plans ! i)) \<and>
    balanced (set ?planned) (\<lambda>s. 0 + assigned plans s) \<and> room (set ?planned) quota (\<lambda>s. 0 + assigned plans s) 0"
    using assms(2,3) bytes width len target_count_bounds(1) [of ?n] minimum_helpers_bounds(5) [OF n]
    by (intro plan_loop_places submit_per) (simp_all add: server diff_le_mono balanced_def)
  then obtain plans where plans: "plan_loop ?planned ?t quota now_seconds vote_end buffer False immediate_index
      submit_bytes submit_per server_bytes ?per 0 (\<lambda>_. 0) 16 = Inr plans" "length plans = 16"
    "\<forall>i<16. plan_for ?planned ?t now_seconds vote_end buffer False immediate_index
       (take submit_per (drop (i * submit_per) submit_bytes)) i (plans ! i)"
    "balanced (set ?planned) (assigned plans)" "room (set ?planned) quota (assigned plans) 0"
    unfolding add_0 by blast
  show thesis
  proof (rule that)
    show "complete_batch_loop ranked width now_seconds vote_end buffer immediate_index submit_bytes server_bytes =
        Inr plans"
      using plans(1) by (simp only: complete_batch_loop_def share_count_eq(1) submit_per quota_def)
    show "1 < width \<longrightarrow> (\<forall>s\<in>set ?planned. assigned plans s \<le> 12)"
      using plans(5) by (cases "1 < width") (simp_all add: room_def quota_def share_count_eq)
  qed (rule plans)+
qed

text \<open>C14: Planning a complete commitment of sixteen shares over distinct helpers with the published amount
  of entropy always succeeds. Every share is placed on the target number of distinct helpers among
  the planned ones, scheduled with its own entropy, and only the designated share is immediate. With
  more than one helper none receives more than twelve shares, and the numbers of shares of any two
  planned helpers differ by at most one.\<close>

theorem complete_batch_is_balanced:
  assumes "ranked \<noteq> []" "distinct ranked" "length ranked \<le> 2 ^ 57" "preferred \<le> length ranked"
    and "\<forall>i. immediate_index = Some i \<longrightarrow> unat i < VOTE_COMMITMENT_SHARE_COUNT"
    and "required = share_submission_random_bytes_required VOTE_COMMITMENT_SHARE_COUNT (length ranked)
           now_seconds vote_end buffer False"
    and "submit_at_random_bytes required \<le> length submit_bytes" "server_random_bytes required \<le> length server_bytes"
  shows "\<exists>plans planned. planned = take (planning_server_count preferred (minimum_helpers (length ranked)) (length ranked)) ranked \<and>
    plan_share_submissions_with_preferred_servers VOTE_COMMITMENT_SHARE_COUNT ranked preferred
      now_seconds vote_end buffer False immediate_index submit_bytes server_bytes = Inr plans \<and>
    length plans = VOTE_COMMITMENT_SHARE_COUNT \<and>
    (\<forall>i<VOTE_COMMITMENT_SHARE_COUNT.
       plan_for planned (share_submission_target_count (length ranked)) now_seconds vote_end buffer False
         immediate_index (let k = share_submit_at_random_bytes_required now_seconds vote_end buffer False
            in take k (drop (i * k) submit_bytes)) i (plans ! i)) \<and>
    (1 < length ranked \<longrightarrow> (\<forall>s. assigned plans s \<le> SHARE_HELPER_MAX_INITIAL_SHARES_PER_SERVER)) \<and>
    (\<forall>a\<in>set planned. \<forall>b\<in>set planned. assigned plans a \<le> assigned plans b + 1)"
proof -
  let ?n = "length ranked"
  let ?width = "planning_server_count preferred (minimum_helpers ?n) ?n"
  have n: "0 < ?n" using assms(1) by simp
  have width: "minimum_helpers ?n \<le> ?width" "?width \<le> ?n"
    using minimum_helpers_bounds(1) [OF n] by (simp_all add: planning_server_count_def)
  have bytes: "16 * share_submit_at_random_bytes_required now_seconds vote_end buffer False \<le> length submit_bytes"
    "16 * (8 * (?n - 1)) \<le> length server_bytes"
    using assms(3,6-8) share_submit_at_random_bytes_required_le [of now_seconds vote_end buffer False]
    by (simp_all add: share_submission_random_bytes_required_def usize_saturating_mul_def random_bytes_required_eq
        share_count_eq)
  obtain plans where plans: "complete_batch_loop ranked ?width now_seconds vote_end buffer immediate_index
      submit_bytes server_bytes = Inr plans" "length plans = 16"
    and each: "\<forall>i<16. plan_for (take ?width ranked) (share_submission_target_count ?n) now_seconds vote_end
       buffer False immediate_index (take (share_submit_at_random_bytes_required now_seconds vote_end buffer False)
         (drop (i * share_submit_at_random_bytes_required now_seconds vote_end buffer False) submit_bytes)) i (plans ! i)"
    and final: "balanced (set (take ?width ranked)) (assigned plans)"
    and quota: "1 < ?width \<longrightarrow> (\<forall>s\<in>set (take ?width ranked). assigned plans s \<le> 12)"
    using complete_batch_places [OF assms(1-3) width bytes refl] .
  have "assigned plans s \<le> 12" if "1 < ?n" for s
  proof (cases "s \<in> set (take ?width ranked)")
    case True
    then show ?thesis
      using quota minimum_helpers_bounds(2) [OF n that] width(1) by simp
  next
    case False
    then show ?thesis
      using each plans(2) by (subst assigned_outside [of _ "set (take ?width ranked)"]) (simp_all add: plan_for_def)
  qed
  then show ?thesis
    using complete_batch_runs [OF assms(1-4) _ bytes] assms(5) plans each final
    by (intro exI [of _ plans] exI [of _ "take ?width ranked"]) (simp add: share_count_eq balanced_def Let_def)
qed

theorem complete_batch_is_balanced_witness:
  "\<exists>plans. plan_share_submissions_with_preferred_servers VOTE_COMMITMENT_SHARE_COUNT
      [lit ''a'', lit ''b'', lit ''c''] 2 1000 2000 (Some 400) False (Some 3) (replicate 128 7) (replicate 256 9) = Inr plans \<and>
    length plans = 16 \<and> plan_immediate (plans ! 3) \<and> plan_submit_at (plans ! 3) = 0 \<and>
    (\<forall>s. assigned plans s \<le> 12)"
proof -
  let ?ranked = "[lit ''a'', lit ''b'', lit ''c'']"
  have dist: "distinct ?ranked"
    by (simp add: lit_def)
  have window: "delayed_share_window_seconds 1000 2000 (Some 400) False = Some 600"
    by (simp add: delayed_share_window_seconds_def saturating_sub_def SHARE_SUBMIT_AT_MAX_DELAY_SECONDS_def)
  let ?required = "share_submission_random_bytes_required VOTE_COMMITMENT_SHARE_COUNT (length ?ranked)
     1000 2000 (Some 400) False"
  have bytes: "submit_at_random_bytes ?required \<le> length (replicate 128 (7 :: u8))"
    "server_random_bytes ?required \<le> length (replicate 256 (9 :: u8))"
    using window by (simp_all add: share_submission_random_bytes_required_def usize_saturating_mul_def share_count_eq
        random_bytes_required_eq share_submit_at_random_bytes_required_def SHARE_SUBMIT_AT_RANDOM_BYTES_def)
  have index: "\<forall>i. Some (3 :: u32) = Some i \<longrightarrow> unat i < VOTE_COMMITMENT_SHARE_COUNT"
    by (auto simp: share_count_eq)
  show ?thesis
    using complete_batch_is_balanced [OF _ dist _ _ index refl bytes, of 2]
    by (auto simp: share_count_eq plan_for_def dest!: spec [of _ 3])
qed

end
