(* ===== verification/Voting_Collections.thy ===== *)
theory Voting_Collections
  imports Voting_Prelude
begin

text \<open>
  The ordered collections of the Rust standard library that round planning uses, and loops that
  stop at the first error. A \<open>BTreeMap\<close> is the list of its entries in key order, a \<open>BTreeSet\<close> that is
  only asked for membership is a set, iterated where needed by \<^term>\<open>sorted_list_of_set\<close>.
\<close>

section \<open>Loops with early return\<close>

fun try_fold :: "('a \<Rightarrow> 's \<Rightarrow> 'e + 's) \<Rightarrow> 'a list \<Rightarrow> 's \<Rightarrow> 'e + 's" where
  "try_fold f [] s = Inr s"
| "try_fold f (x # xs) s = and_then (f x s) (try_fold f xs)"

lemma try_fold_append [simp]: "try_fold f (xs @ ys) s = and_then (try_fold f xs s) (try_fold f ys)"
  by (induction xs arbitrary: s) (auto simp: and_then_def split: sum.splits)

text \<open>An invariant of the state that may name the elements already handled and the next one.\<close>

lemma try_fold_prefixes:
  assumes "try_fold f xs s = Inr t" and "I [] s"
    and "\<And>before x after s' s''. \<lbrakk>xs = before @ x # after; I before s'; f x s' = Inr s''\<rbrakk> \<Longrightarrow> I (before @ [x]) s''"
  shows "I xs t"
proof -
  have "I (before @ ys) t" if "xs = before @ ys" "I before s" "try_fold f ys s = Inr t" for before ys s
    using that
  proof (induction ys arbitrary: s before)
    case (Cons y ys)
    then obtain s' where step: "f y s = Inr s'" "try_fold f ys s' = Inr t"
      by (auto simp: and_then_eq_Inr)
    have "I (before @ [y]) s'"
      using assms(3) [OF Cons.prems(1,2) step(1)] .
    then show ?case
      using Cons.IH [of "before @ [y]", OF _ _ step(2)] Cons.prems(1) by simp
  qed simp
  from this [of "[]", OF _ assms(2,1)] show ?thesis
    by simp
qed

lemma try_fold_invariant:
  assumes "try_fold f xs s = Inr t" and "I [] s"
    and "\<And>before x s' s''. \<lbrakk>x \<in> set xs; I before s'; f x s' = Inr s''\<rbrakk> \<Longrightarrow> I (before @ [x]) s''"
  shows "I xs t"
  using assms(1,2) by (rule try_fold_prefixes) (use assms(3) in auto)

lemma try_fold_mono:
  assumes "try_fold f xs s = Inr t" "P s" "\<And>x s' s''. \<lbrakk>x \<in> set xs; P s'; f x s' = Inr s''\<rbrakk> \<Longrightarrow> P s''"
  shows "P t"
  using try_fold_invariant [of f xs s t "\<lambda>_. P"] assms by blast

text \<open>What one element establishes and no later element destroys holds at the end.\<close>

lemma try_fold_reached:
  assumes "try_fold f xs s = Inr t" "x \<in> set xs"
    and "\<And>s' s''. f x s' = Inr s'' \<Longrightarrow> P s''"
    and "\<And>y s' s''. \<lbrakk>y \<in> set xs; P s'; f y s' = Inr s''\<rbrakk> \<Longrightarrow> P s''"
  shows "P t"
proof -
  obtain ys zs where xs: "xs = ys @ x # zs"
    using assms(2) by (auto simp: in_set_conv_decomp)
  then obtain s' s'' where step: "f x s' = Inr s''" and rest: "try_fold f zs s'' = Inr t"
    using assms(1) by (auto simp: and_then_eq_Inr)
  show ?thesis
    using rest
  proof (rule try_fold_mono)
    show "P s''"
      using step by (rule assms(3))
    show "P b" if "y \<in> set zs" "P a" "f y a = Inr b" for y a b
      using assms(4) [of y a b] that xs by simp
  qed
qed

section \<open>Ordered maps\<close>

type_synonym ('k, 'v) btree_map = "('k \<times> 'v) list"

definition btree_get :: "('k, 'v) btree_map \<Rightarrow> 'k \<Rightarrow> 'v option" where
  "btree_get m k = map_of m k"

fun btree_insert :: "'k::linorder \<Rightarrow> 'v \<Rightarrow> ('k, 'v) btree_map \<Rightarrow> ('k, 'v) btree_map" where
  "btree_insert k v [] = [(k, v)]"
| "btree_insert k v ((a, b) # m) =
     (if k < a then (k, v) # (a, b) # m
      else if k = a then (k, v) # m
      else (a, b) # btree_insert k v m)"

definition btree_keys :: "('k, 'v) btree_map \<Rightarrow> 'k list" where
  "btree_keys m = map fst m"

definition btree_wf :: "('k::linorder, 'v) btree_map \<Rightarrow> bool" where
  "btree_wf m \<longleftrightarrow> sorted_wrt (<) (map fst m)"

definition btree_collect :: "('k::linorder \<times> 'v) list \<Rightarrow> ('k, 'v) btree_map" where
  "btree_collect xs = fold (\<lambda>(k, v) m. btree_insert k v m) xs []"

text \<open>What planning relies on of an ordered map.\<close>

locale ordered_map =
  fixes get :: "'m \<Rightarrow> 'k::linorder \<Rightarrow> 'v option"
    and ins :: "'k \<Rightarrow> 'v \<Rightarrow> 'm \<Rightarrow> 'm"
    and keys :: "'m \<Rightarrow> 'k list"
    and wf :: "'m \<Rightarrow> bool"
    and emp :: 'm
  assumes get_emp: "get emp k = None"
    and get_ins: "get (ins k v m) j = (if j = k then Some v else get m j)"
    and keys_iff: "wf m \<Longrightarrow> k \<in> set (keys m) \<longleftrightarrow> get m k \<noteq> None"
    and keys_strict: "wf m \<Longrightarrow> sorted_wrt (<) (keys m)"
    and wf_emp: "wf emp"
    and wf_ins: "wf m \<Longrightarrow> wf (ins k v m)"
begin

definition collect :: "('k \<times> 'v) list \<Rightarrow> 'm" where
  "collect xs = fold (\<lambda>(k, v) m. ins k v m) xs emp"

lemma get_fold: "get (fold (\<lambda>(k, v) m. ins k v m) xs m) k = (case map_of (rev xs) k of None \<Rightarrow> get m k | Some v \<Rightarrow> Some v)"
  by (induction xs arbitrary: m) (auto simp: get_ins map_add_def split: option.splits)

lemma get_collect: "get (collect xs) k = map_of (rev xs) k"
  by (simp add: collect_def get_fold get_emp split: option.splits)

lemma wf_fold: "wf m \<Longrightarrow> wf (fold (\<lambda>(k, v) m. ins k v m) xs m)"
  by (induction xs arbitrary: m) (auto simp: wf_ins)

lemma wf_collect: "wf (collect xs)"
  by (simp add: collect_def wf_fold wf_emp)

lemma keys_collect: "set (keys (collect xs)) = fst ` set xs"
proof -
  have "k \<in> set (keys (collect xs)) \<longleftrightarrow> k \<in> fst ` set xs" for k
    using keys_iff [OF wf_collect, of k xs] map_of_eq_None_iff [of "rev xs" k] by (simp add: get_collect)
  then show ?thesis
    by blast
qed

lemma keys_distinct: "wf m \<Longrightarrow> distinct (keys m)"
  using keys_strict strict_sorted_iff by blast

end

lemma map_of_btree_insert: "map_of (btree_insert k v m) j = (if j = k then Some v else map_of m j)"
  by (induction k v m rule: btree_insert.induct) auto

lemma fst_btree_insert: "fst ` set (btree_insert k v m) = insert k (fst ` set m)"
  by (induction k v m rule: btree_insert.induct) auto

lemma btree_wf_insert: "btree_wf m \<Longrightarrow> btree_wf (btree_insert k v m)"
proof (induction k v m rule: btree_insert.induct)
  case (2 k v a b m)
  have "\<forall>x\<in>fst ` set (btree_insert k v m). x = k \<or> x \<in> fst ` set m"
    by (simp add: fst_btree_insert)
  then show ?case
    using 2 by (force simp: btree_wf_def)
qed (simp add: btree_wf_def)

interpretation btree: ordered_map btree_get btree_insert btree_keys btree_wf "[]"
proof
  show "k \<in> set (btree_keys m) \<longleftrightarrow> btree_get m k \<noteq> None" if "btree_wf m" for m :: "('a, 'b) btree_map" and k
    by (simp add: btree_keys_def btree_get_def map_of_eq_None_iff)
qed (simp_all add: btree_get_def map_of_btree_insert btree_wf_insert, simp_all add: btree_keys_def btree_wf_def)

lemma btree_collect_eq: "btree_collect = btree.collect"
  by (intro ext) (simp add: btree_collect_def btree.collect_def)

lemma btree_get_in: "btree_wf m \<Longrightarrow> btree_get m k = Some v \<longleftrightarrow> (k, v) \<in> set m"
proof -
  assume "btree_wf m"
  then have "distinct (map fst m)"
    using btree.keys_distinct [of m] by (simp add: btree_keys_def)
  then show ?thesis
    by (simp add: btree_get_def)
qed

end
