(* ===== verification/Submission_Planning.thy ===== *)
theory Submission_Planning
  imports Store_Properties Voting_Collections
begin

text \<open>
  What planners read of the table \<open>chain_submissions\<close>
  (\<open>zcash_voting/src/chain_submission/planning.rs\<close>): the one transaction hash the lifecycle knows for a
  target, asked by a query of its own or from a snapshot of the whole round. Failures of the SQL
  engine itself are left out. The property shows that the two ways agree.
\<close>

section \<open>One target\<close>

datatype PlanningTarget =
    PlanningDelegation
  | PlanningVote u32
  | PlanningVoteBatch bytes

text \<open>\<open>COALESCE(confirmed_transaction_hash, candidate_transaction_hash)\<close>.\<close>

definition row_hash :: "submission_row \<Rightarrow> bytes option" where
  "row_hash row = (case row_confirmed_transaction_hash row of
      Some h \<Rightarrow> Some h
    | None \<Rightarrow> row_candidate_transaction_hash row)"

fun target_clause :: "PlanningTarget \<Rightarrow> submission_row \<Rightarrow> bool" where
  "target_clause PlanningDelegation row = (row_kind row \<in> {''delegation'', ''delegate_and_cast_vote_batch''})"
| "target_clause (PlanningVote proposal_id) row =
     (row_kind row = ''vote'' \<and> row_proposal_id row = Some (uint proposal_id))"
| "target_clause (PlanningVoteBatch ordered_batch_digest) row =
     (row_kind row \<in> {''vote_batch'', ''delegate_and_cast_vote_batch''} \<and>
      row_ordered_batch_digest row = Some ordered_batch_digest)"

definition in_round :: "bytes \<Rightarrow> rust_str \<Rightarrow> submission_row \<Rightarrow> bool" where
  "in_round wallet round_id row \<longleftrightarrow>
     row_round_id row = round_id \<and> row_wallet_id row = wallet \<and> row_hash row \<noteq> None"

definition lifecycle_transaction_hash ::
  "text_codecs \<Rightarrow> 'd voting_db \<Rightarrow> bytes \<Rightarrow> rust_str \<Rightarrow> u32 \<Rightarrow> PlanningTarget \<Rightarrow> rust_str option" where
  "lifecycle_transaction_hash codecs db wallet round_id bundle t =
     (let hashes = take 2 (remdups (map (\<lambda>row. the (row_hash row))
            (filter (\<lambda>row. in_round wallet round_id row \<and> row_bundle_index row = uint bundle \<and> target_clause t row)
              (chain_submissions db))))
      in case hashes of
           [hash] \<Rightarrow> Some (hex_encode codecs hash)
         | _ \<Rightarrow> None)"

section \<open>The whole round\<close>

datatype LifecycleHashKey =
    DelegationKey u32
  | VoteKey u32 u32
  | VoteBatchKey u32 bytes

type_synonym LifecycleTransactionHashes = "LifecycleHashKey \<rightharpoonup> bytes set"

fun planning_key :: "u32 \<Rightarrow> PlanningTarget \<Rightarrow> LifecycleHashKey" where
  "planning_key bundle PlanningDelegation = DelegationKey bundle"
| "planning_key bundle (PlanningVote proposal_id) = VoteKey bundle proposal_id"
| "planning_key bundle (PlanningVoteBatch ordered_batch_digest) = VoteBatchKey bundle ordered_batch_digest"

definition lifecycle_hash ::
  "text_codecs \<Rightarrow> LifecycleTransactionHashes \<Rightarrow> u32 \<Rightarrow> PlanningTarget \<Rightarrow> rust_str option" where
  "lifecycle_hash codecs hashes bundle t =
     (case hashes (planning_key bundle t) of
        None \<Rightarrow> None
      | Some known \<Rightarrow> if card known = 1 then Some (hex_encode codecs (the_elem known)) else None)"

definition entry_insert :: "'k \<Rightarrow> 'v \<Rightarrow> ('k \<rightharpoonup> 'v set) \<Rightarrow> ('k \<rightharpoonup> 'v set)" where
  "entry_insert k v m = m(k \<mapsto> insert v (case m k of None \<Rightarrow> {} | Some known \<Rightarrow> known))"

definition row_key :: "submission_row \<Rightarrow> VotingError + LifecycleHashKey" where
  "row_key row =
     (let bundle = word_of_int (row_bundle_index row) in
      if row_kind row = ''delegation'' then Inr (DelegationKey bundle)
      else case (row_proposal_id row, row_ordered_batch_digest row) of
          (Some proposal_id, dig) \<Rightarrow>
            if row_kind row = ''vote'' then Inr (VoteKey bundle (word_of_int proposal_id))
            else if row_kind row \<in> {''vote_batch'', ''delegate_and_cast_vote_batch''} \<and> dig \<noteq> None
            then if length (the dig) = 32 then Inr (VoteBatchKey bundle (the dig))
              else Inl (VotingInternal (lit ''stored ordered batch digest is not 32 bytes''))
            else Inl (VotingInternal (lit ''chain submission row has unexpected shape for kind '' @ lit (row_kind row)))
        | (None, Some dig) \<Rightarrow>
            if row_kind row \<in> {''vote_batch'', ''delegate_and_cast_vote_batch''}
            then if length dig = 32 then Inr (VoteBatchKey bundle dig)
              else Inl (VotingInternal (lit ''stored ordered batch digest is not 32 bytes''))
            else Inl (VotingInternal (lit ''chain submission row has unexpected shape for kind '' @ lit (row_kind row)))
        | (None, None) \<Rightarrow>
            Inl (VotingInternal (lit ''chain submission row has unexpected shape for kind '' @ lit (row_kind row))))"

definition record_row_hash ::
  "submission_row \<Rightarrow> LifecycleTransactionHashes \<Rightarrow> VotingError + LifecycleTransactionHashes" where
  "record_row_hash row hashes =
     and_then (row_key row) (\<lambda>key.
     let hash = the (row_hash row);
         with_delegation = (if row_kind row = ''delegate_and_cast_vote_batch''
           then entry_insert (DelegationKey (word_of_int (row_bundle_index row))) hash hashes else hashes)
     in Inr (entry_insert key hash with_delegation))"

definition lifecycle_transaction_hashes ::
  "'d voting_db \<Rightarrow> bytes \<Rightarrow> rust_str \<Rightarrow> VotingError + LifecycleTransactionHashes" where
  "lifecycle_transaction_hashes db wallet round_id =
     try_fold record_row_hash (filter (in_round wallet round_id) (chain_submissions db)) Map.empty"

section \<open>Agreement\<close>

text \<open>The keys under which a well-formed row is recorded.\<close>

definition row_recorded_under :: "submission_row \<Rightarrow> LifecycleHashKey \<Rightarrow> bool" where
  "row_recorded_under row key \<longleftrightarrow>
     (\<exists>bundle t. key = planning_key bundle t \<and> row_bundle_index row = uint bundle \<and> target_clause t row)"

lemma planning_key_inject:
  "planning_key b t = planning_key b' t' \<longleftrightarrow> b = b' \<and> t = t'"
  by (cases t; cases t') auto

lemma row_recorded_under_key:
  "row_recorded_under row (planning_key bundle t) \<longleftrightarrow> row_bundle_index row = uint bundle \<and> target_clause t row"
  by (auto simp: row_recorded_under_def planning_key_inject)

lemma row_inv_bundle:
  assumes "row_inv codecs row"
  shows "uint (word_of_int (row_bundle_index row) :: u32) = row_bundle_index row"
proof -
  have "0 \<le> row_bundle_index row" "row_bundle_index row < 2 ^ 32"
    using assms by (auto simp: row_inv_def schema_ok_def check_columns_def)
  then show ?thesis
    by (simp add: unsigned_of_int take_bit_int_eq_self)
qed

lemma row_inv_target:
  assumes "row_inv codecs row"
  obtains t :: ChainSubmissionTarget where "(row_kind row, row_proposal_id row, row_ordered_batch_digest row) = target_columns t"
    "\<And>d. t = TargetVoteBatch d \<or> t = TargetDelegateAndVoteBatch d \<Longrightarrow> length d = 32"
proof -
  obtain i where i: "valid_identity i" "row_for codecs i row"
    using assms by (auto simp: row_inv_def)
  show thesis
    by (rule that [of "target i"]) (use i in \<open>auto simp: row_for_def valid_identity_def wf_identity_def split: prod.splits\<close>)
qed

lemma record_row_hash_eq:
  assumes "row_inv codecs row" "row_hash row = Some h"
  shows "record_row_hash row hashes = Inr (\<lambda>key. if row_recorded_under row key
     then Some (insert h (case hashes key of None \<Rightarrow> {} | Some known \<Rightarrow> known)) else hashes key)"
proof -
  define bi :: u32 where "bi = word_of_int (row_bundle_index row)"
  have bi: "row_bundle_index row = uint b \<longleftrightarrow> b = bi" for b
    using row_inv_bundle [OF assms(1)] unfolding bi_def by (metis word_of_int_uint)
  obtain t where t: "(row_kind row, row_proposal_id row, row_ordered_batch_digest row) = target_columns t"
    "\<And>d. t = TargetVoteBatch d \<or> t = TargetDelegateAndVoteBatch d \<Longrightarrow> length d = 32"
    using row_inv_target [OF assms(1)] by blast
  have keys: "row_recorded_under row key \<longleftrightarrow>
      (case t of
         TargetDelegation \<Rightarrow> key = DelegationKey bi
       | TargetVote p \<Rightarrow> key = VoteKey bi p
       | TargetVoteBatch d \<Rightarrow> key = VoteBatchKey bi d
       | TargetDelegateAndVoteBatch d \<Rightarrow> key = DelegationKey bi \<or> key = VoteBatchKey bi d)" for key
    using row_recorded_under_key [of row _ PlanningDelegation] row_recorded_under_key [of row _ "PlanningVote _"]
      row_recorded_under_key [of row _ "PlanningVoteBatch _"] t(1)
    by (cases key; cases t) (auto simp: bi dest: unsigned_word_eqI)
  show ?thesis
    using t assms(2)
    by (cases t) (auto simp: record_row_hash_def row_key_def Let_def bi_def [symmetric] keys entry_insert_def fun_eq_iff)
qed

definition found_hashes :: "submission_row list \<Rightarrow> LifecycleHashKey \<Rightarrow> bytes set" where
  "found_hashes rows key = (\<lambda>row. the (row_hash row)) ` {row \<in> set rows. row_recorded_under row key}"

lemma found_hashes_Nil [simp]: "found_hashes [] key = {}"
  by (simp add: found_hashes_def)

lemma found_hashes_Cons:
  "found_hashes (row # rows) key =
     (if row_recorded_under row key then {the (row_hash row)} else {}) \<union> found_hashes rows key"
proof -
  have "{r \<in> set (row # rows). row_recorded_under r key} =
      (if row_recorded_under row key then {row} else {}) \<union> {r \<in> set rows. row_recorded_under r key}"
    by auto
  then show ?thesis
    by (simp add: found_hashes_def)
qed

definition known_hashes :: "bytes set option \<Rightarrow> bytes set \<Rightarrow> bytes set option" where
  "known_hashes known found =
     (if found = {} then known else Some (found \<union> (case known of None \<Rightarrow> {} | Some k \<Rightarrow> k)))"

lemma known_hashes_empty [simp]: "known_hashes known {} = known"
  by (simp add: known_hashes_def)

lemma known_hashes_insert:
  "known_hashes (Some (insert h (case known of None \<Rightarrow> {} | Some k \<Rightarrow> k))) found = known_hashes known ({h} \<union> found)"
  by (auto simp: known_hashes_def)

lemma try_fold_record_row_hash:
  assumes "\<forall>row\<in>set rows. row_inv codecs row \<and> row_hash row \<noteq> None"
  shows "try_fold record_row_hash rows hashes = Inr (\<lambda>key. known_hashes (hashes key) (found_hashes rows key))"
  using assms
proof (induction rows arbitrary: hashes)
  case (Cons row rows)
  then obtain h where h: "row_inv codecs row" "row_hash row = Some h"
    by auto
  show ?case
    using Cons
    by (simp add: record_row_hash_eq [OF h] found_hashes_Cons fun_eq_iff known_hashes_insert h(2))
qed simp

lemma take2_singleton:
  "distinct xs \<Longrightarrow> (case take 2 xs of [x] \<Rightarrow> Some (f x) | _ \<Rightarrow> None) =
     (if card (set xs) = 1 then Some (f (the_elem (set xs))) else None)"
  by (cases xs; cases "tl xs") (auto simp: card_insert_if numeral_2_eq_2)

text \<open>Over a table that satisfies its invariant the hashes of a round are always read, and for every
  bundle and target they report the hash the query for that single target reports.\<close>

lemma snapshot_hash_agrees:
  assumes "db_inv env db"
  shows "\<exists>hashes. lifecycle_transaction_hashes db wallet round_id = Inr hashes \<and>
    (\<forall>bundle t. lifecycle_hash codecs hashes bundle t = lifecycle_transaction_hash codecs db wallet round_id bundle t)"
proof -
  let ?rows = "filter (in_round wallet round_id) (chain_submissions db)"
  have "lifecycle_transaction_hashes db wallet round_id =
      Inr (\<lambda>key. known_hashes None (found_hashes ?rows key))"
    using assms try_fold_record_row_hash [of ?rows "env_codecs env" Map.empty]
    by (simp add: lifecycle_transaction_hashes_def db_inv_def in_round_def)
  moreover have "lifecycle_hash codecs (\<lambda>key. known_hashes None (found_hashes ?rows key)) b t =
      lifecycle_transaction_hash codecs db wallet round_id b t" for b t
  proof -
    have "set (remdups (map (\<lambda>row. the (row_hash row))
        (filter (\<lambda>row. in_round wallet round_id row \<and> row_bundle_index row = uint b \<and> target_clause t row)
          (chain_submissions db)))) = found_hashes ?rows (planning_key b t)"
      by (auto simp: found_hashes_def row_recorded_under_key)
    then show ?thesis
      unfolding lifecycle_transaction_hash_def Let_def take2_singleton [OF distinct_remdups] lifecycle_hash_def
      by (cases "found_hashes ?rows (planning_key b t) = {}") (simp_all add: known_hashes_def)
  qed
  ultimately show ?thesis
    by blast
qed

end
