(* ===== verification/Round_Phases.thy ===== *)
theory Round_Phases
  imports Voting_Collections Share_Placement Submission_Result
begin

text \<open>
  The canonical phases of a bundle's delegation, a vote and a helper share
  (\<open>zcash_voting/src/phases.rs\<close>), and where a vote stands relative to the chain lifecycle, the roster
  and the ballot (\<open>zcash_voting/src/round_planning/lifecycle.rs\<close>).
\<close>

section \<open>Phases\<close>

datatype DelegationPhase =
    DelegationPrepared
  | DelegationPcztBuilt
  | DelegationProved
  | DelegationSubmitted
  | DelegationSubmissionManaged
  | DelegationSubmittedWithoutHash
  | DelegationSubmissionRejected
  | DelegationConfirmed

datatype VotePhase =
    VotePrepared
  | VoteCommitted
  | VoteSubmitted
  | VoteSubmissionManaged
  | VoteSubmittedWithoutHash
  | VoteSubmissionRejected
  | VoteConfirmed

datatype SharePhase = ShareSubmitted | ShareConfirmed

datatype WorkflowPhase =
    WorkflowPrepared
  | WorkflowSigned
  | WorkflowSubmittedDelegation
  | WorkflowSubmittedVote
  | WorkflowSubmittedShare
  | WorkflowSubmissionManaged
  | WorkflowSubmissionRejected
  | WorkflowConfirmed

fun vote_phase_as_str :: "VotePhase \<Rightarrow> rust_str" where
  "vote_phase_as_str VotePrepared = lit ''prepared''"
| "vote_phase_as_str VoteCommitted = lit ''committed''"
| "vote_phase_as_str VoteSubmitted = lit ''submitted''"
| "vote_phase_as_str VoteSubmissionManaged = lit ''submission_managed''"
| "vote_phase_as_str VoteSubmittedWithoutHash = lit ''submitted_without_hash''"
| "vote_phase_as_str VoteSubmissionRejected = lit ''submission_rejected''"
| "vote_phase_as_str VoteConfirmed = lit ''confirmed''"

fun share_phase_as_str :: "SharePhase \<Rightarrow> rust_str" where
  "share_phase_as_str ShareSubmitted = lit ''submitted''"
| "share_phase_as_str ShareConfirmed = lit ''confirmed''"

fun delegation_phase_as_str :: "DelegationPhase \<Rightarrow> rust_str" where
  "delegation_phase_as_str DelegationPrepared = lit ''prepared''"
| "delegation_phase_as_str DelegationPcztBuilt = lit ''pczt_built''"
| "delegation_phase_as_str DelegationProved = lit ''proved''"
| "delegation_phase_as_str DelegationSubmitted = lit ''submitted''"
| "delegation_phase_as_str DelegationSubmissionManaged = lit ''submission_managed''"
| "delegation_phase_as_str DelegationSubmittedWithoutHash = lit ''submitted_without_hash''"
| "delegation_phase_as_str DelegationSubmissionRejected = lit ''submission_rejected''"
| "delegation_phase_as_str DelegationConfirmed = lit ''confirmed''"

fun has_persisted_proof :: "DelegationPhase \<Rightarrow> bool" where
  "has_persisted_proof DelegationPrepared = False"
| "has_persisted_proof DelegationPcztBuilt = False"
| "has_persisted_proof DelegationProved = True"
| "has_persisted_proof DelegationSubmitted = True"
| "has_persisted_proof DelegationSubmissionManaged = True"
| "has_persisted_proof DelegationSubmittedWithoutHash = True"
| "has_persisted_proof DelegationSubmissionRejected = True"
| "has_persisted_proof DelegationConfirmed = True"

fun workflow_for_delegation :: "DelegationPhase \<Rightarrow> WorkflowPhase" where
  "workflow_for_delegation DelegationPrepared = WorkflowPrepared"
| "workflow_for_delegation DelegationPcztBuilt = WorkflowSigned"
| "workflow_for_delegation DelegationProved = WorkflowSigned"
| "workflow_for_delegation DelegationSubmitted = WorkflowSubmittedDelegation"
| "workflow_for_delegation DelegationSubmissionManaged = WorkflowSubmissionManaged"
| "workflow_for_delegation DelegationSubmittedWithoutHash = WorkflowSubmittedDelegation"
| "workflow_for_delegation DelegationSubmissionRejected = WorkflowSubmissionRejected"
| "workflow_for_delegation DelegationConfirmed = WorkflowConfirmed"

fun workflow_for_vote :: "VotePhase \<Rightarrow> WorkflowPhase" where
  "workflow_for_vote VotePrepared = WorkflowPrepared"
| "workflow_for_vote VoteCommitted = WorkflowSigned"
| "workflow_for_vote VoteSubmitted = WorkflowSubmittedVote"
| "workflow_for_vote VoteSubmissionManaged = WorkflowSubmissionManaged"
| "workflow_for_vote VoteSubmittedWithoutHash = WorkflowSubmittedVote"
| "workflow_for_vote VoteSubmissionRejected = WorkflowSubmissionRejected"
| "workflow_for_vote VoteConfirmed = WorkflowConfirmed"

fun workflow_for_share :: "SharePhase \<Rightarrow> WorkflowPhase" where
  "workflow_for_share ShareSubmitted = WorkflowSubmittedShare"
| "workflow_for_share ShareConfirmed = WorkflowConfirmed"

section \<open>Phases from columns\<close>

definition phase_from_columns ::
  "bool \<Rightarrow> bool \<Rightarrow> bool \<Rightarrow> bool \<Rightarrow> string option \<Rightarrow> DelegationPhase" where
  "phase_from_columns has_pczt has_proof has_tx_hash has_van_position authoritative_state =
     (if authoritative_state \<in> {Some ''submitting'', Some ''tracking'', Some ''recovering''}
      then DelegationSubmissionManaged
      else if authoritative_state = Some ''submitted_without_hash'' then DelegationSubmittedWithoutHash
      else if authoritative_state = Some ''rejected'' then DelegationSubmissionRejected
      else if authoritative_state = Some ''confirmed'' then DelegationConfirmed
      else if has_van_position then DelegationConfirmed
      else if has_tx_hash then DelegationSubmitted
      else if has_proof then DelegationProved
      else if has_pczt then DelegationPcztBuilt
      else DelegationPrepared)"

definition vote_phase_from_columns :: "bool \<Rightarrow> bool \<Rightarrow> bool \<Rightarrow> VotePhase" where
  "vote_phase_from_columns has_tx_hash has_vc_position has_recovery_bundle =
     (if has_tx_hash \<and> has_vc_position \<and> has_recovery_bundle then VoteConfirmed
      else if has_tx_hash then VoteSubmitted
      else if has_recovery_bundle then VoteCommitted
      else VotePrepared)"

definition authoritative_submission_phase :: "string option \<Rightarrow> VotePhase option" where
  "authoritative_submission_phase state =
     (if state \<in> {Some ''submitting'', Some ''tracking'', Some ''recovering''}
      then Some VoteSubmissionManaged
      else if state = Some ''submitted_without_hash'' then Some VoteSubmittedWithoutHash
      else if state = Some ''rejected'' then Some VoteSubmissionRejected
      else if state = Some ''confirmed'' then Some VoteConfirmed
      else None)"

text \<open>The unknown kind is quoted by Rust's debug formatting, a parameter.\<close>

definition stored_submission_diagnostic ::
  "(string \<Rightarrow> rust_str) \<Rightarrow> string option \<Rightarrow> string option \<Rightarrow> VotingError + ChainSubmissionDiagnostic option" where
  "stored_submission_diagnostic debug_text kind message =
     (case (kind, message) of
        (None, None) \<Rightarrow> Inr None
      | (Some k, Some m) \<Rightarrow>
          (case kind_from_stable_name k of
             Some parsed \<Rightarrow> Inr (Some (from_redacted_message parsed (lit m)))
           | None \<Rightarrow> Inl (VotingInternal (lit ''chain submission row stores unknown diagnostic kind '' @ debug_text k)))
      | _ \<Rightarrow> Inl (VotingInternal (lit ''chain submission row stores a diagnostic kind without a message or a message without a kind'')))"

record DelegationSubmissionStatus =
  status_bundle_index :: u32
  status_phase :: DelegationPhase
  status_diagnostic :: "ChainSubmissionDiagnostic option"

record VoteSubmissionStatus =
  vote_status_bundle_index :: u32
  vote_status_proposal_id :: u32
  vote_status_phase :: VotePhase
  vote_status_diagnostic :: "ChainSubmissionDiagnostic option"
  vote_status_batch_digest :: "bytes option"

record VotePhaseEvidence =
  evidence_bundle_index :: u32
  evidence_proposal_id :: u32
  has_tx_hash :: bool
  has_vc_position :: bool
  has_recovery_bundle :: bool
  singleton_submission_state :: "string option"
  singleton_diagnostic_kind :: "string option"
  singleton_diagnostic :: "string option"

record AuthoritativeBatchMember =
  member_phase :: VotePhase
  member_diagnostic :: "ChainSubmissionDiagnostic option"
  member_batch_digest :: bytes

text \<open>One vote row projected through its authoritative singleton or batch submission.\<close>

definition vote_submission_status ::
  "(string \<Rightarrow> rust_str) \<Rightarrow> rust_str \<Rightarrow> (u32 \<times> u32 \<rightharpoonup> AuthoritativeBatchMember) \<Rightarrow> VotePhaseEvidence \<Rightarrow>
   VotingError + VoteSubmissionStatus" where
  "vote_submission_status debug_text round_id batch_members row =
     (let singleton_phase = authoritative_submission_phase (singleton_submission_state row);
          batch_member = batch_members (evidence_bundle_index row, evidence_proposal_id row)
      in
      if singleton_phase \<noteq> None \<and> batch_member \<noteq> None
      then Inl (VotingInternal
             (lit ''vote has overlapping authoritative singleton and batch submissions for round='' @ round_id @
              lit '', bundle='' @ decimal (unat (evidence_bundle_index row)) @
              lit '', proposal='' @ decimal (unat (evidence_proposal_id row))))
      else
      and_then (case (singleton_phase, batch_member) of
          (Some phase, _) \<Rightarrow>
            and_then (stored_submission_diagnostic debug_text (singleton_diagnostic_kind row)
                (singleton_diagnostic row)) (\<lambda>diagnostic. Inr (phase, diagnostic, None))
        | (None, Some member) \<Rightarrow>
            Inr (member_phase member, member_diagnostic member, Some (member_batch_digest member))
        | (None, None) \<Rightarrow>
            Inr (vote_phase_from_columns (has_tx_hash row) (has_vc_position row)
                   (has_recovery_bundle row), None, None))
      (\<lambda>(phase, diagnostic, digest).
        Inr \<lparr>vote_status_bundle_index = evidence_bundle_index row,
             vote_status_proposal_id = evidence_proposal_id row,
             vote_status_phase = phase, vote_status_diagnostic = diagnostic,
             vote_status_batch_digest = digest\<rparr>))"

section \<open>Lifecycle position\<close>

datatype LifecyclePosition = Uncast | Undispatched | OnWire | Terminal | PositionConfirmed

fun lifecycle_position_of :: "VotePhase option \<Rightarrow> LifecyclePosition" where
  "lifecycle_position_of None = Uncast"
| "lifecycle_position_of (Some VotePrepared) = Uncast"
| "lifecycle_position_of (Some VoteCommitted) = Undispatched"
| "lifecycle_position_of (Some VoteSubmitted) = OnWire"
| "lifecycle_position_of (Some VoteSubmissionManaged) = OnWire"
| "lifecycle_position_of (Some VoteSubmittedWithoutHash) = Terminal"
| "lifecycle_position_of (Some VoteSubmissionRejected) = Terminal"
| "lifecycle_position_of (Some VoteConfirmed) = PositionConfirmed"

fun is_lifecycle_owned :: "LifecyclePosition \<Rightarrow> bool" where
  "is_lifecycle_owned Uncast = False"
| "is_lifecycle_owned Undispatched = False"
| "is_lifecycle_owned OnWire = True"
| "is_lifecycle_owned Terminal = True"
| "is_lifecycle_owned PositionConfirmed = True"

definition vote_phase_is_lifecycle_owned :: "VotePhase \<Rightarrow> bool" where
  "vote_phase_is_lifecycle_owned phase = is_lifecycle_owned (lifecycle_position_of (Some phase))"

fun vote_phase_holds_bundle :: "VotePhase \<Rightarrow> bool" where
  "vote_phase_holds_bundle VoteCommitted = True"
| "vote_phase_holds_bundle VoteSubmitted = True"
| "vote_phase_holds_bundle VoteSubmissionManaged = True"
| "vote_phase_holds_bundle VoteSubmittedWithoutHash = True"
| "vote_phase_holds_bundle VotePrepared = False"
| "vote_phase_holds_bundle VoteSubmissionRejected = False"
| "vote_phase_holds_bundle VoteConfirmed = False"

fun delegation_phase_holds_bundle :: "DelegationPhase \<Rightarrow> bool" where
  "delegation_phase_holds_bundle DelegationSubmissionManaged = True"
| "delegation_phase_holds_bundle DelegationSubmittedWithoutHash = True"
| "delegation_phase_holds_bundle DelegationSubmissionRejected = True"
| "delegation_phase_holds_bundle DelegationPrepared = False"
| "delegation_phase_holds_bundle DelegationPcztBuilt = False"
| "delegation_phase_holds_bundle DelegationProved = False"
| "delegation_phase_holds_bundle DelegationSubmitted = False"
| "delegation_phase_holds_bundle DelegationConfirmed = False"

definition MAX_CONSECUTIVE_COMBINED_REJECTIONS :: u32 where
  "MAX_CONSECUTIVE_COMBINED_REJECTIONS = 2"

definition combined_rejections_block_bundle :: "u32 \<Rightarrow> bool" where
  "combined_rejections_block_bundle streak \<longleftrightarrow> streak \<ge> MAX_CONSECUTIVE_COMBINED_REJECTIONS"

fun is_terminal_delegation_phase :: "DelegationPhase \<Rightarrow> bool" where
  "is_terminal_delegation_phase DelegationSubmittedWithoutHash = True"
| "is_terminal_delegation_phase DelegationSubmissionRejected = True"
| "is_terminal_delegation_phase DelegationPrepared = False"
| "is_terminal_delegation_phase DelegationPcztBuilt = False"
| "is_terminal_delegation_phase DelegationProved = False"
| "is_terminal_delegation_phase DelegationSubmitted = False"
| "is_terminal_delegation_phase DelegationSubmissionManaged = False"
| "is_terminal_delegation_phase DelegationConfirmed = False"

section \<open>Roster and ballot\<close>

datatype Decision = Choice u32 | Skipped

datatype RosterRelation = Rostered | LeftRoster

definition roster_relation :: "u32 list \<Rightarrow> u32 set \<Rightarrow> RosterRelation" where
  "roster_relation proposal_ids roster =
     (if list_all (\<lambda>p. p \<in> roster) proposal_ids then Rostered else LeftRoster)"

datatype BallotRelation = Agrees | Unrecorded | Conflicts

definition ballot_relation :: "(u32, Decision) btree_map \<Rightarrow> u32 \<Rightarrow> u32 \<Rightarrow> BallotRelation" where
  "ballot_relation intents proposal_id stored_choice =
     (case btree_get intents proposal_id of
        None \<Rightarrow> Unrecorded
      | Some (Choice choice) \<Rightarrow> if choice = stored_choice then Agrees else Conflicts
      | Some Skipped \<Rightarrow> Conflicts)"

record BallotIntentClassification =
  ballot_roster :: "u32 set"
  ballot_choice_proposals :: "u32 list"
  ballot_open_proposals :: "u32 list"
  ballot_unrostered_intents :: "u32 list"

definition validate_proposal_id :: "u32 \<Rightarrow> VotingError + unit" where
  "validate_proposal_id proposal_id =
     (if MIN_PROPOSAL_ID \<le> proposal_id \<and> proposal_id \<le> MAX_PROPOSAL_ID then Inr ()
      else Inl (VotingInvalidInput (lit ''proposal_id must be '' @ decimal (unat MIN_PROPOSAL_ID) @ lit ''..='' @
             decimal (unat MAX_PROPOSAL_ID) @ lit '', got '' @ decimal (unat proposal_id))))"

definition roster_step :: "u32 \<Rightarrow> u32 set \<Rightarrow> VotingError + u32 set" where
  "roster_step proposal_id roster =
     and_then (validate_proposal_id proposal_id) (\<lambda>_.
     if proposal_id \<in> roster
     then Inl (VotingInvalidInput (lit ''proposal roster contains duplicate id '' @ decimal (unat proposal_id)))
     else Inr (insert proposal_id roster))"

fun is_choice :: "Decision option \<Rightarrow> bool" where
  "is_choice (Some (Choice c)) = True"
| "is_choice (Some Skipped) = False"
| "is_choice None = False"

definition classify_ballot_intents ::
  "u32 list \<Rightarrow> (u32, Decision) btree_map \<Rightarrow> VotingError + BallotIntentClassification" where
  "classify_ballot_intents proposal_ids intents =
     and_then (try_fold roster_step proposal_ids {}) (\<lambda>roster.
     let ordered = sorted_list_of_set roster in
     Inr \<lparr>ballot_roster = roster,
          ballot_choice_proposals = filter (\<lambda>p. is_choice (btree_get intents p)) ordered,
          ballot_open_proposals = filter (\<lambda>p. btree_get intents p = None) ordered,
          ballot_unrostered_intents = filter (\<lambda>p. p \<notin> roster) (btree_keys intents)\<rparr>)"

end
