(* ===== verification/Round_Recovery.thy ===== *)
theory Round_Recovery
  imports Round_Phases
begin

text \<open>
  The persisted recovery bundle of a vote (\<open>zcash_voting/src/vote.rs\<close>), the digest of an atomic batch
  (\<open>zcash_voting/src/vote_commitment.rs\<close>, \<open>zcash_voting/src/delegate_and_vote_batch/authorization.rs\<close>),
  the assembly of a batch from the bundles of its members, and the helper payloads recovered from a
  bundle (\<open>zcash_voting/src/share.rs\<close>). The BLAKE2b hash, the hex crate and the test for a canonical
  Pallas field element are parameters.
\<close>

section \<open>Recovery bundles\<close>

record EncryptedShare =
  enc_c1 :: bytes
  enc_c2 :: bytes
  enc_share_index :: u32
  enc_plaintext_value :: u64
  enc_randomness :: bytes

record WireEncryptedShare =
  wire_c1 :: bytes
  wire_c2 :: bytes
  wire_share_index :: u32

definition wire_encrypted_share :: "EncryptedShare \<Rightarrow> WireEncryptedShare" where
  "wire_encrypted_share s = \<lparr>wire_c1 = enc_c1 s, wire_c2 = enc_c2 s, wire_share_index = enc_share_index s\<rparr>"

record SharePayload =
  payload_vote_round_id :: rust_str
  payload_shares_hash :: bytes
  payload_proposal_id :: u32
  payload_vote_decision :: u32
  payload_enc_share :: WireEncryptedShare
  payload_tree_position :: u64
  payload_all_enc_shares :: "WireEncryptedShare list"
  payload_share_comms :: "bytes list"
  payload_primary_blind :: bytes

record VoteBatchRecovery =
  batch_delegation_van :: "bytes option"
  batch_digest :: bytes
  batch_index :: u32
  batch_size :: u32

record VoteRecoveryBundle =
  recovery_vote_round_id :: rust_str
  recovery_bundle_index :: u32
  recovery_proposal_id :: u32
  recovery_vote_decision :: u32
  recovery_anchor_height :: u32
  recovery_vc_tree_position :: u64
  recovery_single_share :: bool
  recovery_num_options :: u32
  recovery_van_nullifier :: bytes
  recovery_vote_authority_note_new :: bytes
  recovery_vote_commitment :: bytes
  recovery_proof :: bytes
  recovery_shares_hash :: bytes
  recovery_r_vpk :: bytes
  recovery_alpha_v :: bytes
  recovery_vote_auth_sig :: bytes
  recovery_encrypted_shares :: "EncryptedShare list"
  recovery_share_blinds :: "bytes list"
  recovery_share_comms :: "bytes list"
  recovery_batch :: "VoteBatchRecovery option"

text \<open>The library code planning calls.\<close>

record planning_env =
  plan_codecs :: text_codecs
  hex_error_text :: "rust_str \<Rightarrow> rust_str"
  blake2b32 :: "bytes \<Rightarrow> bytes"
  canonical_base :: "bytes \<Rightarrow> bool"

section \<open>Batch digests\<close>

record CastVoteBatchSighashAction =
  action_r_vpk :: bytes
  action_van_nullifier :: bytes
  action_vote_authority_note_new :: bytes
  action_vote_commitment :: bytes
  action_proposal_id :: u32

definition padded32 :: "bytes \<Rightarrow> bytes" where
  "padded32 b = take 32 b @ replicate (32 - min (length b) 32) 0"

definition u32_padded32 :: "u32 \<Rightarrow> bytes" where
  "u32_padded32 value = le_bytes 4 (unat value) @ replicate 28 0"

definition u64_padded32 :: "u64 \<Rightarrow> bytes" where
  "u64_padded32 value = le_bytes 8 (unat value) @ replicate 24 0"

definition ascii_bytes :: "string \<Rightarrow> bytes" where
  "ascii_bytes s = map (\<lambda>c. of_char c) s"

definition batch_action_bytes :: "nat \<times> CastVoteBatchSighashAction \<Rightarrow> bytes" where
  "batch_action_bytes = (\<lambda>(index, action).
     u32_padded32 (word_of_nat index) @ padded32 (action_r_vpk action) @ padded32 (action_van_nullifier action) @
     padded32 (action_vote_authority_note_new action) @ padded32 (action_vote_commitment action) @
     u32_padded32 (action_proposal_id action))"

definition cast_vote_batch_transcript :: "bytes \<Rightarrow> u64 \<Rightarrow> CastVoteBatchSighashAction list \<Rightarrow> bytes" where
  "cast_vote_batch_transcript round_bytes anchor_height actions =
     ascii_bytes ''SVOTE_CAST_VOTE_BATCH_SIGHASH_V1'' @ padded32 round_bytes @ u64_padded32 anchor_height @
     u32_padded32 (word_of_nat (length actions)) @ concat (map batch_action_bytes (enumerate 0 actions))"

definition cast_vote_batch_sighash ::
  "planning_env \<Rightarrow> rust_str \<Rightarrow> u64 \<Rightarrow> CastVoteBatchSighashAction list \<Rightarrow> VotingError + bytes" where
  "cast_vote_batch_sighash env vote_round_id_hex anchor_height actions =
     (case hex_decode (plan_codecs env) vote_round_id_hex of
        None \<Rightarrow> Inl (VotingInternal (lit ''invalid vote_round_id hex: '' @ hex_error_text env vote_round_id_hex))
      | Some round_bytes \<Rightarrow>
          Inr (blake2b32 env (cast_vote_batch_transcript round_bytes anchor_height actions)))"

definition combined_action_step ::
  "nat \<times> CastVoteBatchSighashAction \<Rightarrow> bytes \<times> u32 set \<Rightarrow> VotingError + bytes \<times> u32 set" where
  "combined_action_step = (\<lambda>(index, action) (transcript, proposals).
     and_then (validate_proposal_id (action_proposal_id action)) (\<lambda>_.
     if action_proposal_id action \<in> proposals
     then Inl (VotingInvalidInput (lit ''combined batch contains duplicate proposals''))
     else
     let fields = [action_r_vpk action, action_van_nullifier action,
           action_vote_authority_note_new action, action_vote_commitment action]
     in
     if list_ex (\<lambda>field. length field \<noteq> 32) fields
     then Inl (VotingInvalidInput (lit ''combined cast effect must contain exactly 32 bytes''))
     else Inr (transcript @ u32_padded32 (word_of_nat index) @ concat fields @
                 u32_padded32 (action_proposal_id action),
               insert (action_proposal_id action) proposals)))"

definition delegate_and_vote_batch_sighash ::
  "planning_env \<Rightarrow> bytes \<Rightarrow> bytes \<Rightarrow> CastVoteBatchSighashAction list \<Rightarrow> VotingError + bytes" where
  "delegate_and_vote_batch_sighash env round_id delegation_van actions =
     (if actions = [] \<or> length actions > MAX_VOTE_BATCH_ACTIONS
      then Inl (VotingInvalidInput (lit ''combined batch action count is outside the protocol bounds''))
      else
      let header = ascii_bytes ''SVOTE_DELEGATE_AND_CAST_VOTE_BATCH_SIGHASH_V1'' @ round_id @ delegation_van @
            u32_padded32 (word_of_nat (length actions))
      in
      and_then (try_fold combined_action_step (enumerate 0 actions) (header, {})) (\<lambda>(transcript, _).
        Inr (blake2b32 env transcript)))"

section \<open>Assembling a batch\<close>

definition recovery_action :: "VoteRecoveryBundle \<Rightarrow> CastVoteBatchSighashAction" where
  "recovery_action r =
     \<lparr>action_r_vpk = recovery_r_vpk r, action_van_nullifier = recovery_van_nullifier r,
      action_vote_authority_note_new = recovery_vote_authority_note_new r,
      action_vote_commitment = recovery_vote_commitment r, action_proposal_id = recovery_proposal_id r\<rparr>"

definition array32 :: "rust_str \<Rightarrow> bytes \<Rightarrow> VotingError + bytes" where
  "array32 label value =
     (if length value = 32 then Inr value
      else Inl (VotingInternal (label @ lit '' must be 32 bytes, got '' @ decimal (length value))))"

definition in_batch :: "bytes \<Rightarrow> VoteRecoveryBundle \<Rightarrow> bool" where
  "in_batch digest r = (case recovery_batch r of None \<Rightarrow> False | Some batch \<Rightarrow> batch_digest batch = digest)"

definition batch_order :: "VoteRecoveryBundle \<Rightarrow> nat" where
  "batch_order r = (case recovery_batch r of None \<Rightarrow> 0 | Some batch \<Rightarrow> Suc (unat (batch_index batch)))"

definition batch_member_misplaced :: "bytes \<Rightarrow> nat \<Rightarrow> nat \<times> VoteRecoveryBundle \<Rightarrow> bool" where
  "batch_member_misplaced digest expected_size = (\<lambda>(index, r).
     case recovery_batch r of
       None \<Rightarrow> True
     | Some batch \<Rightarrow> batch_digest batch \<noteq> digest \<or> batch_index batch \<noteq> word_of_nat index \<or>
         unat (batch_size batch) \<noteq> expected_size)"

definition recovery_van :: "VoteRecoveryBundle \<Rightarrow> bytes option" where
  "recovery_van r = Option.bind (recovery_batch r) batch_delegation_van"

definition assemble_vote_batch_recoveries ::
  "planning_env \<Rightarrow> rust_str \<Rightarrow> u32 \<Rightarrow> bytes \<Rightarrow> VoteRecoveryBundle list \<Rightarrow>
   VotingError + VoteRecoveryBundle list" where
  "assemble_vote_batch_recoveries env round_id bundle digest candidates =
     (let recoveries = sort_key batch_order (filter (in_batch digest) candidates) in
      and_then (case recoveries of
          [] \<Rightarrow> Inl (VotingInvalidInput (lit ''vote batch recovery not found for round='' @ round_id @
                 lit '', bundle='' @ decimal (unat bundle) @ lit '', digest='' @ hex_encode (plan_codecs env) digest))
        | first # _ \<Rightarrow> Inr (unat (batch_size (the (recovery_batch first))))) (\<lambda>expected_size.
      if length recoveries \<noteq> expected_size \<or>
         list_ex (batch_member_misplaced digest expected_size) (enumerate 0 recoveries)
      then Inl (VotingInvalidInput (lit ''persisted atomic vote batch is incomplete or out of order''))
      else
      let actions = map recovery_action recoveries;
          initial_van = recovery_van (hd recoveries)
      in
      if list_ex (\<lambda>r. recovery_van r \<noteq> initial_van \<or> (initial_van \<noteq> None \<and> recovery_anchor_height r \<noteq> 0)) recoveries
      then Inl (VotingInvalidInput (lit ''inconsistent combined batch authorization''))
      else
      and_then (case initial_van of
          Some van \<Rightarrow>
            and_then (ok_or (VotingInvalidInput (hex_error_text env round_id)) (hex_decode (plan_codecs env) round_id))
              (\<lambda>decoded. and_then (array32 (lit ''round_id'') decoded) (\<lambda>round_bytes.
              delegate_and_vote_batch_sighash env round_bytes van actions))
        | None \<Rightarrow> cast_vote_batch_sighash env round_id (ucast (recovery_anchor_height (hd recoveries))) actions)
      (\<lambda>recomputed.
      if recomputed \<noteq> digest
      then Inl (VotingInvalidInput (lit ''persisted atomic vote batch digest does not match its actions''))
      else Inr recoveries)))"

section \<open>Helper payloads\<close>

definition MIN_VOTE_OPTIONS :: u32 where
  "MIN_VOTE_OPTIONS = 2"

definition MAX_VOTE_OPTIONS :: u32 where
  "MAX_VOTE_OPTIONS = 8"

definition validate_vote_options :: "u32 \<Rightarrow> VotingError + unit" where
  "validate_vote_options num_options =
     (if MIN_VOTE_OPTIONS \<le> num_options \<and> num_options \<le> MAX_VOTE_OPTIONS then Inr ()
      else Inl (VotingInvalidInput (lit ''num_options must be '' @ decimal (unat MIN_VOTE_OPTIONS) @ lit ''..='' @
             decimal (unat MAX_VOTE_OPTIONS) @ lit '', got '' @ decimal (unat num_options))))"

definition validate_vote_decision :: "u32 \<Rightarrow> u32 \<Rightarrow> VotingError + unit" where
  "validate_vote_decision decision num_options =
     and_then (validate_vote_options num_options) (\<lambda>_.
     if decision \<ge> num_options
     then Inl (VotingInvalidInput (lit ''vote_decision must be in [0, '' @ decimal (unat num_options) @
            lit ''), got '' @ decimal (unat decision)))
     else Inr ())"

definition lower_hex_char :: "nat \<Rightarrow> bool" where
  "lower_hex_char c \<longleftrightarrow> (48 \<le> c \<and> c \<le> 57) \<or> (97 \<le> c \<and> c \<le> 102)"

definition validate_vote_round_id_hex :: "planning_env \<Rightarrow> rust_str \<Rightarrow> VotingError + unit" where
  "validate_vote_round_id_hex env raw =
     (if length (as_bytes raw) \<noteq> 64
      then Inl (VotingInvalidInput (lit ''vote_round_id must be 64 lowercase hex characters, got '' @
             decimal (length (as_bytes raw))))
      else if \<not> list_all (\<lambda>byte. lower_hex_char (unat byte)) (as_bytes raw)
      then Inl (VotingInvalidInput (lit ''vote_round_id must be lowercase hex''))
      else
      and_then (ok_or (VotingInvalidInput (lit ''vote_round_id is not valid hex: '' @ hex_error_text env raw))
          (hex_decode (plan_codecs env) raw)) (\<lambda>decoded.
      if length decoded \<noteq> 32
      then Inl (VotingInvalidInput (lit ''vote_round_id must be 32 bytes, got '' @ decimal (length decoded)))
      else if \<not> canonical_base env decoded
      then Inl (VotingInvalidInput (lit ''vote_round_id is not a canonical Pallas field element''))
      else Inr ()))"

definition validate_recovery_bundle_vote_fields :: "planning_env \<Rightarrow> VoteRecoveryBundle \<Rightarrow> VotingError + unit" where
  "validate_recovery_bundle_vote_fields env r =
     and_then (validate_vote_round_id_hex env (recovery_vote_round_id r)) (\<lambda>_.
     and_then (validate_proposal_id (recovery_proposal_id r)) (\<lambda>_.
     validate_vote_decision (recovery_vote_decision r) (recovery_num_options r)))"

definition recovered_payload ::
  "VoteRecoveryBundle \<Rightarrow> WireEncryptedShare list \<Rightarrow> nat \<times> WireEncryptedShare \<Rightarrow> SharePayload list \<Rightarrow>
   VotingError + SharePayload list" where
  "recovered_payload r all_enc_shares = (\<lambda>(idx, share) payloads.
     if idx < length (recovery_share_blinds r)
     then Inr (payloads @
       [\<lparr>payload_vote_round_id = recovery_vote_round_id r, payload_shares_hash = recovery_shares_hash r,
         payload_proposal_id = recovery_proposal_id r, payload_vote_decision = recovery_vote_decision r,
         payload_enc_share = share, payload_tree_position = recovery_vc_tree_position r,
         payload_all_enc_shares = all_enc_shares, payload_share_comms = recovery_share_comms r,
         payload_primary_blind = recovery_share_blinds r ! idx\<rparr>])
     else Inl (VotingInvalidInput (lit ''missing primary blind for encrypted share index '' @ decimal idx)))"

definition recover_payloads :: "planning_env \<Rightarrow> VoteRecoveryBundle \<Rightarrow> VotingError + SharePayload list" where
  "recover_payloads env r =
     and_then (validate_recovery_bundle_vote_fields env r) (\<lambda>_.
     let all_enc_shares = map wire_encrypted_share (recovery_encrypted_shares r);
         iter_shares = (if recovery_single_share r then take 1 all_enc_shares else all_enc_shares)
     in try_fold (recovered_payload r all_enc_shares) (enumerate 0 iter_shares) [])"

section \<open>What an assembled batch is\<close>

lemma batch_member_placed:
  "\<not> batch_member_misplaced digest n (i, r) \<longleftrightarrow>
   (\<exists>batch. recovery_batch r = Some batch \<and> batch_digest batch = digest \<and> batch_index batch = word_of_nat i \<and>
      unat (batch_size batch) = n)"
  by (cases "recovery_batch r") (auto simp: batch_member_misplaced_def)

lemma assemble_vote_batch_recoveries_Inr:
  assumes "assemble_vote_batch_recoveries env round_id b digest candidates = Inr recoveries"
  shows "set recoveries = {r \<in> set candidates. in_batch digest r}" "recoveries \<noteq> []"
    "\<forall>i<length recoveries. \<exists>batch. recovery_batch (recoveries ! i) = Some batch \<and> batch_digest batch = digest \<and>
       batch_index batch = word_of_nat i \<and> unat (batch_size batch) = length recoveries"
proof -
  let ?sorted = "sort_key batch_order (filter (in_batch digest) candidates)"
  have rec: "recoveries = ?sorted" and nonempty: "?sorted \<noteq> []"
    using assms by (auto simp: assemble_vote_batch_recoveries_def Let_def result_simps split: list.splits if_splits)
  have len: "unat (batch_size (the (recovery_batch (hd ?sorted)))) = length ?sorted"
    and each: "\<not> list_ex (batch_member_misplaced digest (length ?sorted)) (enumerate 0 ?sorted)"
    using assms by (auto simp: assemble_vote_batch_recoveries_def Let_def result_simps split: list.splits if_splits)
  show "set recoveries = {r \<in> set candidates. in_batch digest r}" "recoveries \<noteq> []"
    using rec nonempty by auto
  have "\<not> batch_member_misplaced digest (length ?sorted) (i, ?sorted ! i)" if "i < length ?sorted" for i
    using each that by (force simp: list_ex_iff in_set_enumerate_eq)
  then show "\<forall>i<length recoveries. \<exists>batch. recovery_batch (recoveries ! i) = Some batch \<and> batch_digest batch = digest \<and>
       batch_index batch = word_of_nat i \<and> unat (batch_size batch) = length recoveries"
    unfolding rec batch_member_placed by blast
qed

end
