(* ===== verification/Round_Units.thy ===== *)
theory Round_Units
  imports Round_Recovery Submission_Planning
begin

text \<open>
  The snapshot of one round that planning works on (\<open>zcash_voting/src/round_planning/snapshot.rs\<close>)
  with the questions it answers, and the grouping of its votes into the units the chain dispatches
  (\<open>zcash_voting/src/round_planning/vote_units.rs\<close>). The maps of the snapshot are lists in key order.
\<close>

section \<open>The snapshot\<close>

record BundleSnapshot =
  capability_imported :: bool
  bundle_delegation_tx_hash :: "rust_str option"

record VoteSnapshot =
  vote_choice :: u32
  vote_phase :: VotePhase
  vote_row_tx_hash :: "rust_str option"
  vote_vc_tree_position :: "int option"
  vote_recovery :: "VoteRecoveryBundle option"

record RoundSnapshot =
  snapshot_round_id :: rust_str
  snapshot_delegations :: "DelegationSubmissionStatus list"
  snapshot_bundles :: "(u32, BundleSnapshot) btree_map"
  snapshot_votes :: "(u32 \<times> u32, VoteSnapshot) btree_map"
  snapshot_shares :: "ShareDelegationRecord list"
  snapshot_share_phases :: "(u32 \<times> u32 \<times> u32 \<times> SharePhase) list"
  snapshot_intents :: "(u32, Decision) btree_map"
  snapshot_lifecycle_hashes :: LifecycleTransactionHashes
  snapshot_persisted_immediate_share :: "ImmediateShareKey option"
  snapshot_rejection_blocked_bundles :: "(u32, ChainSubmissionDiagnostic) btree_map"

abbreviation or_else :: "'a option \<Rightarrow> 'a option \<Rightarrow> 'a option" where
  "or_else a b \<equiv> (case a of Some x \<Rightarrow> Some x | None \<Rightarrow> b)"

definition snapshot_delegation_tx_hash :: "planning_env \<Rightarrow> RoundSnapshot \<Rightarrow> u32 \<Rightarrow> rust_str option" where
  "snapshot_delegation_tx_hash env snapshot b =
     or_else (lifecycle_hash (plan_codecs env) (snapshot_lifecycle_hashes snapshot) b PlanningDelegation)
       (Option.bind (btree_get (snapshot_bundles snapshot) b) bundle_delegation_tx_hash)"

definition snapshot_vote_tx_hash :: "planning_env \<Rightarrow> RoundSnapshot \<Rightarrow> u32 \<Rightarrow> u32 \<Rightarrow> rust_str option" where
  "snapshot_vote_tx_hash env snapshot b p =
     or_else (lifecycle_hash (plan_codecs env) (snapshot_lifecycle_hashes snapshot) b (PlanningVote p))
       (Option.bind (btree_get (snapshot_votes snapshot) (b, p)) vote_row_tx_hash)"

definition snapshot_vote_batch_tx_hash ::
  "planning_env \<Rightarrow> RoundSnapshot \<Rightarrow> u32 \<Rightarrow> bytes \<Rightarrow> u32 \<Rightarrow> rust_str option" where
  "snapshot_vote_batch_tx_hash env snapshot b digest anchor =
     or_else (lifecycle_hash (plan_codecs env) (snapshot_lifecycle_hashes snapshot) b (PlanningVoteBatch digest))
       (snapshot_vote_tx_hash env snapshot b anchor)"

text \<open>The position column is a signed 64-bit integer, printed in decimal with its sign.\<close>

definition show_int :: "int \<Rightarrow> rust_str" where
  "show_int i = (if i < 0 then lit ''-'' @ decimal (nat (- i)) else decimal (nat i))"

definition confirmed_tree_position :: "RoundSnapshot \<Rightarrow> u32 \<Rightarrow> u32 \<Rightarrow> VotingError + u64 option" where
  "confirmed_tree_position snapshot b p =
     (case btree_get (snapshot_votes snapshot) (b, p) of
        None \<Rightarrow> Inl (VotingInternal (lit ''failed to get commitment bundle: vote not found for round='' @
            snapshot_round_id snapshot @ lit '', bundle='' @ decimal (unat b) @ lit '', proposal='' @ decimal (unat p)))
      | Some vote \<Rightarrow>
          (case (vote_recovery vote, vote_vc_tree_position vote) of
             (Some _, Some position) \<Rightarrow>
               if position < 0
               then Inl (VotingInternal (lit ''stored vc_tree_position must be non-negative, got '' @ show_int position))
               else Inr (Some (word_of_int position))
           | (Some _, None) \<Rightarrow> Inl (VotingInternal
               (lit ''commitment bundle is stored without vc_tree_position; refusing to assume position 0''))
           | (None, _) \<Rightarrow> Inr None))"

definition bundle_recoveries :: "RoundSnapshot \<Rightarrow> u32 \<Rightarrow> VoteRecoveryBundle list" where
  "bundle_recoveries snapshot b =
     List.map_filter (\<lambda>((bundle_ix, _), vote). if bundle_ix = b then vote_recovery vote else None) (snapshot_votes snapshot)"

section \<open>Vote units\<close>

datatype VoteUnitId =
    Singleton u32 u32
  | Batch u32 bytes

record VoteMember =
  member_proposal_id :: u32
  member_recovery :: "VoteRecoveryBundle option"

record VoteUnit =
  unit_id :: VoteUnitId
  unit_bundle_index :: u32
  unit_members :: "VoteMember list"
  unit_phase :: VotePhase

fun unit_id_bundle :: "VoteUnitId \<Rightarrow> u32" where
  "unit_id_bundle (Singleton b p) = b"
| "unit_id_bundle (Batch b digest) = b"

definition anchor_proposal_id :: "VoteUnit \<Rightarrow> u32" where
  "anchor_proposal_id u = member_proposal_id (unit_members u ! 0)"

definition unit_proposal_ids :: "VoteUnit \<Rightarrow> u32 list" where
  "unit_proposal_ids u = map member_proposal_id (unit_members u)"

fun unit_ordered_batch_digest :: "VoteUnitId \<Rightarrow> bytes option" where
  "unit_ordered_batch_digest (Singleton b p) = None"
| "unit_ordered_batch_digest (Batch b digest) = Some digest"

definition unit_contains :: "VoteUnit \<Rightarrow> u32 \<Rightarrow> bool" where
  "unit_contains u p = list_ex (\<lambda>member. member_proposal_id member = p) (unit_members u)"

definition singleton_unit :: "u32 \<Rightarrow> u32 \<Rightarrow> VoteSnapshot \<Rightarrow> VoteUnit" where
  "singleton_unit b p vote =
     \<lparr>unit_id = Singleton b p, unit_bundle_index = b,
      unit_members = [\<lparr>member_proposal_id = p, member_recovery = vote_recovery vote\<rparr>],
      unit_phase = vote_phase vote\<rparr>"

text \<open>The batch a vote is grouped by: none unless the chain may still act on the vote.\<close>

definition vote_batch :: "VoteSnapshot \<Rightarrow> VoteBatchRecovery option" where
  "vote_batch vote =
     (if vote_phase vote \<in> {VoteCommitted, VoteSubmitted, VoteSubmissionManaged}
      then Option.bind (vote_recovery vote) recovery_batch else None)"

definition where_text :: "rust_str \<Rightarrow> u32 \<Rightarrow> rust_str" where
  "where_text round_id b = lit '' for round='' @ round_id @ lit '', bundle='' @ decimal (unat b)"

definition batch_member_step ::
  "planning_env \<Rightarrow> RoundSnapshot \<Rightarrow> u32 \<Rightarrow> VotePhase \<Rightarrow> VoteRecoveryBundle \<Rightarrow>
   rust_str option \<times> VoteMember list \<Rightarrow> VotingError + rust_str option \<times> VoteMember list" where
  "batch_member_step env snapshot b phase recovery = (\<lambda>(shared_tx_hash, members).
     let p = recovery_proposal_id recovery; round_id = snapshot_round_id snapshot in
     and_then (ok_or (VotingInvalidInput (lit ''persisted atomic vote batch is missing proposal '' @
         decimal (unat p) @ where_text round_id b)) (btree_get (snapshot_votes snapshot) (b, p))) (\<lambda>member.
     if vote_phase member \<noteq> phase
     then Inl (VotingInvalidInput (lit ''persisted atomic vote batch has mixed phases'' @ where_text round_id b @
            lit '': proposal '' @ decimal (unat p) @ lit '' is '' @ vote_phase_as_str (vote_phase member) @
            lit '', expected '' @ vote_phase_as_str phase))
     else if vote_choice member \<noteq> recovery_vote_decision recovery \<or>
       (case btree_get (snapshot_intents snapshot) p of
          None \<Rightarrow> False | Some intent \<Rightarrow> intent \<noteq> Choice (recovery_vote_decision recovery))
     then Inl (VotingInvalidInput (lit ''persisted atomic vote batch conflicts with ballot intent'' @
            where_text round_id b @ lit '', proposal='' @ decimal (unat p)))
     else
     let joined = \<lparr>member_proposal_id = p, member_recovery = vote_recovery member\<rparr> in
     if phase = VoteSubmitted
     then (case snapshot_vote_tx_hash env snapshot b p of
         None \<Rightarrow> Inr (shared_tx_hash, members @ [joined])
       | Some tx_hash \<Rightarrow>
           if (case shared_tx_hash of None \<Rightarrow> False | Some expected \<Rightarrow> expected \<noteq> tx_hash)
           then Inl (VotingInvalidInput (lit ''submitted atomic vote batch has conflicting transaction hashes'' @
                  where_text round_id b))
           else Inr (Some tx_hash, members @ [joined]))
     else Inr (shared_tx_hash, members @ [joined])))"

definition group_member_step ::
  "RoundSnapshot \<Rightarrow> u32 \<Rightarrow> VoteMember \<Rightarrow> (u32 \<times> u32) set \<Rightarrow> VotingError + (u32 \<times> u32) set" where
  "group_member_step snapshot b member grouped =
     (if (b, member_proposal_id member) \<in> grouped
      then Inl (VotingInvalidInput (lit ''vote belongs to more than one atomic batch'' @
             where_text (snapshot_round_id snapshot) b @ lit '', proposal='' @ decimal (unat (member_proposal_id member))))
      else Inr (insert (b, member_proposal_id member) grouped))"

text \<open>
  The map \<open>grouped\<close> of the source is only asked for its keys. The loop body returns the new unit, if
  any.
\<close>

definition group_vote_step ::
  "planning_env \<Rightarrow> RoundSnapshot \<Rightarrow> (u32 \<times> u32) \<times> VoteSnapshot \<Rightarrow>
   VoteUnit list \<times> (u32 \<times> u32) set \<Rightarrow> VotingError + VoteUnit list \<times> (u32 \<times> u32) set" where
  "group_vote_step env snapshot = (\<lambda>((b, p), vote) (units, grouped).
     if (b, p) \<in> grouped then Inr (units, grouped)
     else case vote_batch vote of
         None \<Rightarrow> Inr (units @ [singleton_unit b p vote], grouped)
       | Some batch \<Rightarrow>
           and_then (assemble_vote_batch_recoveries env (snapshot_round_id snapshot) b (batch_digest batch)
               (bundle_recoveries snapshot b)) (\<lambda>recoveries.
           if recoveries = []
           then Inl (VotingInvalidInput (lit ''persisted atomic vote batch is empty'' @
                  where_text (snapshot_round_id snapshot) b))
           else
           and_then (try_fold (batch_member_step env snapshot b (vote_phase vote)) recoveries (None, []))
             (\<lambda>(_, members).
           and_then (try_fold (group_member_step snapshot b) members grouped) (\<lambda>grouped'.
             Inr (units @ [\<lparr>unit_id = Batch b (batch_digest batch), unit_bundle_index = b,
                            unit_members = members, unit_phase = vote_phase vote\<rparr>], grouped')))))"

definition group_vote_units :: "planning_env \<Rightarrow> RoundSnapshot \<Rightarrow> VotingError + VoteUnit list" where
  "group_vote_units env snapshot =
     and_then (try_fold (group_vote_step env snapshot) (snapshot_votes snapshot) ([], {})) (\<lambda>(units, _).
       Inr units)"

section \<open>What units are\<close>

text \<open>A snapshot whose maps are ordered and whose recovery bundles belong to their own rows.\<close>

definition snapshot_wf :: "RoundSnapshot \<Rightarrow> bool" where
  "snapshot_wf snapshot \<longleftrightarrow> btree_wf (snapshot_votes snapshot) \<and> btree_wf (snapshot_intents snapshot)"

definition own_recoveries :: "RoundSnapshot \<Rightarrow> bool" where
  "own_recoveries snapshot \<longleftrightarrow>
     (\<forall>((b, p), vote) \<in> set (snapshot_votes snapshot).
        case vote_recovery vote of None \<Rightarrow> True | Some r \<Rightarrow> recovery_proposal_id r = p)"

definition unit_roster :: "planning_env \<Rightarrow> RoundSnapshot \<Rightarrow> VoteUnitId \<Rightarrow> u32 list" where
  "unit_roster env snapshot i = (case i of
      Singleton b p \<Rightarrow> [p]
    | Batch b digest \<Rightarrow>
        (case assemble_vote_batch_recoveries env (snapshot_round_id snapshot) b digest (bundle_recoveries snapshot b) of
           Inr recoveries \<Rightarrow> map recovery_proposal_id recoveries
         | Inl _ \<Rightarrow> []))"

definition unit_ok :: "planning_env \<Rightarrow> RoundSnapshot \<Rightarrow> VoteUnit \<Rightarrow> bool" where
  "unit_ok env snapshot u \<longleftrightarrow>
     unit_members u \<noteq> [] \<and> unit_id_bundle (unit_id u) = unit_bundle_index u \<and>
     unit_proposal_ids u = unit_roster env snapshot (unit_id u) \<and>
     (\<forall>p \<in> set (unit_proposal_ids u). \<exists>vote.
        btree_get (snapshot_votes snapshot) (unit_bundle_index u, p) = Some vote \<and> vote_phase vote = unit_phase u)"

lemma unit_contains_iff: "unit_contains u p \<longleftrightarrow> p \<in> set (unit_proposal_ids u)"
  by (auto simp: unit_contains_def unit_proposal_ids_def list_ex_iff)

lemma batch_member_step_Inr:
  assumes "batch_member_step env snapshot b phase r (h, members) = Inr (h', members')"
  obtains vote where "btree_get (snapshot_votes snapshot) (b, recovery_proposal_id r) = Some vote"
    "vote_phase vote = phase"
    "members' = members @ [\<lparr>member_proposal_id = recovery_proposal_id r, member_recovery = vote_recovery vote\<rparr>]"
  using assms
  by (auto simp: batch_member_step_def Let_def result_simps split: if_splits option.splits)

lemma batch_members_Inr:
  assumes "try_fold (batch_member_step env snapshot b phase) recoveries (h, members) = Inr (h', members')"
  shows "map member_proposal_id members' = map member_proposal_id members @ map recovery_proposal_id recoveries"
    and "\<forall>r\<in>set recoveries. \<exists>vote.
      btree_get (snapshot_votes snapshot) (b, recovery_proposal_id r) = Some vote \<and> vote_phase vote = phase"
proof -
  have "map member_proposal_id members' = map member_proposal_id members @ map recovery_proposal_id recoveries \<and>
    (\<forall>r\<in>set recoveries. \<exists>vote.
      btree_get (snapshot_votes snapshot) (b, recovery_proposal_id r) = Some vote \<and> vote_phase vote = phase)"
    using assms
  proof (induction recoveries arbitrary: h members)
    case (Cons r recoveries)
    then obtain h1 members1 where step: "batch_member_step env snapshot b phase r (h, members) = Inr (h1, members1)"
      and rest: "try_fold (batch_member_step env snapshot b phase) recoveries (h1, members1) = Inr (h', members')"
      by (auto simp: and_then_eq_Inr)
    from step show ?case
      by (rule batch_member_step_Inr) (use Cons.IH [OF rest] in auto)
  qed simp
  then show "map member_proposal_id members' = map member_proposal_id members @ map recovery_proposal_id recoveries"
    and "\<forall>r\<in>set recoveries. \<exists>vote.
      btree_get (snapshot_votes snapshot) (b, recovery_proposal_id r) = Some vote \<and> vote_phase vote = phase"
    by blast+
qed

lemma group_members_Inr:
  "try_fold (group_member_step snapshot b) members grouped = Inr grouped' \<Longrightarrow>
   grouped' = grouped \<union> (\<lambda>m. (b, member_proposal_id m)) ` set members"
  by (induction members arbitrary: grouped) (auto simp: and_then_eq_Inr group_member_step_def split: if_splits)

lemma own_recovery_grouped:
  assumes "assemble_vote_batch_recoveries env (snapshot_round_id snapshot) b (batch_digest batch)
      (bundle_recoveries snapshot b) = Inr recoveries"
    and "((b, p), vote) \<in> set (snapshot_votes snapshot)" "vote_recovery vote = Some r" "recovery_batch r = Some batch"
  shows "r \<in> set recoveries"
proof -
  have "r \<in> set (bundle_recoveries snapshot b)"
    using assms(2,3) by (force simp: bundle_recoveries_def List.map_filter_def)
  then show ?thesis
    using assemble_vote_batch_recoveries_Inr(1) [OF assms(1)] assms(4) by (simp add: in_batch_def)
qed

text \<open>One vote of the loop: the units stay well-formed, and the vote is covered.\<close>

definition covered :: "VoteUnit list \<Rightarrow> u32 \<times> u32 \<Rightarrow> bool" where
  "covered units = (\<lambda>(b, p). \<exists>u\<in>set units. unit_bundle_index u = b \<and> unit_contains u p)"

lemma covered_append [simp]:
  "covered (units @ [u]) (b, p) \<longleftrightarrow> covered units (b, p) \<or> (unit_bundle_index u = b \<and> p \<in> set (unit_proposal_ids u))"
  by (auto simp: covered_def unit_contains_iff)

lemma singleton_unit_ok:
  "btree_get (snapshot_votes snapshot) (b, p) = Some vote \<Longrightarrow> unit_ok env snapshot (singleton_unit b p vote)"
  by (simp add: unit_ok_def singleton_unit_def unit_proposal_ids_def unit_roster_def)

lemma group_batch_Inr:
  assumes "group_vote_step env snapshot ((b, p), vote) (units, grouped) = Inr (units', grouped')"
    and "(b, p) \<notin> grouped" "vote_batch vote = Some batch"
  obtains u recoveries where
    "assemble_vote_batch_recoveries env (snapshot_round_id snapshot) b (batch_digest batch)
      (bundle_recoveries snapshot b) = Inr recoveries"
    "units' = units @ [u]" "unit_ok env snapshot u" "unit_bundle_index u = b"
    "unit_proposal_ids u = map recovery_proposal_id recoveries"
    "grouped' = grouped \<union> (\<lambda>q. (b, q)) ` set (unit_proposal_ids u)"
proof -
  obtain recoveries h members where
    recoveries: "assemble_vote_batch_recoveries env (snapshot_round_id snapshot) b (batch_digest batch)
      (bundle_recoveries snapshot b) = Inr recoveries" "recoveries \<noteq> []"
    and members: "try_fold (batch_member_step env snapshot b (vote_phase vote)) recoveries (None, []) = Inr (h, members)"
    and grouped': "try_fold (group_member_step snapshot b) members grouped = Inr grouped'"
    and units': "units' = units @ [\<lparr>unit_id = Batch b (batch_digest batch), unit_bundle_index = b,
                          unit_members = members, unit_phase = vote_phase vote\<rparr>]" (is "_ = _ @ [?u]")
    using assms unfolding group_vote_step_def by (simp add: result_simps split: if_splits prod.splits) blast
  note props = batch_members_Inr [OF members]
  have ids: "unit_proposal_ids ?u = map recovery_proposal_id recoveries"
    using props(1) by (simp add: unit_proposal_ids_def)
  have "unit_members ?u \<noteq> []"
    using ids recoveries(2) by (auto simp: unit_proposal_ids_def)
  then have ok: "unit_ok env snapshot ?u"
    using props(2) recoveries(1) unfolding unit_ok_def ids by (simp add: unit_roster_def)
  have "grouped' = grouped \<union> (\<lambda>q. (b, q)) ` set (unit_proposal_ids ?u)"
    using group_members_Inr [OF grouped'] by (simp add: unit_proposal_ids_def image_image)
  then show thesis
    by (rule that [OF recoveries(1) units' ok _ ids, rotated]) simp
qed

lemma group_vote_step_Inr:
  assumes "group_vote_step env snapshot ((b, p), vote) (units, grouped) = Inr (units', grouped')"
    and entry: "((b, p), vote) \<in> set (snapshot_votes snapshot)" and "btree_wf (snapshot_votes snapshot)"
    and ok: "\<forall>u\<in>set units. unit_ok env snapshot u" "\<forall>k\<in>grouped. covered units k"
  shows "(\<forall>u\<in>set units'. unit_ok env snapshot u) \<and> (\<forall>k\<in>grouped'. covered units' k) \<and>
    set units \<subseteq> set units' \<and> (own_recoveries snapshot \<longrightarrow> covered units' (b, p))"
proof -
  have get: "btree_get (snapshot_votes snapshot) (b, p) = Some vote"
    using btree_get_in [OF assms(3)] entry by simp
  consider (grouped) "(b, p) \<in> grouped" | (single) "(b, p) \<notin> grouped" "vote_batch vote = None"
    | (batch) batch where "(b, p) \<notin> grouped" "vote_batch vote = Some batch"
    by (cases "vote_batch vote") auto
  then show ?thesis
  proof cases
    case grouped
    then show ?thesis
      using assms(1) ok by (simp add: group_vote_step_def)
  next
    case single
    then have "units' = units @ [singleton_unit b p vote]" "grouped' = grouped"
      using assms(1) by (simp_all add: group_vote_step_def)
    then show ?thesis
      using ok singleton_unit_ok [OF get]
      by (auto simp: singleton_unit_def unit_proposal_ids_def)
  next
    case batch
    show ?thesis
      using assms(1) batch
    proof (rule group_batch_Inr)
      fix u recoveries
      assume u: "assemble_vote_batch_recoveries env (snapshot_round_id snapshot) b (batch_digest batch)
          (bundle_recoveries snapshot b) = Inr recoveries"
        "units' = units @ [u]" "unit_ok env snapshot u" "unit_bundle_index u = b"
        "unit_proposal_ids u = map recovery_proposal_id recoveries"
        "grouped' = grouped \<union> (\<lambda>q. (b, q)) ` set (unit_proposal_ids u)"
      obtain r where r: "vote_recovery vote = Some r" "recovery_batch r = Some batch"
        using batch(2) by (auto simp: vote_batch_def bind_eq_Some_conv split: if_splits)
      have "p \<in> set (unit_proposal_ids u)" if "own_recoveries snapshot"
        using own_recovery_grouped [OF u(1) entry r] that entry r u(5) by (force simp: own_recoveries_def)
      then show ?thesis
        using ok u by auto
    qed
  qed
qed

lemma group_vote_units_Inr:
  assumes "group_vote_units env snapshot = Inr units" "btree_wf (snapshot_votes snapshot)"
  shows "\<forall>u\<in>set units. unit_ok env snapshot u"
    and "own_recoveries snapshot \<Longrightarrow> k \<in> fst ` set (snapshot_votes snapshot) \<Longrightarrow> covered units k"
proof -
  obtain grouped where loop: "try_fold (group_vote_step env snapshot) (snapshot_votes snapshot) ([], {}) = Inr (units, grouped)"
    using assms(1) by (auto simp: group_vote_units_def and_then_eq_Inr)
  let ?I = "\<lambda>done (us, g). (\<forall>u\<in>set us. unit_ok env snapshot u) \<and> (\<forall>k\<in>g. covered us k) \<and>
    (own_recoveries snapshot \<longrightarrow> (\<forall>e\<in>set done. covered us (fst e)))"
  have "?I (snapshot_votes snapshot) (units, grouped)"
    using loop
  proof (rule try_fold_invariant)
    show "?I (before @ [x]) s''" if "x \<in> set (snapshot_votes snapshot)" "?I before s'"
      "group_vote_step env snapshot x s' = Inr s''" for before x s' s''
    proof -
      obtain b p vote us g us' g' where eqs: "x = ((b, p), vote)" "s' = (us, g)" "s'' = (us', g')"
        by (metis prod.exhaust)
      have "(\<forall>u\<in>set us'. unit_ok env snapshot u) \<and> (\<forall>k\<in>g'. covered us' k) \<and>
          set us \<subseteq> set us' \<and> (own_recoveries snapshot \<longrightarrow> covered us' (b, p))"
        using that unfolding eqs by (intro group_vote_step_Inr [OF _ _ assms(2)]) auto
      moreover have "covered us k \<Longrightarrow> set us \<subseteq> set us' \<Longrightarrow> covered us' k" for k
        by (auto simp: covered_def)
      ultimately show ?thesis
        using that(2) unfolding eqs by auto
    qed
  qed simp
  then show "\<forall>u\<in>set units. unit_ok env snapshot u"
    and "own_recoveries snapshot \<Longrightarrow> k \<in> fst ` set (snapshot_votes snapshot) \<Longrightarrow> covered units k"
    by auto
qed

end
