(* ===== verification/Round_Classify.thy ===== *)
theory Round_Classify
  imports Round_Units
begin

text \<open>
  The rule table of round planning (\<open>zcash_voting/src/round_planning/classify.rs\<close>): from a snapshot,
  its vote units and the ballot to the obligations the round still owes. The mutable variables of
  the source's loops are the fields of \<open>classify_state\<close>; its closures \<open>reconcile\<close> and \<open>deliver\<close> are
  operations on that state.
\<close>

section \<open>Obligations\<close>

record CastDraft =
  draft_proposal_id :: u32
  draft_choice :: u32

datatype BlockedReason =
    OpenBallot "u32 list"
  | UnrosteredIntents "u32 list"

datatype Obligation =
    Delegate u32
  | AdvanceDelegation u32 bool DelegationPhase "rust_str option"
  | Retire VoteUnitId "u32 list"
  | Cast u32 "CastDraft list" "u32 option" bool
  | Blocked u32 BlockedReason
  | ReconcileChain VoteUnitId u32 "u32 list" bool "rust_str option" "u32 option"
  | Deliver u32 u32 u64 "u32 list" "u32 option"
  | Confirm u32 u32 u32 bool bool "u32 option"

fun obligation_bundle_index :: "Obligation \<Rightarrow> u32" where
  "obligation_bundle_index (Delegate b) = b"
| "obligation_bundle_index (AdvanceDelegation b imported phase tx_hash) = b"
| "obligation_bundle_index (Cast b drafts prerequisite signs_delegation) = b"
| "obligation_bundle_index (Blocked b reason) = b"
| "obligation_bundle_index (ReconcileChain u b ordered undispatched tx_hash prerequisite) = b"
| "obligation_bundle_index (Deliver b p position share_indexes prerequisite) = b"
| "obligation_bundle_index (Confirm b p share_index accepted outcome_unknown prerequisite) = b"
| "obligation_bundle_index (Retire u members) = unit_id_bundle u"

record RoundObligations =
  round_obligations :: "Obligation list"
  round_choice_proposals :: "u32 list"
  round_open_proposals :: "u32 list"
  round_unrostered_intents :: "u32 list"
  round_stale_vote_keys :: "(u32 \<times> u32) set"
  round_needs_bundle_setup :: bool
  round_withheld_casts :: "u32 set"
  round_lifecycle_owned_choices :: "u32 set"

section \<open>Facts read off the snapshot\<close>

definition delegation_phases_map :: "RoundSnapshot \<Rightarrow> (u32, DelegationPhase) btree_map" where
  "delegation_phases_map snapshot =
     btree_collect (map (\<lambda>status. (status_bundle_index status, status_phase status)) (snapshot_delegations snapshot))"

definition proposal_lifecycle_owned :: "RoundSnapshot \<Rightarrow> u32 \<Rightarrow> bool" where
  "proposal_lifecycle_owned snapshot p =
     list_ex (\<lambda>((_, vote_proposal), vote). vote_proposal = p \<and> vote_phase_is_lifecycle_owned (vote_phase vote))
       (snapshot_votes snapshot)"

definition clearable_intents :: "RoundSnapshot \<Rightarrow> u32 list \<Rightarrow> u32 list" where
  "clearable_intents snapshot unrostered = filter (\<lambda>p. \<not> proposal_lifecycle_owned snapshot p) unrostered"

definition owned_choices :: "RoundSnapshot \<Rightarrow> u32 list \<Rightarrow> u32 set" where
  "owned_choices snapshot unrostered =
     set (filter (\<lambda>p. proposal_lifecycle_owned snapshot p \<and> is_choice (btree_get (snapshot_intents snapshot) p)) unrostered)"

definition stale_keys :: "RoundSnapshot \<Rightarrow> (u32 \<times> u32) set" where
  "stale_keys snapshot =
     set (map fst (filter (\<lambda>((_, p), vote). ballot_relation (snapshot_intents snapshot) p (vote_choice vote) = Conflicts)
       (snapshot_votes snapshot)))"

definition retired_unit :: "u32 set \<Rightarrow> VoteUnit \<Rightarrow> bool" where
  "retired_unit roster u \<longleftrightarrow>
     lifecycle_position_of (Some (unit_phase u)) = Undispatched \<and>
     roster_relation (unit_proposal_ids u) roster = LeftRoster"

definition retirements :: "u32 set \<Rightarrow> VoteUnit list \<Rightarrow> Obligation list" where
  "retirements roster units =
     map (\<lambda>u. Retire (unit_id u) (unit_proposal_ids u)) (filter (retired_unit roster) units)"

definition retirable_keys :: "u32 set \<Rightarrow> VoteUnit list \<Rightarrow> (u32 \<times> u32) set" where
  "retirable_keys roster units =
     set (concat (map (\<lambda>u. map (\<lambda>p. (unit_bundle_index u, p)) (unit_proposal_ids u))
       (filter (retired_unit roster) units)))"

definition held_bundles :: "RoundSnapshot \<Rightarrow> (u32 \<times> u32) set \<Rightarrow> (u32 \<times> u32) set \<Rightarrow> u32 set" where
  "held_bundles snapshot stale retirable =
     set (map (\<lambda>((b, _), _). b) (filter (\<lambda>(key, vote). key \<notin> stale \<and> key \<notin> retirable \<and>
       vote_phase_holds_bundle (vote_phase vote)) (snapshot_votes snapshot))) \<union>
     set (map fst (filter (\<lambda>(_, phase). delegation_phase_holds_bundle phase) (delegation_phases_map snapshot))) \<union>
     set (btree_keys (snapshot_rejection_blocked_bundles snapshot))"

definition conflicting_submission :: "RoundSnapshot \<Rightarrow> u32 \<times> u32 \<Rightarrow> unit \<Rightarrow> VotingError + unit" where
  "conflicting_submission snapshot = (\<lambda>(b, p) _.
     if (case btree_get (snapshot_votes snapshot) (b, p) of
           None \<Rightarrow> False | Some vote \<Rightarrow> vote_phase_is_lifecycle_owned (vote_phase vote))
     then Inl (VotingInvalidInput (lit ''round '' @ snapshot_round_id snapshot @ lit '' bundle '' @ decimal (unat b) @
            lit '' proposal '' @ decimal (unat p) @ lit '' has a submitted vote that conflicts with ballot intent''))
     else Inr ())"

definition unit_of :: "VoteUnit list \<Rightarrow> u32 \<Rightarrow> u32 \<Rightarrow> VotingError + VoteUnit" where
  "unit_of units b p =
     ok_or (VotingPanicked (lit ''every vote row is in exactly one unit''))
       (find (\<lambda>u. unit_bundle_index u = b \<and> unit_contains u p) units)"

definition missing_share_indexes :: "planning_env \<Rightarrow> RoundSnapshot \<Rightarrow> u32 \<Rightarrow> u32 \<Rightarrow> VotingError + u32 list" where
  "missing_share_indexes env snapshot b p =
     (let vote_text = lit ''confirmed vote for round '' @ snapshot_round_id snapshot @ lit '' bundle '' @
            decimal (unat b) @ lit '' proposal '' @ decimal (unat p)
      in
      and_then (ok_or (VotingInvalidInput (vote_text @ lit '' is missing recovery material for helper-share submission''))
          (Option.bind (btree_get (snapshot_votes snapshot) (b, p)) vote_recovery)) (\<lambda>recovery.
      and_then (recover_payloads env recovery) (\<lambda>payloads.
      let expected = set (map (\<lambda>payload. wire_share_index (payload_enc_share payload)) payloads) in
      if expected = {}
      then Inl (VotingInvalidInput (vote_text @ lit '' has no recoverable helper shares''))
      else
      let recorded = set (map (\<lambda>(_, _, share_index, _). share_index)
            (filter (\<lambda>(bundle_ix, proposal, _, _). bundle_ix = b \<and> proposal = p) (snapshot_share_phases snapshot)))
      in Inr (sorted_list_of_set (expected - recorded)))))"

section \<open>The loops\<close>

record classify_state =
  cs_obligations :: "Obligation list"
  cs_reconciled :: "VoteUnitId set"
  cs_delivered :: "(u32 \<times> u32) set"
  cs_needing_delegation :: "u32 set"
  cs_drafts :: "(u32, CastDraft list) btree_map"
  cs_blocked :: "u32 set"
  cs_withheld :: "u32 set"

definition reconcile_unit ::
  "planning_env \<Rightarrow> RoundSnapshot \<Rightarrow> VoteUnit \<Rightarrow> classify_state \<Rightarrow> VotingError + classify_state" where
  "reconcile_unit env snapshot u s =
     and_then (case find (\<lambda>member. member_recovery member = None) (unit_members u) of
         Some member \<Rightarrow>
           if unit_phase u = VoteSubmitted
           then Inl (VotingInvalidInput (lit ''round '' @ snapshot_round_id snapshot @ lit '' bundle '' @
                  decimal (unat (unit_bundle_index u)) @ lit '' proposal '' @ decimal (unat (member_proposal_id member)) @
                  lit '' has a submitted vote without recovery material''))
           else Inr ()
       | None \<Rightarrow> Inr ()) (\<lambda>_.
     if unit_id u \<in> cs_reconciled s then Inr s
     else
     let tx_hash = (case unit_ordered_batch_digest (unit_id u) of
             Some digest \<Rightarrow> snapshot_vote_batch_tx_hash env snapshot (unit_bundle_index u) digest (anchor_proposal_id u)
           | None \<Rightarrow> snapshot_vote_tx_hash env snapshot (unit_bundle_index u) (anchor_proposal_id u))
     in Inr (s\<lparr>cs_reconciled := insert (unit_id u) (cs_reconciled s),
              cs_obligations := cs_obligations s @ [ReconcileChain (unit_id u) (unit_bundle_index u)
                (unit_proposal_ids u) (lifecycle_position_of (Some (unit_phase u)) = Undispatched) tx_hash None]\<rparr>))"

definition deliver_vote ::
  "planning_env \<Rightarrow> RoundSnapshot \<Rightarrow> u32 \<Rightarrow> u32 \<Rightarrow> classify_state \<Rightarrow> VotingError + classify_state" where
  "deliver_vote env snapshot b p s =
     (if (b, p) \<in> cs_delivered s then Inr s
      else
      let s' = s\<lparr>cs_delivered := insert (b, p) (cs_delivered s)\<rparr> in
      and_then (missing_share_indexes env snapshot b p) (\<lambda>share_indexes.
      if share_indexes = [] then Inr s'
      else
      and_then (confirmed_tree_position snapshot b p) (\<lambda>stored.
      and_then (ok_or (VotingInternal (lit ''submit shares step missing vc_tree_position'' @
          where_text (snapshot_round_id snapshot) b @ lit '', proposal='' @ decimal (unat p))) stored) (\<lambda>position.
        Inr (s'\<lparr>cs_obligations := cs_obligations s' @ [Deliver b p position share_indexes None]\<rparr>)))))"

definition every_member_agrees :: "RoundSnapshot \<Rightarrow> u32 set \<Rightarrow> u32 \<Rightarrow> VoteUnit \<Rightarrow> bool" where
  "every_member_agrees snapshot roster b u =
     list_all (\<lambda>p. p \<in> roster \<and>
       (case btree_get (snapshot_votes snapshot) (b, p) of
          None \<Rightarrow> False
        | Some vote \<Rightarrow> ballot_relation (snapshot_intents snapshot) p (vote_choice vote) = Agrees))
       (unit_proposal_ids u)"

text \<open>What stays fixed during the loops.\<close>

record classify_context =
  cc_snapshot :: RoundSnapshot
  cc_units :: "VoteUnit list"
  cc_roster :: "u32 set"
  cc_stale :: "(u32 \<times> u32) set"
  cc_retirable :: "(u32 \<times> u32) set"
  cc_held :: "u32 set"
  cc_terminal :: bool

definition cast_due :: "classify_context \<Rightarrow> u32 \<Rightarrow> u32 \<Rightarrow> u32 \<Rightarrow> bool" where
  "cast_due cc p choice b =
     (case btree_get (snapshot_votes (cc_snapshot cc)) (b, p) of
        None \<Rightarrow> True
      | Some vote \<Rightarrow>
          (b, p) \<in> cc_stale cc \<or> vote_choice vote \<noteq> choice \<or> (b, p) \<in> cc_retirable cc \<or>
          lifecycle_position_of (Some (vote_phase vote)) = Uncast)"

definition push_draft :: "u32 \<Rightarrow> CastDraft \<Rightarrow> (u32, CastDraft list) btree_map \<Rightarrow> (u32, CastDraft list) btree_map" where
  "push_draft b draft drafts =
     btree_insert b ((case btree_get drafts b of None \<Rightarrow> [] | Some ds \<Rightarrow> ds) @ [draft]) drafts"

definition plan_vote ::
  "planning_env \<Rightarrow> classify_context \<Rightarrow> u32 \<Rightarrow> u32 \<Rightarrow> u32 \<Rightarrow> classify_state \<Rightarrow> VotingError + classify_state" where
  "plan_vote env cc p choice b s =
     (let snapshot = cc_snapshot cc in
      if cast_due cc p choice b
      then
        if b \<in> cc_held cc then Inr (s\<lparr>cs_withheld := insert p (cs_withheld s)\<rparr>)
        else
          let s' = s\<lparr>cs_needing_delegation := insert b (cs_needing_delegation s)\<rparr> in
          if cc_terminal cc
          then Inr (s'\<lparr>cs_drafts := push_draft b \<lparr>draft_proposal_id = p, draft_choice = choice\<rparr> (cs_drafts s')\<rparr>)
          else Inr (s'\<lparr>cs_blocked := insert b (cs_blocked s'), cs_withheld := insert p (cs_withheld s')\<rparr>)
      else
        case btree_get (snapshot_votes snapshot) (b, p) of
          None \<Rightarrow> Inl (VotingPanicked (lit ''a due cast covers the missing row''))
        | Some vote \<Rightarrow>
            (case lifecycle_position_of (Some (vote_phase vote)) of
               PositionConfirmed \<Rightarrow> deliver_vote env snapshot b p s
             | Undispatched \<Rightarrow>
                 and_then (unit_of (cc_units cc) b p) (\<lambda>u.
                 if every_member_agrees snapshot (cc_roster cc) b u then reconcile_unit env snapshot u s
                 else Inr (s\<lparr>cs_withheld := insert p (cs_withheld s)\<rparr>))
             | OnWire \<Rightarrow> and_then (unit_of (cc_units cc) b p) (\<lambda>u. reconcile_unit env snapshot u s)
             | Terminal \<Rightarrow> Inr s
             | Uncast \<Rightarrow> Inr s))"

definition plan_proposal ::
  "planning_env \<Rightarrow> classify_context \<Rightarrow> u32 list \<Rightarrow> u32 \<Rightarrow> classify_state \<Rightarrow> VotingError + classify_state" where
  "plan_proposal env cc bundles p s =
     (case btree_get (snapshot_intents (cc_snapshot cc)) p of
        Some (Choice choice) \<Rightarrow> try_fold (plan_vote env cc p choice) bundles s
      | _ \<Rightarrow> Inr s)"

text \<open>The second pass: votes whose proposal has no recorded intent or left the roster.\<close>

definition plan_unrostered_vote ::
  "planning_env \<Rightarrow> classify_context \<Rightarrow> (u32 \<times> u32) \<times> VoteSnapshot \<Rightarrow> classify_state \<Rightarrow> VotingError + classify_state" where
  "plan_unrostered_vote env cc = (\<lambda>((b, p), vote) s.
     let snapshot = cc_snapshot cc in
     if btree_get (snapshot_intents snapshot) p \<noteq> None \<and> p \<in> cc_roster cc then Inr s
     else case lifecycle_position_of (Some (vote_phase vote)) of
         OnWire \<Rightarrow> and_then (unit_of (cc_units cc) b p) (\<lambda>u. reconcile_unit env snapshot u s)
       | PositionConfirmed \<Rightarrow> deliver_vote env snapshot b p s
       | Uncast \<Rightarrow> Inr s
       | Undispatched \<Rightarrow> Inr s
       | Terminal \<Rightarrow> Inr s)"

section \<open>Casts and delegations\<close>

definition ATOMIC_VOTE_BATCHES_ENABLED :: bool where
  "ATOMIC_VOTE_BATCHES_ENABLED = True"

definition cast_signs_delegation :: "RoundSnapshot \<Rightarrow> (u32, DelegationPhase) btree_map \<Rightarrow> u32 \<Rightarrow> bool" where
  "cast_signs_delegation snapshot delegation b =
     (let imported = (case btree_get (snapshot_bundles snapshot) b of None \<Rightarrow> False | Some bs \<Rightarrow> capability_imported bs)
      in \<not> imported \<and>
         (case btree_get delegation b of None \<Rightarrow> False | Some phase \<Rightarrow> phase \<noteq> DelegationConfirmed))"

definition cast_obligations ::
  "RoundSnapshot \<Rightarrow> (u32, DelegationPhase) btree_map \<Rightarrow> (u32, CastDraft list) btree_map \<Rightarrow> Obligation list" where
  "cast_obligations snapshot delegation drafts =
     concat (map (\<lambda>(b, ds).
       let signs_delegation = cast_signs_delegation snapshot delegation b in
       if ATOMIC_VOTE_BATCHES_ENABLED then [Cast b ds None signs_delegation]
       else map (\<lambda>d. Cast b [d] None signs_delegation) ds) drafts)"

definition blocked_obligations :: "u32 list \<Rightarrow> u32 list \<Rightarrow> u32 set \<Rightarrow> Obligation list" where
  "blocked_obligations open_proposals unrostered_intents blocked =
     map (\<lambda>b. Blocked b (if open_proposals \<noteq> [] then OpenBallot open_proposals else UnrosteredIntents unrostered_intents))
       (sorted_list_of_set blocked)"

definition combined_bundle :: "RoundSnapshot \<Rightarrow> u32 \<Rightarrow> bool" where
  "combined_bundle snapshot b =
     list_ex (\<lambda>((bundle_ix, _), vote). bundle_ix = b \<and>
       (case Option.bind (vote_recovery vote) recovery_batch of
          None \<Rightarrow> False | Some batch \<Rightarrow> batch_delegation_van batch \<noteq> None)) (snapshot_votes snapshot)"

definition delegation_step ::
  "planning_env \<Rightarrow> RoundSnapshot \<Rightarrow> u32 set \<Rightarrow> u32 \<times> DelegationPhase \<Rightarrow> Obligation list \<times> u32 set \<Rightarrow>
   VotingError + Obligation list \<times> u32 set" where
  "delegation_step env snapshot needing = (\<lambda>(b, phase) (obligations, delegation_bundles).
     if combined_bundle snapshot b then Inr (obligations, delegation_bundles)
     else if phase \<in> {DelegationSubmitted, DelegationSubmissionManaged}
     then and_then (ok_or (VotingInvalidInput (lit ''bundle not found for round '' @ snapshot_round_id snapshot @
              lit '' index '' @ decimal (unat b)))
            (map_option capability_imported (btree_get (snapshot_bundles snapshot) b))) (\<lambda>imported.
          Inr (obligations @ [AdvanceDelegation b imported phase (snapshot_delegation_tx_hash env snapshot b)],
               insert b delegation_bundles))
     else if phase \<in> {DelegationPrepared, DelegationPcztBuilt} \<and> b \<in> needing
     then Inr (obligations @ [Delegate b], insert b delegation_bundles)
     else Inr (obligations, delegation_bundles))"

section \<open>Shares and prerequisites\<close>

definition share_row :: "RoundSnapshot \<Rightarrow> u32 \<Rightarrow> u32 \<Rightarrow> u32 \<Rightarrow> ShareDelegationRecord option" where
  "share_row snapshot b p i =
     find (\<lambda>share. share_bundle_index share = b \<and> share_proposal_id share = p \<and> share_share_index share = i)
       (snapshot_shares snapshot)"

definition confirm_obligations :: "RoundSnapshot \<Rightarrow> (u32 \<times> u32) set \<Rightarrow> Obligation list" where
  "confirm_obligations snapshot stale =
     map (\<lambda>(b, p, i, _).
       let row = share_row snapshot b p i in
       Confirm b p i
         (case row of None \<Rightarrow> True | Some share \<Rightarrow> share_confirmed share \<or> share_sent_to_urls share \<noteq> [])
         (case row of None \<Rightarrow> False | Some share \<Rightarrow> share_ambiguous_urls share \<noteq> [] \<or> share_attempting_urls share \<noteq> [])
         None)
       (filter (\<lambda>(b, p, _, phase). (b, p) \<notin> stale \<and> phase = ShareSubmitted) (snapshot_share_phases snapshot))"

definition set_prerequisite :: "u32 set \<Rightarrow> Obligation \<Rightarrow> Obligation" where
  "set_prerequisite delegation_bundles obligation =
     (let b = obligation_bundle_index obligation;
          blocked_by = (if b \<in> delegation_bundles then Some b else None)
      in case obligation of
           Cast b drafts _ signs_delegation \<Rightarrow> Cast b drafts blocked_by signs_delegation
         | ReconcileChain u b ordered undispatched tx_hash _ \<Rightarrow>
             ReconcileChain u b ordered undispatched tx_hash blocked_by
         | Deliver b p position share_indexes _ \<Rightarrow> Deliver b p position share_indexes blocked_by
         | Confirm b p i accepted outcome_unknown _ \<Rightarrow> Confirm b p i accepted outcome_unknown blocked_by
         | _ \<Rightarrow> obligation)"

section \<open>Classification\<close>

definition classify_context_of :: "RoundSnapshot \<Rightarrow> VoteUnit list \<Rightarrow> BallotIntentClassification \<Rightarrow> classify_context" where
  "classify_context_of snapshot units ballot =
     (let roster = ballot_roster ballot;
          stale = stale_keys snapshot;
          retirable = retirable_keys roster units
      in \<lparr>cc_snapshot = snapshot, cc_units = units, cc_roster = roster, cc_stale = stale, cc_retirable = retirable,
          cc_held = held_bundles snapshot stale retirable,
          cc_terminal = (ballot_open_proposals ballot = [] \<and>
            clearable_intents snapshot (ballot_unrostered_intents ballot) = [])\<rparr>)"

definition classify ::
  "planning_env \<Rightarrow> RoundSnapshot \<Rightarrow> VoteUnit list \<Rightarrow> BallotIntentClassification \<Rightarrow> VotingError + RoundObligations" where
  "classify env snapshot units ballot =
     (let delegation = delegation_phases_map snapshot;
          bundles = btree_keys delegation;
          cc = classify_context_of snapshot units ballot;
          unrostered_intents = clearable_intents snapshot (ballot_unrostered_intents ballot);
          start = \<lparr>cs_obligations = retirements (cc_roster cc) units, cs_reconciled = {}, cs_delivered = {},
            cs_needing_delegation = {}, cs_drafts = [], cs_blocked = {}, cs_withheld = {}\<rparr>
      in
      and_then (try_fold (conflicting_submission snapshot) (sorted_list_of_set (cc_stale cc)) ()) (\<lambda>_.
      and_then (try_fold (plan_proposal env cc bundles) (ballot_choice_proposals ballot) start) (\<lambda>s1.
      and_then (try_fold (plan_unrostered_vote env cc) (snapshot_votes snapshot) s1) (\<lambda>s2.
      and_then (try_fold (delegation_step env snapshot (cs_needing_delegation s2)) delegation
          (cs_obligations s2 @ cast_obligations snapshot delegation (cs_drafts s2) @
             blocked_obligations (ballot_open_proposals ballot) unrostered_intents (cs_blocked s2), {}))
        (\<lambda>(obligations, delegation_bundles).
      Inr \<lparr>round_obligations = map (set_prerequisite delegation_bundles)
             (obligations @ confirm_obligations snapshot (cc_stale cc)),
           round_choice_proposals = ballot_choice_proposals ballot,
           round_open_proposals = ballot_open_proposals ballot,
           round_unrostered_intents = unrostered_intents,
           round_stale_vote_keys = cc_stale cc,
           round_needs_bundle_setup = False,
           round_withheld_casts = cs_withheld s2,
           round_lifecycle_owned_choices = owned_choices snapshot (ballot_unrostered_intents ballot)\<rparr>)))))"

definition classify_round :: "planning_env \<Rightarrow> RoundSnapshot \<Rightarrow> u32 list \<Rightarrow> VotingError + RoundObligations" where
  "classify_round env snapshot proposal_ids =
     and_then (classify_ballot_intents proposal_ids (snapshot_intents snapshot)) (\<lambda>ballot.
     if ballot_choice_proposals ballot \<noteq> [] \<and> snapshot_delegations snapshot = []
     then Inr \<lparr>round_obligations = [],
               round_choice_proposals = ballot_choice_proposals ballot,
               round_open_proposals = ballot_open_proposals ballot,
               round_unrostered_intents = ballot_unrostered_intents ballot,
               round_stale_vote_keys = {},
               round_needs_bundle_setup = True,
               round_withheld_casts = set (ballot_choice_proposals ballot),
               round_lifecycle_owned_choices = {}\<rparr>
     else
     and_then (group_vote_units env snapshot) (\<lambda>units. classify env snapshot units ballot))"

end
