(* ===== verification/Round_Projection.thy ===== *)
theory Round_Projection
  imports Round_Classify
begin

text \<open>
  The host-facing plan (\<open>zcash_voting/src/round_planning/projection.rs\<close> and the plan types of
  \<open>session.rs\<close>): the ordered steps, the step resolver and the derived flags. Indexing the empty list
  and the source's \<open>unreachable!\<close> are panics of the model.
\<close>

section \<open>Plan types\<close>

datatype NextStep =
    StepDelegate u32
  | StepAdvanceDelegation u32
  | StepAdvanceImportedDelegation u32
  | StepCastVote u32 u32 u32
  | StepAdvanceVote u32 u32
  | StepAdvanceVoteBatch u32 u32
  | StepSubmitShares u32 u32 u32
  | StepConfirmShare u32 u32 u32

datatype RoundPlanAction = ActionIdle | ActionDelegate | ActionVote | ActionSubmitShares | ActionDone

datatype DelegationRecoveryWorkKind = WorkDelegate | WorkAdvanceDelegation | WorkAdvanceImportedDelegation

record DelegationRecoveryWork =
  delegation_work_kind :: DelegationRecoveryWorkKind
  delegation_work_bundle_index :: u32
  delegation_work_phase :: DelegationPhase
  delegation_work_tx_hash :: "rust_str option"

record DelegationStatus =
  delegation_status_bundle_index :: u32
  delegation_status_phase :: DelegationPhase
  delegation_status_tx_hash :: "rust_str option"
  delegation_status_diagnostic :: "ChainSubmissionDiagnostic option"
  delegation_status_terminal :: bool

datatype VoteRecoveryWorkKind = WorkAdvanceVote | WorkAdvanceVoteBatch | WorkSubmitShares

record VoteRecoveryWork =
  vote_work_kind :: VoteRecoveryWorkKind
  vote_work_bundle_index :: u32
  vote_work_proposal_id :: u32
  vote_work_tx_hash :: "rust_str option"
  vote_work_vc_tree_position :: "u64 option"
  vote_work_share_indexes :: "u32 list"

record CompletedVoteChoice =
  completed_proposal_id :: u32
  completed_choice :: "u32 option"

record CompletedVoteDisplay =
  display_choices :: "CompletedVoteChoice list"
  display_voted_at :: "u64 option"

record PlanWorkSummary =
  summary_needs_delegation_signing :: bool
  summary_has_in_flight_delegation :: bool
  summary_delegation_bundles_needing_work :: "u32 list"
  summary_delegation_bundles_needing_signing :: "u32 list"
  summary_needs_vote_polling :: bool
  summary_has_remaining_vote_or_share_work :: bool
  summary_has_recoverable_vote_or_share_work :: bool

record RoundPlan =
  plan_round_id :: rust_str
  pending_recovery :: bool
  next_steps :: "NextStep list"
  plan_open_proposals :: "u32 list"
  plan_unrostered_intents :: "u32 list"
  immediate_share_key :: "ImmediateShareKey option"
  immediate_share_confirmed :: bool
  all_decided :: bool
  delegation_statuses :: "DelegationStatus list"
  blocking_recovery :: bool
  blocking_share_work :: bool
  has_unconfirmed_shares :: bool
  hotkey_bound :: bool
  completed_vote_artifact :: bool
  completed_for_display :: bool
  plan_completed_vote_display :: "CompletedVoteDisplay option"
  needs_draft_setup :: bool
  needs_bundle_setup :: bool
  primary_action :: RoundPlanAction
  needs_delegation_signing :: bool
  has_in_flight_delegation :: bool
  delegation_bundles_needing_work :: "u32 list"
  delegation_bundles_needing_signing :: "u32 list"
  needs_vote_polling :: bool
  has_remaining_vote_or_share_work :: bool
  has_recoverable_vote_or_share_work :: bool
  recovered_delegation_work :: "DelegationRecoveryWork list"
  recovered_vote_work :: "VoteRecoveryWork list"

section \<open>Steps of an obligation\<close>

definition first_proposal :: "u32 list \<Rightarrow> VotingError + u32" where
  "first_proposal ordered =
     (case ordered of [] \<Rightarrow> Inl (VotingPanicked (lit ''index out of bounds'')) | p # _ \<Rightarrow> Inr p)"

fun obligation_steps :: "Obligation \<Rightarrow> VotingError + NextStep list" where
  "obligation_steps (Delegate b) = Inr [StepDelegate b]"
| "obligation_steps (AdvanceDelegation b imported phase tx_hash) =
     Inr [if imported then StepAdvanceImportedDelegation b else StepAdvanceDelegation b]"
| "obligation_steps (Cast b drafts prerequisite signs_delegation) =
     Inr (map (\<lambda>d. StepCastVote b (draft_proposal_id d) (draft_choice d)) drafts)"
| "obligation_steps (ReconcileChain (Singleton _ p) b ordered undispatched tx_hash prerequisite) =
     Inr [StepAdvanceVote b p]"
| "obligation_steps (ReconcileChain (Batch _ _) b ordered undispatched tx_hash prerequisite) =
     and_then (first_proposal ordered) (\<lambda>p. Inr [StepAdvanceVoteBatch b p])"
| "obligation_steps (Deliver b p position share_indexes prerequisite) = Inr (map (StepSubmitShares b p) share_indexes)"
| "obligation_steps (Confirm b p i accepted outcome_unknown prerequisite) = Inr [StepConfirmShare b p i]"
| "obligation_steps (Retire u members) = Inr []"
| "obligation_steps (Blocked b reason) = Inr []"

definition steps_from_obligations :: "Obligation list \<Rightarrow> VotingError + NextStep list" where
  "steps_from_obligations obligations =
     try_fold (\<lambda>obligation steps. and_then (obligation_steps obligation) (\<lambda>new. Inr (steps @ new))) obligations []"

fun step_matches :: "Obligation \<Rightarrow> NextStep \<Rightarrow> VotingError + bool" where
  "step_matches (Delegate b) (StepDelegate b') = Inr (b = b')"
| "step_matches (AdvanceDelegation b False phase tx_hash) (StepAdvanceDelegation b') = Inr (b = b')"
| "step_matches (AdvanceDelegation b True phase tx_hash) (StepAdvanceImportedDelegation b') = Inr (b = b')"
| "step_matches (Cast b drafts prerequisite signs_delegation) (StepCastVote b' p choice) =
     Inr (b = b' \<and> list_ex (\<lambda>d. draft_proposal_id d = p \<and> draft_choice d = choice) drafts)"
| "step_matches (ReconcileChain (Singleton _ _) b ordered undispatched tx_hash prerequisite) (StepAdvanceVote b' p) =
     (if b = b' then and_then (first_proposal ordered) (\<lambda>first. Inr (first = p)) else Inr False)"
| "step_matches (ReconcileChain (Batch _ _) b ordered undispatched tx_hash prerequisite) (StepAdvanceVoteBatch b' p) =
     (if b = b' then and_then (first_proposal ordered) (\<lambda>first. Inr (first = p)) else Inr False)"
| "step_matches (Deliver b p position share_indexes prerequisite) (StepSubmitShares b' p' i) =
     Inr (b = b' \<and> p = p' \<and> i \<in> set share_indexes)"
| "step_matches (Confirm b p i accepted outcome_unknown prerequisite) (StepConfirmShare b' p' i') =
     Inr (b = b' \<and> p = p' \<and> i = i')"
| "step_matches _ _ = Inr False"

fun resolve_step :: "Obligation list \<Rightarrow> NextStep \<Rightarrow> VotingError + Obligation option" where
  "resolve_step [] step = Inr None"
| "resolve_step (obligation # obligations) step =
     and_then (step_matches obligation step) (\<lambda>hit. if hit then Inr (Some obligation) else resolve_step obligations step)"

fun step_rank :: "NextStep \<Rightarrow> u32 \<times> u32 \<times> u32 \<times> u32" where
  "step_rank (StepDelegate b) = (0, 0, b, 0)"
| "step_rank (StepAdvanceDelegation b) = (0, 0, b, 0)"
| "step_rank (StepAdvanceImportedDelegation b) = (0, 0, b, 0)"
| "step_rank (StepCastVote b p choice) = (1, p, b, 0)"
| "step_rank (StepAdvanceVote b p) = (1, p, b, 0)"
| "step_rank (StepAdvanceVoteBatch b p) = (1, p, b, 0)"
| "step_rank (StepSubmitShares b p i) = (1, p, b, i)"
| "step_rank (StepConfirmShare b p i) = (2, p, b, i)"

fun delegates_bundle :: "u32 \<Rightarrow> NextStep \<Rightarrow> bool" where
  "delegates_bundle b (StepDelegate b') = (b' = b)"
| "delegates_bundle b (StepAdvanceDelegation b') = (b' = b)"
| "delegates_bundle b (StepAdvanceImportedDelegation b') = (b' = b)"
| "delegates_bundle b _ = False"

fun dependent_bundle :: "NextStep \<Rightarrow> u32 option" where
  "dependent_bundle (StepDelegate b) = None"
| "dependent_bundle (StepAdvanceDelegation b) = None"
| "dependent_bundle (StepAdvanceImportedDelegation b) = None"
| "dependent_bundle (StepCastVote b p choice) = Some b"
| "dependent_bundle (StepAdvanceVote b p) = Some b"
| "dependent_bundle (StepAdvanceVoteBatch b p) = Some b"
| "dependent_bundle (StepSubmitShares b p i) = Some b"
| "dependent_bundle (StepConfirmShare b p i) = Some b"

definition blocking_prerequisite :: "NextStep list \<Rightarrow> NextStep \<Rightarrow> NextStep option" where
  "blocking_prerequisite steps step =
     (case dependent_bundle step of None \<Rightarrow> None | Some b \<Rightarrow> find (delegates_bundle b) steps)"

section \<open>Display and primary action\<close>

fun is_delegation_step :: "NextStep \<Rightarrow> bool" where
  "is_delegation_step (StepDelegate b) = True"
| "is_delegation_step (StepAdvanceDelegation b) = True"
| "is_delegation_step (StepAdvanceImportedDelegation b) = True"
| "is_delegation_step _ = False"

fun is_vote_step :: "NextStep \<Rightarrow> bool" where
  "is_vote_step (StepCastVote b p choice) = True"
| "is_vote_step (StepAdvanceVote b p) = True"
| "is_vote_step (StepAdvanceVoteBatch b p) = True"
| "is_vote_step (StepSubmitShares b p i) = True"
| "is_vote_step _ = False"

definition select_primary_action :: "NextStep list \<Rightarrow> bool \<Rightarrow> bool \<Rightarrow> bool \<Rightarrow> RoundPlanAction" where
  "select_primary_action steps blocking share_work completed =
     (if completed then ActionDone
      else if \<not> blocking then ActionIdle
      else if list_ex is_delegation_step steps then ActionDelegate
      else if list_ex is_vote_step steps then ActionVote
      else if share_work then ActionSubmitShares else ActionIdle)"

definition completed_vote_choice ::
  "(u32, Decision) btree_map \<Rightarrow> (u32 \<times> u32, u32) btree_map \<Rightarrow> (u32 \<times> u32) set \<Rightarrow> u32 \<Rightarrow> CompletedVoteChoice" where
  "completed_vote_choice intents vote_choices stale p =
     (let proposal_choices = set (map snd (filter (\<lambda>((b, q), _). q = p \<and> (b, q) \<notin> stale) vote_choices))
      in \<lparr>completed_proposal_id = p,
          completed_choice = (case btree_get intents p of
              Some Skipped \<Rightarrow> None
            | Some (Choice _) \<Rightarrow>
                (case sorted_list_of_set proposal_choices of [choice] \<Rightarrow> Some choice | _ \<Rightarrow> None)
            | None \<Rightarrow> None)\<rparr>)"

definition completed_vote_display ::
  "u32 list \<Rightarrow> (u32, Decision) btree_map \<Rightarrow> (u32 \<times> u32, u32) btree_map \<Rightarrow> (u32 \<times> u32) set \<Rightarrow> u64 option \<Rightarrow>
   CompletedVoteDisplay" where
  "completed_vote_display proposal_ids intents vote_choices stale voted_at =
     \<lparr>display_choices = map (completed_vote_choice intents vote_choices stale) proposal_ids,
      display_voted_at = voted_at\<rparr>"

section \<open>Recovered work\<close>

definition advance_details :: "Obligation list \<Rightarrow> NextStep \<Rightarrow> VotingError + (DelegationPhase \<times> rust_str option) option" where
  "advance_details obligations step =
     and_then (resolve_step obligations step) (\<lambda>found.
     Inr (case found of Some (AdvanceDelegation b imported phase tx_hash) \<Rightarrow> Some (phase, tx_hash) | _ \<Rightarrow> None))"

definition delegation_work_step ::
  "RoundSnapshot \<Rightarrow> (u32, DelegationPhase) btree_map \<Rightarrow> Obligation list \<Rightarrow> NextStep \<Rightarrow> DelegationRecoveryWork list \<Rightarrow>
   VotingError + DelegationRecoveryWork list" where
  "delegation_work_step snapshot delegation obligations step work =
     (let push = (\<lambda>kind b (phase, tx_hash). Inr (work @ [\<lparr>delegation_work_kind = kind, delegation_work_bundle_index = b,
            delegation_work_phase = phase, delegation_work_tx_hash = tx_hash\<rparr>]));
          missing = (\<lambda>what b. VotingInternal (lit what @ where_text (snapshot_round_id snapshot) b))
      in case step of
        StepDelegate b \<Rightarrow>
          and_then (ok_or (missing ''delegate step missing phase'' b) (btree_get delegation b)) (\<lambda>phase.
            push WorkDelegate b (phase, None))
      | StepAdvanceDelegation b \<Rightarrow>
          and_then (advance_details obligations step) (\<lambda>found.
          and_then (ok_or (missing ''poll delegation step missing phase'' b) found) (\<lambda>details.
            push WorkAdvanceDelegation b details))
      | StepAdvanceImportedDelegation b \<Rightarrow>
          and_then (advance_details obligations step) (\<lambda>found.
          and_then (ok_or (missing ''imported delegation step missing phase'' b) found) (\<lambda>details.
            push WorkAdvanceImportedDelegation b details))
      | _ \<Rightarrow> Inr work)"

definition recovered_delegation_work_from_steps ::
  "RoundSnapshot \<Rightarrow> (u32, DelegationPhase) btree_map \<Rightarrow> Obligation list \<Rightarrow> NextStep list \<Rightarrow>
   VotingError + DelegationRecoveryWork list" where
  "recovered_delegation_work_from_steps snapshot delegation obligations steps =
     try_fold (delegation_work_step snapshot delegation obligations) steps []"

fun push_submit_share_work :: "u32 \<Rightarrow> u32 \<Rightarrow> u32 \<Rightarrow> u64 \<Rightarrow> VoteRecoveryWork list \<Rightarrow> VoteRecoveryWork list" where
  "push_submit_share_work b p i position [] =
     [\<lparr>vote_work_kind = WorkSubmitShares, vote_work_bundle_index = b, vote_work_proposal_id = p,
       vote_work_tx_hash = None, vote_work_vc_tree_position = Some position, vote_work_share_indexes = [i]\<rparr>]"
| "push_submit_share_work b p i position (item # work) =
     (if vote_work_kind item = WorkSubmitShares \<and> vote_work_bundle_index item = b \<and> vote_work_proposal_id item = p
      then item\<lparr>vote_work_share_indexes := remdups_adj (sort (vote_work_share_indexes item @ [i]))\<rparr> # work
      else item # push_submit_share_work b p i position work)"

fun pending_chain_keys :: "Obligation \<Rightarrow> (u32 \<times> u32) list" where
  "pending_chain_keys (ReconcileChain u b ordered undispatched tx_hash prerequisite) = map (\<lambda>p. (b, p)) ordered"
| "pending_chain_keys _ = []"

definition vote_work_step ::
  "RoundSnapshot \<Rightarrow> (u32 \<times> u32 \<times> u32) set \<Rightarrow> Obligation list \<Rightarrow> NextStep \<Rightarrow> VoteRecoveryWork list \<Rightarrow>
   VotingError + VoteRecoveryWork list" where
  "vote_work_step snapshot blocking obligations step work =
     (let where_vote = (\<lambda>b p. where_text (snapshot_round_id snapshot) b @ lit '', proposal='' @ decimal (unat p));
          advance = (\<lambda>b p.
            and_then (resolve_step obligations step) (\<lambda>found.
            and_then (ok_or (VotingInternal (lit ''advance vote batch step missing active batch'' @ where_vote b p)) found)
              (\<lambda>reconcile. case reconcile of
                 ReconcileChain u _ _ _ tx_hash _ \<Rightarrow>
                   Inr (work @ [\<lparr>vote_work_kind = (case u of Singleton _ _ \<Rightarrow> WorkAdvanceVote | Batch _ _ \<Rightarrow> WorkAdvanceVoteBatch),
                     vote_work_bundle_index = b, vote_work_proposal_id = p, vote_work_tx_hash = tx_hash,
                     vote_work_vc_tree_position = None, vote_work_share_indexes = []\<rparr>])
               | _ \<Rightarrow> Inl (VotingPanicked (lit ''resolve_step pairs an advance step with its reconcile obligation''))))
          )
      in case step of
        StepAdvanceVote b p \<Rightarrow> advance b p
      | StepAdvanceVoteBatch b p \<Rightarrow> advance b p
      | StepSubmitShares b p i \<Rightarrow>
          and_then (resolve_step obligations step) (\<lambda>found. case found of
              Some (Deliver _ _ position _ _) \<Rightarrow> Inr (push_submit_share_work b p i position work)
            | _ \<Rightarrow> Inl (VotingPanicked (lit ''a SubmitShares step is projected from a Deliver obligation'')))
      | StepConfirmShare b p i \<Rightarrow>
          if (b, p, i) \<in> blocking \<and> (b, p) \<notin> set (concat (map pending_chain_keys obligations))
          then and_then (confirmed_tree_position snapshot b p) (\<lambda>stored.
               and_then (ok_or (VotingInternal (lit ''submit shares step missing vc_tree_position'' @ where_vote b p)) stored)
                 (\<lambda>position. Inr (push_submit_share_work b p i position work)))
          else Inr work
      | _ \<Rightarrow> Inr work)"

definition recovered_vote_work_from_steps ::
  "RoundSnapshot \<Rightarrow> (u32 \<times> u32 \<times> u32) set \<Rightarrow> Obligation list \<Rightarrow> NextStep list \<Rightarrow>
   VotingError + VoteRecoveryWork list" where
  "recovered_vote_work_from_steps snapshot blocking obligations steps =
     try_fold (vote_work_step snapshot blocking obligations) steps []"

section \<open>Work summary\<close>

fun summary_step :: "bool \<Rightarrow> NextStep \<Rightarrow> (u32 set \<times> u32 set \<times> PlanWorkSummary) \<Rightarrow> (u32 set \<times> u32 set \<times> PlanWorkSummary)" where
  "summary_step share_work (StepDelegate b) (needing_work, needing_signing, summary) =
     (insert b needing_work, needing_signing, summary)"
| "summary_step share_work (StepAdvanceDelegation b) (needing_work, needing_signing, summary) =
     (insert b needing_work, insert b needing_signing,
      summary\<lparr>summary_needs_delegation_signing := True, summary_has_in_flight_delegation := True\<rparr>)"
| "summary_step share_work (StepAdvanceImportedDelegation b) (needing_work, needing_signing, summary) =
     (insert b needing_work, needing_signing, summary\<lparr>summary_has_in_flight_delegation := True\<rparr>)"
| "summary_step share_work (StepConfirmShare b p i) (needing_work, needing_signing, summary) =
     (needing_work, needing_signing,
      let summary = summary\<lparr>summary_has_recoverable_vote_or_share_work := True\<rparr>
      in if share_work then summary\<lparr>summary_has_remaining_vote_or_share_work := True\<rparr> else summary)"
| "summary_step share_work _ (needing_work, needing_signing, summary) =
     (needing_work, needing_signing,
      summary\<lparr>summary_needs_vote_polling := True, summary_has_remaining_vote_or_share_work := True,
        summary_has_recoverable_vote_or_share_work := True\<rparr>)"

definition summarize_plan_work :: "NextStep list \<Rightarrow> bool \<Rightarrow> PlanWorkSummary" where
  "summarize_plan_work steps share_work =
     (let (needing_work, needing_signing, summary) = fold (summary_step share_work) steps ({}, {},
        \<lparr>summary_needs_delegation_signing = False, summary_has_in_flight_delegation = False,
         summary_delegation_bundles_needing_work = [], summary_delegation_bundles_needing_signing = [],
         summary_needs_vote_polling = False, summary_has_remaining_vote_or_share_work = False,
         summary_has_recoverable_vote_or_share_work = False\<rparr>)
      in summary\<lparr>summary_delegation_bundles_needing_work := sorted_list_of_set needing_work,
           summary_delegation_bundles_needing_signing := sorted_list_of_set needing_signing\<rparr>)"

fun signing_cast :: "Obligation \<Rightarrow> u32 list" where
  "signing_cast (Cast b drafts prerequisite True) = [b]"
| "signing_cast _ = []"

fun cast_step_bundle :: "NextStep \<Rightarrow> u32 list" where
  "cast_step_bundle (StepCastVote b p choice) = [b]"
| "cast_step_bundle _ = []"

text \<open>The lists a signing cast is pushed to, sorted and deduplicated.\<close>

definition plan_summary :: "Obligation list \<Rightarrow> NextStep list \<Rightarrow> bool \<Rightarrow> PlanWorkSummary" where
  "plan_summary obligations steps share_work =
     (let summary = summarize_plan_work steps share_work;
          signing_casts = set (concat (map signing_cast obligations));
          pushed = filter (\<lambda>b. b \<in> signing_casts) (concat (map cast_step_bundle steps));
          needing_signing = remdups_adj (sort (summary_delegation_bundles_needing_signing summary @ pushed));
          needing_work = remdups_adj (sort (summary_delegation_bundles_needing_work summary @ pushed))
      in summary\<lparr>summary_delegation_bundles_needing_signing := needing_signing,
           summary_delegation_bundles_needing_work := needing_work,
           summary_needs_delegation_signing := needing_signing \<noteq> []\<rparr>)"

section \<open>The plan\<close>

definition iter_max :: "'a::linorder list \<Rightarrow> 'a option" where
  "iter_max xs = (case xs of [] \<Rightarrow> None | x # rest \<Rightarrow> Some (fold max rest x))"

fun blocking_confirm_key :: "Obligation \<Rightarrow> (u32 \<times> u32 \<times> u32) list" where
  "blocking_confirm_key (Confirm b p i False False prerequisite) = [(b, p, i)]"
| "blocking_confirm_key _ = []"

definition blocking_confirm_keys :: "Obligation list \<Rightarrow> (u32 \<times> u32 \<times> u32) set" where
  "blocking_confirm_keys obligations = set (concat (map blocking_confirm_key obligations))"

fun step_blocks :: "(u32 \<times> u32 \<times> u32) set \<Rightarrow> NextStep \<Rightarrow> bool" where
  "step_blocks blocking (StepConfirmShare b p i) = ((b, p, i) \<in> blocking)"
| "step_blocks blocking _ = True"

definition vote_or_delegation_in :: "RoundSnapshot \<Rightarrow> DelegationPhase \<Rightarrow> VotePhase \<Rightarrow> bool" where
  "vote_or_delegation_in snapshot delegation_phase phase =
     (list_ex (\<lambda>(_, found). found = delegation_phase) (delegation_phases_map snapshot) \<or>
      list_ex (\<lambda>(_, vote). vote_phase vote = phase) (snapshot_votes snapshot))"

definition blocking_recovery_of :: "RoundSnapshot \<Rightarrow> (u32 \<times> u32 \<times> u32) set \<Rightarrow> NextStep list \<Rightarrow> bool" where
  "blocking_recovery_of snapshot blocking steps =
     (vote_or_delegation_in snapshot DelegationSubmissionManaged VoteSubmissionManaged \<or>
      vote_or_delegation_in snapshot DelegationSubmittedWithoutHash VoteSubmittedWithoutHash \<or>
      vote_or_delegation_in snapshot DelegationSubmissionRejected VoteSubmissionRejected \<or>
      snapshot_rejection_blocked_bundles snapshot \<noteq> [] \<or> list_ex (step_blocks blocking) steps)"

definition delegation_status_of :: "planning_env \<Rightarrow> RoundSnapshot \<Rightarrow> DelegationSubmissionStatus \<Rightarrow> DelegationStatus" where
  "delegation_status_of env snapshot status =
     \<lparr>delegation_status_bundle_index = status_bundle_index status,
      delegation_status_phase = status_phase status,
      delegation_status_tx_hash = snapshot_delegation_tx_hash env snapshot (status_bundle_index status),
      delegation_status_diagnostic = or_else (status_diagnostic status)
        (btree_get (snapshot_rejection_blocked_bundles snapshot) (status_bundle_index status)),
      delegation_status_terminal = is_terminal_delegation_phase (status_phase status)\<rparr>"

definition vote_choices_of :: "RoundSnapshot \<Rightarrow> (u32 \<times> u32, u32) btree_map" where
  "vote_choices_of snapshot = btree_collect (map (\<lambda>(key, vote). (key, vote_choice vote)) (snapshot_votes snapshot))"

definition all_decided_of :: "RoundSnapshot \<Rightarrow> u32 list \<Rightarrow> bool" where
  "all_decided_of snapshot proposal_ids =
     (let bundles = btree_keys (delegation_phases_map snapshot) in
      list_all (\<lambda>p. case btree_get (snapshot_intents snapshot) p of
          Some Skipped \<Rightarrow> True
        | Some (Choice choice) \<Rightarrow> bundles \<noteq> [] \<and>
            list_all (\<lambda>b. case btree_get (snapshot_votes snapshot) (b, p) of
                None \<Rightarrow> False
              | Some vote \<Rightarrow> vote_choice vote = choice \<and> vote_phase vote = VoteConfirmed) bundles
        | None \<Rightarrow> False) proposal_ids)"

definition completed_artifact_of :: "RoundSnapshot \<Rightarrow> (u32 \<times> u32) set \<Rightarrow> bool" where
  "completed_artifact_of snapshot stale =
     (list_ex (\<lambda>((b, p), stored). (b, p) \<notin> stale \<and> btree_get (snapshot_intents snapshot) p = Some (Choice stored))
        (vote_choices_of snapshot) \<or>
      list_ex (\<lambda>(b, p, _, _). (b, p) \<notin> stale \<and> is_choice (btree_get (snapshot_intents snapshot) p))
        (snapshot_share_phases snapshot))"

definition project :: "planning_env \<Rightarrow> RoundSnapshot \<Rightarrow> u32 list \<Rightarrow> RoundObligations \<Rightarrow> VotingError + RoundPlan" where
  "project env snapshot proposal_ids obls =
     (let obligations = round_obligations obls;
          delegation = delegation_phases_map snapshot;
          bundles = btree_keys delegation;
          stale = round_stale_vote_keys obls
      in
      and_then (steps_from_obligations obligations) (\<lambda>unordered.
      let steps = sort_key step_rank unordered;
          blocking = blocking_confirm_keys obligations;
          share_work = blocking \<noteq> {};
          managed = vote_or_delegation_in snapshot DelegationSubmissionManaged VoteSubmissionManaged;
          recovery = blocking_recovery_of snapshot blocking steps;
          decided = all_decided_of snapshot proposal_ids;
          artifact = completed_artifact_of snapshot stale;
          completed = artifact \<and> \<not> recovery;
          summary = plan_summary obligations steps share_work;
          voted_at = iter_max (filter (\<lambda>created. created > 0) (map share_created_at (snapshot_shares snapshot)));
          immediate = or_else (snapshot_persisted_immediate_share snapshot)
            (round_immediate_share_key (iter_max bundles) (round_choice_proposals obls))
      in
      and_then (recovered_delegation_work_from_steps snapshot delegation obligations steps) (\<lambda>delegation_work.
      and_then (recovered_vote_work_from_steps snapshot blocking obligations steps) (\<lambda>vote_work.
      Inr \<lparr>plan_round_id = snapshot_round_id snapshot,
           pending_recovery = (managed \<or> steps \<noteq> []),
           next_steps = steps,
           plan_open_proposals = round_open_proposals obls,
           plan_unrostered_intents = round_unrostered_intents obls,
           immediate_share_key = immediate,
           immediate_share_confirmed = (case immediate of None \<Rightarrow> False | Some key \<Rightarrow>
             list_ex (\<lambda>share. share_bundle_index share = immediate_bundle_index key \<and>
               share_proposal_id share = immediate_proposal_id key \<and>
               share_share_index share = immediate_share_index key \<and> share_confirmed share) (snapshot_shares snapshot)),
           all_decided = decided,
           delegation_statuses = map (delegation_status_of env snapshot) (snapshot_delegations snapshot),
           blocking_recovery = recovery,
           blocking_share_work = share_work,
           has_unconfirmed_shares = list_ex (\<lambda>share. \<not> share_confirmed share) (snapshot_shares snapshot),
           hotkey_bound = (list_ex (\<lambda>(_, phase). phase \<noteq> DelegationPrepared) delegation \<or>
             snapshot_votes snapshot \<noteq> [] \<or> snapshot_share_phases snapshot \<noteq> []),
           completed_vote_artifact = artifact,
           completed_for_display = completed,
           plan_completed_vote_display = (if completed
             then Some (completed_vote_display proposal_ids (snapshot_intents snapshot) (vote_choices_of snapshot) stale voted_at)
             else None),
           needs_draft_setup = (\<not> recovery \<and> \<not> decided \<and> round_open_proposals obls \<noteq> []),
           needs_bundle_setup = round_needs_bundle_setup obls,
           primary_action = (if round_needs_bundle_setup obls then ActionDelegate
             else select_primary_action steps recovery share_work completed),
           needs_delegation_signing = summary_needs_delegation_signing summary,
           has_in_flight_delegation = summary_has_in_flight_delegation summary,
           delegation_bundles_needing_work = summary_delegation_bundles_needing_work summary,
           delegation_bundles_needing_signing = summary_delegation_bundles_needing_signing summary,
           needs_vote_polling = summary_needs_vote_polling summary,
           has_remaining_vote_or_share_work = summary_has_remaining_vote_or_share_work summary,
           has_recoverable_vote_or_share_work = summary_has_recoverable_vote_or_share_work summary,
           recovered_delegation_work = delegation_work,
           recovered_vote_work = vote_work\<rparr>))))"

definition plan_round_classified ::
  "planning_env \<Rightarrow> RoundSnapshot \<Rightarrow> u32 list \<Rightarrow> VotingError + RoundPlan \<times> RoundObligations" where
  "plan_round_classified env snapshot proposal_ids =
     and_then (classify_round env snapshot proposal_ids) (\<lambda>obligations.
     and_then (project env snapshot proposal_ids obligations) (\<lambda>plan. Inr (plan, obligations)))"

end
