(* ===== verification/Drive_Decisions.thy ===== *)
theory Drive_Decisions
  imports Round_Projection Submission_Coordinator
begin

text \<open>
  The decisions of the round driver (\<open>zcash_voting/src/round_drive\<close>): which steps a fresh plan admits
  (\<open>selection.rs\<close>), whether the host still owes a delegation signature (\<open>signing.rs\<close>), the progress
  tally (\<open>tally.rs\<close>), why a plan with nothing to dispatch stops (\<open>quiescence.rs\<close>) and how results are
  folded into the run (\<open>run_ledger.rs\<close>), with the step types of \<open>vote_work/mod.rs\<close>. Delivery reports
  and signed delegation bundles are only carried along and are type parameters.
\<close>

section \<open>Steps, scopes and selection\<close>

fun bundle_scope :: "NextStep \<Rightarrow> u32 option" where
  "bundle_scope (StepDelegate b) = Some b"
| "bundle_scope (StepAdvanceDelegation b) = Some b"
| "bundle_scope (StepAdvanceImportedDelegation b) = None"
| "bundle_scope (StepCastVote b p c) = None"
| "bundle_scope (StepAdvanceVote b p) = None"
| "bundle_scope (StepAdvanceVoteBatch b p) = None"
| "bundle_scope (StepSubmitShares b p i) = None"
| "bundle_scope (StepConfirmShare b p i) = None"

datatype StepLockScope = ScopeBundle | ScopeRound

definition lock_scope :: "NextStep \<Rightarrow> StepLockScope" where
  "lock_scope step = (case bundle_scope step of Some _ \<Rightarrow> ScopeBundle | None \<Rightarrow> ScopeRound)"

fun step_bundle_index :: "NextStep \<Rightarrow> u32" where
  "step_bundle_index (StepDelegate b) = b"
| "step_bundle_index (StepAdvanceDelegation b) = b"
| "step_bundle_index (StepAdvanceImportedDelegation b) = b"
| "step_bundle_index (StepCastVote b p c) = b"
| "step_bundle_index (StepAdvanceVote b p) = b"
| "step_bundle_index (StepAdvanceVoteBatch b p) = b"
| "step_bundle_index (StepSubmitShares b p i) = b"
| "step_bundle_index (StepConfirmShare b p i) = b"

fun needs_delegation_signer :: "NextStep \<Rightarrow> bool" where
  "needs_delegation_signer (StepDelegate b) = True"
| "needs_delegation_signer (StepCastVote b p c) = True"
| "needs_delegation_signer (StepAdvanceDelegation b) = True"
| "needs_delegation_signer _ = False"

definition dispatch_candidates :: "NextStep list \<Rightarrow> u32 list \<Rightarrow> NextStep list \<Rightarrow> NextStep list" where
  "dispatch_candidates steps skipped_bundles preferred =
     foldl (\<lambda>ordered step.
         if step \<in> set steps \<and> step_bundle_index step \<notin> set skipped_bundles \<and> step \<notin> set ordered
         then ordered @ [step] else ordered)
       [] (preferred @ steps)"

fun bundle_wave :: "nat \<Rightarrow> NextStep list \<Rightarrow> u32 list \<Rightarrow> NextStep list \<Rightarrow> NextStep list" where
  "bundle_wave limit [] bundles selected = selected"
| "bundle_wave limit (step # ordered) bundles selected =
     (if lock_scope step = ScopeRound then selected
      else if step_bundle_index step \<in> set bundles then bundle_wave limit ordered bundles selected
      else if length (selected @ [step]) = limit then selected @ [step]
      else bundle_wave limit ordered (bundles @ [step_bundle_index step]) (selected @ [step]))"

definition next_dispatches ::
  "NextStep list \<Rightarrow> u32 list \<Rightarrow> NextStep list \<Rightarrow> nat \<Rightarrow> nat \<Rightarrow> bool \<Rightarrow> NextStep list" where
  "next_dispatches steps skipped_bundles preferred max_concurrency max_steps allow_parallel_bundles =
     (if max_steps = 0 then []
      else case dispatch_candidates steps skipped_bundles preferred of
        [] \<Rightarrow> []
      | first # rest \<Rightarrow>
          if lock_scope first = ScopeRound \<or> \<not> allow_parallel_bundles then [first]
          else bundle_wave (min max_concurrency max_steps) (first # rest) [] [])"

section \<open>Policy\<close>

text \<open>A duration is its whole seconds and its nanoseconds; the driver only passes durations on.\<close>

datatype duration = Duration u64 u32

datatype FailureIsolation = SkipBundle | StopRound

datatype ProgressBaseline = BaselineRun | BaselineSelectedChoices

record RoundDrivePolicy =
  drive_pending_repoll :: duration
  max_bundle_concurrency :: nat
  failure_isolation :: FailureIsolation
  max_dispatches :: nat
  progress_baseline :: ProgressBaseline

definition default_drive_policy :: RoundDrivePolicy where
  "default_drive_policy =
     \<lparr>drive_pending_repoll = Duration 2 0, max_bundle_concurrency = 3, failure_isolation = SkipBundle,
      max_dispatches = 512, progress_baseline = BaselineRun\<rparr>"

section \<open>Progress tally\<close>

record RoundWorkTally =
  completed_proposals :: u32
  total_proposals :: u32
  remaining_obligations :: u32

definition default_tally :: RoundWorkTally where
  "default_tally = \<lparr>completed_proposals = 0, total_proposals = 0, remaining_obligations = 0\<rparr>"

fun vote_proposals :: "Obligation \<Rightarrow> u32 list" where
  "vote_proposals (Cast b drafts prerequisite signs_delegation) = map draft_proposal_id drafts"
| "vote_proposals (ReconcileChain u b ordered undispatched tx_hash prerequisite) = ordered"
| "vote_proposals _ = []"

definition covered_proposals :: "RoundObligations \<Rightarrow> u32 set" where
  "covered_proposals obligations =
     foldl (\<lambda>covered obligation. covered \<union> set (vote_proposals obligation)) {} (round_obligations obligations)"

definition baseline_for_run :: "RoundObligations \<Rightarrow> u32 set" where
  "baseline_for_run obligations = covered_proposals obligations"

definition baseline_for_selected_choices :: "RoundObligations \<Rightarrow> u32 set" where
  "baseline_for_selected_choices obligations =
     set (round_choice_proposals obligations) \<union> round_lifecycle_owned_choices obligations"

fun is_dispatched_alone :: "Obligation \<Rightarrow> bool" where
  "is_dispatched_alone (Blocked b reason) = False"
| "is_dispatched_alone (Retire u members) = False"
| "is_dispatched_alone _ = True"

definition work_tally :: "u32 set \<Rightarrow> RoundObligations \<Rightarrow> RoundWorkTally" where
  "work_tally baseline obligations =
     \<lparr>completed_proposals =
        word_of_nat (card (baseline - (covered_proposals obligations \<union> round_withheld_casts obligations))),
      total_proposals = word_of_nat (card baseline),
      remaining_obligations = word_of_nat (length (filter is_dispatched_alone (round_obligations obligations)))\<rparr>"

section \<open>Host inputs of a step\<close>

datatype KeystoneSignatureSource = KeystoneStored | KeystoneProvided bytes bytes

text \<open>A software signer is a callback of the host; the driver only asks which mode is offered.\<close>

datatype DelegationSigner = SignerSoftware | SignerKeystone KeystoneSignatureSource

record ChainAdvancePolicy =
  initial_recovery_mode :: ChainRecoveryMode
  advance_pending_repoll :: duration
  escalate_to_exact_tree :: bool
  max_passes :: nat

record RoundHostContext =
  configured_helper_urls :: "rust_str list"
  context_now_seconds :: u64
  context_ceremony_start_seconds :: "u64 option"
  context_vote_end_time_seconds :: "u64 option"
  vote_tree_node_urls :: "rust_str list"
  context_delegation_signer :: "DelegationSigner option"
  context_chain_policy :: ChainAdvancePolicy
  max_proof_concurrency :: nat

definition context_last_moment_buffer_seconds :: "RoundHostContext \<Rightarrow> u64 option" where
  "context_last_moment_buffer_seconds context =
     (case (context_ceremony_start_seconds context, context_vote_end_time_seconds context) of
        (Some start, Some vote_end) \<Rightarrow> last_moment_buffer_seconds start vote_end
      | _ \<Rightarrow> None)"

definition context_is_last_moment :: "RoundHostContext \<Rightarrow> bool" where
  "context_is_last_moment context =
     (case (context_ceremony_start_seconds context, context_vote_end_time_seconds context) of
        (Some start, Some vote_end) \<Rightarrow> is_last_moment (context_now_seconds context) start vote_end
      | _ \<Rightarrow> False)"

definition planning_vote_end_seconds :: "RoundHostContext \<Rightarrow> u64" where
  "planning_vote_end_seconds context =
     (case context_vote_end_time_seconds context of
        Some vote_end \<Rightarrow> vote_end
      | None \<Rightarrow> context_now_seconds context)"

section \<open>Missing signatures\<close>

fun signed_delegation_bundle :: "Obligation \<Rightarrow> u32 option" where
  "signed_delegation_bundle (AdvanceDelegation b False phase tx_hash) = Some b"
| "signed_delegation_bundle _ = None"

definition signer_bundles :: "Obligation list \<Rightarrow> u32 list \<Rightarrow> u32 list" where
  "signer_bundles obligations skipped =
     remdups_adj (sort (filter (\<lambda>b. b \<notin> set skipped) (List.map_filter signed_delegation_bundle obligations)))"

fun signing_cast_bundle :: "Obligation \<Rightarrow> u32 option" where
  "signing_cast_bundle (Cast b drafts prerequisite True) = Some b"
| "signing_cast_bundle _ = None"

definition required_signatures :: "Obligation list \<Rightarrow> u32 list \<Rightarrow> u32 list" where
  "required_signatures obligations skipped =
     remdups_adj (sort (signer_bundles obligations skipped @
       filter (\<lambda>b. b \<notin> set skipped) (List.map_filter signing_cast_bundle obligations)))"

definition reads_stored :: "RoundHostContext \<Rightarrow> bool" where
  "reads_stored context = (context_delegation_signer context = Some (SignerKeystone KeystoneStored))"

definition signs_itself :: "RoundHostContext \<Rightarrow> bool" where
  "signs_itself context = (context_delegation_signer context \<noteq> None \<and> \<not> reads_stored context)"

definition admitted_signers ::
  "u32 list \<Rightarrow> (NextStep \<times> RoundHostContext) list \<Rightarrow> (u32 \<times> RoundHostContext) list" where
  "admitted_signers required dispatches =
     map (\<lambda>(step, context). (step_bundle_index step, context))
       (filter (\<lambda>(step, context). needs_delegation_signer step \<and> step_bundle_index step \<in> set required) dispatches)"

definition missing_signer_bundles ::
  "VotingError + u32 list \<Rightarrow> (NextStep \<times> RoundHostContext) list \<Rightarrow> Obligation list \<Rightarrow> u32 list \<Rightarrow>
   VotingError + u32 list" where
  "missing_signer_bundles stored_signatures dispatches obligations skipped =
     (let required = required_signatures obligations skipped;
          admitted = admitted_signers required dispatches;
          own_signers = map fst (filter (\<lambda>(b, context). signs_itself context) admitted);
          no_signing_inputs = map fst (filter (\<lambda>(b, context). context_delegation_signer context = None) admitted);
          owed = filter (\<lambda>b. b \<notin> set own_signers) required
      in if required = [] \<or> admitted = [] \<or> owed = [] then Inr []
         else if \<not> list_ex (\<lambda>(b, context). reads_stored context) admitted then Inr no_signing_inputs
         else and_then stored_signatures (\<lambda>stored.
           Inr (filter (\<lambda>b. b \<in> set no_signing_inputs \<or> b \<notin> set stored) owed)))"

section \<open>Step results\<close>

datatype RoundStepDisposition = StepNoWork | StepAdvanced | StepPending | StepCancelled | StepChainTerminal

record ('delivery, 'signed) RoundStepOutcome =
  outcome_step :: "NextStep option"
  outcome_disposition :: RoundStepDisposition
  outcome_chain_outcome :: "ChainSubmissionResult option"
  outcome_share_deliveries :: "'delivery list"
  outcome_delegation :: "'signed option"
  outcome_plan :: RoundPlan

datatype RoundStepFailureKind =
    FailureInvalidInput
  | FailureInsufficientEligibility
  | FailureNoSpendableNotes
  | FailureBusy
  | FailureStorage
  | FailureInvariantViolation
  | FailureTransport
  | FailureProtocol
  | FailureProofFailed
  | FailureSigning
  | FailureHelperDeliveryIncomplete
  | FailureVoteEnded
  | FailureDelegationTargetMismatch

record ('delivery, 'signed) RoundStepFailure =
  step_failure_kind :: RoundStepFailureKind
  step_failure_step :: "NextStep option"
  step_strongest_chain_state :: "ChainSubmissionFailureState option"
  step_failure_chain_outcome :: "ChainSubmissionResult option"
  step_failure_message :: rust_str
  step_failure_plan :: "RoundPlan option"
  step_failure_share_deliveries :: "'delivery list"
  step_failure_delegation :: "'signed option"

fun failure_kind_for :: "VotingErrorKind \<Rightarrow> RoundStepFailureKind" where
  "failure_kind_for KindInvalidInput = FailureInvalidInput"
| "failure_kind_for KindSetupAlreadyPersisted = FailureInvalidInput"
| "failure_kind_for KindDelegationPcztUnavailable = FailureInvalidInput"
| "failure_kind_for KindInsufficientEligibility = FailureInsufficientEligibility"
| "failure_kind_for KindNoSpendableNotes = FailureNoSpendableNotes"
| "failure_kind_for KindBusy = FailureBusy"
| "failure_kind_for KindDbBusy = FailureBusy"
| "failure_kind_for KindStorage = FailureStorage"
| "failure_kind_for KindPirUnavailable = FailureTransport"
| "failure_kind_for KindProofFailed = FailureProofFailed"
| "failure_kind_for KindKeystoneSignatureConflict = FailureSigning"
| "failure_kind_for KindInternal = FailureInvariantViolation"
| "failure_kind_for KindDelegationTargetMismatch = FailureDelegationTargetMismatch"
| "failure_kind_for KindDelegationAlreadyBroadcast = FailureInvalidInput"

section \<open>Run ledger\<close>

record ShareKey =
  share_key_bundle_index :: u32
  share_key_proposal_id :: u32
  share_key_share_index :: u32

datatype RoundQuiescence =
    NoWorkLeft
  | NeedsBundleSetup
  | PersistedChainTerminal
  | NeedsBallot "u32 list" "u32 list"
  | NeedsDelegationSignatures "u32 list"
  | BackgroundShareWorkOnly "ShareKey list"
  | RunCancelled
  | RunChainTerminal NextStep ChainSubmissionResult
  | ChainRecoveryStalled NextStep ChainSubmissionResult
  | RunFailures
  | PassBudgetExhausted "NextStep list"

record ('delivery, 'signed) RoundStepFailureRecord =
  failed_step :: "NextStep option"
  failed_bundle_index :: "u32 option"
  recorded_failure :: "('delivery, 'signed) RoundStepFailure"

record ('delivery, 'signed) RoundRunReport =
  report_quiescence :: RoundQuiescence
  report_plan :: "RoundPlan option"
  report_tally :: RoundWorkTally
  report_failures :: "('delivery, 'signed) RoundStepFailureRecord list"
  report_skipped_bundles :: "u32 list"
  report_chain_outcomes :: "(NextStep \<times> ChainSubmissionResult) list"
  report_share_deliveries :: "'delivery list"
  report_delegations :: "'signed list"

record ('delivery, 'signed) Run =
  run_dispatches :: nat
  run_plan :: "RoundPlan option"
  run_tally :: RoundWorkTally
  run_baseline :: "u32 set option"
  run_failures :: "('delivery, 'signed) RoundStepFailureRecord list"
  run_skipped :: "u32 list"
  run_chain_outcomes :: "(NextStep \<times> ChainSubmissionResult) list"
  run_share_deliveries :: "'delivery list"
  run_delegations :: "'signed list"
  run_repoll :: "(NextStep \<times> duration) list"
  run_awaiting_repoll :: "NextStep list"

definition default_run :: "('delivery, 'signed) Run" where
  "default_run =
     \<lparr>run_dispatches = 0, run_plan = None, run_tally = default_tally, run_baseline = None, run_failures = [],
      run_skipped = [], run_chain_outcomes = [], run_share_deliveries = [], run_delegations = [],
      run_repoll = [], run_awaiting_repoll = []\<rparr>"

definition finish_run :: "('delivery, 'signed) Run \<Rightarrow> RoundQuiescence \<Rightarrow> ('delivery, 'signed) RoundRunReport" where
  "finish_run run quiescence =
     \<lparr>report_quiescence = quiescence, report_plan = run_plan run, report_tally = run_tally run,
      report_failures = run_failures run, report_skipped_bundles = run_skipped run,
      report_chain_outcomes = run_chain_outcomes run, report_share_deliveries = run_share_deliveries run,
      report_delegations = run_delegations run\<rparr>"

definition opt_list :: "'a option \<Rightarrow> 'a list" where
  "opt_list x = (case x of None \<Rightarrow> [] | Some a \<Rightarrow> [a])"

definition record_failure ::
  "NextStep option \<Rightarrow> u32 option \<Rightarrow> ('delivery, 'signed) RoundStepFailure \<Rightarrow> ('delivery, 'signed) Run \<Rightarrow>
   ('delivery, 'signed) Run" where
  "record_failure step bundle failure run =
     run\<lparr>run_share_deliveries := run_share_deliveries run @ step_failure_share_deliveries failure,
         run_delegations := run_delegations run @ opt_list (step_failure_delegation failure),
         run_chain_outcomes := run_chain_outcomes run @
           (case (step, step_failure_chain_outcome failure) of
              (Some s, Some outcome) \<Rightarrow> [(s, outcome)]
            | _ \<Rightarrow> []),
         run_failures := run_failures run @
           [\<lparr>failed_step = step, failed_bundle_index = bundle, recorded_failure = failure\<rparr>]\<rparr>"

text \<open>The derived debug rendering of a step.\<close>

definition debug_fields :: "string \<Rightarrow> (string \<times> u32) list \<Rightarrow> rust_str" where
  "debug_fields name labelled =
     lit name @ lit '' { '' @
     concat (map (\<lambda>(i, field, v). (if i = 0 then [] else lit '', '') @ lit field @ lit '': '' @ decimal (unat v))
       (enumerate 0 labelled)) @ lit '' }''"

fun step_debug :: "NextStep \<Rightarrow> rust_str" where
  "step_debug (StepDelegate b) = debug_fields ''Delegate'' [(''bundle_index'', b)]"
| "step_debug (StepAdvanceDelegation b) = debug_fields ''AdvanceDelegation'' [(''bundle_index'', b)]"
| "step_debug (StepAdvanceImportedDelegation b) =
     debug_fields ''AdvanceImportedDelegation'' [(''bundle_index'', b)]"
| "step_debug (StepCastVote b p c) =
     debug_fields ''CastVote'' [(''bundle_index'', b), (''proposal_id'', p), (''choice'', c)]"
| "step_debug (StepAdvanceVote b p) =
     debug_fields ''AdvanceVote'' [(''bundle_index'', b), (''proposal_id'', p)]"
| "step_debug (StepAdvanceVoteBatch b p) =
     debug_fields ''AdvanceVoteBatch'' [(''bundle_index'', b), (''proposal_id'', p)]"
| "step_debug (StepSubmitShares b p i) =
     debug_fields ''SubmitShares'' [(''bundle_index'', b), (''proposal_id'', p), (''share_index'', i)]"
| "step_debug (StepConfirmShare b p i) =
     debug_fields ''ConfirmShare'' [(''bundle_index'', b), (''proposal_id'', p), (''share_index'', i)]"

definition plain_failure ::
  "RoundStepFailureKind \<Rightarrow> NextStep option \<Rightarrow> rust_str \<Rightarrow> ('delivery, 'signed) RoundStepFailure" where
  "plain_failure kind step message =
     \<lparr>step_failure_kind = kind, step_failure_step = step, step_strongest_chain_state = None,
      step_failure_chain_outcome = None, step_failure_message = message, step_failure_plan = None,
      step_failure_share_deliveries = [], step_failure_delegation = None\<rparr>"

definition pending_outcome_repolls :: "ChainSubmissionResult option \<Rightarrow> bool" where
  "pending_outcome_repolls outcome =
     (case outcome of
        None \<Rightarrow> True
      | Some (ResultPending (PendingTracking _)) \<Rightarrow> True
      | Some (ResultConfirmed _) \<Rightarrow> True
      | Some _ \<Rightarrow> False)"

definition settle_outcome ::
  "NextStep \<Rightarrow> RoundStepDisposition \<Rightarrow> ChainSubmissionResult option \<Rightarrow> duration \<Rightarrow> ('delivery, 'signed) Run \<Rightarrow>
   ('delivery, 'signed) Run \<times> RoundQuiescence option" where
  "settle_outcome step disposition chain_outcome repoll_delay run =
     (case disposition of
        StepAdvanced \<Rightarrow> (run, None)
      | StepNoWork \<Rightarrow> (run, None)
      | StepCancelled \<Rightarrow> (run, Some RunCancelled)
      | StepChainTerminal \<Rightarrow>
          (case chain_outcome of
             Some outcome \<Rightarrow> (run, Some (RunChainTerminal step outcome))
           | None \<Rightarrow>
               (record_failure (Some step) (Some (step_bundle_index step))
                  (plain_failure FailureInvariantViolation (Some step)
                     (step_debug step @ lit '' ended as a terminal chain result with no chain outcome'')) run,
                Some RunFailures))
      | StepPending \<Rightarrow>
          (if pending_outcome_repolls chain_outcome
           then (run\<lparr>run_repoll := run_repoll run @ [(step, repoll_delay)]\<rparr>, None)
           else (run, map_option (ChainRecoveryStalled step) chain_outcome)))"

definition record_outcome ::
  "NextStep \<Rightarrow> ('delivery, 'signed) RoundStepOutcome \<Rightarrow> duration \<Rightarrow> ('delivery, 'signed) Run \<Rightarrow>
   ('delivery, 'signed) Run \<times> RoundQuiescence option" where
  "record_outcome step outcome repoll_delay run =
     settle_outcome step (outcome_disposition outcome) (outcome_chain_outcome outcome) repoll_delay
       (run\<lparr>run_share_deliveries := run_share_deliveries run @ outcome_share_deliveries outcome,
            run_delegations := run_delegations run @ opt_list (outcome_delegation outcome),
            run_chain_outcomes := run_chain_outcomes run @
              map (\<lambda>chain_outcome. (step, chain_outcome)) (opt_list (outcome_chain_outcome outcome))\<rparr>)"

definition record_plan_failure ::
  "VotingErrorKind \<Rightarrow> rust_str \<Rightarrow> ('delivery, 'signed) Run \<Rightarrow> ('delivery, 'signed) Run" where
  "record_plan_failure kind message run = record_failure None None (plain_failure (failure_kind_for kind) None message) run"

section \<open>Quiescence\<close>

definition share_requires_tracking :: "Obligation list \<Rightarrow> ShareKey \<Rightarrow> bool" where
  "share_requires_tracking obligations share =
     list_ex (\<lambda>obligation.
       (case obligation of
          Confirm b p i accepted outcome_unknown prerequisite \<Rightarrow>
            b = share_key_bundle_index share \<and> p = share_key_proposal_id share \<and>
            i = share_key_share_index share \<and> (accepted \<or> outcome_unknown)
        | _ \<Rightarrow> False)) obligations"

fun requires_background_tracking :: "Obligation list \<Rightarrow> NextStep \<Rightarrow> bool" where
  "requires_background_tracking obligations (StepConfirmShare b p i) =
     share_requires_tracking obligations
       \<lparr>share_key_bundle_index = b, share_key_proposal_id = p, share_key_share_index = i\<rparr>"
| "requires_background_tracking obligations _ = False"

fun background_share :: "Obligation list \<Rightarrow> NextStep \<Rightarrow> ShareKey option" where
  "background_share obligations (StepConfirmShare b p i) =
     (if requires_background_tracking obligations (StepConfirmShare b p i)
      then Some \<lparr>share_key_bundle_index = b, share_key_proposal_id = p, share_key_share_index = i\<rparr>
      else None)"
| "background_share obligations _ = None"

definition background_share_handoff :: "RoundPlan \<Rightarrow> Obligation list \<Rightarrow> u32 list \<Rightarrow> ShareKey list option" where
  "background_share_handoff host_plan obligations skipped =
     those (map (background_share obligations)
       (filter (\<lambda>step. step_bundle_index step \<notin> set skipped) (next_steps host_plan)))"

definition quiesce_before_dispatch ::
  "RoundPlan \<Rightarrow> Obligation list \<Rightarrow> ('delivery, 'signed) Run \<Rightarrow> RoundQuiescence option" where
  "quiesce_before_dispatch host_plan obligations run =
     (case background_share_handoff host_plan obligations (run_skipped run) of
        None \<Rightarrow> None
      | Some background_shares \<Rightarrow>
          Some (if run_failures run \<noteq> [] then RunFailures
                else if blocking_recovery host_plan then PersistedChainTerminal
                else if needs_bundle_setup host_plan then NeedsBundleSetup
                else if plan_open_proposals host_plan \<noteq> [] \<or> plan_unrostered_intents host_plan \<noteq> []
                then NeedsBallot (plan_open_proposals host_plan) (plan_unrostered_intents host_plan)
                else if background_shares \<noteq> [] then BackgroundShareWorkOnly background_shares
                else NoWorkLeft))"

end
