(* ===== verification/Drive_Loop.thy ===== *)
theory Drive_Loop
  imports Drive_Decisions
begin

text \<open>
  The run loop of the round driver (\<open>zcash_voting/src/round_drive/run_loop.rs\<close> and
  \<open>dispatch.rs\<close>): plan, admit a wave, dispatch it, fold the results, repeat. What the driver cannot
  decide itself is read from an environment by a reading index that grows along the run: the host's
  control, the stored round, the host contexts, stored signatures and the executor's answer for a
  dispatched step. Two readings may differ in any way. Host callbacks appear as the log of reported events.
\<close>

section \<open>Environment and world\<close>

text \<open>
  \<open>drive_snapshot_at\<close> is the read behind \<open>plan_classified\<close>, with the wallet, binding and network checks in
  front of it among its errors. \<open>drive_wakes_at\<close> is how often the host signals its control during a wait
  that starts at that reading, before the deadline passes. A delay whose deadline the clock cannot
  represent is not covered: the source then waits for an interruption only.
\<close>

record ('delivery, 'signed) drive_env =
  drive_planning :: planning_env
  drive_proposal_ids :: "u32 list"
  drive_cancelled_at :: "nat \<Rightarrow> bool"
  drive_epoch_at :: "nat \<Rightarrow> u64"
  drive_snapshot_at :: "nat \<Rightarrow> VotingError + RoundSnapshot"
  drive_context_at :: "nat \<Rightarrow> RoundHostContext"
  drive_signatures_at :: "nat \<Rightarrow> rust_str \<Rightarrow> VotingError + u32 list"
  drive_execute_at ::
    "nat \<Rightarrow> NextStep \<Rightarrow> RoundHostContext \<Rightarrow> ('delivery, 'signed) RoundStepFailure + ('delivery, 'signed) RoundStepOutcome"
  drive_wakes_at :: "nat \<Rightarrow> nat"

datatype RoundDriveEvent =
    PlanRefreshed RoundPlan RoundWorkTally
  | StepSelected NextStep
  | StepFinished NextStep RoundStepDisposition
  | StepFailed NextStep RoundStepFailureKind rust_str
  | AwaitingRepoll NextStep duration
  | BundleSkipped u32 NextStep

record drive_world =
  drive_clock :: nat
  drive_events :: "RoundDriveEvent list"

text \<open>A panic of the planner unwinds through the driver; it is not a report.\<close>

datatype ('delivery, 'signed) pass_result =
    PassFinished "('delivery, 'signed) RoundRunReport" drive_world
  | PassContinues "('delivery, 'signed) Run" drive_world
  | PassPanicked rust_str

definition drive_interrupted :: "('delivery, 'signed) drive_env \<Rightarrow> nat \<Rightarrow> bool" where
  "drive_interrupted env n = (drive_cancelled_at env n \<or> drive_epoch_at env n \<noteq> drive_epoch_at env 0)"

definition plan_off_the_worker ::
  "('delivery, 'signed) drive_env \<Rightarrow> nat \<Rightarrow> VotingError + RoundPlan \<times> RoundObligations" where
  "plan_off_the_worker env n =
     and_then (drive_snapshot_at env n) (\<lambda>snapshot.
       plan_round_classified (drive_planning env) snapshot (drive_proposal_ids env))"

definition refresh_progress ::
  "('delivery, 'signed) drive_env \<Rightarrow> nat \<Rightarrow> ('delivery, 'signed) Run \<Rightarrow> rust_str + ('delivery, 'signed) Run" where
  "refresh_progress env n run =
     (case plan_off_the_worker env n of
        Inl error \<Rightarrow> (if voting_error_kind error = None then Inl (voting_error_text error) else Inr run)
      | Inr (host_plan, obligations) \<Rightarrow>
          Inr (run\<lparr>run_tally :=
                  (case run_baseline run of
                     None \<Rightarrow> run_tally run
                   | Some baseline \<Rightarrow> work_tally baseline obligations),
                run_plan := Some host_plan\<rparr>))"

fun sleep_until_interrupted :: "('delivery, 'signed) drive_env \<Rightarrow> nat \<Rightarrow> nat \<Rightarrow> bool \<times> nat" where
  "sleep_until_interrupted env n 0 = (\<not> drive_interrupted env n, Suc n)"
| "sleep_until_interrupted env n (Suc wakes) =
     (if drive_interrupted env n then (False, Suc n) else sleep_until_interrupted env (Suc n) wakes)"

section \<open>Folding one wave\<close>

type_synonym ('delivery, 'signed) dispatch_result =
  "NextStep \<times> (('delivery, 'signed) RoundStepFailure + ('delivery, 'signed) RoundStepOutcome)"

definition run_dispatch_wave ::
  "('delivery, 'signed) drive_env \<Rightarrow> nat \<Rightarrow> (NextStep \<times> RoundHostContext) list \<Rightarrow> ('delivery, 'signed) dispatch_result list" where
  "run_dispatch_wave env n dispatches =
     map (\<lambda>(i, step, context). (step, drive_execute_at env (n + i) step context)) (enumerate 0 dispatches)"

definition get_or_insert :: "'a option \<Rightarrow> 'a \<Rightarrow> 'a option" where
  "get_or_insert x a = (case x of None \<Rightarrow> Some a | Some b \<Rightarrow> Some b)"

fun fold_result ::
  "RoundDrivePolicy \<Rightarrow> ('delivery, 'signed) dispatch_result \<Rightarrow>
   ('delivery, 'signed) Run \<times> RoundDriveEvent list \<times> RoundQuiescence option \<Rightarrow>
   ('delivery, 'signed) Run \<times> RoundDriveEvent list \<times> RoundQuiescence option" where
  "fold_result policy (step, Inr outcome) (run, events, wave_quiescence) =
     (let (recorded, quiescence) = record_outcome step outcome (drive_pending_repoll policy) run
      in (recorded, events @ [StepFinished step (outcome_disposition outcome)],
          (case quiescence of None \<Rightarrow> wave_quiescence | Some q \<Rightarrow> get_or_insert wave_quiescence q)))"
| "fold_result policy (step, Inl failure) (run, events, wave_quiescence) =
     (let recorded = record_failure (Some step) (Some (step_bundle_index step)) failure run;
          failed_events = events @ [StepFailed step (step_failure_kind failure) (step_failure_message failure)]
      in case failure_isolation policy of
           StopRound \<Rightarrow> (recorded, failed_events, get_or_insert wave_quiescence RunFailures)
         | SkipBundle \<Rightarrow>
             (recorded\<lparr>run_skipped := run_skipped recorded @ [step_bundle_index step]\<rparr>,
              failed_events @ [BundleSkipped (step_bundle_index step) step], wave_quiescence))"

definition fold_wave ::
  "RoundDrivePolicy \<Rightarrow> ('delivery, 'signed) dispatch_result list \<Rightarrow> ('delivery, 'signed) Run \<Rightarrow> RoundDriveEvent list \<Rightarrow>
   ('delivery, 'signed) Run \<times> RoundDriveEvent list \<times> RoundQuiescence option" where
  "fold_wave policy results run events = fold (fold_result policy) results (run, events, None)"

section \<open>One pass\<close>

definition finish_refreshed ::
  "('delivery, 'signed) drive_env \<Rightarrow> ('delivery, 'signed) Run \<Rightarrow> nat \<Rightarrow> RoundDriveEvent list \<Rightarrow> ('delivery, 'signed) pass_result" where
  "finish_refreshed env run n events =
     (case refresh_progress env n run of
        Inl message \<Rightarrow> PassPanicked message
      | Inr refreshed \<Rightarrow>
          PassFinished (finish_run refreshed RunCancelled) \<lparr>drive_clock = Suc n, drive_events = events\<rparr>)"

definition await_repolls ::
  "('delivery, 'signed) drive_env \<Rightarrow> ('delivery, 'signed) Run \<Rightarrow> nat \<Rightarrow> RoundDriveEvent list \<Rightarrow> ('delivery, 'signed) pass_result" where
  "await_repolls env run n events =
     (let repolls = run_repoll run;
          taken = run\<lparr>run_repoll := []\<rparr>;
          waiting_events = events @ map (\<lambda>(step, delay). AwaitingRepoll step delay) repolls;
          (awake, m) = sleep_until_interrupted env n (drive_wakes_at env n)
      in if \<not> awake then finish_refreshed env taken m waiting_events
         else PassContinues
           (taken\<lparr>run_awaiting_repoll := run_awaiting_repoll taken @ map fst repolls\<rparr>)
           \<lparr>drive_clock = m, drive_events = waiting_events\<rparr>)"

definition settle_wave ::
  "('delivery, 'signed) drive_env \<Rightarrow> RoundDrivePolicy \<Rightarrow> nat \<Rightarrow>
   ('delivery, 'signed) Run \<times> RoundDriveEvent list \<times> RoundQuiescence option \<Rightarrow> ('delivery, 'signed) pass_result" where
  "settle_wave env policy n folded =
     (case folded of (run, events, wave_quiescence) \<Rightarrow>
        if drive_interrupted env n then finish_refreshed env run (Suc n) events
        else case wave_quiescence of
          Some quiescence \<Rightarrow>
            (case refresh_progress env (Suc n) run of
               Inl message \<Rightarrow> PassPanicked message
             | Inr refreshed \<Rightarrow>
                 PassFinished
                   (finish_run refreshed (if drive_interrupted env (n + 2) then RunCancelled else quiescence))
                   \<lparr>drive_clock = n + 3, drive_events = events\<rparr>)
        | None \<Rightarrow>
            if run_dispatches run \<ge> max_dispatches policy
            then PassContinues (run\<lparr>run_repoll := []\<rparr>) \<lparr>drive_clock = Suc n, drive_events = events\<rparr>
            else if run_repoll run \<noteq> [] then await_repolls env run (Suc n) events
            else PassContinues run \<lparr>drive_clock = Suc n, drive_events = events\<rparr>)"

definition run_wave ::
  "('delivery, 'signed) drive_env \<Rightarrow> RoundDrivePolicy \<Rightarrow> (NextStep \<times> RoundHostContext) list \<Rightarrow>
   ('delivery, 'signed) Run \<Rightarrow> nat \<Rightarrow> RoundDriveEvent list \<Rightarrow> ('delivery, 'signed) pass_result" where
  "run_wave env policy dispatches run n events =
     settle_wave env policy (n + length dispatches)
       (fold_wave policy (run_dispatch_wave env n dispatches)
          (run\<lparr>run_dispatches := run_dispatches run + length dispatches\<rparr>)
          (events @ map (\<lambda>(step, context). StepSelected step) dispatches))"

definition finish_failed ::
  "VotingError \<Rightarrow> ('delivery, 'signed) Run \<Rightarrow> drive_world \<Rightarrow> ('delivery, 'signed) pass_result" where
  "finish_failed error run w =
     (case voting_error_kind error of
        None \<Rightarrow> PassPanicked (voting_error_text error)
      | Some kind \<Rightarrow> PassFinished (finish_run (record_plan_failure kind (voting_error_text error) run) RunFailures) w)"

definition dispatchable_steps :: "RoundPlan \<Rightarrow> Obligation list \<Rightarrow> NextStep list" where
  "dispatchable_steps host_plan obligations =
     filter (\<lambda>step. \<not> requires_background_tracking obligations step) (next_steps host_plan)"

definition select_steps ::
  "RoundDrivePolicy \<Rightarrow> NextStep list \<Rightarrow> ('delivery, 'signed) Run \<Rightarrow> NextStep list \<times> ('delivery, 'signed) Run" where
  "select_steps policy dispatchable run =
     (let awaiting = filter (\<lambda>step. step \<in> set dispatchable \<and> step_bundle_index step \<notin> set (run_skipped run))
            (run_awaiting_repoll run);
          steps = next_dispatches dispatchable (run_skipped run) awaiting (max_bundle_concurrency policy)
            (max_dispatches policy - run_dispatches run) (failure_isolation policy = SkipBundle)
      in (steps, run\<lparr>run_awaiting_repoll := filter (\<lambda>step. step \<notin> set steps) awaiting\<rparr>))"

definition dispatch_contexts ::
  "('delivery, 'signed) drive_env \<Rightarrow> nat \<Rightarrow> NextStep list \<Rightarrow> (NextStep \<times> RoundHostContext) list" where
  "dispatch_contexts env n steps = map (\<lambda>(i, step). (step, drive_context_at env (n + i))) (enumerate 0 steps)"

definition admit_wave ::
  "('delivery, 'signed) drive_env \<Rightarrow> RoundDrivePolicy \<Rightarrow> RoundPlan \<Rightarrow> Obligation list \<Rightarrow> NextStep list \<Rightarrow>
   ('delivery, 'signed) Run \<Rightarrow> nat \<Rightarrow> RoundDriveEvent list \<Rightarrow> ('delivery, 'signed) pass_result" where
  "admit_wave env policy host_plan obligations steps run n events =
     (let dispatches = dispatch_contexts env n steps;
          m = n + length steps;
          signer_handoff = missing_signer_bundles (drive_signatures_at env m (plan_round_id host_plan))
            dispatches obligations (run_skipped run);
          w = \<lparr>drive_clock = m + 2, drive_events = events\<rparr>
      in if drive_interrupted env (Suc m) then PassFinished (finish_run run RunCancelled) w
         else case signer_handoff of
           Inl error \<Rightarrow> finish_failed error run w
         | Inr bundles \<Rightarrow>
             if bundles \<noteq> [] then PassFinished (finish_run run (NeedsDelegationSignatures bundles)) w
             else run_wave env policy dispatches run (m + 2) events)"

definition dispatch_pass ::
  "('delivery, 'signed) drive_env \<Rightarrow> RoundDrivePolicy \<Rightarrow> RoundPlan \<Rightarrow> Obligation list \<Rightarrow>
   ('delivery, 'signed) Run \<Rightarrow> nat \<Rightarrow> RoundDriveEvent list \<Rightarrow> ('delivery, 'signed) pass_result" where
  "dispatch_pass env policy host_plan obligations run n events =
     (let w = \<lparr>drive_clock = Suc n, drive_events = events\<rparr>
      in if drive_interrupted env n then PassFinished (finish_run run RunCancelled) w
         else case quiesce_before_dispatch host_plan obligations run of
           Some quiescence \<Rightarrow> PassFinished (finish_run run quiescence) w
         | None \<Rightarrow>
             if run_dispatches run \<ge> max_dispatches policy
             then PassFinished (finish_run run (PassBudgetExhausted (next_steps host_plan))) w
             else let (steps, selected) = select_steps policy (dispatchable_steps host_plan obligations) run
               in if steps = [] then PassFinished (finish_run selected RunFailures) w
                  else admit_wave env policy host_plan obligations steps selected (Suc n) events)"

definition observe_plan ::
  "RoundDrivePolicy \<Rightarrow> RoundPlan \<Rightarrow> RoundObligations \<Rightarrow> ('delivery, 'signed) Run \<Rightarrow> ('delivery, 'signed) Run" where
  "observe_plan policy host_plan obligations run =
     (let baseline =
        (case run_baseline run of
           Some captured \<Rightarrow> captured
         | None \<Rightarrow>
             (case progress_baseline policy of
                BaselineRun \<Rightarrow> baseline_for_run obligations
              | BaselineSelectedChoices \<Rightarrow> baseline_for_selected_choices obligations))
      in run\<lparr>run_baseline := Some baseline, run_tally := work_tally baseline obligations,
             run_plan := Some host_plan\<rparr>)"

definition drive_pass ::
  "('delivery, 'signed) drive_env \<Rightarrow> RoundDrivePolicy \<Rightarrow> ('delivery, 'signed) Run \<Rightarrow> drive_world \<Rightarrow>
   ('delivery, 'signed) pass_result" where
  "drive_pass env policy run w =
     (let n = drive_clock w; events = drive_events w
      in if drive_interrupted env n then
           (if run_dispatches run > 0 then finish_refreshed env run (Suc n) events
            else PassFinished (finish_run run RunCancelled) \<lparr>drive_clock = Suc n, drive_events = events\<rparr>)
         else case plan_off_the_worker env (Suc n) of
           Inl error \<Rightarrow>
             (let failed = \<lparr>drive_clock = n + 3, drive_events = events\<rparr>
              in if voting_error_kind error \<noteq> None \<and> drive_interrupted env (n + 2)
                 then PassFinished (finish_run run RunCancelled) failed
                 else finish_failed error run failed)
         | Inr (host_plan, obligations) \<Rightarrow>
             (let observed = observe_plan policy host_plan obligations run
              in dispatch_pass env policy host_plan (round_obligations obligations) observed (n + 2)
                   (events @ [PlanRefreshed host_plan (run_tally observed)])))"

end
