(* ===== verification/Drive_Passes.thy ===== *)
theory Drive_Passes
  imports Drive_Loop "HOL-Library.Sublist"
begin

text \<open>
  The passes of the round driver: what a selection may contain, what folding a wave changes, the ways
  a pass can end, and the loop itself with its termination. Every pass that does not end the run
  dispatches at least one step, so the dispatch budget bounds the loop.
\<close>

named_theorems drive_simps

section \<open>Selection\<close>

lemma candidates_fold:
  assumes "distinct ordered"
  shows "distinct (foldl (\<lambda>ordered x. if P x \<and> x \<notin> set ordered then ordered @ [x] else ordered) ordered xs) \<and>
    set (foldl (\<lambda>ordered x. if P x \<and> x \<notin> set ordered then ordered @ [x] else ordered) ordered xs) =
      set ordered \<union> {x\<in>set xs. P x}"
  using assms
proof (induction xs arbitrary: ordered)
  case (Cons x xs)
  show ?case
    using Cons.IH [of "if P x \<and> x \<notin> set ordered then ordered @ [x] else ordered"] Cons.prems
    by (cases "P x \<and> x \<notin> set ordered") auto
qed simp

lemma dispatch_candidates_eq:
  "distinct (dispatch_candidates steps skipped preferred) \<and>
   set (dispatch_candidates steps skipped preferred) = {s\<in>set steps. step_bundle_index s \<notin> set skipped}"
  using candidates_fold [of "[]" "\<lambda>s. s \<in> set steps \<and> step_bundle_index s \<notin> set skipped" "preferred @ steps"]
  by (auto simp: dispatch_candidates_def conj_assoc)

lemma bundle_wave_sound:
  assumes "set bundles = step_bundle_index ` set selected" "distinct (map step_bundle_index selected)"
    and "\<forall>s\<in>set selected. lock_scope s = ScopeBundle" "length selected < limit"
  shows "set (bundle_wave limit ordered bundles selected) \<subseteq> set selected \<union> set ordered \<and>
    distinct (map step_bundle_index (bundle_wave limit ordered bundles selected)) \<and>
    (\<forall>s\<in>set (bundle_wave limit ordered bundles selected). lock_scope s = ScopeBundle) \<and>
    length (bundle_wave limit ordered bundles selected) \<le> limit"
  using assms
proof (induction limit ordered bundles selected rule: bundle_wave.induct)
  case (2 limit step ordered bundles selected)
  consider "lock_scope step = ScopeRound" | "lock_scope step = ScopeBundle" "step_bundle_index step \<in> set bundles"
    | "lock_scope step = ScopeBundle" "step_bundle_index step \<notin> set bundles" "Suc (length selected) = limit"
    | "lock_scope step = ScopeBundle" "step_bundle_index step \<notin> set bundles" "Suc (length selected) \<noteq> limit"
    by (cases "lock_scope step") blast+
  then show ?case
  proof cases
    case 2
    then show ?thesis
      using "2.IH"(1) "2.prems" by (simp add: le_supI1 subset_insertI2)
  next
    case 4
    then have "set (bundle_wave limit ordered (bundles @ [step_bundle_index step]) (selected @ [step]))
        \<subseteq> set (selected @ [step]) \<union> set ordered \<and>
      distinct (map step_bundle_index (bundle_wave limit ordered (bundles @ [step_bundle_index step]) (selected @ [step]))) \<and>
      (\<forall>s\<in>set (bundle_wave limit ordered (bundles @ [step_bundle_index step]) (selected @ [step])). lock_scope s = ScopeBundle) \<and>
      length (bundle_wave limit ordered (bundles @ [step_bundle_index step]) (selected @ [step])) \<le> limit"
      using "2.prems" by (intro "2.IH"(2)) auto
    then show ?thesis
      using 4 by simp
  qed (use "2.prems" in auto)
qed auto

lemma bundle_wave_nonempty: "selected \<noteq> [] \<Longrightarrow> bundle_wave limit ordered bundles selected \<noteq> []"
  by (induction limit ordered bundles selected rule: bundle_wave.induct) auto

lemma bundle_wave_start:
  "lock_scope first \<noteq> ScopeRound \<Longrightarrow> bundle_wave limit (first # rest) [] [] \<noteq> []"
  by (simp add: bundle_wave_nonempty)

lemma next_dispatches_empty:
  "next_dispatches steps skipped preferred concurrency budget concurrent = [] \<longleftrightarrow>
   budget = 0 \<or> (\<forall>s\<in>set steps. step_bundle_index s \<in> set skipped)"
proof -
  have "dispatch_candidates steps skipped preferred = [] \<longleftrightarrow> (\<forall>s\<in>set steps. step_bundle_index s \<in> set skipped)"
    using dispatch_candidates_eq [of steps skipped preferred] by (auto simp flip: set_empty)
  then show ?thesis
    using bundle_wave_start by (auto simp: next_dispatches_def split: list.splits)
qed

lemma next_dispatches_sound:
  assumes "0 < concurrency" and wave_def: "wave = next_dispatches steps skipped preferred concurrency budget concurrent"
  shows "set wave \<subseteq> {s\<in>set steps. step_bundle_index s \<notin> set skipped}"
    and "distinct (map step_bundle_index wave)" and "length wave \<le> min concurrency budget"
    and "length wave \<le> 1 \<or> concurrent \<and> (\<forall>s\<in>set wave. lock_scope s = ScopeBundle)"
proof -
  have "set wave \<subseteq> {s\<in>set steps. step_bundle_index s \<notin> set skipped} \<and> distinct (map step_bundle_index wave) \<and>
    length wave \<le> min concurrency budget \<and> (length wave \<le> 1 \<or> concurrent \<and> (\<forall>s\<in>set wave. lock_scope s = ScopeBundle))"
  proof (cases "dispatch_candidates steps skipped preferred")
    case Nil
    then show ?thesis
      by (simp add: wave_def next_dispatches_def)
  next
    case (Cons first rest)
    then have candidates: "set (first # rest) = {s\<in>set steps. step_bundle_index s \<notin> set skipped}"
      using dispatch_candidates_eq [of steps skipped preferred] by simp
    show ?thesis
    proof (cases "budget = 0 \<or> lock_scope first = ScopeRound \<or> \<not> concurrent")
      case True
      then show ?thesis
        using candidates assms(1) Cons by (auto simp: wave_def next_dispatches_def)
    next
      case False
      then have wave: "wave = bundle_wave (min concurrency budget) (first # rest) [] []" "0 < min concurrency budget"
        using Cons assms(1) by (simp_all add: wave_def next_dispatches_def del: bundle_wave.simps)
      have "set wave \<subseteq> set [] \<union> set (first # rest) \<and> distinct (map step_bundle_index wave) \<and>
        (\<forall>s\<in>set wave. lock_scope s = ScopeBundle) \<and> length wave \<le> min concurrency budget"
        unfolding wave(1) by (rule bundle_wave_sound) (use wave(2) in simp_all)
      then show ?thesis
        using candidates False by auto
    qed
  qed
  then show "set wave \<subseteq> {s\<in>set steps. step_bundle_index s \<notin> set skipped}"
    and "distinct (map step_bundle_index wave)" and "length wave \<le> min concurrency budget"
    and "length wave \<le> 1 \<or> concurrent \<and> (\<forall>s\<in>set wave. lock_scope s = ScopeBundle)"
    by blast+
qed

section \<open>Handoff of background shares\<close>

lemma those_Some: "those xs = Some ys \<longleftrightarrow> xs = map Some ys"
proof (induction xs arbitrary: ys)
  case (Cons x xs)
  then show ?case
    by (cases x; cases ys; cases "those xs") auto
qed auto

lemma background_share_Some:
  "background_share obligations step = Some share \<Longrightarrow> requires_background_tracking obligations step"
  by (cases step) (auto split: if_splits)

lemma background_share_None:
  "background_share obligations step = None \<longleftrightarrow> \<not> requires_background_tracking obligations step"
  by (cases step) auto

lemma those_None: "those xs = None \<longleftrightarrow> None \<in> set xs"
proof (induction xs)
  case (Cons x xs)
  then show ?case
    by (cases x) auto
qed simp

lemma handoff_None:
  "background_share_handoff host_plan obligations skipped = None \<longleftrightarrow>
   (\<exists>s\<in>set (dispatchable_steps host_plan obligations). step_bundle_index s \<notin> set skipped)"
  unfolding background_share_handoff_def those_None dispatchable_steps_def
  using background_share_None [of obligations] by (auto simp: image_iff eq_commute [of None])

lemma quiesce_None:
  "quiesce_before_dispatch host_plan obligations run = None \<longleftrightarrow>
   (\<exists>s\<in>set (dispatchable_steps host_plan obligations). step_bundle_index s \<notin> set (run_skipped run))"
  by (simp add: quiesce_before_dispatch_def flip: handoff_None split: option.splits)

section \<open>Folding\<close>

lemma finish_run_simps [simp]:
  "report_quiescence (finish_run run q) = q" "report_plan (finish_run run q) = run_plan run"
  "report_tally (finish_run run q) = run_tally run" "report_failures (finish_run run q) = run_failures run"
  "report_skipped_bundles (finish_run run q) = run_skipped run"
  by (simp_all add: finish_run_def)

lemma record_failure_simps [simp]:
  "run_dispatches (record_failure step b failure run) = run_dispatches run"
  "run_plan (record_failure step b failure run) = run_plan run"
  "run_tally (record_failure step b failure run) = run_tally run"
  "run_baseline (record_failure step b failure run) = run_baseline run"
  "run_skipped (record_failure step b failure run) = run_skipped run"
  "run_repoll (record_failure step b failure run) = run_repoll run"
  "run_awaiting_repoll (record_failure step b failure run) = run_awaiting_repoll run"
  "run_failures (record_failure step b failure run) =
     run_failures run @ [\<lparr>failed_step = step, failed_bundle_index = b, recorded_failure = failure\<rparr>]"
  by (simp_all add: record_failure_def)

text \<open>What folding one wave keeps of the run, and how its events and failures relate.\<close>

definition same_plan :: "('delivery, 'signed) Run \<Rightarrow> ('delivery, 'signed) Run \<Rightarrow> bool" where
  "same_plan run run' \<longleftrightarrow>
     run_dispatches run' = run_dispatches run \<and> run_plan run' = run_plan run \<and> run_tally run' = run_tally run \<and>
     run_baseline run' = run_baseline run"

fun selects :: "RoundDriveEvent \<Rightarrow> bool" where
  "selects (StepSelected step) = True"
| "selects (PlanRefreshed host_plan tally) = True"
| "selects _ = False"

fun failed_bundle :: "RoundDriveEvent \<Rightarrow> u32 option" where
  "failed_bundle (StepFailed step kind message) = Some (step_bundle_index step)"
| "failed_bundle _ = None"

definition failed_bundles :: "RoundDriveEvent list \<Rightarrow> u32 set" where
  "failed_bundles events = set (List.map_filter failed_bundle events)"

lemma failed_bundles_simps [simp]:
  "failed_bundles [] = {}" "failed_bundles (xs @ ys) = failed_bundles xs \<union> failed_bundles ys"
  "failed_bundles (e # es) = set_option (failed_bundle e) \<union> failed_bundles es"
  by (auto simp: failed_bundles_def List.map_filter_def)

text \<open>The failures a log reports and the bundles it skips, in order, and how a ledger lists a failure.\<close>

fun failure_event :: "RoundDriveEvent \<Rightarrow> (NextStep \<times> RoundStepFailureKind \<times> rust_str) option" where
  "failure_event (StepFailed step kind message) = Some (step, kind, message)"
| "failure_event _ = None"

definition failure_log :: "RoundDriveEvent list \<Rightarrow> (NextStep \<times> RoundStepFailureKind \<times> rust_str) list" where
  "failure_log events = List.map_filter failure_event events"

definition isolated_bundles :: "RoundDrivePolicy \<Rightarrow> RoundDriveEvent list \<Rightarrow> u32 list" where
  "isolated_bundles policy events =
     (if failure_isolation policy = SkipBundle then map (\<lambda>(step, _, _). step_bundle_index step) (failure_log events) else [])"

definition failure_entry ::
  "('delivery, 'signed) RoundStepFailureRecord \<Rightarrow> (NextStep \<times> RoundStepFailureKind \<times> rust_str) option" where
  "failure_entry entry =
     map_option (\<lambda>step. (step, step_failure_kind (recorded_failure entry), step_failure_message (recorded_failure entry)))
       (failed_step entry)"

lemma failure_log_simps [simp]:
  "failure_log [] = []" "failure_log (xs @ ys) = failure_log xs @ failure_log ys"
  "failure_log (e # es) = (case failure_event e of None \<Rightarrow> [] | Some entry \<Rightarrow> [entry]) @ failure_log es"
  by (auto simp: failure_log_def List.map_filter_def split: option.splits)

lemma isolated_bundles_append [simp]:
  "isolated_bundles policy (xs @ ys) = isolated_bundles policy xs @ isolated_bundles policy ys"
  by (simp add: isolated_bundles_def)

lemma isolated_bundles_quiet: "failure_log es = [] \<Longrightarrow> isolated_bundles policy es = []"
  by (simp add: isolated_bundles_def)

lemma failed_bundles_log: "failed_bundles events = (\<lambda>(step, _, _). step_bundle_index step) ` set (failure_log events)"
proof (induction events)
  case (Cons e es)
  then show ?case
    by (cases e) auto
qed simp

lemma isolated_bundles_set:
  "failure_isolation policy = SkipBundle \<Longrightarrow> set (isolated_bundles policy events) = failed_bundles events"
  by (simp add: isolated_bundles_def failed_bundles_log)

fun stops_wave :: "RoundQuiescence \<Rightarrow> bool" where
  "stops_wave RunCancelled = True"
| "stops_wave RunFailures = True"
| "stops_wave (RunChainTerminal step outcome) = True"
| "stops_wave (ChainRecoveryStalled step outcome) = True"
| "stops_wave _ = False"

definition wave_delta ::
  "RoundDrivePolicy \<Rightarrow> RoundDriveEvent list \<Rightarrow> ('delivery, 'signed) RoundStepFailureRecord list \<Rightarrow> u32 list \<Rightarrow>
   RoundQuiescence option \<Rightarrow> bool" where
  "wave_delta policy es fs bs quiescence \<longleftrightarrow>
     (\<forall>e\<in>set es. \<not> selects e) \<and>
     bs = isolated_bundles policy es \<and> subseq (map Some (failure_log es)) (map failure_entry fs) \<and>
     (failure_isolation policy \<noteq> SkipBundle \<and> failure_log es \<noteq> [] \<longrightarrow> quiescence \<noteq> None) \<and>
     (quiescence = Some RunFailures \<longrightarrow> fs \<noteq> []) \<and> (\<forall>q. quiescence = Some q \<longrightarrow> stops_wave q)"

lemma wave_delta_failed_bundles:
  assumes "wave_delta policy es fs bs None"
  shows "failed_bundles es \<subseteq> set bs"
proof (cases "failure_isolation policy = SkipBundle")
  case True
  then show ?thesis
    using assms isolated_bundles_set [OF True] by (simp add: wave_delta_def)
next
  case False
  then have "failure_log es = []"
    using assms by (auto simp: wave_delta_def)
  then show ?thesis
    by (simp add: failed_bundles_log)
qed

text \<open>A run that stops for a chain outcome has recorded that outcome.\<close>

fun stop_outcome :: "RoundQuiescence \<Rightarrow> (NextStep \<times> ChainSubmissionResult) option" where
  "stop_outcome (RunChainTerminal step outcome) = Some (step, outcome)"
| "stop_outcome (ChainRecoveryStalled step outcome) = Some (step, outcome)"
| "stop_outcome _ = None"

definition outcome_recorded :: "RoundQuiescence option \<Rightarrow> ('delivery, 'signed) Run \<Rightarrow> bool" where
  "outcome_recorded quiescence run \<longleftrightarrow>
     (\<forall>q entry. quiescence = Some q \<longrightarrow> stop_outcome q = Some entry \<longrightarrow> entry \<in> set (run_chain_outcomes run))"

lemma outcome_recorded_mono:
  "outcome_recorded quiescence run \<Longrightarrow> set (run_chain_outcomes run) \<subseteq> set (run_chain_outcomes run') \<Longrightarrow>
   outcome_recorded quiescence run'"
  by (auto simp: outcome_recorded_def)

definition wave_effect ::
  "RoundDrivePolicy \<Rightarrow> ('delivery, 'signed) Run \<Rightarrow> RoundDriveEvent list \<Rightarrow>
   ('delivery, 'signed) Run \<times> RoundDriveEvent list \<times> RoundQuiescence option \<Rightarrow> bool" where
  "wave_effect policy run events folded \<longleftrightarrow>
     (case folded of (run', events', quiescence) \<Rightarrow>
        same_plan run run' \<and> outcome_recorded quiescence run' \<and>
        (\<exists>es fs bs. events' = events @ es \<and> run_failures run' = run_failures run @ fs \<and>
           run_skipped run' = run_skipped run @ bs \<and> wave_delta policy es fs bs quiescence))"

lemma wave_effectI:
  "same_plan run run' \<Longrightarrow> outcome_recorded quiescence run' \<Longrightarrow> events' = events @ es \<Longrightarrow> run_failures run' = run_failures run @ fs \<Longrightarrow>
   run_skipped run' = run_skipped run @ bs \<Longrightarrow> wave_delta policy es fs bs quiescence \<Longrightarrow>
   wave_effect policy run events (run', events', quiescence)"
  by (auto simp: wave_effect_def)

lemma settle_outcome_effect:
  assumes "settle_outcome step disposition outcome delay run = (run', quiescence)"
  obtains fs where "same_plan run run'" "run_skipped run' = run_skipped run"
    "run_failures run' = run_failures run @ fs" "quiescence = Some RunFailures \<longrightarrow> fs \<noteq> []"
    "\<forall>q. quiescence = Some q \<longrightarrow> stops_wave q" "set (run_chain_outcomes run) \<subseteq> set (run_chain_outcomes run')"
    "outcome = None \<or> (step, the outcome) \<in> set (run_chain_outcomes run) \<Longrightarrow> outcome_recorded quiescence run'"
  using assms
  by (cases outcome)
    (auto simp: settle_outcome_def same_plan_def outcome_recorded_def record_failure_def
      split: RoundStepDisposition.splits if_splits)

lemma fold_result_effect:
  assumes "wave_effect policy run events folded"
  shows "wave_effect policy run events (fold_result policy result folded)"
proof -
  obtain run1 events1 q1 where folded: "folded = (run1, events1, q1)"
    by (cases folded)
  obtain step r where result: "result = (step, r)"
    by (cases result)
  obtain es fs bs where before: "same_plan run run1" "outcome_recorded q1 run1" "events1 = events @ es" "run_failures run1 = run_failures run @ fs"
    "run_skipped run1 = run_skipped run @ bs" and delta: "wave_delta policy es fs bs q1"
    using assms unfolding folded wave_effect_def by auto
  show ?thesis
  proof (cases r)
    case (Inl failure)
    let ?failed = "StepFailed step (step_failure_kind failure) (step_failure_message failure)"
    let ?entry = "\<lparr>failed_step = Some step, failed_bundle_index = Some (step_bundle_index step), recorded_failure = failure\<rparr>"
    show ?thesis
    proof (cases "failure_isolation policy")
      case SkipBundle
      then have "wave_delta policy (es @ [?failed, BundleSkipped (step_bundle_index step) step]) (fs @ [?entry])
          (bs @ [step_bundle_index step]) q1"
        using delta by (auto simp: wave_delta_def isolated_bundles_def failure_entry_def)
      moreover have "outcome_recorded q1 (record_failure (Some step) (Some (step_bundle_index step)) failure run1
          \<lparr>run_skipped := run_skipped run1 @ [step_bundle_index step]\<rparr>)"
        using before(2) by (rule outcome_recorded_mono) (simp add: record_failure_def)
      ultimately show ?thesis
        unfolding folded result Inl using before SkipBundle
        by (auto simp: Let_def same_plan_def intro!: wave_effectI)
    next
      case StopRound
      then have "wave_delta policy (es @ [?failed]) (fs @ [?entry]) bs (get_or_insert q1 RunFailures)"
        using delta by (auto simp: wave_delta_def isolated_bundles_def failure_entry_def get_or_insert_def split: option.splits)
      moreover have "outcome_recorded (get_or_insert q1 RunFailures)
          (record_failure (Some step) (Some (step_bundle_index step)) failure run1)"
        using before(2) by (auto simp: outcome_recorded_def get_or_insert_def record_failure_def split: option.splits)
      ultimately show ?thesis
        unfolding folded result Inl using before StopRound
        by (auto simp: Let_def same_plan_def intro!: wave_effectI)
    qed
  next
    case (Inr outcome)
    let ?finished = "StepFinished step (outcome_disposition outcome)"
    obtain run2 q2 where settled: "record_outcome step outcome (drive_pending_repoll policy) run1 = (run2, q2)"
      by (cases "record_outcome step outcome (drive_pending_repoll policy) run1")
    let ?q = "case q2 of None \<Rightarrow> q1 | Some q \<Rightarrow> get_or_insert q1 q"
    obtain gs where settle: "same_plan run1 run2" "run_skipped run2 = run_skipped run1" "run_failures run2 = run_failures run1 @ gs"
      and q2: "q2 = Some RunFailures \<longrightarrow> gs \<noteq> []" "\<forall>q. q2 = Some q \<longrightarrow> stops_wave q"
      and chain: "set (run_chain_outcomes run1) \<subseteq> set (run_chain_outcomes run2)" "outcome_recorded q2 run2"
      using settled unfolding record_outcome_def
      by (rule settle_outcome_effect) (cases "outcome_chain_outcome outcome"; simp add: same_plan_def opt_list_def)
    have "outcome_recorded ?q run2"
      using chain outcome_recorded_mono [OF before(2) chain(1)]
      by (auto simp: outcome_recorded_def get_or_insert_def split: option.splits)
    moreover
    have "subseq (map Some (failure_log es)) (map failure_entry (fs @ gs))"
      using delta by (simp add: wave_delta_def list_emb_append_mono [of _ _ _ "[]", simplified])
    then have "wave_delta policy (es @ [?finished]) (fs @ gs) bs ?q"
      using delta q2 by (cases q1; cases q2) (auto simp: wave_delta_def get_or_insert_def isolated_bundles_quiet)
    ultimately show ?thesis
      unfolding folded result Inr using before settle
      by (auto simp: settled same_plan_def intro!: wave_effectI)
  qed
qed

lemma fold_wave_effect:
  assumes "fold_wave policy results run events = (run', events', quiescence)"
  obtains es fs bs where "same_plan run run'" "outcome_recorded quiescence run'" "events' = events @ es" "run_failures run' = run_failures run @ fs"
    "run_skipped run' = run_skipped run @ bs" "wave_delta policy es fs bs quiescence"
proof -
  have "wave_effect policy run events (fold (fold_result policy) results (run, events, None))"
  proof (rule fold_invariant [where Q = "\<lambda>_. True"])
    show "wave_effect policy run events (run, events, None)"
      by (rule wave_effectI [where es = "[]" and fs = "[]" and bs = "[]"]) (simp_all add: same_plan_def wave_delta_def outcome_recorded_def isolated_bundles_def)
  qed (simp_all add: fold_result_effect)
  then show thesis
    using that assms by (auto simp: fold_wave_def wave_effect_def)
qed

section \<open>How a pass ends\<close>

lemma drive_pass_cases:
  assumes "drive_pass env policy run w = result"
  obtains (interrupted) "drive_interrupted env (drive_clock w)" "0 < run_dispatches run"
        "result = finish_refreshed env run (Suc (drive_clock w)) (drive_events w)"
    | (untouched) "drive_interrupted env (drive_clock w)" "run_dispatches run = 0"
        "result = PassFinished (finish_run run RunCancelled)
           \<lparr>drive_clock = Suc (drive_clock w), drive_events = drive_events w\<rparr>"
    | (abandoned) error where "plan_off_the_worker env (Suc (drive_clock w)) = Inl error"
        "result = PassFinished (finish_run run RunCancelled)
           \<lparr>drive_clock = drive_clock w + 3, drive_events = drive_events w\<rparr>"
    | (unplanned) error where "plan_off_the_worker env (Suc (drive_clock w)) = Inl error"
        "voting_error_kind error = None \<or> \<not> drive_interrupted env (drive_clock w + 2)"
        "result = finish_failed error run \<lparr>drive_clock = drive_clock w + 3, drive_events = drive_events w\<rparr>"
    | (planned) host_plan obls observed where
        "plan_off_the_worker env (Suc (drive_clock w)) = Inr (host_plan, obls)"
        "observed = observe_plan policy host_plan obls run"
        "result = dispatch_pass env policy host_plan (round_obligations obls) observed (drive_clock w + 2)
           (drive_events w @ [PlanRefreshed host_plan (run_tally observed)])"
proof (cases "plan_off_the_worker env (Suc (drive_clock w))")
  case (Inl error)
  then show thesis
    using assms interrupted untouched abandoned unplanned
    by (auto simp: drive_pass_def Let_def split: if_splits)
next
  case (Inr read)
  then show thesis
    using assms interrupted untouched planned [of "fst read" "snd read"]
    by (cases read) (auto simp: drive_pass_def Let_def split: if_splits)
qed

lemma select_steps_nonempty:
  assumes "quiesce_before_dispatch host_plan obligations run = None" "run_dispatches run < max_dispatches policy"
    and "select_steps policy (dispatchable_steps host_plan obligations) run = (steps, selected)"
  shows "steps \<noteq> []"
  using assms by (auto simp: select_steps_def Let_def quiesce_None next_dispatches_empty)

lemma dispatch_pass_cases:
  assumes "dispatch_pass env policy host_plan obligations run n events = result"
  obtains (cancelled) "result = PassFinished (finish_run run RunCancelled) \<lparr>drive_clock = Suc n, drive_events = events\<rparr>"
    | (quiet) quiescence where "quiesce_before_dispatch host_plan obligations run = Some quiescence"
        "\<not> drive_interrupted env n"
        "result = PassFinished (finish_run run quiescence) \<lparr>drive_clock = Suc n, drive_events = events\<rparr>"
    | (exhausted) "quiesce_before_dispatch host_plan obligations run = None"
        "max_dispatches policy \<le> run_dispatches run" "\<not> drive_interrupted env n"
        "result = PassFinished (finish_run run (PassBudgetExhausted (next_steps host_plan)))
           \<lparr>drive_clock = Suc n, drive_events = events\<rparr>"
    | (wave) steps selected where "quiesce_before_dispatch host_plan obligations run = None"
        "run_dispatches run < max_dispatches policy" "steps \<noteq> []"
        "select_steps policy (dispatchable_steps host_plan obligations) run = (steps, selected)"
        "result = admit_wave env policy host_plan obligations steps selected (Suc n) events"
proof -
  obtain steps selected where pick: "select_steps policy (dispatchable_steps host_plan obligations) run = (steps, selected)"
    by (cases "select_steps policy (dispatchable_steps host_plan obligations) run")
  show thesis
    using assms cancelled quiet exhausted wave [OF _ _ _ pick] select_steps_nonempty [OF _ _ pick]
    by (auto simp: dispatch_pass_def Let_def pick split: if_splits option.splits)
qed

lemma admit_wave_cases:
  assumes "admit_wave env policy host_plan obligations steps run n events = result"
  obtains (cancelled) "result = PassFinished (finish_run run RunCancelled)
        \<lparr>drive_clock = n + length steps + 2, drive_events = events\<rparr>"
    | (unread) error where "\<not> drive_interrupted env (Suc (n + length steps))"
        "missing_signer_bundles (drive_signatures_at env (n + length steps) (plan_round_id host_plan))
           (dispatch_contexts env n steps) obligations (run_skipped run) = Inl error"
        "result = finish_failed error run \<lparr>drive_clock = n + length steps + 2, drive_events = events\<rparr>"
    | (unsigned) bundles where "\<not> drive_interrupted env (Suc (n + length steps))" "bundles \<noteq> []"
        "missing_signer_bundles (drive_signatures_at env (n + length steps) (plan_round_id host_plan))
           (dispatch_contexts env n steps) obligations (run_skipped run) = Inr bundles"
        "result = PassFinished (finish_run run (NeedsDelegationSignatures bundles))
           \<lparr>drive_clock = n + length steps + 2, drive_events = events\<rparr>"
    | (dispatched) "\<not> drive_interrupted env (Suc (n + length steps))"
        "missing_signer_bundles (drive_signatures_at env (n + length steps) (plan_round_id host_plan))
           (dispatch_contexts env n steps) obligations (run_skipped run) = Inr []"
        "result = run_wave env policy (dispatch_contexts env n steps) run (n + length steps + 2) events"
  using assms cancelled unread unsigned dispatched
  by (auto simp: admit_wave_def Let_def split: if_splits sum.splits)

lemma sleep_clock: "sleep_until_interrupted env n wakes = (awake, m) \<Longrightarrow> awake \<longleftrightarrow> \<not> drive_interrupted env (m - 1)"
  by (induction env n wakes rule: sleep_until_interrupted.induct) (auto split: if_splits)

lemma settle_wave_cases:
  assumes "settle_wave env policy n (run, events, wave_quiescence) = result"
  obtains (cancelled) m run' waits where "result = finish_refreshed env run' m (events @ waits)"
        "same_plan run run'" "run_failures run' = run_failures run" "run_skipped run' = run_skipped run"
        "\<forall>e\<in>set waits. \<exists>s d. e = AwaitingRepoll s d"
    | (stopped) quiescence where "wave_quiescence = Some quiescence"
        "result = (case refresh_progress env (Suc n) run of
               Inl message \<Rightarrow> PassPanicked message
             | Inr refreshed \<Rightarrow>
                 PassFinished
                   (finish_run refreshed (if drive_interrupted env (n + 2) then RunCancelled else quiescence))
                   \<lparr>drive_clock = n + 3, drive_events = events\<rparr>)"
    | (again) run' m waits where "wave_quiescence = None" "same_plan run run'" "run_failures run' = run_failures run"
        "run_skipped run' = run_skipped run" "\<forall>e\<in>set waits. \<exists>s d. e = AwaitingRepoll s d"
        "result = PassContinues run' \<lparr>drive_clock = m, drive_events = events @ waits\<rparr>"
proof (cases "wave_quiescence = None \<and> \<not> drive_interrupted env n \<and> run_dispatches run < max_dispatches policy \<and> run_repoll run \<noteq> []")
  case True
  let ?waits = "map (\<lambda>(step, delay). AwaitingRepoll step delay) (run_repoll run)"
  obtain awake m where sleep: "sleep_until_interrupted env (Suc n) (drive_wakes_at env (Suc n)) = (awake, m)"
    by (cases "sleep_until_interrupted env (Suc n) (drive_wakes_at env (Suc n))")
  have result: "result = await_repolls env run (Suc n) events"
    using True assms by (auto simp: settle_wave_def)
  have waits: "\<forall>e\<in>set ?waits. \<exists>s d. e = AwaitingRepoll s d"
    by auto
  show thesis
  proof (cases awake)
    case True
    then show thesis
      using again [of "run\<lparr>run_repoll := [], run_awaiting_repoll := run_awaiting_repoll run @ map fst (run_repoll run)\<rparr>",
          OF _ _ _ _ waits] sleep \<open>wave_quiescence = None \<and> _\<close>
      by (simp add: result await_repolls_def same_plan_def Let_def)
  next
    case False
    then show thesis
      using cancelled [OF _ _ _ _ waits] sleep by (simp add: result await_repolls_def same_plan_def Let_def)
  qed
next
  case False
  consider "drive_interrupted env n" | q where "\<not> drive_interrupted env n" "wave_quiescence = Some q"
    | "\<not> drive_interrupted env n" "wave_quiescence = None" "max_dispatches policy \<le> run_dispatches run"
    | "\<not> drive_interrupted env n" "wave_quiescence = None" "run_dispatches run < max_dispatches policy" "run_repoll run = []"
    using False by (cases "drive_interrupted env n"; cases wave_quiescence; cases "run_dispatches run < max_dispatches policy") auto
  then show thesis
  proof cases
    case 1
    then show thesis
      using assms cancelled [of run "Suc n" "[]"] by (simp add: settle_wave_def same_plan_def)
  next
    case 2
    then show thesis
      using assms stopped by (simp add: settle_wave_def)
  next
    case 3
    then show thesis
      using assms again [of "run\<lparr>run_repoll := []\<rparr>" "[]" "Suc n"] by (simp add: settle_wave_def same_plan_def)
  next
    case 4
    then show thesis
      using assms again [of run "[]" "Suc n"] by (simp add: settle_wave_def same_plan_def)
  qed
qed

lemma finish_not_continues [simp]:
  "finish_refreshed env run n events \<noteq> PassContinues run' w'" "finish_failed error run w \<noteq> PassContinues run' w'"
  "PassContinues run' w' \<noteq> finish_refreshed env run n events" "PassContinues run' w' \<noteq> finish_failed error run w"
  by (auto simp: finish_refreshed_def finish_failed_def split: sum.splits option.splits)

lemma dispatch_contexts_simps [simp]:
  "length (dispatch_contexts env n steps) = length steps"
  "map (\<lambda>(step, context). StepSelected step) (dispatch_contexts env n steps) = map StepSelected steps"
proof -
  have "map (\<lambda>p. StepSelected (snd p)) (enumerate 0 steps) = map StepSelected (map snd (enumerate 0 steps))"
    by (simp only: map_map comp_def)
  then show "map (\<lambda>(step, context). StepSelected step) (dispatch_contexts env n steps) = map StepSelected steps"
    by (simp add: dispatch_contexts_def comp_def case_prod_unfold)
qed (simp add: dispatch_contexts_def)

lemma select_steps_simps:
  assumes "select_steps policy dispatchable run = (steps, selected)"
  shows "same_plan run selected" "run_failures selected = run_failures run" "run_skipped selected = run_skipped run"
  using assms by (auto simp: select_steps_def Let_def same_plan_def)

lemma observe_plan_simps [simp]:
  "run_dispatches (observe_plan policy host_plan obls run) = run_dispatches run"
  "run_failures (observe_plan policy host_plan obls run) = run_failures run"
  "run_skipped (observe_plan policy host_plan obls run) = run_skipped run"
  "run_plan (observe_plan policy host_plan obls run) = Some host_plan"
  by (simp_all add: observe_plan_def Let_def)

section \<open>The loop\<close>

lemma drive_pass_progress:
  assumes "drive_pass env policy run w = PassContinues run' w'"
  shows "run_dispatches run < max_dispatches policy \<and> run_dispatches run < run_dispatches run'"
  using assms
proof (cases rule: drive_pass_cases)
  case (planned host_plan obls observed)
  from planned(3) [symmetric] show ?thesis
  proof (cases rule: dispatch_pass_cases)
    case (wave steps selected)
    from wave(5) [symmetric] show ?thesis
    proof (cases rule: admit_wave_cases)
      case dispatched
      let ?n = "Suc (drive_clock w + 2)"
      let ?start = "selected\<lparr>run_dispatches := run_dispatches selected + length steps\<rparr>"
      obtain run1 events1 q where folded: "fold_wave policy (run_dispatch_wave env (?n + length steps + 2) (dispatch_contexts env ?n steps))
          ?start ((drive_events w @ [PlanRefreshed host_plan (run_tally observed)]) @ map StepSelected steps) = (run1, events1, q)"
        by (metis prod_cases3)
      then have "settle_wave env policy (?n + length steps + 2 + length steps) (run1, events1, q) = PassContinues run' w'"
        using dispatched(3) by (simp add: run_wave_def)
      then have "same_plan run1 run'"
        by (cases rule: settle_wave_cases) (auto split: sum.splits)
      moreover have "same_plan ?start run1"
        using folded by (rule fold_wave_effect)
      ultimately show ?thesis
        using wave select_steps_simps [OF wave(4)] by (simp add: same_plan_def planned(2))
    qed auto
  qed auto
qed auto

function drive_loop ::
  "('delivery, 'signed) drive_env \<Rightarrow> RoundDrivePolicy \<Rightarrow> ('delivery, 'signed) Run \<Rightarrow> drive_world \<Rightarrow>
   rust_str + ('delivery, 'signed) RoundRunReport \<times> drive_world" where
  "drive_loop env policy run w =
     (case drive_pass env policy run w of
        PassFinished report w' \<Rightarrow> Inr (report, w')
      | PassPanicked message \<Rightarrow> Inl message
      | PassContinues run' w' \<Rightarrow> drive_loop env policy run' w')"
  by pat_completeness auto
termination
  by (relation "measure (\<lambda>(env, policy, run, w). max_dispatches policy - run_dispatches run)")
    (auto dest!: drive_pass_progress)

definition drive ::
  "('delivery, 'signed) drive_env \<Rightarrow> RoundDrivePolicy \<Rightarrow> rust_str + ('delivery, 'signed) RoundRunReport \<times> drive_world" where
  "drive env policy = drive_loop env policy default_run \<lparr>drive_clock = 1, drive_events = []\<rparr>"

end
