(* ===== verification/Round_Obligations.thy ===== *)
theory Round_Obligations
  imports Round_Classify
begin

text \<open>
  What the rule table guarantees: which casts it plans, and that no work the chain or the helpers
  may wait for is dropped. The loops of the classifier are followed by one invariant over their
  state and by an order in which that state only grows.
\<close>

section \<open>Loops only add\<close>

definition grows :: "classify_state \<Rightarrow> classify_state \<Rightarrow> bool" where
  "grows s s' \<longleftrightarrow>
     set (cs_obligations s) \<subseteq> set (cs_obligations s') \<and> cs_withheld s \<subseteq> cs_withheld s' \<and>
     (\<forall>b ds. btree_get (cs_drafts s) b = Some ds \<longrightarrow>
        (\<exists>ds'. btree_get (cs_drafts s') b = Some ds' \<and> set ds \<subseteq> set ds'))"

lemma grows_refl [simp]: "grows s s"
  by (auto simp: grows_def)

lemma grows_trans: "grows s t \<Longrightarrow> grows t u \<Longrightarrow> grows s u"
  unfolding grows_def by (meson order_trans)

lemma get_push_draft:
  "btree_get (push_draft b d drafts) c =
     (if c = b then Some ((case btree_get drafts b of None \<Rightarrow> [] | Some ds \<Rightarrow> ds) @ [d]) else btree_get drafts c)"
  by (simp add: push_draft_def btree.get_ins)

lemma reconcile_unit_Inr:
  assumes "reconcile_unit env snapshot u s = Inr s'"
  shows "(unit_id u \<in> cs_reconciled s \<and> s' = s) \<or>
    (\<exists>h. s' = s\<lparr>cs_reconciled := insert (unit_id u) (cs_reconciled s),
       cs_obligations := cs_obligations s @ [ReconcileChain (unit_id u) (unit_bundle_index u) (unit_proposal_ids u)
         (lifecycle_position_of (Some (unit_phase u)) = Undispatched) h None]\<rparr>)"
  using assms by (auto simp: reconcile_unit_def result_simps Let_def split: if_splits option.splits)

lemma deliver_vote_Inr:
  assumes "deliver_vote env snapshot b p s = Inr s'"
  obtains (again) "(b, p) \<in> cs_delivered s" "s' = s"
    | (complete) "missing_share_indexes env snapshot b p = Inr []"
        "s' = s\<lparr>cs_delivered := insert (b, p) (cs_delivered s)\<rparr>"
    | (owed) missing position where "missing_share_indexes env snapshot b p = Inr missing" "missing \<noteq> []"
        "s' = s\<lparr>cs_delivered := insert (b, p) (cs_delivered s),
           cs_obligations := cs_obligations s @ [Deliver b p position missing None]\<rparr>"
  using assms by (auto simp: deliver_vote_def result_simps Let_def split: if_splits)

lemma grows_reconcile: "reconcile_unit env snapshot u s = Inr s' \<Longrightarrow> grows s s'"
  by (drule reconcile_unit_Inr) (auto simp: grows_def)

lemma grows_deliver: "deliver_vote env snapshot b p s = Inr s' \<Longrightarrow> grows s s'"
  by (erule deliver_vote_Inr) (auto simp: grows_def)

lemma plan_vote_cases:
  assumes "plan_vote env cc p choice b s = Inr s'"
  obtains (held) "cast_due cc p choice b" "b \<in> cc_held cc" "s' = s\<lparr>cs_withheld := insert p (cs_withheld s)\<rparr>"
    | (cast) "cast_due cc p choice b" "b \<notin> cc_held cc" "cc_terminal cc"
        "s' = s\<lparr>cs_needing_delegation := insert b (cs_needing_delegation s),
           cs_drafts := push_draft b \<lparr>draft_proposal_id = p, draft_choice = choice\<rparr> (cs_drafts s)\<rparr>"
    | (blocked) "cast_due cc p choice b" "b \<notin> cc_held cc" "\<not> cc_terminal cc"
        "s' = s\<lparr>cs_needing_delegation := insert b (cs_needing_delegation s),
           cs_blocked := insert b (cs_blocked s), cs_withheld := insert p (cs_withheld s)\<rparr>"
    | (confirmed) vote where "\<not> cast_due cc p choice b" "btree_get (snapshot_votes (cc_snapshot cc)) (b, p) = Some vote"
        "lifecycle_position_of (Some (vote_phase vote)) = PositionConfirmed" "deliver_vote env (cc_snapshot cc) b p s = Inr s'"
    | (reconcile) vote u where "\<not> cast_due cc p choice b" "btree_get (snapshot_votes (cc_snapshot cc)) (b, p) = Some vote"
        "unit_of (cc_units cc) b p = Inr u" "reconcile_unit env (cc_snapshot cc) u s = Inr s'"
        "lifecycle_position_of (Some (vote_phase vote)) = OnWire \<or>
         lifecycle_position_of (Some (vote_phase vote)) = Undispatched \<and>
           every_member_agrees (cc_snapshot cc) (cc_roster cc) b u"
    | (undecided) vote where "\<not> cast_due cc p choice b"
        "btree_get (snapshot_votes (cc_snapshot cc)) (b, p) = Some vote"
        "lifecycle_position_of (Some (vote_phase vote)) = Undispatched"
        "s' = s\<lparr>cs_withheld := insert p (cs_withheld s)\<rparr>"
    | (settled) vote where "\<not> cast_due cc p choice b" "btree_get (snapshot_votes (cc_snapshot cc)) (b, p) = Some vote"
        "lifecycle_position_of (Some (vote_phase vote)) \<in> {Terminal, Uncast}" "s' = s"
proof (cases "cast_due cc p choice b")
  case True
  then show thesis
    using assms held cast blocked by (auto simp: plan_vote_def Let_def split: if_splits)
next
  case False
  then obtain vote where vote: "btree_get (snapshot_votes (cc_snapshot cc)) (b, p) = Some vote"
    by (auto simp: cast_due_def split: option.splits)
  show thesis
    using assms False vote confirmed reconcile undecided settled
    by (cases "lifecycle_position_of (Some (vote_phase vote))")
      (auto simp: plan_vote_def Let_def result_simps split: if_splits)
qed

lemma grows_plan_vote: "plan_vote env cc p choice b s = Inr s' \<Longrightarrow> grows s s'"
  by (erule plan_vote_cases; (rule grows_reconcile, assumption | rule grows_deliver, assumption | auto simp: grows_def get_push_draft)?)

lemma grows_plan_proposal:
  assumes "plan_proposal env cc bundles p s = Inr s'"
  shows "grows s s'"
proof (cases "btree_get (snapshot_intents (cc_snapshot cc)) p")
  case (Some d)
  then show ?thesis
  proof (cases d)
    case (Choice choice)
    then have "try_fold (plan_vote env cc p choice) bundles s = Inr s'"
      using assms Some by (simp add: plan_proposal_def)
    then show ?thesis
      by (rule try_fold_mono) (auto intro: grows_trans dest: grows_plan_vote)
  qed (use assms Some in \<open>simp add: plan_proposal_def\<close>)
qed (use assms in \<open>simp add: plan_proposal_def\<close>)

lemma plan_unrostered_vote_cases:
  assumes "plan_unrostered_vote env cc ((b, p), vote) s = Inr s'"
  obtains (kept) "s' = s"
      "p \<in> cc_roster cc \<and> btree_get (snapshot_intents (cc_snapshot cc)) p \<noteq> None \<or>
       lifecycle_position_of (Some (vote_phase vote)) \<notin> {OnWire, PositionConfirmed}"
    | (wire) u where "lifecycle_position_of (Some (vote_phase vote)) = OnWire" "unit_of (cc_units cc) b p = Inr u"
        "reconcile_unit env (cc_snapshot cc) u s = Inr s'"
    | (confirmed) "lifecycle_position_of (Some (vote_phase vote)) = PositionConfirmed"
        "deliver_vote env (cc_snapshot cc) b p s = Inr s'"
proof (cases "p \<in> cc_roster cc \<and> btree_get (snapshot_intents (cc_snapshot cc)) p \<noteq> None")
  case True
  then show thesis
    using assms kept by (simp add: plan_unrostered_vote_def)
next
  case False
  then have step: "plan_unrostered_vote env cc ((b, p), vote) s =
    (case lifecycle_position_of (Some (vote_phase vote)) of
         OnWire \<Rightarrow> and_then (unit_of (cc_units cc) b p) (\<lambda>u. reconcile_unit env (cc_snapshot cc) u s)
       | PositionConfirmed \<Rightarrow> deliver_vote env (cc_snapshot cc) b p s
       | _ \<Rightarrow> Inr s)"
    by (auto simp: plan_unrostered_vote_def Let_def split: LifecyclePosition.splits)
  show thesis
    using assms kept wire confirmed unfolding step
    by (cases "lifecycle_position_of (Some (vote_phase vote))") (auto simp: and_then_eq_Inr)
qed

lemma grows_plan_unrostered_vote:
  assumes "plan_unrostered_vote env cc entry s = Inr s'"
  shows "grows s s'"
proof -
  obtain b p vote where entry: "entry = ((b, p), vote)"
    by (metis prod.exhaust)
  show ?thesis
    using assms unfolding entry
    by (rule plan_unrostered_vote_cases) (auto dest: grows_reconcile grows_deliver)
qed

section \<open>The invariant of the loops\<close>

text \<open>The three kinds of obligation the loops push.\<close>

definition planned_kind :: "planning_env \<Rightarrow> classify_context \<Rightarrow> Obligation \<Rightarrow> bool" where
  "planned_kind env cc obligation \<longleftrightarrow>
     (\<exists>u\<in>set (cc_units cc). retired_unit (cc_roster cc) u \<and> obligation = Retire (unit_id u) (unit_proposal_ids u)) \<or>
     (\<exists>u\<in>set (cc_units cc). \<exists>h. obligation = ReconcileChain (unit_id u) (unit_bundle_index u) (unit_proposal_ids u)
        (lifecycle_position_of (Some (unit_phase u)) = Undispatched) h None) \<or>
     (\<exists>b p position missing. obligation = Deliver b p position missing None \<and>
        missing_share_indexes env (cc_snapshot cc) b p = Inr missing \<and> missing \<noteq> [])"

definition draft_ok :: "classify_context \<Rightarrow> u32 list \<Rightarrow> u32 \<Rightarrow> CastDraft \<Rightarrow> bool" where
  "draft_ok cc choices b d \<longleftrightarrow>
     b \<notin> cc_held cc \<and> cc_terminal cc \<and> cast_due cc (draft_proposal_id d) (draft_choice d) b \<and>
     btree_get (snapshot_intents (cc_snapshot cc)) (draft_proposal_id d) = Some (Choice (draft_choice d)) \<and>
     draft_proposal_id d \<in> set choices"

definition delivery_planned :: "planning_env \<Rightarrow> RoundSnapshot \<Rightarrow> Obligation set \<Rightarrow> u32 \<times> u32 \<Rightarrow> bool" where
  "delivery_planned env snapshot obligations = (\<lambda>(b, p). \<exists>missing.
     missing_share_indexes env snapshot b p = Inr missing \<and>
     (missing \<noteq> [] \<longrightarrow> (\<exists>position. Deliver b p position missing None \<in> obligations)))"

definition reconcile_planned :: "planning_env \<Rightarrow> RoundSnapshot \<Rightarrow> Obligation set \<Rightarrow> VoteUnitId \<Rightarrow> bool" where
  "reconcile_planned env snapshot obligations i \<longleftrightarrow>
     (\<exists>undispatched h. ReconcileChain i (unit_id_bundle i) (unit_roster env snapshot i) undispatched h None \<in> obligations)"

definition loop_inv :: "planning_env \<Rightarrow> classify_context \<Rightarrow> u32 list \<Rightarrow> classify_state \<Rightarrow> bool" where
  "loop_inv env cc choices s \<longleftrightarrow>
     (\<forall>obligation\<in>set (cs_obligations s). planned_kind env cc obligation) \<and>
     (\<forall>i\<in>cs_reconciled s. reconcile_planned env (cc_snapshot cc) (set (cs_obligations s)) i) \<and>
     (\<forall>k\<in>cs_delivered s. delivery_planned env (cc_snapshot cc) (set (cs_obligations s)) k) \<and>
     btree_wf (cs_drafts s) \<and>
     (\<forall>b ds. btree_get (cs_drafts s) b = Some ds \<longrightarrow> ds \<noteq> [] \<and> (\<forall>d\<in>set ds. draft_ok cc choices b d))"

lemma delivery_planned_mono: "delivery_planned env snapshot A k \<Longrightarrow> A \<subseteq> B \<Longrightarrow> delivery_planned env snapshot B k"
  by (auto simp: delivery_planned_def)

lemma reconcile_planned_mono: "reconcile_planned env snapshot A i \<Longrightarrow> A \<subseteq> B \<Longrightarrow> reconcile_planned env snapshot B i"
  unfolding reconcile_planned_def by blast

lemma unit_of_Inr:
  "unit_of units b p = Inr u \<Longrightarrow> u \<in> set units \<and> unit_bundle_index u = b \<and> p \<in> set (unit_proposal_ids u)"
  by (auto simp: unit_of_def ok_or_eq_Inr find_Some_iff unit_contains_iff)

lemma loop_inv_obligation:
  assumes "loop_inv env cc choices s" "planned_kind env cc obligation"
    and "\<forall>i\<in>R - cs_reconciled s. reconcile_planned env (cc_snapshot cc) {obligation} i"
    and "\<forall>k\<in>D - cs_delivered s. delivery_planned env (cc_snapshot cc) {obligation} k"
  shows "loop_inv env cc choices (s\<lparr>cs_reconciled := R, cs_delivered := D, cs_obligations := cs_obligations s @ [obligation]\<rparr>)"
proof -
  have "reconcile_planned env (cc_snapshot cc) (insert obligation (set (cs_obligations s))) i" if "i \<in> R" for i
    using assms(1,3) that
    by (cases "i \<in> cs_reconciled s") (auto simp: loop_inv_def intro: reconcile_planned_mono)
  moreover have "delivery_planned env (cc_snapshot cc) (insert obligation (set (cs_obligations s))) k" if "k \<in> D" for k
    using assms(1,4) that
    by (cases "k \<in> cs_delivered s") (auto simp: loop_inv_def intro: delivery_planned_mono)
  ultimately show ?thesis
    using assms(1,2) by (simp add: loop_inv_def)
qed

lemma loop_inv_reconcile:
  assumes "loop_inv env cc choices s" "reconcile_unit env (cc_snapshot cc) u s = Inr s'"
    and "u \<in> set (cc_units cc)" "unit_ok env (cc_snapshot cc) u"
  shows "loop_inv env cc choices s'" and "reconcile_planned env (cc_snapshot cc) (set (cs_obligations s')) (unit_id u)"
proof -
  let ?step = "\<lambda>h. ReconcileChain (unit_id u) (unit_bundle_index u) (unit_proposal_ids u)
         (lifecycle_position_of (Some (unit_phase u)) = Undispatched) h None"
  have new: "reconcile_planned env (cc_snapshot cc) {?step h} (unit_id u)" for h
    using assms(4) by (simp add: reconcile_planned_def unit_ok_def)
  consider "unit_id u \<in> cs_reconciled s" "s' = s"
    | h where "s' = s\<lparr>cs_reconciled := insert (unit_id u) (cs_reconciled s),
       cs_obligations := cs_obligations s @ [?step h]\<rparr>"
    using reconcile_unit_Inr [OF assms(2)] by blast
  then have "loop_inv env cc choices s' \<and> reconcile_planned env (cc_snapshot cc) (set (cs_obligations s')) (unit_id u)"
  proof cases
    case 1
    then show ?thesis
      using assms(1) by (simp add: loop_inv_def)
  next
    case (2 h)
    have "planned_kind env cc (?step h)"
      using assms(3) unfolding planned_kind_def by blast
    then have "loop_inv env cc choices (s\<lparr>cs_reconciled := insert (unit_id u) (cs_reconciled s),
        cs_delivered := cs_delivered s, cs_obligations := cs_obligations s @ [?step h]\<rparr>)"
      using new by (intro loop_inv_obligation [OF assms(1)]) auto
    then show ?thesis
      using new [of h] 2 by (auto intro: reconcile_planned_mono)
  qed
  then show "loop_inv env cc choices s'" "reconcile_planned env (cc_snapshot cc) (set (cs_obligations s')) (unit_id u)"
    by blast+
qed

lemma loop_inv_deliver:
  assumes "loop_inv env cc choices s" "deliver_vote env (cc_snapshot cc) b p s = Inr s'"
  shows "loop_inv env cc choices s' \<and> delivery_planned env (cc_snapshot cc) (set (cs_obligations s')) (b, p)"
  using assms(2)
proof (cases rule: deliver_vote_Inr)
  case again
  then show ?thesis
    using assms(1) by (auto simp: loop_inv_def)
next
  case complete
  then show ?thesis
    using assms(1) by (auto simp: loop_inv_def delivery_planned_def)
next
  case (owed missing position)
  let ?step = "Deliver b p position missing None"
  have new: "delivery_planned env (cc_snapshot cc) {?step} (b, p)"
    using owed(1) by (auto simp: delivery_planned_def)
  have "planned_kind env cc ?step"
    using owed(1,2) by (auto simp: planned_kind_def)
  then have "loop_inv env cc choices (s\<lparr>cs_reconciled := cs_reconciled s,
      cs_delivered := insert (b, p) (cs_delivered s), cs_obligations := cs_obligations s @ [?step]\<rparr>)"
    using new by (intro loop_inv_obligation [OF assms(1)]) auto
  then show ?thesis
    using new owed(3) by (auto intro: delivery_planned_mono)
qed

text \<open>Drafting a cast, and the steps that push no obligation.\<close>

lemma wf_push_draft: "btree_wf drafts \<Longrightarrow> btree_wf (push_draft b d drafts)"
  by (simp add: push_draft_def btree.wf_ins)

lemma loop_inv_draft:
  assumes "loop_inv env cc choices s" "draft_ok cc choices b d"
  shows "loop_inv env cc choices (s\<lparr>cs_needing_delegation := N, cs_drafts := push_draft b d (cs_drafts s)\<rparr>)"
  using assms by (cases "btree_get (cs_drafts s) b") (auto simp: loop_inv_def get_push_draft wf_push_draft split: if_splits)

lemma loop_inv_other [simp]:
  "loop_inv env cc choices (s\<lparr>cs_withheld := W\<rparr>) = loop_inv env cc choices s"
  "loop_inv env cc choices (s\<lparr>cs_blocked := B\<rparr>) = loop_inv env cc choices s"
  "loop_inv env cc choices (s\<lparr>cs_needing_delegation := N\<rparr>) = loop_inv env cc choices s"
  by (simp_all add: loop_inv_def)

text \<open>The chain work of a vote is planned with the unit that carries it.\<close>

definition carried :: "planning_env \<Rightarrow> RoundSnapshot \<Rightarrow> Obligation set \<Rightarrow> u32 \<times> u32 \<Rightarrow> bool" where
  "carried env snapshot obligations = (\<lambda>(b, p). \<exists>i.
     unit_id_bundle i = b \<and> p \<in> set (unit_roster env snapshot i) \<and> reconcile_planned env snapshot obligations i)"

lemma carried_mono: "carried env snapshot A k \<Longrightarrow> A \<subseteq> B \<Longrightarrow> carried env snapshot B k"
  by (fastforce simp: carried_def intro: reconcile_planned_mono)

definition vote_handled ::
  "planning_env \<Rightarrow> classify_context \<Rightarrow> u32 \<Rightarrow> u32 \<Rightarrow> VoteSnapshot \<Rightarrow> classify_state \<Rightarrow> bool" where
  "vote_handled env cc b p vote s \<longleftrightarrow>
     (lifecycle_position_of (Some (vote_phase vote)) = PositionConfirmed \<longrightarrow>
        delivery_planned env (cc_snapshot cc) (set (cs_obligations s)) (b, p)) \<and>
     (lifecycle_position_of (Some (vote_phase vote)) = OnWire \<longrightarrow>
        carried env (cc_snapshot cc) (set (cs_obligations s)) (b, p))"

definition choice_handled ::
  "planning_env \<Rightarrow> classify_context \<Rightarrow> u32 \<Rightarrow> u32 \<Rightarrow> u32 \<Rightarrow> classify_state \<Rightarrow> bool" where
  "choice_handled env cc p choice b s \<longleftrightarrow>
     (cast_due cc p choice b \<longrightarrow>
        (\<exists>ds. btree_get (cs_drafts s) b = Some ds \<and> \<lparr>draft_proposal_id = p, draft_choice = choice\<rparr> \<in> set ds) \<or>
        p \<in> cs_withheld s) \<and>
     (\<forall>vote. \<not> cast_due cc p choice b \<and> btree_get (snapshot_votes (cc_snapshot cc)) (b, p) = Some vote \<longrightarrow>
        vote_handled env cc b p vote s \<and>
        (lifecycle_position_of (Some (vote_phase vote)) = Undispatched \<longrightarrow>
           carried env (cc_snapshot cc) (set (cs_obligations s)) (b, p) \<or> p \<in> cs_withheld s))"

lemma vote_handled_grows: "vote_handled env cc b p vote s \<Longrightarrow> grows s s' \<Longrightarrow> vote_handled env cc b p vote s'"
  by (auto simp: vote_handled_def grows_def intro: delivery_planned_mono carried_mono)

lemma choice_handled_grows:
  assumes "choice_handled env cc p choice b s" "grows s s'"
  shows "choice_handled env cc p choice b s'"
proof -
  have obls: "set (cs_obligations s) \<subseteq> set (cs_obligations s')"
    and others: "cs_withheld s \<subseteq> cs_withheld s'"
      "\<And>b ds. btree_get (cs_drafts s) b = Some ds \<Longrightarrow> \<exists>ds'. btree_get (cs_drafts s') b = Some ds' \<and> set ds \<subseteq> set ds'"
    using assms(2) by (auto simp: grows_def)
  show ?thesis
    using assms(1) others(1) others(2) [of b] vote_handled_grows [OF _ assms(2), of env cc b p]
      carried_mono [OF _ obls, of env "cc_snapshot cc" "(b, p)"]
    unfolding choice_handled_def by blast
qed

lemma reconcile_carries:
  assumes "loop_inv env cc choices s" "unit_of (cc_units cc) b p = Inr u" "reconcile_unit env (cc_snapshot cc) u s = Inr s'"
    and "\<forall>u\<in>set (cc_units cc). unit_ok env (cc_snapshot cc) u"
  shows "loop_inv env cc choices s' \<and> carried env (cc_snapshot cc) (set (cs_obligations s')) (b, p)"
proof -
  have u: "u \<in> set (cc_units cc)" "unit_bundle_index u = b" "p \<in> set (unit_proposal_ids u)"
    using unit_of_Inr [OF assms(2)] by auto
  then have ok: "unit_ok env (cc_snapshot cc) u"
    using assms(4) by blast
  have "carried env (cc_snapshot cc) (set (cs_obligations s')) (b, p)"
    using loop_inv_reconcile(2) [OF assms(1,3) u(1) ok] u(2,3) ok unfolding carried_def unit_ok_def by auto
  then show ?thesis
    using loop_inv_reconcile(1) [OF assms(1,3) u(1) ok] by blast
qed

lemma is_choice_iff: "is_choice d \<longleftrightarrow> (\<exists>choice. d = Some (Choice choice))"
  by (cases d rule: is_choice.cases) auto

lemma plan_vote_handles:
  assumes inv: "loop_inv env cc choices s" and step: "plan_vote env cc p choice b s = Inr s'"
    and units: "\<forall>u\<in>set (cc_units cc). unit_ok env (cc_snapshot cc) u"
    and choice: "btree_get (snapshot_intents (cc_snapshot cc)) p = Some (Choice choice)" "p \<in> set choices"
  shows "loop_inv env cc choices s' \<and> choice_handled env cc p choice b s'"
  using step
proof (cases rule: plan_vote_cases)
  case cast
  have "draft_ok cc choices b \<lparr>draft_proposal_id = p, draft_choice = choice\<rparr>"
    using cast choice by (simp add: draft_ok_def)
  then have "loop_inv env cc choices s'"
    using loop_inv_draft [OF inv] cast(4) by simp
  moreover have "choice_handled env cc p choice b s'"
    using cast(1,4) by (simp add: choice_handled_def get_push_draft)
  ultimately show ?thesis ..
next
  case (confirmed vote)
  then show ?thesis
    using loop_inv_deliver [OF inv] by (auto simp: choice_handled_def vote_handled_def)
next
  case (reconcile vote u)
  then show ?thesis
    using reconcile_carries [OF inv _ _ units] by (auto simp: choice_handled_def vote_handled_def)
next
  case (settled vote)
  then show ?thesis
    using inv by (auto simp: choice_handled_def vote_handled_def)
qed (use inv in \<open>simp_all add: choice_handled_def vote_handled_def\<close>)

lemma plan_proposal_handles:
  assumes inv: "loop_inv env cc choices s" and step: "plan_proposal env cc bundles p s = Inr s'"
    and units: "\<forall>u\<in>set (cc_units cc). unit_ok env (cc_snapshot cc) u"
    and choice: "btree_get (snapshot_intents (cc_snapshot cc)) p = Some (Choice choice)" "p \<in> set choices"
  shows "loop_inv env cc choices s' \<and> (\<forall>b\<in>set bundles. choice_handled env cc p choice b s')"
proof -
  have loop: "try_fold (plan_vote env cc p choice) bundles s = Inr s'"
    using step choice(1) by (simp add: plan_proposal_def)
  let ?I = "\<lambda>before s. loop_inv env cc choices s \<and> (\<forall>b\<in>set before. choice_handled env cc p choice b s)"
  show ?thesis
    using loop
  proof (rule try_fold_invariant [where I = ?I])
    show "?I (before @ [b]) t'" if "?I before t" "plan_vote env cc p choice b t = Inr t'" for before b t t'
      using that plan_vote_handles [OF _ that(2) units choice] grows_plan_vote [OF that(2)]
      by (auto intro: choice_handled_grows)
  qed (use inv in simp)
qed

lemma plan_proposals_handle:
  assumes loop: "try_fold (plan_proposal env cc bundles) choices s = Inr s'" and inv: "loop_inv env cc choices s"
    and units: "\<forall>u\<in>set (cc_units cc). unit_ok env (cc_snapshot cc) u"
    and intents: "\<forall>p\<in>set choices. is_choice (btree_get (snapshot_intents (cc_snapshot cc)) p)"
  shows "loop_inv env cc choices s' \<and>
    (\<forall>p\<in>set choices. \<forall>choice. btree_get (snapshot_intents (cc_snapshot cc)) p = Some (Choice choice) \<longrightarrow>
       (\<forall>b\<in>set bundles. choice_handled env cc p choice b s'))"
proof -
  let ?I = "\<lambda>before s. loop_inv env cc choices s \<and>
    (\<forall>p\<in>set before. \<forall>choice. btree_get (snapshot_intents (cc_snapshot cc)) p = Some (Choice choice) \<longrightarrow>
       (\<forall>b\<in>set bundles. choice_handled env cc p choice b s))"
  show ?thesis
    using loop
  proof (rule try_fold_invariant [where I = ?I])
    show "?I (before @ [p]) t'" if member: "p \<in> set choices" and before: "?I before t"
      and step: "plan_proposal env cc bundles p t = Inr t'" for before p t t'
    proof -
      obtain choice where choice: "btree_get (snapshot_intents (cc_snapshot cc)) p = Some (Choice choice)"
        using intents member by (auto simp: is_choice_iff)
      show ?thesis
        using before plan_proposal_handles [OF _ step units choice member] choice
          choice_handled_grows [OF _ grows_plan_proposal [OF step]] by auto
    qed
  qed (use inv in simp)
qed

lemma plan_unrostered_vote_handles:
  assumes inv: "loop_inv env cc choices s" and step: "plan_unrostered_vote env cc ((b, p), vote) s = Inr s'"
    and units: "\<forall>u\<in>set (cc_units cc). unit_ok env (cc_snapshot cc) u"
  shows "loop_inv env cc choices s' \<and>
    (btree_get (snapshot_intents (cc_snapshot cc)) p = None \<or> p \<notin> cc_roster cc \<longrightarrow> vote_handled env cc b p vote s')"
  using step
proof (cases rule: plan_unrostered_vote_cases)
  case (wire u)
  then show ?thesis
    using reconcile_carries [OF inv _ _ units] by (auto simp: vote_handled_def)
next
  case confirmed
  then show ?thesis
    using loop_inv_deliver [OF inv] by (auto simp: vote_handled_def)
qed (use inv in \<open>auto simp: vote_handled_def\<close>)

lemma plan_unrostered_votes_handle:
  assumes loop: "try_fold (plan_unrostered_vote env cc) votes s = Inr s'" and inv: "loop_inv env cc choices s"
    and units: "\<forall>u\<in>set (cc_units cc). unit_ok env (cc_snapshot cc) u"
  shows "loop_inv env cc choices s' \<and> grows s s' \<and>
    (\<forall>((b, p), vote)\<in>set votes. btree_get (snapshot_intents (cc_snapshot cc)) p = None \<or> p \<notin> cc_roster cc \<longrightarrow>
       vote_handled env cc b p vote s')"
proof -
  let ?H = "\<lambda>t ((b, p), vote). btree_get (snapshot_intents (cc_snapshot cc)) p = None \<or> p \<notin> cc_roster cc \<longrightarrow>
       vote_handled env cc b p vote t"
  let ?I = "\<lambda>before t. loop_inv env cc choices t \<and> grows s t \<and> (\<forall>entry\<in>set before. ?H t entry)"
  show ?thesis
    using loop
  proof (rule try_fold_invariant [where I = ?I])
    show "?I (before @ [entry]) t'" if "?I before t" "plan_unrostered_vote env cc entry t = Inr t'"
      for before entry t t'
    proof -
      obtain b p vote where entry: "entry = ((b, p), vote)"
        by (metis prod.exhaust)
      have grow: "grows t t'"
        by (rule grows_plan_unrostered_vote [OF that(2)])
      have "\<forall>entry\<in>set before. ?H t' entry"
        using that(1) vote_handled_grows [OF _ grow] by fastforce
      then show ?thesis
        using that(1) plan_unrostered_vote_handles [OF _ that(2) [unfolded entry] units] grow entry
        by (auto intro: grows_trans)
    qed
  qed (use inv in simp)
qed

end
