(* ===== verification/Round_Planning.thy ===== *)
theory Round_Planning
  imports Round_Obligations
begin

text \<open>
  The whole plan of a round: what a cast of \<open>classify_round\<close> may assume, and which work of the
  snapshot is never left out of its obligations.
\<close>

section \<open>Drafts name a proposal once\<close>

definition drafts_of :: "(u32, CastDraft list) btree_map \<Rightarrow> u32 \<Rightarrow> u32 list" where
  "drafts_of drafts b = (case btree_get drafts b of None \<Rightarrow> [] | Some ds \<Rightarrow> map draft_proposal_id ds)"

lemma drafts_of_push:
  "drafts_of (push_draft b d drafts) c = drafts_of drafts c @ (if c = b then [draft_proposal_id d] else [])"
  by (auto simp: drafts_of_def get_push_draft split: option.splits)

lemma plan_vote_drafts:
  assumes "plan_vote env cc p choice b s = Inr s'"
  shows "cs_drafts s' = cs_drafts s \<or>
    cs_drafts s' = push_draft b \<lparr>draft_proposal_id = p, draft_choice = choice\<rparr> (cs_drafts s)"
  using assms
proof (cases rule: plan_vote_cases)
  case (confirmed vote)
  then show ?thesis
    by (auto elim!: deliver_vote_Inr)
next
  case (reconcile vote u)
  then show ?thesis
    by (auto dest!: reconcile_unit_Inr)
qed auto

lemma plan_proposal_drafts:
  assumes "plan_proposal env cc bundles p s = Inr s'" "distinct bundles"
    and "\<forall>b. distinct (drafts_of (cs_drafts s) b)" "\<forall>b. p \<notin> set (drafts_of (cs_drafts s) b)"
  shows "distinct (drafts_of (cs_drafts s') b) \<and> set (drafts_of (cs_drafts s') b) \<subseteq> insert p (set (drafts_of (cs_drafts s) b))"
proof (cases "\<exists>choice. btree_get (snapshot_intents (cc_snapshot cc)) p = Some (Choice choice)")
  case True
  then obtain choice where loop: "try_fold (plan_vote env cc p choice) bundles s = Inr s'"
    using assms(1) by (auto simp: plan_proposal_def)
  let ?I = "\<lambda>before t. \<forall>b. drafts_of (cs_drafts t) b = drafts_of (cs_drafts s) b \<or>
    b \<in> set before \<and> drafts_of (cs_drafts t) b = drafts_of (cs_drafts s) b @ [p]"
  have "?I bundles s'"
    using loop
  proof (rule try_fold_prefixes [where I = ?I])
    show "?I (before @ [c]) t'" if "bundles = before @ c # after" "?I before t" "plan_vote env cc p choice c t = Inr t'"
      for before c "after" t t'
    proof -
      have "c \<notin> set before"
        using assms(2) that(1) by simp
      then have "drafts_of (cs_drafts t') b = drafts_of (cs_drafts s) b \<or>
        b \<in> set (before @ [c]) \<and> drafts_of (cs_drafts t') b = drafts_of (cs_drafts s) b @ [p]" for b
        using spec [OF that(2), of b] plan_vote_drafts [OF that(3)] by (cases "b = c") (auto simp: drafts_of_push)
      then show ?thesis
        by blast
    qed
  qed simp
  then show ?thesis
    using assms(3,4) spec [of _ b] by (metis Un_insert_right append.right_neutral distinct_append distinct_singleton
      disjoint_insert(1) dual_order.refl inf_bot_right list.set(1,2) set_append subset_insertI)
next
  case False
  then have "s' = s"
    using assms(1) by (auto simp: plan_proposal_def split: option.splits Decision.splits)
  then show ?thesis
    using assms(3) by auto
qed

lemma plan_proposals_drafts:
  assumes "try_fold (plan_proposal env cc bundles) choices s = Inr s'" "distinct choices" "distinct bundles"
    and "cs_drafts s = []"
  shows "distinct (drafts_of (cs_drafts s') b)"
proof -
  let ?I = "\<lambda>before t. \<forall>b. distinct (drafts_of (cs_drafts t) b) \<and> set (drafts_of (cs_drafts t) b) \<subseteq> set before"
  have "?I choices s'"
    using assms(1)
  proof (rule try_fold_prefixes [where I = ?I])
    show "?I (before @ [p]) t'" if "choices = before @ p # after" "?I before t" "plan_proposal env cc bundles p t = Inr t'"
      for before p "after" t t'
    proof -
      have "p \<notin> set before"
        using assms(2) that(1) by simp
      then have "\<forall>b. p \<notin> set (drafts_of (cs_drafts t) b)"
        using that(2) by blast
      then show ?thesis
        using plan_proposal_drafts [OF that(3) assms(3)] that(2) by fastforce
    qed
  qed (simp add: assms(4) drafts_of_def btree.get_emp)
  then show ?thesis
    by blast
qed

lemma plan_unrostered_votes_drafts:
  assumes "try_fold (plan_unrostered_vote env cc) votes s = Inr s'"
  shows "cs_drafts s' = cs_drafts s"
  using assms
proof (rule try_fold_mono)
  show "cs_drafts t' = cs_drafts s" if "cs_drafts t = cs_drafts s" "plan_unrostered_vote env cc entry t = Inr t'" for entry t t'
  proof -
    obtain b p vote where entry: "entry = ((b, p), vote)"
      by (metis prod.exhaust)
    show ?thesis
      using that(2) unfolding entry
      by (cases rule: plan_unrostered_vote_cases)
        (use that(1) in \<open>auto dest!: reconcile_unit_Inr elim!: deliver_vote_Inr\<close>)
  qed
qed simp

section \<open>The delegation loop\<close>

fun advances :: "u32 set \<Rightarrow> Obligation \<Rightarrow> bool" where
  "advances B (Delegate b) \<longleftrightarrow> b \<in> B"
| "advances B (AdvanceDelegation b imported phase tx_hash) \<longleftrightarrow> b \<in> B"
| "advances B _ \<longleftrightarrow> False"

lemma delegation_loop:
  assumes "try_fold (delegation_step env snapshot needing) delegation (obligations, {}) = Inr (obligations', delegated)"
  obtains steps where "obligations' = obligations @ steps" "\<forall>x\<in>set steps. advances delegated x"
    "delegated = obligation_bundle_index ` set steps"
proof -
  let ?I = "\<lambda>_ (obls, D). \<exists>steps. obls = obligations @ steps \<and> (\<forall>x\<in>set steps. advances D x) \<and>
    D = obligation_bundle_index ` set steps"
  have "?I delegation (obligations', delegated)"
    using assms
  proof (rule try_fold_invariant)
    show "?I (before @ [x]) t'" if before: "?I before t" and step: "delegation_step env snapshot needing x t = Inr t'"
      for before x t t'
    proof -
      have insertI: "advances D y \<Longrightarrow> advances (insert b D) y" for b D y
        by (cases y) auto
      obtain b phase obls D where eqs: "x = (b, phase)" "t = (obls, D)"
        by (metis prod.exhaust)
      obtain steps where steps: "obls = obligations @ steps" "\<forall>x\<in>set steps. advances D x"
        "D = obligation_bundle_index ` set steps"
        using before unfolding eqs by auto
      consider "t' = (obls, D)"
        | imported tx_hash where "t' = (obls @ [AdvanceDelegation b imported phase tx_hash], insert b D)"
        | "t' = (obls @ [Delegate b], insert b D)"
        using step unfolding eqs by (auto simp: delegation_step_def result_simps split: if_splits)
      then show ?thesis
      proof cases
        case 1
        then show ?thesis
          using steps by auto
      next
        case (2 imported tx_hash)
        then show ?thesis
          using steps insertI by (auto intro!: exI [of _ "steps @ [AdvanceDelegation b imported phase tx_hash]"])
      next
        case 3
        then show ?thesis
          using steps insertI by (auto intro!: exI [of _ "steps @ [Delegate b]"])
      qed
    qed
  qed simp
  then show thesis
    using that by auto
qed

section \<open>The plan taken apart\<close>

lemma classify_ballot_intents_Inr:
  assumes "classify_ballot_intents proposal_ids intents = Inr ballot"
  shows "ballot_roster ballot = set proposal_ids" "distinct (ballot_choice_proposals ballot)"
    "set (ballot_choice_proposals ballot) = {p \<in> set proposal_ids. is_choice (btree_get intents p)}"
    "set (ballot_open_proposals ballot) = {p \<in> set proposal_ids. btree_get intents p = None}"
    "ballot_unrostered_intents ballot = filter (\<lambda>p. p \<notin> set proposal_ids) (btree_keys intents)"
proof -
  obtain roster where loop: "try_fold roster_step proposal_ids {} = Inr roster"
    and ballot: "ballot = \<lparr>ballot_roster = roster,
          ballot_choice_proposals = filter (\<lambda>p. is_choice (btree_get intents p)) (sorted_list_of_set roster),
          ballot_open_proposals = filter (\<lambda>p. btree_get intents p = None) (sorted_list_of_set roster),
          ballot_unrostered_intents = filter (\<lambda>p. p \<notin> roster) (btree_keys intents)\<rparr>"
    using assms by (auto simp: classify_ballot_intents_def and_then_eq_Inr Let_def)
  have roster: "roster = set proposal_ids"
    by (rule try_fold_invariant [OF loop, where I = "\<lambda>before roster. roster = set before"])
      (auto simp: roster_step_def and_then_eq_Inr split: if_splits)
  show "ballot_roster ballot = set proposal_ids" "distinct (ballot_choice_proposals ballot)"
    "set (ballot_choice_proposals ballot) = {p \<in> set proposal_ids. is_choice (btree_get intents p)}"
    "set (ballot_open_proposals ballot) = {p \<in> set proposal_ids. btree_get intents p = None}"
    "ballot_unrostered_intents ballot = filter (\<lambda>p. p \<notin> set proposal_ids) (btree_keys intents)"
    by (auto simp: ballot roster)
qed

lemma stale_not_owned:
  assumes "try_fold (conflicting_submission snapshot) (sorted_list_of_set (stale_keys snapshot)) () = Inr u"
    and "k \<in> stale_keys snapshot" "btree_get (snapshot_votes snapshot) k = Some vote"
  shows "\<not> vote_phase_is_lifecycle_owned (vote_phase vote)"
proof -
  have "finite (stale_keys snapshot)"
    unfolding stale_keys_def by (rule finite_set)
  then have "k \<in> set (sorted_list_of_set (stale_keys snapshot))"
    using assms(2) by (simp only: set_sorted_list_of_set)
  then show ?thesis
    by (rule try_fold_reached [OF assms(1), where P = "\<lambda>_. \<not> vote_phase_is_lifecycle_owned (vote_phase vote)"])
      (cases k, use assms(3) in \<open>simp_all add: conflicting_submission_def split: if_splits\<close>)
qed

lemma bundles_distinct: "distinct (btree_keys (delegation_phases_map snapshot))"
  unfolding delegation_phases_map_def btree_collect_eq by (intro btree.keys_distinct btree.wf_collect)

text \<open>Everything a successful classification establishes about its final loop state.\<close>

definition classified ::
  "planning_env \<Rightarrow> RoundSnapshot \<Rightarrow> VoteUnit list \<Rightarrow> BallotIntentClassification \<Rightarrow> classify_state \<Rightarrow>
   Obligation list \<Rightarrow> u32 set \<Rightarrow> RoundObligations \<Rightarrow> bool" where
  "classified env snapshot units ballot s steps delegated obls \<longleftrightarrow>
     (let cc = classify_context_of snapshot units ballot; bundles = btree_keys (delegation_phases_map snapshot) in
      round_obligations obls = map (set_prerequisite delegated)
        (cs_obligations s @ cast_obligations snapshot (delegation_phases_map snapshot) (cs_drafts s) @
         blocked_obligations (ballot_open_proposals ballot)
           (clearable_intents snapshot (ballot_unrostered_intents ballot)) (cs_blocked s) @
         steps @ confirm_obligations snapshot (stale_keys snapshot)) \<and>
      round_withheld_casts obls = cs_withheld s \<and>
      loop_inv env cc (ballot_choice_proposals ballot) s \<and>
      (\<forall>b. distinct (drafts_of (cs_drafts s) b)) \<and>
      set (retirements (ballot_roster ballot) units) \<subseteq> set (cs_obligations s) \<and>
      (\<forall>x\<in>set steps. advances delegated x) \<and> delegated = obligation_bundle_index ` set steps \<and>
      (\<forall>p\<in>set (ballot_choice_proposals ballot). \<forall>choice.
         btree_get (snapshot_intents snapshot) p = Some (Choice choice) \<longrightarrow>
         (\<forall>b\<in>set bundles. choice_handled env cc p choice b s)) \<and>
      (\<forall>((b, p), vote)\<in>set (snapshot_votes snapshot).
         btree_get (snapshot_intents snapshot) p = None \<or> p \<notin> ballot_roster ballot \<longrightarrow>
         vote_handled env cc b p vote s) \<and>
      (\<forall>k\<in>stale_keys snapshot. \<forall>vote. btree_get (snapshot_votes snapshot) k = Some vote \<longrightarrow>
         \<not> vote_phase_is_lifecycle_owned (vote_phase vote)))"

lemma classify_context_of_simps [simp]:
  "cc_snapshot (classify_context_of snapshot units ballot) = snapshot"
  "cc_units (classify_context_of snapshot units ballot) = units"
  "cc_roster (classify_context_of snapshot units ballot) = ballot_roster ballot"
  "cc_stale (classify_context_of snapshot units ballot) = stale_keys snapshot"
  "cc_retirable (classify_context_of snapshot units ballot) = retirable_keys (ballot_roster ballot) units"
  "cc_held (classify_context_of snapshot units ballot) =
     held_bundles snapshot (stale_keys snapshot) (retirable_keys (ballot_roster ballot) units)"
  "cc_terminal (classify_context_of snapshot units ballot) \<longleftrightarrow> ballot_open_proposals ballot = [] \<and>
     clearable_intents snapshot (ballot_unrostered_intents ballot) = []"
  by (simp_all add: classify_context_of_def Let_def)

lemma classify_Inr:
  assumes "classify env snapshot units ballot = Inr obls" "\<forall>u\<in>set units. unit_ok env snapshot u"
    and "distinct (ballot_choice_proposals ballot)"
    and "\<forall>p\<in>set (ballot_choice_proposals ballot). is_choice (btree_get (snapshot_intents snapshot) p)"
  obtains s steps delegated where "classified env snapshot units ballot s steps delegated obls"
    "round_needs_bundle_setup obls = False"
proof -
  let ?cc = "classify_context_of snapshot units ballot"
  let ?choices = "ballot_choice_proposals ballot"
  let ?bundles = "btree_keys (delegation_phases_map snapshot)"
  let ?start = "\<lparr>cs_obligations = retirements (ballot_roster ballot) units, cs_reconciled = {}, cs_delivered = {},
            cs_needing_delegation = {}, cs_drafts = [], cs_blocked = {}, cs_withheld = {}\<rparr>"
  obtain u s1 s delegation_obls delegated where
    stale: "try_fold (conflicting_submission snapshot) (sorted_list_of_set (stale_keys snapshot)) () = Inr u"
    and first: "try_fold (plan_proposal env ?cc ?bundles) ?choices ?start = Inr s1"
    and second: "try_fold (plan_unrostered_vote env ?cc) (snapshot_votes snapshot) s1 = Inr s"
    and delegation: "try_fold (delegation_step env snapshot (cs_needing_delegation s)) (delegation_phases_map snapshot)
          (cs_obligations s @ cast_obligations snapshot (delegation_phases_map snapshot) (cs_drafts s) @
             blocked_obligations (ballot_open_proposals ballot)
               (clearable_intents snapshot (ballot_unrostered_intents ballot)) (cs_blocked s), {}) =
          Inr (delegation_obls, delegated)"
    and obls: "round_obligations obls = map (set_prerequisite delegated)
        (delegation_obls @ confirm_obligations snapshot (stale_keys snapshot))"
      "round_withheld_casts obls = cs_withheld s" "round_needs_bundle_setup obls = False"
    using assms(1) by (auto simp: classify_def Let_def and_then_eq_Inr)
  have start: "loop_inv env ?cc ?choices ?start"
    by (auto simp: loop_inv_def btree.wf_emp btree.get_emp retirements_def planned_kind_def)
  have ok: "\<forall>u\<in>set (cc_units ?cc). unit_ok env (cc_snapshot ?cc) u"
    using assms(2) by simp
  have one: "loop_inv env ?cc ?choices s1"
      "\<forall>p\<in>set ?choices. \<forall>choice. btree_get (snapshot_intents snapshot) p = Some (Choice choice) \<longrightarrow>
         (\<forall>b\<in>set ?bundles. choice_handled env ?cc p choice b s1)"
    using plan_proposals_handle [OF first start ok] assms(4) by auto
  have grow1: "grows ?start s1"
    using first by (rule try_fold_mono) (auto intro: grows_trans dest: grows_plan_proposal)
  note two = plan_unrostered_votes_handle [OF second one(1) ok]
  obtain steps where steps: "delegation_obls = (cs_obligations s @
        cast_obligations snapshot (delegation_phases_map snapshot) (cs_drafts s) @
        blocked_obligations (ballot_open_proposals ballot)
          (clearable_intents snapshot (ballot_unrostered_intents ballot)) (cs_blocked s)) @ steps"
    "\<forall>x\<in>set steps. advances delegated x" "delegated = obligation_bundle_index ` set steps"
    using delegation by (rule delegation_loop)
  have "set (retirements (ballot_roster ballot) units) \<subseteq> set (cs_obligations s)"
    using grow1 two unfolding grows_def by (auto 4 3)
  moreover have "\<forall>b. distinct (drafts_of (cs_drafts s) b)"
    using plan_proposals_drafts [OF first assms(3) bundles_distinct] plan_unrostered_votes_drafts [OF second] by simp
  moreover have "\<forall>p\<in>set ?choices. \<forall>choice. btree_get (snapshot_intents snapshot) p = Some (Choice choice) \<longrightarrow>
         (\<forall>b\<in>set ?bundles. choice_handled env ?cc p choice b s)"
    using one(2) two choice_handled_grows by blast
  ultimately have "classified env snapshot units ballot s steps delegated obls"
    using two steps obls stale_not_owned [OF stale] by (simp add: classified_def)
  then show thesis
    using that obls(3) by blast
qed

section \<open>Reading the plan\<close>

lemma set_prerequisite_Cast:
  "set_prerequisite delegated x = Cast b ds pre signs \<longleftrightarrow>
     pre = (if b \<in> delegated then Some b else None) \<and> (\<exists>pre'. x = Cast b ds pre' signs)"
  by (cases x) (auto simp: set_prerequisite_def Let_def)

lemma set_prerequisite_simps [simp]:
  "set_prerequisite delegated (Retire i members) = Retire i members"
  "set_prerequisite delegated (Cast b ds pre signs) = Cast b ds (if b \<in> delegated then Some b else None) signs"
  "set_prerequisite delegated (ReconcileChain i b ordered undispatched tx_hash pre) =
     ReconcileChain i b ordered undispatched tx_hash (if b \<in> delegated then Some b else None)"
  "set_prerequisite delegated (Deliver b p position missing pre) =
     Deliver b p position missing (if b \<in> delegated then Some b else None)"
  "set_prerequisite delegated (Confirm b p j accepted unknown pre) =
     Confirm b p j accepted unknown (if b \<in> delegated then Some b else None)"
  by (simp_all add: set_prerequisite_def)

lemma classified_obligation:
  assumes "classified env snapshot units ballot s steps delegated obls"
    and "x \<in> set (cs_obligations s) \<or> x \<in> set (confirm_obligations snapshot (stale_keys snapshot)) \<or>
      x \<in> set (cast_obligations snapshot (delegation_phases_map snapshot) (cs_drafts s))"
  shows "set_prerequisite delegated x \<in> set (round_obligations obls)"
  using assms unfolding classified_def Let_def by auto

lemma cast_obligations_iff:
  "Cast b ds pre signs \<in> set (cast_obligations snapshot delegation drafts) \<longleftrightarrow>
     pre = None \<and> (b, ds) \<in> set drafts \<and> signs = cast_signs_delegation snapshot delegation b"
  by (auto simp: cast_obligations_def ATOMIC_VOTE_BATCHES_ENABLED_def)

lemma classified_cast:
  assumes "classified env snapshot units ballot s steps delegated obls" "Cast b ds pre signs \<in> set (round_obligations obls)"
  shows "btree_get (cs_drafts s) b = Some ds"
proof -
  have inv: "loop_inv env (classify_context_of snapshot units ballot) (ballot_choice_proposals ballot) s"
    and steps: "\<forall>x\<in>set steps. advances delegated x"
    using assms(1) unfolding classified_def Let_def by blast+
  have no: "Cast b ds pre' signs \<notin> set (cs_obligations s)" "Cast b ds pre' signs \<notin> set steps"
    "Cast b ds pre' signs \<notin> set (confirm_obligations snapshot (stale_keys snapshot))"
    "Cast b ds pre' signs \<notin> set (blocked_obligations open_proposals unrostered blocked)" for pre' open_proposals unrostered blocked
    using inv steps by (auto simp: loop_inv_def planned_kind_def confirm_obligations_def blocked_obligations_def Let_def)
  obtain x where "Cast b ds pre signs = set_prerequisite delegated x"
    and x: "x \<in> set (cs_obligations s @ cast_obligations snapshot (delegation_phases_map snapshot) (cs_drafts s) @
         blocked_obligations (ballot_open_proposals ballot)
           (clearable_intents snapshot (ballot_unrostered_intents ballot)) (cs_blocked s) @
         steps @ confirm_obligations snapshot (stale_keys snapshot))"
    using assms unfolding classified_def Let_def by auto
  then obtain pre' where "x = Cast b ds pre' signs"
    using set_prerequisite_Cast [of delegated x b ds pre signs] by auto
  then have "Cast b ds pre' signs \<in> set (cast_obligations snapshot (delegation_phases_map snapshot) (cs_drafts s))"
    using x no by simp
  then show ?thesis
    using inv by (simp add: cast_obligations_iff loop_inv_def btree_get_in)
qed

lemma undispatched_iff: "lifecycle_position_of (Some phase) = Undispatched \<longleftrightarrow> phase = VoteCommitted"
  by (cases phase) auto

lemma on_wire_iff: "lifecycle_position_of (Some phase) = OnWire \<longleftrightarrow> phase \<in> {VoteSubmitted, VoteSubmissionManaged}"
  by (cases phase) auto

lemma position_confirmed_iff: "lifecycle_position_of (Some phase) = PositionConfirmed \<longleftrightarrow> phase = VoteConfirmed"
  by (cases phase) auto

lemma lifecycle_owned_iff:
  "vote_phase_is_lifecycle_owned phase \<longleftrightarrow> phase \<notin> {VotePrepared, VoteCommitted}"
  by (cases phase) (auto simp: vote_phase_is_lifecycle_owned_def)

lemma holds_bundle_iff:
  "vote_phase_holds_bundle phase \<longleftrightarrow>
     phase \<in> {VoteCommitted, VoteSubmitted, VoteSubmissionManaged, VoteSubmittedWithoutHash}"
  by (cases phase) auto

lemma stale_keys_iff:
  assumes "btree_wf (snapshot_votes snapshot)"
  shows "(b, p) \<in> stale_keys snapshot \<longleftrightarrow> (\<exists>vote. btree_get (snapshot_votes snapshot) (b, p) = Some vote \<and>
    ballot_relation (snapshot_intents snapshot) p (vote_choice vote) = Conflicts)"
  unfolding btree_get_in [OF assms] by (force simp: stale_keys_def)

lemma retirable_keys_iff:
  "(b, p) \<in> retirable_keys roster units \<longleftrightarrow>
     (\<exists>u\<in>set units. retired_unit roster u \<and> unit_bundle_index u = b \<and> p \<in> set (unit_proposal_ids u))"
  by (auto simp: retirable_keys_def)

lemma retirable_committed:
  assumes "(b, p) \<in> retirable_keys roster units" "\<forall>u\<in>set units. unit_ok env snapshot u"
    and "btree_get (snapshot_votes snapshot) (b, p) = Some vote"
  shows "vote_phase vote = VoteCommitted" "\<exists>i ps. Retire i ps \<in> set (retirements roster units) \<and> unit_id_bundle i = b \<and> p \<in> set ps"
proof -
  obtain u where u: "u \<in> set units" "retired_unit roster u" "unit_bundle_index u = b" "p \<in> set (unit_proposal_ids u)"
    using assms(1) unfolding retirable_keys_iff by blast
  have ok: "unit_ok env snapshot u"
    using assms(2) u(1) by blast
  show "vote_phase vote = VoteCommitted"
    using ok u assms(3) by (fastforce simp: unit_ok_def retired_unit_def undispatched_iff)
  have "Retire (unit_id u) (unit_proposal_ids u) \<in> set (retirements roster units)"
    using u by (auto simp: retirements_def)
  then show "\<exists>i ps. Retire i ps \<in> set (retirements roster units) \<and> unit_id_bundle i = b \<and> p \<in> set ps"
    using ok u by (auto simp: unit_ok_def)
qed

lemma not_held:
  assumes "b \<notin> held_bundles snapshot stale retirable"
  shows "btree_wf (snapshot_votes snapshot) \<Longrightarrow> btree_get (snapshot_votes snapshot) (b, p) = Some vote \<Longrightarrow>
      (b, p) \<in> stale \<or> (b, p) \<in> retirable \<or> \<not> vote_phase_holds_bundle (vote_phase vote)"
    and "(b, phase) \<in> set (delegation_phases_map snapshot) \<Longrightarrow> \<not> delegation_phase_holds_bundle phase"
    and "b \<notin> set (btree_keys (snapshot_rejection_blocked_bundles snapshot))"
  using assms by (force simp: held_bundles_def btree_get_in)+

lemma classify_round_Inr:
  assumes "classify_round env snapshot proposal_ids = Inr obls" "snapshot_wf snapshot"
    and "\<not> round_needs_bundle_setup obls"
  obtains ballot units s steps delegated where "classify_ballot_intents proposal_ids (snapshot_intents snapshot) = Inr ballot"
    "\<forall>u\<in>set units. unit_ok env snapshot u" "classified env snapshot units ballot s steps delegated obls"
proof -
  obtain ballot where ballot: "classify_ballot_intents proposal_ids (snapshot_intents snapshot) = Inr ballot"
    using assms(1) by (auto simp: classify_round_def and_then_eq_Inr)
  then obtain units where units: "group_vote_units env snapshot = Inr units" "classify env snapshot units ballot = Inr obls"
    using assms(1,3) by (auto simp: classify_round_def and_then_eq_Inr split: if_splits)
  have ok: "\<forall>u\<in>set units. unit_ok env snapshot u"
    using group_vote_units_Inr(1) [OF units(1)] assms(2) by (simp add: snapshot_wf_def)
  note b = classify_ballot_intents_Inr [OF ballot]
  show thesis
    using units(2) ok b(2) by (rule classify_Inr) (use b(3) that ballot ok in auto)
qed

section \<open>A sample round\<close>

text \<open>
  Two bundles and two decided proposals: bundle 0 has a vote in flight with one submitted share,
  bundle 1 still needs its delegation.
\<close>

definition sample_planning :: planning_env where
  "sample_planning = \<lparr>plan_codecs = sample_codecs, hex_error_text = (\<lambda>_. []), blake2b32 = (\<lambda>_. []),
     canonical_base = (\<lambda>_. True)\<rparr>"

definition sample_snapshot :: RoundSnapshot where
  "sample_snapshot = \<lparr>snapshot_round_id = [],
     snapshot_delegations =
       [\<lparr>status_bundle_index = 0, status_phase = DelegationConfirmed, status_diagnostic = None\<rparr>,
        \<lparr>status_bundle_index = 1, status_phase = DelegationPrepared, status_diagnostic = None\<rparr>],
     snapshot_bundles = [(0, \<lparr>capability_imported = False, bundle_delegation_tx_hash = None\<rparr>),
       (1, \<lparr>capability_imported = False, bundle_delegation_tx_hash = None\<rparr>)],
     snapshot_votes = [((0, 1), \<lparr>vote_choice = 0, vote_phase = VoteSubmissionManaged, vote_row_tx_hash = None,
       vote_vc_tree_position = None, vote_recovery = None\<rparr>)],
     snapshot_shares = [], snapshot_share_phases = [(0, 1, 3, ShareSubmitted)],
     snapshot_intents = [(1, Choice 0), (2, Choice 1)],
     snapshot_lifecycle_hashes = Map.empty, snapshot_persisted_immediate_share = None,
     snapshot_rejection_blocked_bundles = []\<rparr>"

definition sample_cast :: Obligation where
  "sample_cast = Cast 1 [\<lparr>draft_proposal_id = 1, draft_choice = 0\<rparr>, \<lparr>draft_proposal_id = 2, draft_choice = 1\<rparr>] (Some 1) True"

lemma sample_snapshot_ok: "snapshot_wf sample_snapshot" "own_recoveries sample_snapshot"
  "\<forall>((b, p), vote)\<in>set (snapshot_votes sample_snapshot). b \<in> set (btree_keys (delegation_phases_map sample_snapshot))"
  by code_simp+

lemma sample_classified:
  obtains obls where "classify_round sample_planning sample_snapshot [1, 2] = Inr obls"
    "sample_cast \<in> set (round_obligations obls)" "\<not> round_needs_bundle_setup obls"
proof -
  have "(case classify_round sample_planning sample_snapshot [1, 2] of
      Inl _ \<Rightarrow> False
    | Inr obls \<Rightarrow> sample_cast \<in> set (round_obligations obls) \<and> \<not> round_needs_bundle_setup obls)"
    by code_simp
  then show thesis
    using that by (auto split: sum.splits)
qed

section \<open>Casts are safe\<close>

lemma draft_not_owned:
  assumes "classified env snapshot units ballot s steps delegated obls" "\<forall>u\<in>set units. unit_ok env snapshot u"
    and "draft_ok (classify_context_of snapshot units ballot) choices b d" "snapshot_wf snapshot"
    and vote: "btree_get (snapshot_votes snapshot) (b, draft_proposal_id d) = Some vote"
  shows "vote_phase vote \<in> {VotePrepared, VoteCommitted}"
proof -
  let ?p = "draft_proposal_id d"
  have stale: "(b, ?p) \<in> stale_keys snapshot \<Longrightarrow> ?thesis"
    using assms(1) vote lifecycle_owned_iff unfolding classified_def Let_def by blast
  have retirable: "(b, ?p) \<in> retirable_keys (ballot_roster ballot) units \<Longrightarrow> ?thesis"
    using retirable_committed(1) [OF _ assms(2) vote] by blast
  have uncast: "lifecycle_position_of (Some (vote_phase vote)) = Uncast \<Longrightarrow> ?thesis"
    by (cases "vote_phase vote") auto
  have "vote_choice vote \<noteq> draft_choice d \<Longrightarrow> (b, ?p) \<in> stale_keys snapshot"
    using assms(3,4) vote by (simp add: stale_keys_iff snapshot_wf_def ballot_relation_def draft_ok_def)
  then show ?thesis
    using assms(3) vote stale retirable uncast by (auto simp: draft_ok_def cast_due_def)
qed

lemma terminal_ballot:
  assumes "classify_ballot_intents proposal_ids (snapshot_intents snapshot) = Inr ballot"
    and "cc_terminal (classify_context_of snapshot units ballot)" "btree_wf (snapshot_intents snapshot)"
  shows "\<forall>p\<in>set proposal_ids. btree_get (snapshot_intents snapshot) p \<noteq> None"
    "\<forall>p. btree_get (snapshot_intents snapshot) p \<noteq> None \<and> p \<notin> set proposal_ids \<longrightarrow> proposal_lifecycle_owned snapshot p"
proof -
  note ballot = classify_ballot_intents_Inr [OF assms(1)]
  have "set (ballot_open_proposals ballot) = {}"
    and clear: "clearable_intents snapshot (ballot_unrostered_intents ballot) = []"
    using assms(2) by simp_all
  then show "\<forall>p\<in>set proposal_ids. btree_get (snapshot_intents snapshot) p \<noteq> None"
    using ballot(4) by auto
  show "\<forall>p. btree_get (snapshot_intents snapshot) p \<noteq> None \<and> p \<notin> set proposal_ids \<longrightarrow> proposal_lifecycle_owned snapshot p"
    using clear unfolding ballot(5) clearable_intents_def filter_empty_conv
    by (auto simp: btree.keys_iff [OF assms(3)])
qed

lemma bundle_vote_free:
  assumes "classified env snapshot units ballot s steps delegated obls" "\<forall>u\<in>set units. unit_ok env snapshot u"
    and "snapshot_wf snapshot" "b \<notin> cc_held (classify_context_of snapshot units ballot)"
    and vote: "btree_get (snapshot_votes snapshot) (b, p) = Some vote"
  shows "vote_phase vote \<notin> {VoteSubmitted, VoteSubmissionManaged, VoteSubmittedWithoutHash} \<and>
    (vote_phase vote = VoteCommitted \<longrightarrow>
       ballot_relation (snapshot_intents snapshot) p (vote_choice vote) = Conflicts \<or>
       (\<exists>i ps. Retire i ps \<in> set (round_obligations obls) \<and> unit_id_bundle i = b \<and> p \<in> set ps))"
proof -
  have wf: "btree_wf (snapshot_votes snapshot)"
    using assms(3) by (simp add: snapshot_wf_def)
  consider (stale) "(b, p) \<in> stale_keys snapshot" | (retirable) "(b, p) \<in> retirable_keys (ballot_roster ballot) units"
    | (free) "\<not> vote_phase_holds_bundle (vote_phase vote)"
    using not_held(1) [OF _ wf vote] assms(4) by auto
  then show ?thesis
  proof cases
    case stale
    then have "\<not> vote_phase_is_lifecycle_owned (vote_phase vote)"
      using assms(1) vote unfolding classified_def Let_def by blast
    then show ?thesis
      using stale vote unfolding stale_keys_iff [OF wf] lifecycle_owned_iff by auto
  next
    case retirable
    note committed = retirable_committed [OF retirable assms(2) vote]
    have "set (retirements (ballot_roster ballot) units) \<subseteq> set (cs_obligations s)"
      using assms(1) unfolding classified_def Let_def by blast
    then have "\<exists>i ps. Retire i ps \<in> set (round_obligations obls) \<and> unit_id_bundle i = b \<and> p \<in> set ps"
      using committed(2) classified_obligation [OF assms(1)] set_prerequisite_simps(1) by (metis subsetD)
    then show ?thesis
      using committed(1) by simp
  next
    case free
    then show ?thesis
      by (simp add: holds_bundle_iff)
  qed
qed

text \<open>
  C4: every cast the plan asks for is one the ballot and the stored rows allow. Its drafts name
  distinct rostered proposals with exactly the recorded choices, and a row that already exists for a
  draft is neither on the wire nor confirmed. All of the round's proposals are decided, and a decided
  proposal outside the roster already belongs to the chain. The bundle has no vote in flight; a
  committed vote it still holds conflicts with the ballot or is retired by the same plan. Its
  delegation neither runs nor failed, repeated rejections do not block it, and no other cast names
  the same bundle.
\<close>

theorem casts_are_safe:
  assumes "snapshot_wf snapshot" "classify_round env snapshot proposal_ids = Inr obls"
    and "Cast b drafts pre signs \<in> set (round_obligations obls)"
  shows "drafts \<noteq> [] \<and> distinct (map draft_proposal_id drafts) \<and>
    (\<forall>d\<in>set drafts. draft_proposal_id d \<in> set proposal_ids \<and>
       btree_get (snapshot_intents snapshot) (draft_proposal_id d) = Some (Choice (draft_choice d)) \<and>
       (\<forall>vote. btree_get (snapshot_votes snapshot) (b, draft_proposal_id d) = Some vote \<longrightarrow>
          vote_phase vote \<in> {VotePrepared, VoteCommitted})) \<and>
    (\<forall>p\<in>set proposal_ids. btree_get (snapshot_intents snapshot) p \<noteq> None) \<and>
    (\<forall>p. btree_get (snapshot_intents snapshot) p \<noteq> None \<and> p \<notin> set proposal_ids \<longrightarrow> proposal_lifecycle_owned snapshot p) \<and>
    (\<forall>p vote. btree_get (snapshot_votes snapshot) (b, p) = Some vote \<longrightarrow>
       vote_phase vote \<notin> {VoteSubmitted, VoteSubmissionManaged, VoteSubmittedWithoutHash} \<and>
       (vote_phase vote = VoteCommitted \<longrightarrow>
          ballot_relation (snapshot_intents snapshot) p (vote_choice vote) = Conflicts \<or>
          (\<exists>i ps. Retire i ps \<in> set (round_obligations obls) \<and> unit_id_bundle i = b \<and> p \<in> set ps))) \<and>
    (\<forall>phase. (b, phase) \<in> set (delegation_phases_map snapshot) \<longrightarrow> \<not> delegation_phase_holds_bundle phase) \<and>
    b \<notin> set (btree_keys (snapshot_rejection_blocked_bundles snapshot)) \<and>
    (\<forall>drafts' pre' signs'. Cast b drafts' pre' signs' \<in> set (round_obligations obls) \<longrightarrow> drafts' = drafts)"
proof -
  have "\<not> round_needs_bundle_setup obls"
    using assms(2,3) by (auto simp: classify_round_def classify_def Let_def and_then_eq_Inr split: if_splits)
  with assms(2,1) obtain ballot units s steps delegated
    where ballot: "classify_ballot_intents proposal_ids (snapshot_intents snapshot) = Inr ballot"
      and units: "\<forall>u\<in>set units. unit_ok env snapshot u"
      and plan: "classified env snapshot units ballot s steps delegated obls"
    by (rule classify_round_Inr)
  let ?cc = "classify_context_of snapshot units ballot"
  have drafts: "btree_get (cs_drafts s) b = Some drafts"
    by (rule classified_cast [OF plan assms(3)])
  have inv: "loop_inv env ?cc (ballot_choice_proposals ballot) s" and distinct: "distinct (drafts_of (cs_drafts s) b)"
    using plan unfolding classified_def Let_def by blast+
  have some: "drafts \<noteq> []" and ok: "\<And>d. d \<in> set drafts \<Longrightarrow> draft_ok ?cc (ballot_choice_proposals ballot) b d"
    using inv drafts by (simp_all add: loop_inv_def)
  have each: "draft_proposal_id d \<in> set proposal_ids \<and>
       btree_get (snapshot_intents snapshot) (draft_proposal_id d) = Some (Choice (draft_choice d)) \<and>
       (\<forall>vote. btree_get (snapshot_votes snapshot) (b, draft_proposal_id d) = Some vote \<longrightarrow>
          vote_phase vote \<in> {VotePrepared, VoteCommitted})" if "d \<in> set drafts" for d
    using ok [OF that] draft_not_owned [OF plan units ok [OF that] assms(1)] classify_ballot_intents_Inr(3) [OF ballot]
    by (simp add: draft_ok_def)
  have free: "b \<notin> cc_held ?cc" and terminal: "cc_terminal ?cc"
    using some ok [of "hd drafts"] by (simp_all add: draft_ok_def)
  have "distinct (map draft_proposal_id drafts)"
    using distinct drafts by (simp add: drafts_of_def)
  moreover have "\<forall>drafts' pre' signs'. Cast b drafts' pre' signs' \<in> set (round_obligations obls) \<longrightarrow> drafts' = drafts"
    using classified_cast [OF plan] drafts by (metis option.inject)
  moreover note terminal_ballot [OF ballot terminal] bundle_vote_free [OF plan units assms(1) free]
    not_held(2,3) [OF free [simplified]]
  ultimately show ?thesis
    using some each assms(1) unfolding snapshot_wf_def by blast
qed

theorem casts_are_safe_witness:
  "\<exists>obls. classify_round sample_planning sample_snapshot [1, 2] = Inr obls \<and>
     sample_cast \<in> set (round_obligations obls) \<and>
     (\<forall>p\<in>set [1, 2]. btree_get (snapshot_intents sample_snapshot) p \<noteq> None) \<and>
     (\<forall>p vote. btree_get (snapshot_votes sample_snapshot) (1, p) = Some vote \<longrightarrow>
        vote_phase vote \<notin> {VoteSubmitted, VoteSubmissionManaged, VoteSubmittedWithoutHash})"
proof -
  obtain obls where "classify_round sample_planning sample_snapshot [1, 2] = Inr obls"
    "sample_cast \<in> set (round_obligations obls)"
    by (rule sample_classified)
  then show ?thesis
    using casts_are_safe [OF sample_snapshot_ok(1)] unfolding sample_cast_def by blast
qed

section \<open>Nothing owed is dropped\<close>

lemma carried_obligation:
  assumes "classified env snapshot units ballot s steps delegated obls"
    and "carried env snapshot (set (cs_obligations s)) (b, p)"
  shows "\<exists>i ps undispatched tx_hash pre.
    ReconcileChain i b ps undispatched tx_hash pre \<in> set (round_obligations obls) \<and> p \<in> set ps"
  using assms(2) classified_obligation [OF assms(1)] unfolding carried_def reconcile_planned_def
  by (auto simp: case_prod_beta) (metis set_prerequisite_simps(3))

lemma delivery_obligation:
  assumes "classified env snapshot units ballot s steps delegated obls"
    and "delivery_planned env snapshot (set (cs_obligations s)) (b, p)"
  shows "\<exists>missing. missing_share_indexes env snapshot b p = Inr missing \<and>
    (missing \<noteq> [] \<longrightarrow> (\<exists>position pre. Deliver b p position missing pre \<in> set (round_obligations obls)))"
  using assms(2) classified_obligation [OF assms(1)] unfolding delivery_planned_def
  by (auto simp: case_prod_beta) (metis set_prerequisite_simps(4))

text \<open>
  The shares a recovery bundle expects to reach helpers: its first encrypted share in single-share
  mode, all of them otherwise.
\<close>

definition expected_shares :: "VoteRecoveryBundle \<Rightarrow> u32 set" where
  "expected_shares recovery =
     enc_share_index ` set (if recovery_single_share recovery then take 1 (recovery_encrypted_shares recovery)
       else recovery_encrypted_shares recovery)"

definition recorded_shares :: "RoundSnapshot \<Rightarrow> u32 \<Rightarrow> u32 \<Rightarrow> u32 set" where
  "recorded_shares snapshot b p = {j. \<exists>phase. (b, p, j, phase) \<in> set (snapshot_share_phases snapshot)}"

lemma recovered_payloads_shares:
  assumes "try_fold (recovered_payload recovery shares) xs acc = Inr ys"
  shows "map payload_enc_share ys = map payload_enc_share acc @ map snd xs"
  using assms
proof (induction xs arbitrary: acc)
  case (Cons x xs)
  obtain i share where x: "x = (i, share)"
    by fastforce
  from Cons.prems obtain acc' where "recovered_payload recovery shares x acc = Inr acc'"
      "try_fold (recovered_payload recovery shares) xs acc' = Inr ys"
    by (auto simp: and_then_eq_Inr)
  then show ?case
    using Cons.IH [of acc'] by (auto simp: x recovered_payload_def split: if_splits)
qed simp

lemma recover_payloads_shares:
  assumes "recover_payloads env recovery = Inr payloads"
  shows "(\<lambda>payload. wire_share_index (payload_enc_share payload)) ` set payloads = expected_shares recovery"
proof -
  let ?shares = "map wire_encrypted_share (recovery_encrypted_shares recovery)"
  let ?iter = "if recovery_single_share recovery then take 1 ?shares else ?shares"
  have "try_fold (recovered_payload recovery ?shares) (enumerate 0 ?iter) [] = Inr payloads"
    using assms unfolding recover_payloads_def Let_def and_then_eq_Inr by blast
  from recovered_payloads_shares [OF this] have "map payload_enc_share payloads = ?iter"
    by (simp only: map_snd_enumerate list.map append_Nil)
  then have "map wire_share_index (map payload_enc_share payloads) = map wire_share_index ?iter"
    by (simp only:)
  then have "map (\<lambda>payload. wire_share_index (payload_enc_share payload)) payloads =
      map enc_share_index (if recovery_single_share recovery then take 1 (recovery_encrypted_shares recovery)
       else recovery_encrypted_shares recovery)"
    by (simp add: take_map wire_encrypted_share_def comp_def)
  then show ?thesis
    unfolding expected_shares_def by (metis set_map)
qed

lemma missing_share_indexes_Inr:
  assumes "missing_share_indexes env snapshot b p = Inr missing"
  obtains vote recovery where "btree_get (snapshot_votes snapshot) (b, p) = Some vote" "vote_recovery vote = Some recovery"
    "sorted_wrt (<) missing" "set missing = expected_shares recovery - recorded_shares snapshot b p"
proof -
  obtain vote recovery payloads where vote: "btree_get (snapshot_votes snapshot) (b, p) = Some vote" "vote_recovery vote = Some recovery"
    and payloads: "recover_payloads env recovery = Inr payloads"
    and missing: "missing = sorted_list_of_set (set (map (\<lambda>payload. wire_share_index (payload_enc_share payload)) payloads) -
       set (map (\<lambda>(_, _, share_index, _). share_index)
            (filter (\<lambda>(bundle_ix, proposal, _, _). bundle_ix = b \<and> proposal = p) (snapshot_share_phases snapshot))))"
    using assms unfolding missing_share_indexes_def Let_def
    by (auto simp: and_then_eq_Inr ok_or_eq_Inr bind_eq_Some_conv split: if_splits simp del: set_map)
  have "set (map (\<lambda>(_, _, share_index, _). share_index)
      (filter (\<lambda>(bundle_ix, proposal, _, _). bundle_ix = b \<and> proposal = p) (snapshot_share_phases snapshot))) =
      recorded_shares snapshot b p"
    by (force simp: recorded_shares_def)
  then have "missing = sorted_list_of_set (expected_shares recovery - recorded_shares snapshot b p)"
    using missing recover_payloads_shares [OF payloads] by simp
  then show thesis
    using that [OF vote] by (simp add: expected_shares_def)
qed
lemma set_prerequisite_Deliver:
  "set_prerequisite delegated x = Deliver b p position missing pre \<longleftrightarrow>
     pre = (if b \<in> delegated then Some b else None) \<and> (\<exists>pre'. x = Deliver b p position missing pre')"
  by (cases x) (auto simp: set_prerequisite_def Let_def)

lemma classified_deliver:
  assumes "classified env snapshot units ballot s steps delegated obls"
    and "Deliver b p position missing pre \<in> set (round_obligations obls)"
  shows "missing_share_indexes env snapshot b p = Inr missing" "missing \<noteq> []"
proof -
  have inv: "loop_inv env (classify_context_of snapshot units ballot) (ballot_choice_proposals ballot) s"
    and steps: "\<forall>x\<in>set steps. advances delegated x"
    using assms(1) unfolding classified_def Let_def by blast+
  have no: "Deliver b p position missing pre' \<notin> set steps"
    "Deliver b p position missing pre' \<notin> set (cast_obligations snapshot delegation drafts)"
    "Deliver b p position missing pre' \<notin> set (confirm_obligations snapshot (stale_keys snapshot))"
    "Deliver b p position missing pre' \<notin> set (blocked_obligations open_proposals unrostered blocked)"
    for pre' delegation drafts open_proposals unrostered blocked
    using steps by (auto simp: cast_obligations_def confirm_obligations_def blocked_obligations_def Let_def)
  obtain x where "Deliver b p position missing pre = set_prerequisite delegated x"
    and x: "x \<in> set (cs_obligations s @ cast_obligations snapshot (delegation_phases_map snapshot) (cs_drafts s) @
         blocked_obligations (ballot_open_proposals ballot)
           (clearable_intents snapshot (ballot_unrostered_intents ballot)) (cs_blocked s) @
         steps @ confirm_obligations snapshot (stale_keys snapshot))"
    using assms unfolding classified_def Let_def by auto
  then obtain pre' where "x = Deliver b p position missing pre'"
    using set_prerequisite_Deliver [of delegated x b p position missing pre] by auto
  then have "Deliver b p position missing pre' \<in> set (cs_obligations s)"
    using x no by simp
  then show "missing_share_indexes env snapshot b p = Inr missing" "missing \<noteq> []"
    using inv by (auto simp: loop_inv_def planned_kind_def)
qed

lemma submitted_share_confirmed:
  assumes "(b, p, j, ShareSubmitted) \<in> set (snapshot_share_phases snapshot)" "(b, p) \<notin> stale"
  shows "\<exists>accepted unknown. Confirm b p j accepted unknown None \<in> set (confirm_obligations snapshot stale)"
proof -
  have "(b, p, j, ShareSubmitted) \<in> set (filter (\<lambda>(b, p, _, phase). (b, p) \<notin> stale \<and> phase = ShareSubmitted)
      (snapshot_share_phases snapshot))"
    using assms by simp
  then show ?thesis
    unfolding confirm_obligations_def set_map Let_def
    by (intro exI) (erule rev_image_eqI, unfold prod.case, rule refl)
qed

lemma submitted_share_obligation:
  assumes "classified env snapshot units ballot s steps delegated obls"
    and "(b, p, j, ShareSubmitted) \<in> set (snapshot_share_phases snapshot)" "(b, p) \<notin> stale_keys snapshot"
  shows "\<exists>accepted unknown pre. Confirm b p j accepted unknown pre \<in> set (round_obligations obls)"
  using submitted_share_confirmed [OF assms(2,3)] classified_obligation [OF assms(1)] set_prerequisite_simps(5) by metis

lemma confirmed_vote_delivery:
  assumes "classified env snapshot units ballot s steps delegated obls"
    and "delivery_planned env snapshot (set (cs_obligations s)) (b, p)"
    and "btree_get (snapshot_votes snapshot) (b, p) = Some vote"
  shows "\<exists>recovery. vote_recovery vote = Some recovery \<and>
    (expected_shares recovery - recorded_shares snapshot b p \<noteq> {} \<longrightarrow>
       (\<exists>position missing pre. Deliver b p position missing pre \<in> set (round_obligations obls)))"
proof -
  obtain missing where missing: "missing_share_indexes env snapshot b p = Inr missing"
      "missing \<noteq> [] \<longrightarrow> (\<exists>position pre. Deliver b p position missing pre \<in> set (round_obligations obls))"
    using delivery_obligation [OF assms(1,2)] by blast
  from missing(1) show ?thesis
    by (rule missing_share_indexes_Inr) (use missing(2) assms(3) in fastforce)
qed

text \<open>A vote the chain owns is handled by one of the two passes.\<close>

lemma owned_vote_handled:
  assumes plan: "classified env snapshot units ballot s steps delegated obls"
    and units: "\<forall>u\<in>set units. unit_ok env snapshot u" and wf: "btree_wf (snapshot_votes snapshot)"
    and ballot: "classify_ballot_intents proposal_ids (snapshot_intents snapshot) = Inr ballot"
    and known: "b \<in> set (btree_keys (delegation_phases_map snapshot))"
    and vote: "btree_get (snapshot_votes snapshot) (b, p) = Some vote"
      "vote_phase_is_lifecycle_owned (vote_phase vote)"
  shows "vote_handled env (classify_context_of snapshot units ballot) b p vote s"
proof (cases "btree_get (snapshot_intents snapshot) p = None \<or> p \<notin> ballot_roster ballot")
  case True
  have "((b, p), vote) \<in> set (snapshot_votes snapshot)"
    using vote(1) btree_get_in [OF wf] by simp
  then show ?thesis
    using plan True unfolding classified_def Let_def by fast
next
  case False
  let ?cc = "classify_context_of snapshot units ballot"
  have fresh: "(b, p) \<notin> stale_keys snapshot"
    using plan vote unfolding classified_def Let_def by blast
  obtain decision where decision: "btree_get (snapshot_intents snapshot) p = Some decision" "p \<in> ballot_roster ballot"
    using False by (cases "btree_get (snapshot_intents snapshot) p") simp_all
  then have choice: "btree_get (snapshot_intents snapshot) p = Some (Choice (vote_choice vote))"
    using fresh vote(1) by (cases decision) (auto simp: stale_keys_iff [OF wf] ballot_relation_def split: if_splits)
  have "p \<in> set (ballot_choice_proposals ballot)"
    using classify_ballot_intents_Inr(1,3) [OF ballot] choice decision(2) by simp
  then have handled: "choice_handled env ?cc p (vote_choice vote) b s"
    using plan choice known unfolding classified_def Let_def by blast
  have "(b, p) \<notin> retirable_keys (ballot_roster ballot) units"
    using retirable_committed(1) [OF _ units vote(1)] vote(2) by (auto simp: lifecycle_owned_iff)
  moreover have "lifecycle_position_of (Some (vote_phase vote)) \<noteq> Uncast"
    using vote(2) by (auto simp: vote_phase_is_lifecycle_owned_def)
  ultimately have "\<not> cast_due ?cc p (vote_choice vote) b"
    using fresh vote(1) by (simp add: cast_due_def)
  then show ?thesis
    using handled vote(1) by (simp add: choice_handled_def)
qed

lemma rostered_choice_planned:
  assumes plan: "classified env snapshot units ballot s steps delegated obls"
    and ballot: "classify_ballot_intents proposal_ids (snapshot_intents snapshot) = Inr ballot"
    and "b \<in> set (btree_keys (delegation_phases_map snapshot))" "p \<in> set proposal_ids"
    and "btree_get (snapshot_intents snapshot) p = Some (Choice choice)"
  shows "(\<exists>drafts pre signs. Cast b drafts pre signs \<in> set (round_obligations obls) \<and>
       \<lparr>draft_proposal_id = p, draft_choice = choice\<rparr> \<in> set drafts) \<or>
    p \<in> round_withheld_casts obls \<or>
    (\<exists>vote. btree_get (snapshot_votes snapshot) (b, p) = Some vote \<and> vote_choice vote = choice \<and>
       (vote_phase_is_lifecycle_owned (vote_phase vote) \<or>
        vote_phase vote = VoteCommitted \<and> (\<exists>i ps undispatched tx_hash pre.
          ReconcileChain i b ps undispatched tx_hash pre \<in> set (round_obligations obls) \<and> p \<in> set ps)))"
proof -
  let ?cc = "classify_context_of snapshot units ballot"
  have "p \<in> set (ballot_choice_proposals ballot)"
    using classify_ballot_intents_Inr(3) [OF ballot] assms(4,5) by simp
  then have handled: "choice_handled env ?cc p choice b s"
    using plan assms(3,5) unfolding classified_def Let_def by blast
  have withheld: "round_withheld_casts obls = cs_withheld s" and wf: "btree_wf (cs_drafts s)"
    using plan unfolding classified_def Let_def loop_inv_def by blast+
  show ?thesis
  proof (cases "cast_due ?cc p choice b")
    case True
    then consider ds where "btree_get (cs_drafts s) b = Some ds" "\<lparr>draft_proposal_id = p, draft_choice = choice\<rparr> \<in> set ds"
      | "p \<in> cs_withheld s"
      using handled by (auto simp: choice_handled_def)
    then show ?thesis
    proof cases
      case (1 ds)
      then have "Cast b ds None (cast_signs_delegation snapshot (delegation_phases_map snapshot) b) \<in>
        set (cast_obligations snapshot (delegation_phases_map snapshot) (cs_drafts s))"
        by (simp add: cast_obligations_iff btree_get_in [OF wf])
      then show ?thesis
        using classified_obligation [OF plan] 1(2) set_prerequisite_simps(2) by metis
    qed (simp add: withheld)
  next
    case False
    then obtain vote where vote: "btree_get (snapshot_votes snapshot) (b, p) = Some vote" "vote_choice vote = choice"
      "lifecycle_position_of (Some (vote_phase vote)) \<noteq> Uncast"
      by (auto simp: cast_due_def split: option.splits)
    then have "vote_phase_is_lifecycle_owned (vote_phase vote) \<or> vote_phase vote = VoteCommitted"
      by (cases "vote_phase vote") (auto simp: lifecycle_owned_iff)
    then show ?thesis
      using handled False vote carried_obligation [OF plan, of b p]
      by (auto simp: choice_handled_def undispatched_iff withheld)
  qed
qed

text \<open>
  C6: a plan that does not wait for bundle setup leaves no owed work out, as long as every vote
  belongs to a bundle with a delegation status. A vote on the wire is among the proposals of a chain
  reconciliation of its bundle. A confirmed vote has a recovery bundle, and if some share it expects
  at the helpers has no recorded share row a delivery is planned for it. Every planned delivery belongs to a
  vote with a recovery bundle and lists, once each and in order, exactly the shares the bundle
  expects without a recorded row, which are never none. Every rostered choice is, for every bundle with a
  delegation status, drafted for a cast, reported as withheld, or already carried by a row with that choice that the
  chain owns or the plan reconciles. Every submitted share is confirmed, unless the vote's recorded choice
  conflicts with the ballot.
\<close>

theorem owed_work_is_planned:
  assumes "snapshot_wf snapshot" "classify_round env snapshot proposal_ids = Inr obls"
    and "\<not> round_needs_bundle_setup obls"
    and "\<forall>((b, p), vote)\<in>set (snapshot_votes snapshot). b \<in> set (btree_keys (delegation_phases_map snapshot))"
  shows "(\<forall>b p vote. btree_get (snapshot_votes snapshot) (b, p) = Some vote \<longrightarrow>
       (vote_phase vote \<in> {VoteSubmitted, VoteSubmissionManaged} \<longrightarrow>
          (\<exists>i ps undispatched tx_hash pre.
             ReconcileChain i b ps undispatched tx_hash pre \<in> set (round_obligations obls) \<and> p \<in> set ps)) \<and>
       (vote_phase vote = VoteConfirmed \<longrightarrow>
          (\<exists>recovery. vote_recovery vote = Some recovery \<and>
             (expected_shares recovery - recorded_shares snapshot b p \<noteq> {} \<longrightarrow>
                (\<exists>position missing pre. Deliver b p position missing pre \<in> set (round_obligations obls)))))) \<and>
    (\<forall>b p position missing pre. Deliver b p position missing pre \<in> set (round_obligations obls) \<longrightarrow>
       (\<exists>vote recovery. btree_get (snapshot_votes snapshot) (b, p) = Some vote \<and> vote_recovery vote = Some recovery \<and>
          missing \<noteq> [] \<and> sorted_wrt (<) missing \<and>
          set missing = expected_shares recovery - recorded_shares snapshot b p)) \<and>
    (\<forall>b p choice. b \<in> set (btree_keys (delegation_phases_map snapshot)) \<and> p \<in> set proposal_ids \<and>
         btree_get (snapshot_intents snapshot) p = Some (Choice choice) \<longrightarrow>
       (\<exists>drafts pre signs. Cast b drafts pre signs \<in> set (round_obligations obls) \<and>
          \<lparr>draft_proposal_id = p, draft_choice = choice\<rparr> \<in> set drafts) \<or>
       p \<in> round_withheld_casts obls \<or>
       (\<exists>vote. btree_get (snapshot_votes snapshot) (b, p) = Some vote \<and> vote_choice vote = choice \<and>
          (vote_phase_is_lifecycle_owned (vote_phase vote) \<or>
           vote_phase vote = VoteCommitted \<and> (\<exists>i ps undispatched tx_hash pre.
             ReconcileChain i b ps undispatched tx_hash pre \<in> set (round_obligations obls) \<and> p \<in> set ps)))) \<and>
    (\<forall>b p j. (b, p, j, ShareSubmitted) \<in> set (snapshot_share_phases snapshot) \<and> (b, p) \<notin> stale_keys snapshot \<longrightarrow>
       (\<exists>accepted unknown pre. Confirm b p j accepted unknown pre \<in> set (round_obligations obls)))"
proof -
  have wf: "btree_wf (snapshot_votes snapshot)"
    using assms(1) by (simp add: snapshot_wf_def)
  obtain ballot units s steps delegated
    where ballot: "classify_ballot_intents proposal_ids (snapshot_intents snapshot) = Inr ballot"
      and units: "\<forall>u\<in>set units. unit_ok env snapshot u"
      and plan: "classified env snapshot units ballot s steps delegated obls"
    using assms(2,1,3) by (rule classify_round_Inr)
  have handled: "vote_handled env (classify_context_of snapshot units ballot) b p vote s"
    if "btree_get (snapshot_votes snapshot) (b, p) = Some vote" "vote_phase_is_lifecycle_owned (vote_phase vote)" for b p vote
    using that assms(4) btree_get_in [OF wf, of "(b, p)"]
    by (intro owned_vote_handled [OF plan units wf ballot]) auto
  have wire: "\<exists>i ps undispatched tx_hash pre.
      ReconcileChain i b ps undispatched tx_hash pre \<in> set (round_obligations obls) \<and> p \<in> set ps"
    if "btree_get (snapshot_votes snapshot) (b, p) = Some vote" "vote_phase vote \<in> {VoteSubmitted, VoteSubmissionManaged}"
    for b p vote
    using handled [OF that(1)] that(2) unfolding vote_handled_def on_wire_iff lifecycle_owned_iff
    by (intro carried_obligation [OF plan]) auto
  have confirmed: "\<exists>recovery. vote_recovery vote = Some recovery \<and>
      (expected_shares recovery - recorded_shares snapshot b p \<noteq> {} \<longrightarrow>
         (\<exists>position missing pre. Deliver b p position missing pre \<in> set (round_obligations obls)))"
    if vote: "btree_get (snapshot_votes snapshot) (b, p) = Some vote" "vote_phase vote = VoteConfirmed" for b p vote
  proof -
    have "delivery_planned env snapshot (set (cs_obligations s)) (b, p)"
      using handled [OF vote(1)] vote(2) unfolding vote_handled_def position_confirmed_iff lifecycle_owned_iff by simp
    then show ?thesis
      using vote(1) by (intro confirmed_vote_delivery [OF plan])
  qed
  have deliver: "\<exists>vote recovery. btree_get (snapshot_votes snapshot) (b, p) = Some vote \<and> vote_recovery vote = Some recovery \<and>
      missing \<noteq> [] \<and> sorted_wrt (<) missing \<and> set missing = expected_shares recovery - recorded_shares snapshot b p"
    if "Deliver b p position missing pre \<in> set (round_obligations obls)" for b p position missing pre
    using classified_deliver [OF plan that] by (elim missing_share_indexes_Inr) blast
  show ?thesis
    by (intro conjI allI impI; (elim conjE)?;
        rule wire confirmed deliver submitted_share_obligation [OF plan] rostered_choice_planned [OF plan ballot]; assumption)
qed

text \<open>
  A confirmed vote of the first bundle with two expected shares, the first of them submitted.
\<close>

definition delivery_recovery :: VoteRecoveryBundle where
  "delivery_recovery = \<lparr>recovery_vote_round_id = lit (replicate 64 CHR ''0''), recovery_bundle_index = 0, recovery_proposal_id = 1,
     recovery_vote_decision = 0, recovery_anchor_height = 0, recovery_vc_tree_position = 0,
     recovery_single_share = False, recovery_num_options = 2, recovery_van_nullifier = [],
     recovery_vote_authority_note_new = [], recovery_vote_commitment = [], recovery_proof = [],
     recovery_shares_hash = [], recovery_r_vpk = [], recovery_alpha_v = [], recovery_vote_auth_sig = [],
     recovery_encrypted_shares = map (\<lambda>j. \<lparr>enc_c1 = [], enc_c2 = [], enc_share_index = j, enc_plaintext_value = 0,
       enc_randomness = []\<rparr>) [3, 4],
     recovery_share_blinds = [[], []], recovery_share_comms = [], recovery_batch = None\<rparr>"

definition delivery_snapshot :: RoundSnapshot where
  "delivery_snapshot = sample_snapshot\<lparr>snapshot_votes := [((0, 1), \<lparr>vote_choice = 0, vote_phase = VoteConfirmed,
     vote_row_tx_hash = None, vote_vc_tree_position = Some 7, vote_recovery = Some delivery_recovery\<rparr>)]\<rparr>"

lemma delivery_classified:
  obtains obls where "classify_round sample_planning delivery_snapshot [1, 2] = Inr obls"
    "\<not> round_needs_bundle_setup obls"
proof -
  have "(case classify_round sample_planning delivery_snapshot [1, 2] of
      Inl _ \<Rightarrow> False | Inr obls \<Rightarrow> \<not> round_needs_bundle_setup obls)"
    by code_simp
  then show thesis
    using that by (auto split: sum.splits)
qed

lemma delivery_snapshot_ok:
  "snapshot_wf delivery_snapshot"
  "\<forall>((b, p), vote)\<in>set (snapshot_votes delivery_snapshot). b \<in> set (btree_keys (delegation_phases_map delivery_snapshot))"
  by code_simp+

theorem owed_work_is_planned_witness:
  "\<exists>obls position pre. classify_round sample_planning delivery_snapshot [1, 2] = Inr obls \<and>
     Deliver 0 1 position [4] pre \<in> set (round_obligations obls)"
proof -
  obtain obls where obls: "classify_round sample_planning delivery_snapshot [1, 2] = Inr obls"
    "\<not> round_needs_bundle_setup obls"
    by (rule delivery_classified)
  note owed = owed_work_is_planned [OF delivery_snapshot_ok(1) obls delivery_snapshot_ok(2)]
  have vote: "btree_get (snapshot_votes delivery_snapshot) (0, 1) = Some \<lparr>vote_choice = 0, vote_phase = VoteConfirmed,
      vote_row_tx_hash = None, vote_vc_tree_position = Some 7, vote_recovery = Some delivery_recovery\<rparr>"
    by (simp add: delivery_snapshot_def btree_get_def)
  have shares: "expected_shares delivery_recovery - recorded_shares delivery_snapshot 0 1 = {4}"
    by (auto simp: expected_shares_def recorded_shares_def delivery_recovery_def delivery_snapshot_def sample_snapshot_def)
  have "\<exists>position missing pre. Deliver 0 1 position missing pre \<in> set (round_obligations obls)"
    using conjunct1 [OF owed, rule_format, OF vote] shares by auto
  then obtain position missing pre where deliver: "Deliver 0 1 position missing pre \<in> set (round_obligations obls)"
    by blast
  from conjunct1 [OF conjunct2 [OF owed], rule_format, OF this]
  have "sorted_wrt (<) missing" "set missing = {4}"
    by (simp_all add: vote shares)
  then have "missing = [4]"
    by (cases missing) (auto simp: subset_singleton_iff split: if_splits)
  then show ?thesis
    using obls(1) deliver by blast
qed

end
