(* ===== verification/Round_Plan.thy ===== *)
theory Round_Plan
  imports Round_Planning Round_Projection
begin

text \<open>
  The plan a host executes: every step stands for an obligation and resolves back to it, waits for
  exactly the delegation its obligation waits for, and planning reaches none of the code's panics
  when every recovery bundle names the proposal of its own row.
\<close>

section \<open>Searching a list\<close>

lemma find_hit: "find P xs \<noteq> None \<longleftrightarrow> (\<exists>x\<in>set xs. P x)"
  by (auto simp: find_None_iff)

lemma find_SomeD: "find P xs = Some x \<Longrightarrow> x \<in> set xs \<and> P x"
  by (auto simp: find_Some_iff)

section \<open>Steps of well-shaped obligations\<close>

fun well_shaped :: "Obligation \<Rightarrow> bool" where
  "well_shaped (ReconcileChain (Singleton _ p) b ordered undispatched tx_hash prerequisite) \<longleftrightarrow> ordered = [p]"
| "well_shaped (ReconcileChain (Batch _ _) b ordered undispatched tx_hash prerequisite) \<longleftrightarrow> ordered \<noteq> []"
| "well_shaped (Cast b drafts prerequisite signs_delegation) \<longleftrightarrow> drafts \<noteq> []"
| "well_shaped (Deliver b p position share_indexes prerequisite) \<longleftrightarrow> share_indexes \<noteq> []"
| "well_shaped _ \<longleftrightarrow> True"

definition steps_of :: "Obligation \<Rightarrow> NextStep list" where
  "steps_of obligation = (case obligation_steps obligation of Inr steps \<Rightarrow> steps | Inl _ \<Rightarrow> [])"

lemma obligation_steps_eq: "well_shaped obligation \<Longrightarrow> obligation_steps obligation = Inr (steps_of obligation)"
  by (cases obligation rule: well_shaped.cases)
    (auto simp: steps_of_def first_proposal_def split: list.splits)

lemma step_matches_eq:
  assumes "well_shaped obligation"
  shows "step_matches obligation step = Inr (step \<in> set (steps_of obligation))"
proof (cases obligation)
  case (ReconcileChain u b ordered undispatched tx_hash pre)
  then show ?thesis
    using assms by (cases u; cases step) (auto simp: steps_of_def first_proposal_def split: list.splits)
next
  case (AdvanceDelegation b imported phase tx_hash)
  then show ?thesis
    by (cases step; cases imported) (auto simp: steps_of_def)
qed (cases step; force simp: steps_of_def list_ex_iff image_iff)+

lemma steps_from_obligations_eq:
  assumes "\<forall>x\<in>set obligations. well_shaped x"
  shows "steps_from_obligations obligations = Inr (concat (map steps_of obligations))"
proof -
  have "try_fold (\<lambda>obligation steps. and_then (obligation_steps obligation) (\<lambda>new. Inr (steps @ new))) obligations acc =
    Inr (acc @ concat (map steps_of obligations))" for acc
    using assms by (induction obligations arbitrary: acc) (simp_all add: obligation_steps_eq)
  then show ?thesis
    by (simp add: steps_from_obligations_def)
qed

lemma resolve_step_eq:
  "\<forall>x\<in>set obligations. well_shaped x \<Longrightarrow>
   resolve_step obligations step = Inr (find (\<lambda>x. step \<in> set (steps_of x)) obligations)"
  by (induction obligations) (auto simp: step_matches_eq)

lemma steps_of_empty: "well_shaped x \<Longrightarrow> steps_of x = [] \<longleftrightarrow> (\<exists>u ps. x = Retire u ps) \<or> (\<exists>b r. x = Blocked b r)"
  by (cases x rule: well_shaped.cases) (auto simp: steps_of_def first_proposal_def split: list.splits)

section \<open>Obligations of a plan are well-shaped\<close>

lemma set_prerequisite_shape [simp]: "well_shaped (set_prerequisite delegated x) \<longleftrightarrow> well_shaped x"
  by (cases x rule: well_shaped.cases) (auto simp: set_prerequisite_def Let_def)

lemma planned_kind_shape:
  assumes "planned_kind env cc x" "\<forall>u\<in>set (cc_units cc). unit_ok env (cc_snapshot cc) u"
  shows "well_shaped x"
proof -
  have "well_shaped (ReconcileChain (unit_id u) b (unit_proposal_ids u) undispatched h pre)" if "u \<in> set (cc_units cc)"
    for u b undispatched h pre
    using assms(2) that
    by (cases "unit_id u") (auto simp: unit_ok_def unit_roster_def unit_proposal_ids_def)
  then show ?thesis
    using assms(1) unfolding planned_kind_def by auto
qed

lemma classified_shape:
  assumes "classified env snapshot units ballot s steps delegated obls" "\<forall>u\<in>set units. unit_ok env snapshot u"
    and "x \<in> set (round_obligations obls)"
  shows "well_shaped x"
proof -
  let ?cc = "classify_context_of snapshot units ballot"
  have inv: "loop_inv env ?cc (ballot_choice_proposals ballot) s" and advance: "\<forall>x\<in>set steps. advances delegated x"
    using assms(1) unfolding classified_def Let_def by blast+
  have "well_shaped y" if "y \<in> set (cs_obligations s)" for y
    using inv that planned_kind_shape [of env ?cc y] assms(2) by (simp add: loop_inv_def)
  moreover have "well_shaped y" if "y \<in> set (cast_obligations snapshot (delegation_phases_map snapshot) (cs_drafts s))" for y
    using inv that by (fastforce simp: cast_obligations_def ATOMIC_VOTE_BATCHES_ENABLED_def Let_def loop_inv_def btree_get_in)
  moreover have "well_shaped y" if "y \<in> set steps" for y
    using advance that by (cases y) auto
  moreover have "well_shaped y" if "y \<in> set (confirm_obligations snapshot stale)" for y stale
    using that by (auto simp: confirm_obligations_def Let_def)
  moreover have "well_shaped y" if "y \<in> set (blocked_obligations opens unrostered blocked)" for y opens unrostered blocked
    using that by (auto simp: blocked_obligations_def)
  ultimately show ?thesis
    using assms(1,3) unfolding classified_def Let_def by (auto simp del: set_prerequisite_simps)
qed

section \<open>Steps and prerequisites\<close>

fun obligation_prerequisite :: "Obligation \<Rightarrow> u32 option" where
  "obligation_prerequisite (Cast b drafts prerequisite signs_delegation) = prerequisite"
| "obligation_prerequisite (ReconcileChain u b ordered undispatched tx_hash prerequisite) = prerequisite"
| "obligation_prerequisite (Deliver b p position share_indexes prerequisite) = prerequisite"
| "obligation_prerequisite (Confirm b p i accepted outcome_unknown prerequisite) = prerequisite"
| "obligation_prerequisite _ = None"

lemma steps_of_prerequisite:
  assumes "step \<in> set (steps_of x)" "well_shaped x"
  shows "dependent_bundle step = None \<and> obligation_prerequisite (set_prerequisite delegated x) = None \<or>
    dependent_bundle step = Some (obligation_bundle_index x) \<and>
    obligation_prerequisite (set_prerequisite delegated x) =
      (if obligation_bundle_index x \<in> delegated then Some (obligation_bundle_index x) else None)"
  using assms
  by (cases x rule: well_shaped.cases)
    (auto simp: steps_of_def set_prerequisite_def first_proposal_def split: list.splits if_splits)

lemma steps_of_set_prerequisite [simp]: "steps_of (set_prerequisite delegated x) = steps_of x"
  by (cases x rule: well_shaped.cases) (simp_all add: steps_of_def set_prerequisite_def)

lemma steps_of_delegates:
  "step \<in> set (steps_of x) \<and> delegates_bundle b step \<longleftrightarrow>
     (x = Delegate b \<and> step = StepDelegate b) \<or>
     (\<exists>imported phase h. x = AdvanceDelegation b imported phase h \<and>
        step = (if imported then StepAdvanceImportedDelegation b else StepAdvanceDelegation b))"
  by (cases x rule: well_shaped.cases)
    (auto simp: steps_of_def first_proposal_def split: list.splits if_splits)

lemma advances_delegates:
  "advances B x \<Longrightarrow> \<exists>step\<in>set (steps_of x). delegates_bundle (obligation_bundle_index x) step"
  by (cases x) (auto simp: steps_of_def)

lemma delegated_iff:
  assumes "classified env snapshot units ballot s steps delegated obls"
  shows "b \<in> delegated \<longleftrightarrow> (\<exists>x\<in>set (round_obligations obls). \<exists>step\<in>set (steps_of x). delegates_bundle b step)"
proof
  have list: "round_obligations obls = map (set_prerequisite delegated)
        (cs_obligations s @ cast_obligations snapshot (delegation_phases_map snapshot) (cs_drafts s) @
         blocked_obligations (ballot_open_proposals ballot)
           (clearable_intents snapshot (ballot_unrostered_intents ballot)) (cs_blocked s) @
         steps @ confirm_obligations snapshot (stale_keys snapshot))"
    and steps: "\<forall>x\<in>set steps. advances delegated x" "delegated = obligation_bundle_index ` set steps"
    and inv: "loop_inv env (classify_context_of snapshot units ballot) (ballot_choice_proposals ballot) s"
    using assms unfolding classified_def Let_def by blast+
  show "\<exists>x\<in>set (round_obligations obls). \<exists>step\<in>set (steps_of x). delegates_bundle b step" if member: "b \<in> delegated"
  proof -
    obtain x where x: "x \<in> set steps" "obligation_bundle_index x = b"
      using member steps(2) by auto
    then have "\<exists>step\<in>set (steps_of (set_prerequisite delegated x)). delegates_bundle b step"
      using advances_delegates [of delegated x] steps(1) by auto
    moreover have "set_prerequisite delegated x \<in> set (round_obligations obls)"
      using x(1) unfolding list by auto
    ultimately show ?thesis
      by blast
  qed
  assume "\<exists>x\<in>set (round_obligations obls). \<exists>step\<in>set (steps_of x). delegates_bundle b step"
  then obtain x step where hit: "step \<in> set (steps_of x)" "delegates_bundle b step"
    and x: "x \<in> set (cs_obligations s) \<or>
        x \<in> set (cast_obligations snapshot (delegation_phases_map snapshot) (cs_drafts s)) \<or>
        x \<in> set (blocked_obligations (ballot_open_proposals ballot)
           (clearable_intents snapshot (ballot_unrostered_intents ballot)) (cs_blocked s)) \<or>
        x \<in> set steps \<or> x \<in> set (confirm_obligations snapshot (stale_keys snapshot))"
    unfolding list by auto
  have kind: "x = Delegate b \<or> (\<exists>imported phase h. x = AdvanceDelegation b imported phase h)"
    using hit steps_of_delegates by blast
  have "x \<in> set steps"
    using x kind inv by (auto simp: loop_inv_def planned_kind_def cast_obligations_def ATOMIC_VOTE_BATCHES_ENABLED_def
      blocked_obligations_def confirm_obligations_def Let_def)
  then show "b \<in> delegated"
    using kind steps(1) by auto
qed

lemma project_steps:
  assumes "project env snapshot proposal_ids obls = Inr host_plan" "\<forall>x\<in>set (round_obligations obls). well_shaped x"
  shows "next_steps host_plan = sort_key step_rank (concat (map steps_of (round_obligations obls)))"
  using assms(1) by (auto simp: project_def Let_def and_then_eq_Inr steps_from_obligations_eq [OF assms(2)])

text \<open>The obligations of a round that waits for bundle setup are empty; otherwise they are classified.\<close>

lemma classify_round_shape:
  assumes "classify_round env snapshot proposal_ids = Inr obls" "snapshot_wf snapshot"
  shows "\<forall>x\<in>set (round_obligations obls). well_shaped x"
    and "\<forall>x\<in>set (round_obligations obls). \<forall>step\<in>set (steps_of x).
      obligation_prerequisite x \<noteq> None \<longleftrightarrow>
      (\<exists>b. dependent_bundle step = Some b \<and>
         (\<exists>y\<in>set (round_obligations obls). \<exists>other\<in>set (steps_of y). delegates_bundle b other))"
proof -
  have "(\<forall>x\<in>set (round_obligations obls). well_shaped x) \<and>
    (\<forall>x\<in>set (round_obligations obls). \<forall>step\<in>set (steps_of x).
      obligation_prerequisite x \<noteq> None \<longleftrightarrow>
      (\<exists>b. dependent_bundle step = Some b \<and>
         (\<exists>y\<in>set (round_obligations obls). \<exists>other\<in>set (steps_of y). delegates_bundle b other)))"
  proof (cases "round_needs_bundle_setup obls")
    case True
    then have "round_obligations obls = []"
      using assms(1) by (auto simp: classify_round_def classify_def Let_def and_then_eq_Inr split: if_splits)
    then show ?thesis
      by simp
  next
    case False
    obtain ballot units s steps delegated
      where units: "\<forall>u\<in>set units. unit_ok env snapshot u"
        and plan: "classified env snapshot units ballot s steps delegated obls"
      using assms False by (rule classify_round_Inr)
    note shape = classified_shape [OF plan units]
    have "obligation_prerequisite x \<noteq> None \<longleftrightarrow> (\<exists>b. dependent_bundle step = Some b \<and> b \<in> delegated)"
      if member: "x \<in> set (round_obligations obls)" and hit: "step \<in> set (steps_of x)" for x step
    proof -
      obtain y where y: "x = set_prerequisite delegated y"
        using member plan unfolding classified_def Let_def by auto
      show ?thesis
        using steps_of_prerequisite [of step y delegated] hit shape [OF member] unfolding y by (auto split: if_splits)
    qed
    then show ?thesis
      using shape delegated_iff [OF plan] by auto
  qed
  then show "\<forall>x\<in>set (round_obligations obls). well_shaped x"
    and "\<forall>x\<in>set (round_obligations obls). \<forall>step\<in>set (steps_of x).
      obligation_prerequisite x \<noteq> None \<longleftrightarrow>
      (\<exists>b. dependent_bundle step = Some b \<and>
         (\<exists>y\<in>set (round_obligations obls). \<exists>other\<in>set (steps_of y). delegates_bundle b other))"
    by blast+
qed

lemma blocking_prerequisite_iff:
  "blocking_prerequisite steps step \<noteq> None \<longleftrightarrow>
     (\<exists>b. dependent_bundle step = Some b \<and> (\<exists>other\<in>set steps. delegates_bundle b other))"
  using find_hit [of _ steps] by (cases "dependent_bundle step") (simp_all add: blocking_prerequisite_def)

text \<open>
  C9: the steps a host sees are ordered by rank and stand for exactly the planned work. A step is
  listed if and only if it resolves to an obligation; that obligation projects to the step, and the
  step is reported as blocked by a delegation step exactly when its obligation has a prerequisite.
  Every obligation projects without a panic to steps that are all listed, and it projects to none
  exactly when it is a retirement or a blocked cast.
\<close>

theorem steps_execute_obligations:
  assumes "snapshot_wf snapshot" "plan_round_classified env snapshot proposal_ids = Inr (host_plan, obls)"
  shows "sorted (map step_rank (next_steps host_plan)) \<and>
    (\<forall>step. (\<exists>x. resolve_step (round_obligations obls) step = Inr (Some x)) \<longleftrightarrow> step \<in> set (next_steps host_plan)) \<and>
    (\<forall>step x. resolve_step (round_obligations obls) step = Inr (Some x) \<longrightarrow>
       x \<in> set (round_obligations obls) \<and> (\<exists>steps. obligation_steps x = Inr steps \<and> step \<in> set steps) \<and>
       (blocking_prerequisite (next_steps host_plan) step \<noteq> None \<longleftrightarrow> obligation_prerequisite x \<noteq> None)) \<and>
    (\<forall>x\<in>set (round_obligations obls). \<exists>steps. obligation_steps x = Inr steps \<and> set steps \<subseteq> set (next_steps host_plan) \<and>
       (steps = [] \<longleftrightarrow> (\<exists>u ps. x = Retire u ps) \<or> (\<exists>b reason. x = Blocked b reason)))"
proof -
  have classified: "classify_round env snapshot proposal_ids = Inr obls" and project: "project env snapshot proposal_ids obls = Inr host_plan"
    using assms(2) by (auto simp: plan_round_classified_def and_then_eq_Inr)
  note shape = classify_round_shape [OF classified assms(1)]
  note resolve = resolve_step_eq [OF shape(1)] and steps = project_steps [OF project shape(1)]
  have listed: "set (next_steps host_plan) = (\<Union>x\<in>set (round_obligations obls). set (steps_of x))"
    by (simp add: steps)
  have found: "x \<in> set (round_obligations obls) \<and> step \<in> set (steps_of x)"
    if "resolve_step (round_obligations obls) step = Inr (Some x)" for step x
    using that unfolding resolve by (auto dest: find_SomeD)
  have "\<forall>step. (\<exists>x. resolve_step (round_obligations obls) step = Inr (Some x)) \<longleftrightarrow> step \<in> set (next_steps host_plan)"
    using find_hit [of _ "round_obligations obls"] unfolding resolve listed by simp
  moreover have "blocking_prerequisite (next_steps host_plan) step \<noteq> None \<longleftrightarrow> obligation_prerequisite x \<noteq> None"
    if "x \<in> set (round_obligations obls)" "step \<in> set (steps_of x)" for step x
    using shape(2) that unfolding blocking_prerequisite_iff listed by blast
  moreover have "sorted (map step_rank (next_steps host_plan))"
    by (simp add: steps)
  ultimately show ?thesis
    using found obligation_steps_eq steps_of_empty shape(1) listed by (auto 0 3)
qed

theorem steps_execute_obligations_witness:
  "\<exists>host_plan obls. plan_round_classified sample_planning sample_snapshot [1, 2] = Inr (host_plan, obls) \<and>
     sorted (map step_rank (next_steps host_plan))"
proof -
  have "(case plan_round_classified sample_planning sample_snapshot [1, 2] of Inl _ \<Rightarrow> False | Inr _ \<Rightarrow> True)"
    by code_simp
  then obtain host_plan obls where "plan_round_classified sample_planning sample_snapshot [1, 2] = Inr (host_plan, obls)"
    by (auto split: sum.splits)
  then show ?thesis
    using steps_execute_obligations [OF sample_snapshot_ok(1)] by blast
qed

section \<open>No panic\<close>

definition panic_free :: "VotingError + 'a \<Rightarrow> bool" where
  "panic_free r \<longleftrightarrow> (\<forall>message. r \<noteq> Inl (VotingPanicked message))"

lemma panic_free_simps [simp]:
  "panic_free (Inr v)"
  "panic_free (Inl e) \<longleftrightarrow> (\<forall>message. e \<noteq> VotingPanicked message)"
  "panic_free (and_then r f) \<longleftrightarrow> panic_free r \<and> (\<forall>x. r = Inr x \<longrightarrow> panic_free (f x))"
  "panic_free (ok_or e found) \<longleftrightarrow> found \<noteq> None \<or> (\<forall>message. e \<noteq> VotingPanicked message)"
  by (auto simp: panic_free_def and_then_def ok_or_def split: sum.splits option.splits)

lemma panic_free_steps: "(\<And>x s. x \<in> set xs \<Longrightarrow> panic_free (f x s)) \<Longrightarrow> panic_free (try_fold f xs s)"
  by (induction xs arbitrary: s) simp_all

lemma panic_free_validate_proposal_id [simp]: "panic_free (validate_proposal_id p)"
  by (simp add: validate_proposal_id_def)

lemma panic_free_ballot: "panic_free (classify_ballot_intents proposal_ids intents)"
  by (auto simp: classify_ballot_intents_def Let_def roster_step_def intro!: panic_free_steps)

lemma panic_free_sighash:
  "panic_free (cast_vote_batch_sighash env round_id anchor actions)"
  "panic_free (delegate_and_vote_batch_sighash env round_bytes van actions)"
  by (auto simp: cast_vote_batch_sighash_def delegate_and_vote_batch_sighash_def array32_def combined_action_step_def Let_def
    intro!: panic_free_steps split: option.splits prod.splits)

lemma panic_free_assemble: "panic_free (assemble_vote_batch_recoveries env round_id b digest candidates)"
  by (auto simp: assemble_vote_batch_recoveries_def Let_def array32_def panic_free_sighash split: list.splits option.splits)

lemma panic_free_group: "panic_free (group_vote_units env snapshot)"
proof -
  have member: "panic_free (batch_member_step env snapshot b phase r s)" for b phase r s
    by (cases s) (auto simp: batch_member_step_def Let_def split: option.splits)
  have "panic_free (group_vote_step env snapshot entry s)" for entry s
    by (cases s; cases entry)
      (auto simp: group_vote_step_def panic_free_assemble group_member_step_def split: option.splits
        intro!: panic_free_steps member)
  then show ?thesis
    by (auto simp: group_vote_units_def intro!: panic_free_steps)
qed

lemma panic_free_missing_share_indexes: "panic_free (missing_share_indexes env snapshot b p)"
  by (auto simp: missing_share_indexes_def Let_def recover_payloads_def recovered_payload_def
    validate_recovery_bundle_vote_fields_def validate_vote_round_id_hex_def
    validate_vote_decision_def validate_vote_options_def intro!: panic_free_steps)

lemma panic_free_confirmed_tree_position: "panic_free (confirmed_tree_position snapshot b p)"
  by (auto simp: confirmed_tree_position_def split: option.splits)

lemma panic_free_deliver: "panic_free (deliver_vote env snapshot b p s)"
  by (auto simp: deliver_vote_def Let_def panic_free_missing_share_indexes panic_free_confirmed_tree_position)

lemma panic_free_reconcile: "panic_free (reconcile_unit env snapshot u s)"
  by (auto simp: reconcile_unit_def Let_def split: option.splits)

lemma panic_free_unit_of: "covered units (b, p) \<Longrightarrow> panic_free (unit_of units b p)"
  by (auto simp: unit_of_def covered_def find_None_iff)

lemma panic_free_plan_vote:
  assumes "\<forall>k\<in>fst ` set (snapshot_votes (cc_snapshot cc)). covered (cc_units cc) k" "btree_wf (snapshot_votes (cc_snapshot cc))"
  shows "panic_free (plan_vote env cc p choice b s)"
proof -
  have "covered (cc_units cc) (b, p)" if "btree_get (snapshot_votes (cc_snapshot cc)) (b, p) = Some vote" for vote
    using assms(1) that btree_get_in [OF assms(2)] by force
  then show ?thesis
    using panic_free_unit_of panic_free_deliver panic_free_reconcile
    by (auto simp: plan_vote_def Let_def cast_due_def split: option.splits LifecyclePosition.splits)
qed

lemma panic_free_classify:
  assumes "\<forall>k\<in>fst ` set (snapshot_votes snapshot). covered units k" "btree_wf (snapshot_votes snapshot)"
  shows "panic_free (classify env snapshot units ballot)"
proof -
  let ?cc = "classify_context_of snapshot units ballot"
  have "panic_free (conflicting_submission snapshot k s)" for k s
    by (cases k) (auto simp: conflicting_submission_def)
  moreover have "panic_free (plan_proposal env ?cc bundles p s)" for bundles p s
    using panic_free_plan_vote [of ?cc] assms
    by (auto simp: plan_proposal_def intro!: panic_free_steps split: option.splits Decision.splits)
  moreover have "panic_free (plan_unrostered_vote env ?cc entry s)" if "entry \<in> set (snapshot_votes snapshot)" for entry s
  proof -
    obtain b p vote where entry: "entry = ((b, p), vote)"
      by (metis prod.exhaust)
    have "covered units (b, p)"
      using assms(1) that entry by force
    then show ?thesis
      unfolding entry using panic_free_unit_of panic_free_deliver panic_free_reconcile
      by (auto simp: plan_unrostered_vote_def Let_def split: LifecyclePosition.splits)
  qed
  moreover have "panic_free (delegation_step env snapshot needing x s)" for needing x s
    by (cases x; cases s) (auto simp: delegation_step_def)
  ultimately show ?thesis
    by (auto simp: classify_def Let_def intro!: panic_free_steps)
qed

lemma panic_free_project:
  assumes "\<forall>x\<in>set (round_obligations obls). well_shaped x"
  shows "panic_free (project env snapshot proposal_ids obls)"
proof -
  let ?obligations = "round_obligations obls"
  note resolve = resolve_step_eq [OF assms]
  have delegation: "panic_free (delegation_work_step snapshot delegation ?obligations step work)" for delegation step work
    by (cases step) (auto simp: delegation_work_step_def advance_details_def resolve Let_def)
  have found: "\<exists>x\<in>set ?obligations. step \<in> set (steps_of x) \<and> find (\<lambda>x. step \<in> set (steps_of x)) ?obligations = Some x"
    if "step \<in> set (concat (map steps_of ?obligations))" for step
    using that find_hit [of "\<lambda>x. step \<in> set (steps_of x)" ?obligations]
    by (cases "find (\<lambda>x. step \<in> set (steps_of x)) ?obligations") (auto dest: find_SomeD)
  have vote: "panic_free (vote_work_step snapshot blocking ?obligations step work)"
    if listed: "step \<in> set (concat (map steps_of ?obligations))" for blocking step work
  proof -
    obtain x where x: "step \<in> set (steps_of x)" "find (\<lambda>x. step \<in> set (steps_of x)) ?obligations = Some x"
      using found [OF listed] by blast
    show ?thesis
      using x
      by (cases x rule: well_shaped.cases)
        (auto simp: vote_work_step_def resolve Let_def panic_free_confirmed_tree_position steps_of_def first_proposal_def
          split: list.splits if_splits)
  qed
  show ?thesis
    by (auto simp: project_def Let_def steps_from_obligations_eq [OF assms] recovered_delegation_work_from_steps_def
      recovered_vote_work_from_steps_def intro!: panic_free_steps delegation vote)
qed

lemma panic_free_plan:
  assumes "snapshot_wf snapshot" "own_recoveries snapshot"
  shows "panic_free (plan_round_classified env snapshot proposal_ids)"
proof -
  have wf: "btree_wf (snapshot_votes snapshot)"
    using assms(1) by (simp add: snapshot_wf_def)
  have "panic_free (classify env snapshot units ballot)" if "group_vote_units env snapshot = Inr units" for units ballot
    using panic_free_classify [OF _ wf] group_vote_units_Inr(2) [OF that wf assms(2)] by blast
  then have "panic_free (classify_round env snapshot proposal_ids)"
    by (auto simp: classify_round_def panic_free_ballot panic_free_group)
  then show ?thesis
    using panic_free_project classify_round_shape(1) [OF _ assms(1)] by (simp add: plan_round_classified_def)
qed

text \<open>
  C15: planning a round never reaches one of the code's panics (the expectation that every vote row
  is in a unit, the indexing of a batch's first proposal, and the unreachable arms of the projection),
  for every snapshot whose maps are in key order and whose recovery bundles name the proposal of
  their own row.
\<close>

theorem planning_never_panics:
  assumes "snapshot_wf snapshot" "own_recoveries snapshot"
  shows "plan_round_classified env snapshot proposal_ids \<noteq> Inl (VotingPanicked message)"
  using panic_free_plan [OF assms] by (simp add: panic_free_def)

theorem planning_never_panics_witness:
  "plan_round_classified sample_planning sample_snapshot [1, 2] \<noteq> Inl (VotingPanicked [])"
  by (rule planning_never_panics [OF sample_snapshot_ok(1,2)])

text \<open>
  The hypothesis on recovery bundles is needed: when the bundle stored with proposal 1 names
  proposal 2, the row of proposal 1 ends up in no unit and the lookup of its unit panics.
\<close>

definition foreign_recovery :: VoteRecoveryBundle where
  "foreign_recovery = \<lparr>recovery_vote_round_id = [], recovery_bundle_index = 0, recovery_proposal_id = 2,
     recovery_vote_decision = 0, recovery_anchor_height = 0, recovery_vc_tree_position = 0,
     recovery_single_share = False, recovery_num_options = 2, recovery_van_nullifier = [],
     recovery_vote_authority_note_new = [], recovery_vote_commitment = [], recovery_proof = [],
     recovery_shares_hash = [], recovery_r_vpk = [], recovery_alpha_v = [], recovery_vote_auth_sig = [],
     recovery_encrypted_shares = [], recovery_share_blinds = [], recovery_share_comms = [],
     recovery_batch = Some \<lparr>batch_delegation_van = None, batch_digest = [], batch_index = 0, batch_size = 1\<rparr>\<rparr>"

definition foreign_snapshot :: RoundSnapshot where
  "foreign_snapshot = sample_snapshot\<lparr>
     snapshot_votes := [((0, 1), \<lparr>vote_choice = 0, vote_phase = VoteCommitted, vote_row_tx_hash = None,
         vote_vc_tree_position = None, vote_recovery = Some foreign_recovery\<rparr>),
       ((0, 2), \<lparr>vote_choice = 0, vote_phase = VoteCommitted, vote_row_tx_hash = None,
         vote_vc_tree_position = None, vote_recovery = None\<rparr>)],
     snapshot_intents := [(1, Choice 0), (2, Choice 0)]\<rparr>"

lemma foreign_recovery_panics:
  "plan_round_classified sample_planning foreign_snapshot [1, 2] =
     Inl (VotingPanicked (lit ''every vote row is in exactly one unit''))"
  by code_simp

end
