(* ===== verification/Drive_Properties.thy ===== *)
theory Drive_Properties
  imports Drive_Passes Round_Plan
begin

text \<open>
  What a run of the round driver promises: every dispatched step comes from a plan the driver read
  itself and respects locks, isolation and the dispatch budget; the report says only what the last
  plan supports and accounts for every failure; an interruption is answered as such; and no delegation is
  dispatched that the host has no signature for.
\<close>

declare drive_loop.simps [simp del]

section \<open>Invariants of the loop\<close>

abbreviation drive_start :: drive_world where
  "drive_start \<equiv> \<lparr>drive_clock = 1, drive_events = []\<rparr>"

locale drive_invariant =
  fixes I :: "('delivery, 'signed) drive_env \<Rightarrow> RoundDrivePolicy \<Rightarrow> ('delivery, 'signed) Run \<Rightarrow> drive_world \<Rightarrow> bool"
  assumes start: "I env policy default_run drive_start"
    and keeps: "I env policy run w \<Longrightarrow> drive_pass env policy run w = PassContinues run' w' \<Longrightarrow> I env policy run' w'"
begin

lemma loop_last_pass:
  "drive_loop env policy run w = Inr (report, w') \<Longrightarrow> I env policy run w \<Longrightarrow>
   \<exists>run0 w0. I env policy run0 w0 \<and> drive_pass env policy run0 w0 = PassFinished report w'"
proof (induction env policy run w rule: drive_loop.induct)
  case (1 env policy run w)
  show ?case
  proof (cases "drive_pass env policy run w")
    case (PassFinished r v)
    then show ?thesis
      using "1.prems" by (auto simp: drive_loop.simps [of env policy run w])
  next
    case (PassContinues run1 w1)
    then show ?thesis
      using "1.IH" [OF PassContinues] "1.prems" keeps by (simp add: drive_loop.simps [of env policy run w])
  next
    case (PassPanicked m)
    then show ?thesis
      using "1.prems" by (simp add: drive_loop.simps [of env policy run w])
  qed
qed

lemma last_pass:
  assumes "drive env policy = Inr (report, w')"
  obtains run w where "I env policy run w" "drive_pass env policy run w = PassFinished report w'"
  using loop_last_pass start assms unfolding drive_def by blast

end

section \<open>The event log\<close>

definition last_plan :: "RoundDriveEvent list \<Rightarrow> RoundPlan option" where
  "last_plan events =
     fold (\<lambda>e latest. case e of PlanRefreshed host_plan tally \<Rightarrow> Some host_plan | _ \<Rightarrow> latest) events None"

definition current_wave :: "RoundDriveEvent list \<Rightarrow> NextStep list" where
  "current_wave events =
     fold (\<lambda>e wave. case e of PlanRefreshed host_plan tally \<Rightarrow> [] | StepSelected step \<Rightarrow> wave @ [step] | _ \<Rightarrow> wave) events []"

fun is_selection :: "RoundDriveEvent \<Rightarrow> bool" where
  "is_selection (StepSelected step) = True"
| "is_selection _ = False"

definition dispatch_count :: "RoundDriveEvent list \<Rightarrow> nat" where
  "dispatch_count events = length (filter is_selection events)"

lemma last_plan_wave: "last_plan (events @ PlanRefreshed host_plan tally # map StepSelected steps) = Some host_plan"
proof -
  have "fold (\<lambda>e latest. case e of PlanRefreshed host_plan tally \<Rightarrow> Some host_plan | _ \<Rightarrow> latest) (map StepSelected steps) p = p" for p
    by (induction steps) simp_all
  then show ?thesis
    by (simp add: last_plan_def)
qed

lemma current_wave_wave: "current_wave (events @ PlanRefreshed host_plan tally # map StepSelected steps) = steps"
proof -
  have "fold (\<lambda>e wave. case e of PlanRefreshed host_plan tally \<Rightarrow> [] | StepSelected step \<Rightarrow> wave @ [step] | _ \<Rightarrow> wave)
      (map StepSelected steps) xs = xs @ steps" for xs
    by (induction steps arbitrary: xs) simp_all
  then show ?thesis
    by (simp add: current_wave_def)
qed

definition selection_sound ::
  "('delivery, 'signed) drive_env \<Rightarrow> RoundDrivePolicy \<Rightarrow> RoundDriveEvent list \<Rightarrow> NextStep \<Rightarrow> bool" where
  "selection_sound env policy before step \<longleftrightarrow>
     (\<exists>n host_plan obls. plan_off_the_worker env n = Inr (host_plan, obls) \<and> last_plan before = Some host_plan \<and>
        step \<in> set (next_steps host_plan) \<and> \<not> requires_background_tracking (round_obligations obls) step) \<and>
     step_bundle_index step \<notin> failed_bundles before \<and>
     (let wave = current_wave (before @ [StepSelected step])
      in distinct (map step_bundle_index wave) \<and> length wave \<le> max_bundle_concurrency policy \<and>
         (length wave \<le> 1 \<or>
          failure_isolation policy = SkipBundle \<and> (\<forall>s\<in>set wave. lock_scope s = ScopeBundle)))"

definition log_sound :: "('delivery, 'signed) drive_env \<Rightarrow> RoundDrivePolicy \<Rightarrow> RoundDriveEvent list \<Rightarrow> bool" where
  "log_sound env policy events \<longleftrightarrow>
     (\<forall>before step later. events = before @ StepSelected step # later \<longrightarrow> selection_sound env policy before step)"

lemma log_sound_append:
  assumes "log_sound env policy events"
    and "\<And>before step later. es = before @ StepSelected step # later \<Longrightarrow> selection_sound env policy (events @ before) step"
  shows "log_sound env policy (events @ es)"
proof -
  have "selection_sound env policy before step" if "events @ es = before @ StepSelected step # later" for before step later
  proof -
    from that consider us where "events = before @ us" "us @ es = StepSelected step # later"
      | us where "before = events @ us" "es = us @ StepSelected step # later"
      by (auto simp: append_eq_append_conv2)
    then show ?thesis
    proof cases
      case (1 us)
      show ?thesis
      proof (cases us)
        case Nil
        then show ?thesis
          using 1 assms(2) [of "[]" step later] by simp
      next
        case (Cons a us')
        then show ?thesis
          using 1 assms(1) by (simp add: log_sound_def)
      qed
    next
      case (2 us)
      then show ?thesis
        using assms(2) by simp
    qed
  qed
  then show ?thesis
    by (simp add: log_sound_def)
qed

lemma log_sound_quiet: "log_sound env policy events \<Longrightarrow> \<forall>e\<in>set es. \<not> is_selection e \<Longrightarrow> log_sound env policy (events @ es)"
  by (erule log_sound_append) auto

section \<open>What the run knows\<close>

definition first_baseline :: "RoundDrivePolicy \<Rightarrow> RoundObligations \<Rightarrow> u32 set" where
  "first_baseline policy obls =
     (case progress_baseline policy of
        BaselineRun \<Rightarrow> baseline_for_run obls
      | BaselineSelectedChoices \<Rightarrow> baseline_for_selected_choices obls)"

text \<open>The plan and the tally of a run come from one read, measured against the run's first read.\<close>

definition read_together :: "('delivery, 'signed) drive_env \<Rightarrow> RoundDrivePolicy \<Rightarrow> RoundPlan option \<Rightarrow> RoundWorkTally \<Rightarrow> bool" where
  "read_together env policy last_read tally \<longleftrightarrow>
     (\<exists>n host_plan obls first_plan first_obls.
        last_read = Some host_plan \<and> plan_off_the_worker env n = Inr (host_plan, obls) \<and>
        plan_off_the_worker env 2 = Inr (first_plan, first_obls) \<and>
        tally = work_tally (first_baseline policy first_obls) obls)"

definition baseline_captured :: "('delivery, 'signed) drive_env \<Rightarrow> RoundDrivePolicy \<Rightarrow> u32 set option \<Rightarrow> bool" where
  "baseline_captured env policy baseline \<longleftrightarrow>
     (\<exists>host_plan obls. plan_off_the_worker env 2 = Inr (host_plan, obls) \<and> baseline = Some (first_baseline policy obls))"

text \<open>The ledger of a run accounts for the failures its log reports: all of them, in order, and their bundles.\<close>

definition accounted :: "RoundDrivePolicy \<Rightarrow> ('delivery, 'signed) Run \<Rightarrow> RoundDriveEvent list \<Rightarrow> bool" where
  "accounted policy run events \<longleftrightarrow>
     run_skipped run = isolated_bundles policy events \<and>
     subseq (map Some (failure_log events)) (map failure_entry (run_failures run))"

lemma accounted_skipped:
  assumes "accounted policy run events" "run_skipped run \<noteq> []"
  shows "run_failures run \<noteq> []"
  using assms by (auto simp: accounted_def isolated_bundles_def split: if_splits)

lemma accounted_same:
  "accounted policy run events \<Longrightarrow> run_skipped run' = run_skipped run \<Longrightarrow> run_failures run' = run_failures run \<Longrightarrow>
   accounted policy run' events"
  by (simp add: accounted_def)

lemma failure_log_quiet: "\<forall>e\<in>set es. failed_bundle e = None \<Longrightarrow> failure_log es = []"
proof (induction es)
  case (Cons e es)
  then show ?case
    by (cases e) auto
qed simp

lemma failure_log_selected [simp]: "failure_log (map StepSelected steps) = []"
  by (rule failure_log_quiet) auto

lemma accounted_append:
  assumes "accounted policy run events" "run_skipped run' = run_skipped run @ isolated_bundles policy es"
    and "run_failures run' = run_failures run @ fs" "subseq (map Some (failure_log es)) (map failure_entry fs)"
  shows "accounted policy run' (events @ es)"
  using assms by (auto simp: accounted_def intro: list_emb_append_mono)

lemma accounted_quiet:
  assumes "accounted policy run events" "failure_log es = []" "run_skipped run' = run_skipped run"
    and "run_failures run' = run_failures run @ fs"
  shows "accounted policy run' (events @ es)"
  using assms by (intro accounted_append [OF assms(1) _ assms(4)]) (simp_all add: isolated_bundles_quiet)

definition run_sound ::
  "('delivery, 'signed) drive_env \<Rightarrow> RoundDrivePolicy \<Rightarrow> ('delivery, 'signed) Run \<Rightarrow> RoundDriveEvent list \<Rightarrow> bool" where
  "run_sound env policy run events \<longleftrightarrow>
     log_sound env policy events \<and> dispatch_count events = run_dispatches run \<and>
     run_dispatches run \<le> max_dispatches policy \<and>
     failed_bundles events \<subseteq> set (run_skipped run) \<and> accounted policy run events"

definition loop_sound ::
  "('delivery, 'signed) drive_env \<Rightarrow> RoundDrivePolicy \<Rightarrow> ('delivery, 'signed) Run \<Rightarrow> drive_world \<Rightarrow> bool" where
  "loop_sound env policy run w \<longleftrightarrow>
     (0 < max_bundle_concurrency policy \<longrightarrow> run_sound env policy run (drive_events w)) \<and>
     (run = default_run \<and> w = drive_start \<or>
      baseline_captured env policy (run_baseline run) \<and> read_together env policy (run_plan run) (run_tally run))"

lemma observe_plan_read:
  assumes "loop_sound env policy run w" "plan_off_the_worker env (Suc (drive_clock w)) = Inr (host_plan, obls)"
  shows "baseline_captured env policy (run_baseline (observe_plan policy host_plan obls run))"
    "read_together env policy (run_plan (observe_plan policy host_plan obls run)) (run_tally (observe_plan policy host_plan obls run))"
proof -
  have "\<exists>first_plan first_obls. plan_off_the_worker env 2 = Inr (first_plan, first_obls) \<and>
      run_baseline (observe_plan policy host_plan obls run) = Some (first_baseline policy first_obls) \<and>
      run_tally (observe_plan policy host_plan obls run) = work_tally (first_baseline policy first_obls) obls"
    using assms
    by (auto simp: loop_sound_def baseline_captured_def observe_plan_def first_baseline_def default_run_def numeral_2_eq_2 Let_def)
  then show "baseline_captured env policy (run_baseline (observe_plan policy host_plan obls run))"
    "read_together env policy (run_plan (observe_plan policy host_plan obls run)) (run_tally (observe_plan policy host_plan obls run))"
    using assms(2) by (auto simp: baseline_captured_def read_together_def)
qed

section \<open>One wave\<close>

lemma dispatch_count_simps [simp]:
  "dispatch_count [] = 0" "dispatch_count (xs @ ys) = dispatch_count xs + dispatch_count ys"
  "dispatch_count (PlanRefreshed host_plan tally # xs) = dispatch_count xs"
  "dispatch_count (map StepSelected steps) = length steps"
  by (simp_all add: dispatch_count_def filter_map comp_def)

lemma dispatch_count_quiet: "\<forall>e\<in>set es. \<not> is_selection e \<Longrightarrow> dispatch_count es = 0"
  by (simp add: dispatch_count_def filter_empty_conv)

lemma failed_bundles_selected [simp]: "failed_bundles (map StepSelected steps) = {}"
  by (simp add: failed_bundles_def List.map_filter_def filter_map comp_def)

lemma selects_selection: "\<not> selects e \<Longrightarrow> \<not> is_selection e"
  by (cases e) simp_all

lemma map_StepSelected_split:
  "map StepSelected steps = before @ StepSelected step # later \<Longrightarrow>
   \<exists>chosen rest. steps = chosen @ step # rest \<and> before = map StepSelected chosen"
  by (auto simp: map_eq_append_conv map_eq_Cons_conv)

lemma wave_log_sound:
  assumes "run_sound env policy run events" "0 < max_bundle_concurrency policy"
    and "plan_off_the_worker env n = Inr (host_plan, obls)"
    and "select_steps policy (dispatchable_steps host_plan (round_obligations obls)) run = (steps, selected)"
  shows "log_sound env policy (events @ PlanRefreshed host_plan tally # map StepSelected steps)"
    "run_dispatches run + length steps \<le> max_dispatches policy"
proof -
  obtain preferred where steps: "steps = next_dispatches (dispatchable_steps host_plan (round_obligations obls)) (run_skipped run)
      preferred (max_bundle_concurrency policy) (max_dispatches policy - run_dispatches run) (failure_isolation policy = SkipBundle)"
    using assms(4) by (auto simp: select_steps_def Let_def)
  note sound = next_dispatches_sound [OF assms(2) steps]
  have "length steps \<le> max_dispatches policy - run_dispatches run" "run_dispatches run \<le> max_dispatches policy"
    using sound(3) assms(1) by (simp_all add: run_sound_def)
  then show "run_dispatches run + length steps \<le> max_dispatches policy"
    by simp
  have "log_sound env policy (events @ [PlanRefreshed host_plan tally])"
    by (rule log_sound_quiet) (use assms(1) in \<open>auto simp: run_sound_def\<close>)
  then have "log_sound env policy ((events @ [PlanRefreshed host_plan tally]) @ map StepSelected steps)"
  proof (rule log_sound_append)
    fix before step later
    assume "map StepSelected steps = before @ StepSelected step # later"
    then obtain chosen rest where split: "steps = chosen @ step # rest" "before = map StepSelected chosen"
      using map_StepSelected_split by blast
    have wave: "current_wave (((events @ [PlanRefreshed host_plan tally]) @ before) @ [StepSelected step]) = chosen @ [step]"
      using current_wave_wave [of events host_plan tally "chosen @ [step]"] by (simp add: split)
    have "last_plan ((events @ [PlanRefreshed host_plan tally]) @ before) = Some host_plan"
      using last_plan_wave [of events host_plan tally chosen] by (simp add: split)
    moreover have "step \<in> set (dispatchable_steps host_plan (round_obligations obls))" "step_bundle_index step \<notin> set (run_skipped run)"
      using sound(1) by (auto simp: split)
    moreover have "step_bundle_index step \<notin> failed_bundles ((events @ [PlanRefreshed host_plan tally]) @ before)"
      using assms(1) calculation(3) by (auto simp: run_sound_def split)
    moreover have "distinct (map step_bundle_index (chosen @ [step]))" "length (chosen @ [step]) \<le> max_bundle_concurrency policy"
      "length (chosen @ [step]) \<le> 1 \<or> failure_isolation policy = SkipBundle \<and> (\<forall>s\<in>set (chosen @ [step]). lock_scope s = ScopeBundle)"
      using sound(2-4) by (auto simp: split)
    ultimately show "selection_sound env policy ((events @ [PlanRefreshed host_plan tally]) @ before) step"
      using assms(3) unfolding selection_sound_def wave Let_def dispatchable_steps_def by auto
  qed
  then show "log_sound env policy (events @ PlanRefreshed host_plan tally # map StepSelected steps)"
    by simp
qed

text \<open>The state after one wave has been folded.\<close>

definition folded_sound ::
  "('delivery, 'signed) drive_env \<Rightarrow> RoundDrivePolicy \<Rightarrow> ('delivery, 'signed) Run \<Rightarrow> RoundDriveEvent list \<Rightarrow>
   RoundQuiescence option \<Rightarrow> bool" where
  "folded_sound env policy run events quiescence \<longleftrightarrow>
     log_sound env policy events \<and> dispatch_count events = run_dispatches run \<and>
     run_dispatches run \<le> max_dispatches policy \<and>
     (quiescence = None \<longrightarrow> run_sound env policy run events) \<and>
     (\<forall>q. quiescence = Some q \<longrightarrow> stops_wave q) \<and> outcome_recorded quiescence run \<and>
     (quiescence = Some RunFailures \<longrightarrow> run_failures run \<noteq> []) \<and> accounted policy run events"

lemma wave_folded_sound:
  assumes "run_sound env policy run events" "0 < max_bundle_concurrency policy"
    and "plan_off_the_worker env n = Inr (host_plan, obls)"
    and "select_steps policy (dispatchable_steps host_plan (round_obligations obls)) run = (steps, selected)"
    and "fold_wave policy results (selected\<lparr>run_dispatches := run_dispatches selected + length steps\<rparr>)
      ((events @ [PlanRefreshed host_plan tally]) @ map StepSelected steps) = (run1, events1, quiescence)"
  shows "folded_sound env policy run1 events1 quiescence"
proof -
  note log = wave_log_sound(1) [OF assms(1-4), of tally] wave_log_sound(2) [OF assms(1-4)] and kept = select_steps_simps [OF assms(4)]
  obtain es fs bs where fold: "same_plan (selected\<lparr>run_dispatches := run_dispatches selected + length steps\<rparr>) run1"
      "outcome_recorded quiescence run1"
      "events1 = ((events @ [PlanRefreshed host_plan tally]) @ map StepSelected steps) @ es"
      "run_failures run1 = run_failures run @ fs" "run_skipped run1 = run_skipped run @ bs"
    and delta: "wave_delta policy es fs bs quiescence"
    using assms(5) by (rule fold_wave_effect) (use kept in auto)
  have quiet: "\<forall>e\<in>set es. \<not> is_selection e"
    using delta selects_selection by (auto simp: wave_delta_def)
  have "log_sound env policy events1"
    unfolding fold(3) by (rule log_sound_quiet) (use log(1) quiet in simp_all)
  moreover have count: "dispatch_count events1 = run_dispatches run1" "run_dispatches run1 \<le> max_dispatches policy"
    using fold(1) kept(1) log(2) assms(1) dispatch_count_quiet [OF quiet]
    by (simp_all add: fold(3) same_plan_def run_sound_def)
  moreover have "accounted policy run1 events1"
    unfolding fold(3)
  proof (rule accounted_append)
    show "accounted policy run ((events @ [PlanRefreshed host_plan tally]) @ map StepSelected steps)"
      using assms(1) by (intro accounted_quiet [where fs = "[]"]) (auto simp: run_sound_def)
    show "run_skipped run1 = run_skipped run @ isolated_bundles policy es" "run_failures run1 = run_failures run @ fs"
      "subseq (map Some (failure_log es)) (map failure_entry fs)"
      using fold(4,5) delta unfolding wave_delta_def by simp_all
  qed
  moreover have "failed_bundles events1 \<subseteq> set (run_skipped run1)" if "quiescence = None"
    using that assms(1) wave_delta_failed_bundles [of policy es fs bs] delta by (auto simp: fold run_sound_def)
  moreover have "\<forall>q. quiescence = Some q \<longrightarrow> stops_wave q" "quiescence = Some RunFailures \<longrightarrow> run_failures run1 \<noteq> []"
    using delta by (auto simp: fold wave_delta_def)
  ultimately show ?thesis
    using fold(2) by (auto simp: folded_sound_def run_sound_def)
qed

lemma run_sound_quiet:
  assumes "run_sound env policy run events" "\<forall>e\<in>set es. \<not> selects e \<and> failed_bundle e = None"
    and "run_dispatches run' = run_dispatches run" "run_failures run' = run_failures run" "run_skipped run' = run_skipped run"
  shows "run_sound env policy run' (events @ es)"
proof -
  have quiet: "\<forall>e\<in>set es. \<not> is_selection e"
    using assms(2) selects_selection by blast
  have "failed_bundles es = {}"
    using assms(2) by (auto simp: failed_bundles_def List.map_filter_def)
  moreover have "accounted policy run' (events @ es)"
    by (rule accounted_quiet [where fs = "[]"])
      (use assms(1,2,4,5) in \<open>auto simp: run_sound_def intro!: failure_log_quiet\<close>)
  ultimately show ?thesis
    using assms(1,3-5) log_sound_quiet [OF _ quiet, of env policy events] dispatch_count_quiet [OF quiet]
    by (simp add: run_sound_def)
qed

section \<open>The loop keeps its knowledge\<close>

definition knows_round ::
  "('delivery, 'signed) drive_env \<Rightarrow> RoundDrivePolicy \<Rightarrow> ('delivery, 'signed) Run \<Rightarrow> bool" where
  "knows_round env policy run \<longleftrightarrow>
     baseline_captured env policy (run_baseline run) \<and> read_together env policy (run_plan run) (run_tally run)"

lemma knows_round_same_plan: "same_plan run run' \<Longrightarrow> knows_round env policy run \<longleftrightarrow> knows_round env policy run'"
  by (simp add: same_plan_def knows_round_def)

lemma loop_sound_alt:
  "loop_sound env policy run w \<longleftrightarrow>
     (0 < max_bundle_concurrency policy \<longrightarrow> run_sound env policy run (drive_events w)) \<and>
     (run = default_run \<and> w = drive_start \<or> knows_round env policy run)"
  by (simp add: loop_sound_def knows_round_def)

lemma refresh_progress_kept:
  assumes "refresh_progress env n run = Inr refreshed"
  shows "run_failures refreshed = run_failures run" "run_skipped refreshed = run_skipped run"
    "run_chain_outcomes refreshed = run_chain_outcomes run" "run_dispatches refreshed = run_dispatches run"
    and "knows_round env policy run \<Longrightarrow> knows_round env policy refreshed"
proof -
  show "run_failures refreshed = run_failures run" "run_skipped refreshed = run_skipped run"
    "run_chain_outcomes refreshed = run_chain_outcomes run" "run_dispatches refreshed = run_dispatches run"
    using assms by (auto simp: refresh_progress_def split: sum.splits if_splits)
  assume knows: "knows_round env policy run"
  then obtain first_plan first_obls where first: "plan_off_the_worker env 2 = Inr (first_plan, first_obls)"
    "run_baseline run = Some (first_baseline policy first_obls)"
    by (auto simp: knows_round_def baseline_captured_def)
  show "knows_round env policy refreshed"
  proof (cases "plan_off_the_worker env n")
    case (Inl error)
    then show ?thesis
      using assms knows by (auto simp: refresh_progress_def split: if_splits)
  next
    case (Inr read)
    then have "refreshed = run\<lparr>run_tally := work_tally (first_baseline policy first_obls) (snd read), run_plan := Some (fst read)\<rparr>"
      using assms first(2) by (auto simp: refresh_progress_def split: prod.splits)
    then show ?thesis
      using Inr first by (cases read) (auto simp: knows_round_def baseline_captured_def read_together_def)
  qed
qed

lemma pass_wave:
  assumes "loop_sound env policy run w" "0 < max_bundle_concurrency policy"
    and "plan_off_the_worker env (Suc (drive_clock w)) = Inr (host_plan, obls)"
    and "observed = observe_plan policy host_plan obls run"
    and "select_steps policy (dispatchable_steps host_plan (round_obligations obls)) observed = (steps, selected)"
    and "run_wave env policy (dispatch_contexts env k steps) selected n
      (drive_events w @ [PlanRefreshed host_plan (run_tally observed)]) = result"
  obtains run1 events1 quiescence m where "settle_wave env policy m (run1, events1, quiescence) = result"
    "folded_sound env policy run1 events1 quiescence" "knows_round env policy run1" "0 < run_dispatches run1 \<or> steps = []"
proof -
  let ?start = "selected\<lparr>run_dispatches := run_dispatches selected + length steps\<rparr>"
  obtain run1 events1 quiescence where folded: "fold_wave policy (run_dispatch_wave env n (dispatch_contexts env k steps)) ?start
      ((drive_events w @ [PlanRefreshed host_plan (run_tally observed)]) @ map StepSelected steps) = (run1, events1, quiescence)"
    by (metis prod_cases3)
  have observed: "run_sound env policy observed (drive_events w)" "knows_round env policy observed"
    using assms(1,2) observe_plan_read [OF assms(1,3)]
    by (auto simp: loop_sound_def assms(4) run_sound_def knows_round_def elim: accounted_same)
  have "same_plan ?start run1"
    using folded by (rule fold_wave_effect)
  moreover have "knows_round env policy ?start"
    using observed(2) knows_round_same_plan [OF select_steps_simps(1) [OF assms(5)]] by (simp add: knows_round_def)
  ultimately have "knows_round env policy run1" "0 < run_dispatches run1 \<or> steps = []"
    by (auto simp: same_plan_def knows_round_def)
  moreover have "settle_wave env policy (n + length steps) (run1, events1, quiescence) = result"
    using assms(6) folded by (simp add: run_wave_def)
  ultimately show thesis
    using that wave_folded_sound [OF observed(1) assms(2,3,5) folded] by blast
qed

lemma loop_sound_keeps:
  assumes "loop_sound env policy run w" "drive_pass env policy run w = PassContinues run' w'"
    and conc: "0 < max_bundle_concurrency policy"
  shows "loop_sound env policy run' w'"
  using assms(2)
proof (cases rule: drive_pass_cases)
  case (planned host_plan obls observed)
  from planned(3) [symmetric] show ?thesis
  proof (cases rule: dispatch_pass_cases)
    case (wave steps selected)
    from wave(5) [symmetric] show ?thesis
    proof (cases rule: admit_wave_cases)
      case dispatched
      obtain run1 events1 quiescence m where
        settled: "settle_wave env policy m (run1, events1, quiescence) = PassContinues run' w'"
        and folded: "folded_sound env policy run1 events1 quiescence" "knows_round env policy run1"
        using assms(1) conc planned(1,2) wave(4) dispatched(3) [symmetric] by (rule pass_wave)
      from settled show ?thesis
      proof (cases rule: settle_wave_cases)
        case (again run2 k waits)
        then have "run_sound env policy run2 (events1 @ waits)"
          using folded(1) by (intro run_sound_quiet [of env policy run1]) (auto simp: folded_sound_def same_plan_def)
        moreover have "knows_round env policy run2"
          using folded(2) knows_round_same_plan again(2) by blast
        ultimately show ?thesis
          using again(6) by (simp add: loop_sound_alt)
      qed (auto split: sum.splits)
    qed auto
  qed auto
qed auto

interpretation sound_loop: drive_invariant
  "\<lambda>env policy run w. 0 < max_bundle_concurrency policy \<longrightarrow> loop_sound env policy run w"
proof unfold_locales
  fix env :: "('delivery, 'signed) drive_env" and policy
  show "0 < max_bundle_concurrency policy \<longrightarrow> loop_sound env policy default_run drive_start"
    by (simp add: loop_sound_def run_sound_def log_sound_def default_run_def accounted_def isolated_bundles_def)
qed (blast intro: loop_sound_keeps)

section \<open>How a run ends\<close>

definition plan_satisfies :: "(RoundPlan \<Rightarrow> bool) \<Rightarrow> ('delivery, 'signed) RoundRunReport \<Rightarrow> bool" where
  "plan_satisfies P report = (case report_plan report of None \<Rightarrow> False | Some host_plan \<Rightarrow> P host_plan)"

definition share_step :: "ShareKey \<Rightarrow> NextStep" where
  "share_step share =
     StepConfirmShare (share_key_bundle_index share) (share_key_proposal_id share) (share_key_share_index share)"

definition unblocked :: "RoundPlan \<Rightarrow> bool" where
  "unblocked host_plan \<longleftrightarrow>
     \<not> blocking_recovery host_plan \<and> \<not> needs_bundle_setup host_plan \<and>
     plan_open_proposals host_plan = [] \<and> plan_unrostered_intents host_plan = []"

text \<open>What each answer of a run means for its report and the log of its events.\<close>

definition admissible_steps :: "('delivery, 'signed) RoundRunReport \<Rightarrow> RoundPlan \<Rightarrow> NextStep list" where
  "admissible_steps report host_plan =
     filter (\<lambda>step. step_bundle_index step \<notin> set (report_skipped_bundles report)) (next_steps host_plan)"

text \<open>The reported plan lists only the given shares to confirm, outside the bundles the run skipped.\<close>

definition leaves_shares :: "ShareKey list \<Rightarrow> ('delivery, 'signed) RoundRunReport \<Rightarrow> RoundPlan \<Rightarrow> bool" where
  "leaves_shares shares report host_plan \<longleftrightarrow> admissible_steps report host_plan = map share_step shares"

fun supported ::
  "RoundDrivePolicy \<Rightarrow> RoundDriveEvent list \<Rightarrow> ('delivery, 'signed) RoundRunReport \<Rightarrow> RoundQuiescence \<Rightarrow> bool" where
  "supported policy events report NoWorkLeft \<longleftrightarrow>
     plan_satisfies (\<lambda>host_plan. leaves_shares [] report host_plan \<and> unblocked host_plan) report"
| "supported policy events report NeedsBundleSetup \<longleftrightarrow>
     plan_satisfies (\<lambda>host_plan. (\<exists>shares. leaves_shares shares report host_plan) \<and>
       needs_bundle_setup host_plan \<and> \<not> blocking_recovery host_plan) report"
| "supported policy events report PersistedChainTerminal \<longleftrightarrow>
     plan_satisfies (\<lambda>host_plan. (\<exists>shares. leaves_shares shares report host_plan) \<and> blocking_recovery host_plan) report"
| "supported policy events report (NeedsBallot open_proposals unrostered) \<longleftrightarrow>
     (open_proposals \<noteq> [] \<or> unrostered \<noteq> []) \<and>
     plan_satisfies (\<lambda>host_plan. (\<exists>shares. leaves_shares shares report host_plan) \<and>
       plan_open_proposals host_plan = open_proposals \<and> plan_unrostered_intents host_plan = unrostered \<and>
       \<not> blocking_recovery host_plan \<and> \<not> needs_bundle_setup host_plan) report"
| "supported policy events report (NeedsDelegationSignatures bundles) \<longleftrightarrow> bundles \<noteq> []"
| "supported policy events report (BackgroundShareWorkOnly shares) \<longleftrightarrow>
     shares \<noteq> [] \<and>
     plan_satisfies (\<lambda>host_plan. leaves_shares shares report host_plan \<and> unblocked host_plan) report"
| "supported policy events report RunCancelled \<longleftrightarrow> True"
| "supported policy events report (RunChainTerminal step outcome) \<longleftrightarrow>
     (step, outcome) \<in> set (report_chain_outcomes report)"
| "supported policy events report (ChainRecoveryStalled step outcome) \<longleftrightarrow>
     (step, outcome) \<in> set (report_chain_outcomes report)"
| "supported policy events report RunFailures \<longleftrightarrow> report_failures report \<noteq> []"
| "supported policy events report (PassBudgetExhausted remaining) \<longleftrightarrow>
     dispatch_count events = max_dispatches policy \<and> remaining \<noteq> [] \<and>
     plan_satisfies (\<lambda>host_plan. next_steps host_plan = remaining) report"

text \<open>The answers that hand the round over to the host or to background tracking.\<close>

fun is_handoff :: "RoundQuiescence \<Rightarrow> bool" where
  "is_handoff NoWorkLeft = True"
| "is_handoff NeedsBundleSetup = True"
| "is_handoff PersistedChainTerminal = True"
| "is_handoff (NeedsBallot open_proposals unrostered) = True"
| "is_handoff (BackgroundShareWorkOnly shares) = True"
| "is_handoff _ = False"

definition end_sound ::
  "('delivery, 'signed) drive_env \<Rightarrow> RoundDrivePolicy \<Rightarrow> ('delivery, 'signed) RoundRunReport \<Rightarrow> drive_world \<Rightarrow> bool" where
  "end_sound env policy report w \<longleftrightarrow>
     log_sound env policy (drive_events w) \<and> dispatch_count (drive_events w) \<le> max_dispatches policy \<and>
     (report_plan report = None \<or> read_together env policy (report_plan report) (report_tally report)) \<and>
     supported policy (drive_events w) report (report_quiescence report) \<and>
     report_skipped_bundles report = isolated_bundles policy (drive_events w) \<and>
     subseq (map Some (failure_log (drive_events w))) (map failure_entry (report_failures report)) \<and>
     (is_handoff (report_quiescence report) \<longrightarrow> report_failures report = []) \<and>
     (report_quiescence report = RunCancelled \<or>
      (\<exists>i. drive_clock w = Suc i \<and> \<not> drive_interrupted env i))"

lemma background_share_step: "background_share obligations step = Some share \<Longrightarrow> step = share_step share"
  by (cases step) (auto simp: share_step_def split: if_splits)

lemma quiesce_supported:
  assumes "quiesce_before_dispatch host_plan obligations run = Some quiescence" "run_plan run = Some host_plan"
  shows "supported policy events (finish_run run quiescence) quiescence"
    "is_handoff quiescence \<longrightarrow> run_failures run = []"
proof -
  obtain shares where shares: "background_share_handoff host_plan obligations (run_skipped run) = Some shares"
    using assms(1) by (auto simp: quiesce_before_dispatch_def split: option.splits)
  let ?steps = "filter (\<lambda>step. step_bundle_index step \<notin> set (run_skipped run)) (next_steps host_plan)"
  have "map (background_share obligations) ?steps = map Some shares"
    using shares by (simp add: background_share_handoff_def those_Some)
  then have "list_all2 (\<lambda>step share. background_share obligations step = Some share) ?steps shares"
    by (auto simp: list_all2_conv_all_nth list_eq_iff_nth_eq)
  then have "list_all2 (\<lambda>step share. step = share_step share) ?steps shares"
    by (rule list_all2_mono) (rule background_share_step)
  then have steps: "leaves_shares shares (finish_run run q) host_plan" for q
    by (auto simp: leaves_shares_def admissible_steps_def list_all2_conv_all_nth list_eq_iff_nth_eq)
  show "supported policy events (finish_run run quiescence) quiescence"
    using assms shares steps [of quiescence]
    by (auto simp: quiesce_before_dispatch_def plan_satisfies_def unblocked_def split: if_splits)
  show "is_handoff quiescence \<longrightarrow> run_failures run = []"
    using assms(1) shares by (auto simp: quiesce_before_dispatch_def split: if_splits)
qed

lemma end_sound_cancelled:
  assumes "log_sound env policy (drive_events w)" "dispatch_count (drive_events w) \<le> max_dispatches policy"
    and "run_plan run = None \<or> knows_round env policy run" "accounted policy run (drive_events w)"
  shows "end_sound env policy (finish_run run RunCancelled) w"
  using assms by (auto simp: end_sound_def knows_round_def accounted_def)

lemma end_sound_refreshed:
  assumes "log_sound env policy events" "dispatch_count events \<le> max_dispatches policy"
    and "knows_round env policy run" "accounted policy run events"
    and "finish_refreshed env run n events = PassFinished report w"
  shows "end_sound env policy report w"
proof -
  obtain refreshed where refreshed: "refresh_progress env n run = Inr refreshed"
      "report = finish_run refreshed RunCancelled" "drive_events w = events"
    using assms(5) by (auto simp: finish_refreshed_def split: sum.splits)
  note kept = refresh_progress_kept [OF refreshed(1)]
  show ?thesis
    unfolding refreshed(2)
    by (rule end_sound_cancelled)
      (use assms(1,2,4) kept(1,2) kept(5) [OF assms(3)] in \<open>simp_all add: refreshed(3) accounted_def\<close>)
qed

lemma end_sound_failed:
  assumes "log_sound env policy (drive_events w)" "dispatch_count (drive_events w) \<le> max_dispatches policy"
    and "run_plan run = None \<or> knows_round env policy run" "accounted policy run (drive_events w)"
    and "finish_failed error run w = PassFinished report w'"
    and "drive_clock w = Suc i" "\<not> drive_interrupted env i"
  shows "end_sound env policy report w'"
proof -
  obtain kind where end_run: "report = finish_run (record_plan_failure kind (voting_error_text error) run) RunFailures" "w' = w"
    using assms(5) by (auto simp: finish_failed_def split: option.splits)
  have "accounted policy (record_plan_failure kind (voting_error_text error) run) (drive_events w @ [])"
    using assms(4) by (rule accounted_quiet) (simp_all add: record_plan_failure_def)
  then show ?thesis
    using assms(1-3,6,7)
    by (auto simp: end_run end_sound_def knows_round_def record_plan_failure_def accounted_def)
qed

lemma settle_wave_end:
  assumes "settle_wave env policy n (run, events, quiescence) = PassFinished report w"
    and "folded_sound env policy run events quiescence" "knows_round env policy run"
  shows "end_sound env policy report w"
  using assms(1)
proof (cases rule: settle_wave_cases)
  case (cancelled m run' waits)
  have quiet: "\<forall>e\<in>set waits. \<not> is_selection e"
    using cancelled(5) by auto
  show ?thesis
  proof (rule end_sound_refreshed)
    show "log_sound env policy (events @ waits)"
      by (rule log_sound_quiet) (use assms(2) quiet in \<open>simp_all add: folded_sound_def\<close>)
    show "dispatch_count (events @ waits) \<le> max_dispatches policy"
      using assms(2) dispatch_count_quiet [OF quiet] by (simp add: folded_sound_def)
    show "knows_round env policy run'"
      using assms(3) knows_round_same_plan [OF cancelled(2)] by simp
    show "accounted policy run' (events @ waits)"
      by (rule accounted_quiet [where fs = "[]"])
        (use assms(2) cancelled in \<open>auto simp: folded_sound_def intro!: failure_log_quiet\<close>)
    show "finish_refreshed env run' m (events @ waits) = PassFinished report w"
      using cancelled(1) by simp
  qed
next
  case (stopped q)
  then obtain refreshed where refreshed: "refresh_progress env (Suc n) run = Inr refreshed"
      "report = finish_run refreshed (if drive_interrupted env (n + 2) then RunCancelled else q)"
      "w = \<lparr>drive_clock = n + 3, drive_events = events\<rparr>"
    by (auto split: sum.splits)
  note kept = refresh_progress_kept [OF refreshed(1)]
  have "supported policy events (finish_run refreshed q) q"
    using assms(2) stopped(1) kept(1,3)
    by (cases q) (auto simp: folded_sound_def outcome_recorded_def finish_run_def)
  then show ?thesis
    using assms(2) stopped(1) kept(1,2) kept(5) [OF assms(3)] refreshed(2,3)
    by (cases q) (auto simp: end_sound_def folded_sound_def knows_round_def accounted_def)
qed simp

lemma pass_end:
  assumes "loop_sound env policy run w" "0 < max_bundle_concurrency policy"
    and "drive_pass env policy run w = PassFinished report w'"
  shows "end_sound env policy report w'"
proof -
  have run: "run_sound env policy run (drive_events w)" "run_plan run = None \<or> knows_round env policy run"
      "0 < run_dispatches run \<Longrightarrow> knows_round env policy run"
    using assms(1,2) by (auto simp: loop_sound_alt default_run_def)
  then have log: "log_sound env policy (drive_events w)" "dispatch_count (drive_events w) \<le> max_dispatches policy"
    and account: "accounted policy run (drive_events w)"
    by (simp_all add: run_sound_def)
  from assms(3) show ?thesis
  proof (cases rule: drive_pass_cases)
    case interrupted
    then show ?thesis
      using end_sound_refreshed [OF log _ account] run(3) by simp
  next
    case untouched
    then show ?thesis
      using log account run(2) by (auto intro!: end_sound_cancelled)
  next
    case (abandoned error)
    then show ?thesis
      using log account run(2) by (auto intro!: end_sound_cancelled)
  next
    case (unplanned error)
    then show ?thesis
      using end_sound_failed [of env policy "\<lparr>drive_clock = drive_clock w + 3, drive_events = drive_events w\<rparr>" run error report w' "drive_clock w + 2"]
        log account run(2) by (auto simp: finish_failed_def)
  next
    case (planned host_plan obls observed)
    let ?events = "drive_events w @ [PlanRefreshed host_plan (run_tally observed)]"
    have observed: "run_plan observed = Some host_plan" "knows_round env policy observed"
        "run_failures observed = run_failures run" "run_skipped observed = run_skipped run"
      using observe_plan_read [OF assms(1) planned(1)] by (simp_all add: planned(2) knows_round_def)
    have log': "log_sound env policy ?events" "dispatch_count ?events \<le> max_dispatches policy"
      using log by (simp_all add: log_sound_quiet)
    have account': "accounted policy observed ?events"
      by (rule accounted_quiet [OF account, where fs = "[]"]) (simp_all add: observed)
    from planned(3) [symmetric] show ?thesis
    proof (cases rule: dispatch_pass_cases)
      case cancelled
      then show ?thesis
        using log' account' observed(2) by (auto intro!: end_sound_cancelled)
    next
      case (quiet q)
      then show ?thesis
        using quiesce_supported [OF quiet(1) observed(1)] log' account' observed(2)
        by (auto simp: end_sound_def knows_round_def accounted_def)
    next
      case exhausted
      obtain step where "step \<in> set (next_steps host_plan)"
        using exhausted(1) by (auto simp: quiesce_None dispatchable_steps_def)
      then have "supported policy ?events (finish_run observed (PassBudgetExhausted (next_steps host_plan)))
          (PassBudgetExhausted (next_steps host_plan))"
        using exhausted(2) run(1) observed(1) by (auto simp: plan_satisfies_def run_sound_def planned(2))
      then show ?thesis
        using exhausted log' account' observed(2) by (auto simp: end_sound_def knows_round_def accounted_def)
    next
      case (wave steps selected)
      have selected: "knows_round env policy selected"
        using observed(2) knows_round_same_plan [OF select_steps_simps(1) [OF wave(4)]] by simp
      have account_selected: "accounted policy selected ?events"
        using account' by (rule accounted_same) (use select_steps_simps [OF wave(4)] in simp_all)
      from wave(5) [symmetric] show ?thesis
      proof (cases rule: admit_wave_cases)
        case cancelled
        then show ?thesis
          using log' account_selected selected by (auto intro!: end_sound_cancelled)
      next
        case (unread error)
        then show ?thesis
          using end_sound_failed [of env policy "\<lparr>drive_clock = Suc (drive_clock w + 2) + length steps + 2, drive_events = ?events\<rparr>"
              selected error report w' "Suc (Suc (drive_clock w + 2) + length steps)"] log' account_selected selected by simp
      next
        case (unsigned bundles)
        then show ?thesis
          using log' account_selected selected by (auto simp: end_sound_def knows_round_def accounted_def)
      next
        case dispatched
        obtain run1 events1 q m where "settle_wave env policy m (run1, events1, q) = PassFinished report w'"
          "folded_sound env policy run1 events1 q" "knows_round env policy run1"
          using assms(1,2) planned(1,2) wave(4) dispatched(3) [symmetric] by (rule pass_wave)
        then show ?thesis
          by (rule settle_wave_end)
      qed
    qed
  qed
qed

lemma drive_end_sound:
  assumes "drive env policy = Inr (report, w)" "0 < max_bundle_concurrency policy"
  shows "end_sound env policy report w"
  using assms(1) by (rule sound_loop.last_pass) (use assms(2) pass_end in blast)

section \<open>Signatures\<close>

lemma required_signatures_iff:
  "b \<in> set (required_signatures obligations skipped) \<longleftrightarrow>
   b \<notin> set skipped \<and> ((\<exists>phase tx_hash. AdvanceDelegation b False phase tx_hash \<in> set obligations) \<or>
     (\<exists>drafts prerequisite. Cast b drafts prerequisite True \<in> set obligations))"
proof -
  have "signed_delegation_bundle x = Some b \<longleftrightarrow> (\<exists>phase tx_hash. x = AdvanceDelegation b False phase tx_hash)" for x
    by (cases x rule: signed_delegation_bundle.cases) auto
  moreover have "signing_cast_bundle x = Some b \<longleftrightarrow> (\<exists>drafts prerequisite. x = Cast b drafts prerequisite True)" for x
    by (cases x rule: signing_cast_bundle.cases) auto
  moreover have "b \<in> set (List.map_filter f xs) \<longleftrightarrow> (\<exists>x\<in>set xs. f x = Some b)" for f and xs :: "Obligation list"
    by (force simp: List.map_filter_def)
  ultimately show ?thesis
    by (simp add: required_signatures_def signer_bundles_def) blast
qed

text \<open>A step may sign: its own context produces the signature, or the bundle's signature is stored.\<close>

definition signature_ready :: "VotingError + u32 list \<Rightarrow> RoundHostContext \<Rightarrow> u32 \<Rightarrow> bool" where
  "signature_ready stored context b \<longleftrightarrow>
     signs_itself context \<or>
     reads_stored context \<and> (case stored of Inl error \<Rightarrow> False | Inr bundles \<Rightarrow> b \<in> set bundles)"

lemma admitted_signers_iff:
  "(b, context) \<in> set (admitted_signers required dispatches) \<longleftrightarrow>
   b \<in> set required \<and> (\<exists>step. (step, context) \<in> set dispatches \<and> needs_delegation_signer step \<and> step_bundle_index step = b)"
  by (force simp: admitted_signers_def)

lemma missing_signer_bundles_none:
  assumes "missing_signer_bundles stored dispatches obligations skipped = Inr []"
    and "distinct (map (step_bundle_index \<circ> fst) dispatches)" "(step, context) \<in> set dispatches"
    and "needs_delegation_signer step" "step_bundle_index step \<in> set (required_signatures obligations skipped)"
  shows "signature_ready stored context (step_bundle_index step)"
proof -
  define required where "required = required_signatures obligations skipped"
  define admitted where "admitted = admitted_signers required dispatches"
  define own where "own = map fst (filter (\<lambda>(b, context). signs_itself context) admitted)"
  define inputless where "inputless = map fst (filter (\<lambda>(b, context). context_delegation_signer context = None) admitted)"
  define owed where "owed = filter (\<lambda>b. b \<notin> set own) required"
  let ?b = "step_bundle_index step"
  have member: "(?b, context) \<in> set admitted"
    using assms(3-5) by (auto simp: admitted_def admitted_signers_iff required_def)
  have unique: "c = context" if hit: "(?b, c) \<in> set admitted" for c
  proof -
    obtain s where s: "(s, c) \<in> set dispatches" "step_bundle_index s = ?b"
      using hit by (auto simp: admitted_def admitted_signers_iff)
    then have "(s, c) = (step, context)"
      using assms(2,3) inj_onD [of "step_bundle_index \<circ> fst" "set dispatches" "(s, c)" "(step, context)"]
      by (simp add: distinct_map)
    then show ?thesis
      by simp
  qed
  show ?thesis
  proof (cases "signs_itself context")
    case True
    then show ?thesis
      by (simp add: signature_ready_def)
  next
    case False
    then have "?b \<notin> set own"
      using unique by (auto simp: own_def)
    then have owed: "?b \<in> set owed"
      using assms(5) by (simp add: owed_def required_def)
    have none: "(if required = [] \<or> admitted = [] \<or> owed = [] then Inr []
         else if \<not> list_ex (\<lambda>(b, context). reads_stored context) admitted then Inr inputless
         else and_then stored (\<lambda>bundles. Inr (filter (\<lambda>b. b \<in> set inputless \<or> b \<notin> set bundles) owed))) = Inr []"
      using assms(1) unfolding missing_signer_bundles_def Let_def owed_def own_def inputless_def admitted_def required_def .
    have present: "required \<noteq> []" "admitted \<noteq> []" "owed \<noteq> []"
      using assms(5) member owed by (auto simp: required_def)
    show ?thesis
    proof (cases "list_ex (\<lambda>(b, context). reads_stored context) admitted")
      case True
      then obtain bundles where bundles: "stored = Inr bundles" "\<forall>b\<in>set owed. b \<notin> set inputless \<and> b \<in> set bundles"
        using none present by (auto simp: and_then_eq_Inr filter_empty_conv)
      then have "context_delegation_signer context \<noteq> None"
        using owed member by (force simp: inputless_def)
      then show ?thesis
        using False owed bundles by (simp add: signature_ready_def signs_itself_def)
    next
      case unread: False
      then have "inputless = []"
        using none present by simp
      then have "context_delegation_signer context \<noteq> None"
        using member by (force simp: inputless_def filter_empty_conv)
      then show ?thesis
        using False unread member by (force simp: signs_itself_def list_ex_iff)
    qed
  qed
qed

lemma missing_signer_bundles_owed:
  assumes "missing_signer_bundles stored dispatches obligations skipped = Inr bundles" "b \<in> set bundles"
  shows "b \<in> set (required_signatures obligations skipped)"
    "\<exists>step context. (step, context) \<in> set dispatches \<and> needs_delegation_signer step \<and> \<not> signs_itself context"
proof -
  define required where "required = required_signatures obligations skipped"
  define admitted where "admitted = admitted_signers required dispatches"
  define own where "own = map fst (filter (\<lambda>(b, context). signs_itself context) admitted)"
  define inputless where "inputless = map fst (filter (\<lambda>(b, context). context_delegation_signer context = None) admitted)"
  define owed where "owed = filter (\<lambda>b. b \<notin> set own) required"
  have found: "(if required = [] \<or> admitted = [] \<or> owed = [] then Inr []
         else if \<not> list_ex (\<lambda>(b, context). reads_stored context) admitted then Inr inputless
         else and_then stored (\<lambda>bundles. Inr (filter (\<lambda>b. b \<in> set inputless \<or> b \<notin> set bundles) owed))) = Inr bundles"
    using assms(1) unfolding missing_signer_bundles_def Let_def owed_def own_def inputless_def admitted_def required_def .
  consider (inputs) "b \<in> set inputless" | (stored) "b \<in> set owed" "list_ex (\<lambda>(b, context). reads_stored context) admitted"
    using found assms(2) by (auto simp: and_then_eq_Inr split: if_splits)
  then have "b \<in> set required \<and> (\<exists>c context. (c, context) \<in> set admitted \<and> \<not> signs_itself context)"
  proof cases
    case inputs
    then obtain ctx where "(b, ctx) \<in> set admitted" "context_delegation_signer ctx = None"
      by (auto simp: inputless_def)
    then show ?thesis
      by (auto simp: admitted_def admitted_signers_iff signs_itself_def)
  next
    case stored
    then show ?thesis
      by (auto simp: owed_def list_ex_iff signs_itself_def)
  qed
  then show "b \<in> set (required_signatures obligations skipped)"
    "\<exists>step context. (step, context) \<in> set dispatches \<and> needs_delegation_signer step \<and> \<not> signs_itself context"
    by (auto simp: admitted_def admitted_signers_iff required_def)
qed

section \<open>No panic\<close>

lemma voting_error_kind_None: "voting_error_kind error = None \<longleftrightarrow> (\<exists>message. error = VotingPanicked message)"
  by (cases error) simp_all

lemma panic_free_worker:
  assumes "\<forall>n. panic_free (drive_snapshot_at env n)"
    and "\<forall>n snapshot. drive_snapshot_at env n = Inr snapshot \<longrightarrow> snapshot_wf snapshot \<and> own_recoveries snapshot"
  shows "panic_free (plan_off_the_worker env n)"
  using assms panic_free_plan by (auto simp: plan_off_the_worker_def)

lemma refresh_not_panicked:
  "panic_free (plan_off_the_worker env n) \<Longrightarrow> refresh_progress env n run \<noteq> Inl message"
  by (auto simp: refresh_progress_def voting_error_kind_None panic_free_def split: sum.splits if_splits)

lemma finish_not_panicked:
  "panic_free (plan_off_the_worker env n) \<Longrightarrow> finish_refreshed env run n events \<noteq> PassPanicked message"
  "panic_free (Inl error) \<Longrightarrow> finish_failed error run w \<noteq> PassPanicked message"
  using refresh_not_panicked
  by (auto simp: finish_refreshed_def finish_failed_def voting_error_kind_None split: sum.splits option.splits)

lemma missing_signer_panic_free:
  "panic_free stored \<Longrightarrow> panic_free (missing_signer_bundles stored dispatches obligations skipped)"
  by (auto simp: missing_signer_bundles_def Let_def)

lemma settle_wave_not_panicked:
  assumes "\<forall>n. panic_free (plan_off_the_worker env n)"
  shows "settle_wave env policy n folded \<noteq> PassPanicked message"
proof -
  obtain run events quiescence where folded: "folded = (run, events, quiescence)"
    by (cases folded)
  have "False" if "settle_wave env policy n (run, events, quiescence) = PassPanicked message"
    using that
  proof (cases rule: settle_wave_cases)
    case (cancelled m run' waits)
    then show False
      using finish_not_panicked(1) assms by metis
  next
    case (stopped q)
    then show False
      using refresh_not_panicked [of env "Suc n" run] assms by (auto split: sum.splits)
  qed simp
  then show ?thesis
    unfolding folded by blast
qed

lemma drive_pass_not_panicked:
  assumes "\<forall>n. panic_free (plan_off_the_worker env n)" "\<forall>n round_id. panic_free (drive_signatures_at env n round_id)"
  shows "drive_pass env policy run w \<noteq> PassPanicked message"
proof
  assume "drive_pass env policy run w = PassPanicked message"
  then show False
  proof (cases rule: drive_pass_cases)
    case interrupted
    then show False
      using finish_not_panicked(1) assms(1) by metis
  next
    case (unplanned error)
    then show False
      using finish_not_panicked(2) assms(1) by metis
  next
    case (planned host_plan obls observed)
    from planned(3) [symmetric] show False
    proof (cases rule: dispatch_pass_cases)
      case (wave steps selected)
      from wave(5) [symmetric] show False
      proof (cases rule: admit_wave_cases)
        case (unread error)
        then have "panic_free (Inl error :: VotingError + u32 list)"
          using missing_signer_panic_free assms(2) by metis
        with unread(3) [symmetric] show False
          by (simp add: finish_not_panicked(2))
      next
        case dispatched
        from dispatched(3) [symmetric] show False
          by (simp add: run_wave_def settle_wave_not_panicked [OF assms(1)])
      qed simp_all
    qed simp_all
  qed simp_all
qed

lemma drive_loop_reports:
  assumes "\<forall>n. panic_free (plan_off_the_worker env n)" "\<forall>n round_id. panic_free (drive_signatures_at env n round_id)"
  shows "\<exists>report w'. drive_loop env policy run w = Inr (report, w')"
  using assms
proof (induction env policy run w rule: drive_loop.induct)
  case (1 env policy run w)
  then show ?case
    using drive_pass_not_panicked [OF "1.prems"]
    by (cases "drive_pass env policy run w") (auto simp: drive_loop.simps [of env policy run w])
qed

section \<open>A sample run\<close>

text \<open>
  The sample round driven by an executor that is always busy: the delegation of bundle 1 fails first, then the vote of
  bundle 0, after which every bundle is skipped.
\<close>

definition sample_context :: RoundHostContext where
  "sample_context = \<lparr>configured_helper_urls = [], context_now_seconds = 0, context_ceremony_start_seconds = None,
     context_vote_end_time_seconds = None, vote_tree_node_urls = [], context_delegation_signer = Some SignerSoftware,
     context_chain_policy = \<lparr>initial_recovery_mode = StatusOnly, advance_pending_repoll = Duration 2 0,
       escalate_to_exact_tree = True, max_passes = 45\<rparr>, max_proof_concurrency = 1\<rparr>"

definition sample_drive :: "(unit, unit) drive_env" where
  "sample_drive = \<lparr>drive_planning = sample_planning, drive_proposal_ids = [1, 2], drive_cancelled_at = (\<lambda>_. False),
     drive_epoch_at = (\<lambda>_. 7), drive_snapshot_at = (\<lambda>_. Inr sample_snapshot), drive_context_at = (\<lambda>_. sample_context),
     drive_signatures_at = (\<lambda>_ _. Inr []),
     drive_execute_at = (\<lambda>_ step _. Inl (plain_failure FailureBusy (Some step) [])), drive_wakes_at = (\<lambda>_. 0)\<rparr>"

definition sample_drive_policy :: RoundDrivePolicy where
  "sample_drive_policy = default_drive_policy\<lparr>max_dispatches := 1\<rparr>"

lemma sample_drive_fields [simp]:
  "drive_cancelled_at sample_drive n = False" "drive_epoch_at sample_drive n = 7"
  "drive_context_at sample_drive n = sample_context" "drive_signatures_at sample_drive n round_id = Inr []"
  "drive_execute_at sample_drive n step ctx = Inl (plain_failure FailureBusy (Some step) [])"
  "drive_snapshot_at sample_drive n = Inr sample_snapshot"
  by (simp_all add: sample_drive_def)

lemma sample_plan:
  obtains host_plan obls where "\<forall>n. plan_off_the_worker sample_drive n = Inr (host_plan, obls)"
    "next_steps host_plan = [StepDelegate 1, StepAdvanceVote 0 1, StepCastVote 1 1 0, StepCastVote 1 2 1, StepConfirmShare 0 1 3]"
    "round_obligations obls = [ReconcileChain (Singleton 0 1) 0 [1] False None None, sample_cast, Delegate 1,
       Confirm 0 1 3 True False None]"
proof -
  have "(case plan_round_classified sample_planning sample_snapshot [1, 2] of
      Inl _ \<Rightarrow> False
    | Inr (host_plan, obls) \<Rightarrow>
        next_steps host_plan = [StepDelegate 1, StepAdvanceVote 0 1, StepCastVote 1 1 0, StepCastVote 1 2 1, StepConfirmShare 0 1 3] \<and>
        round_obligations obls = [ReconcileChain (Singleton 0 1) 0 [1] False None None, sample_cast, Delegate 1,
          Confirm 0 1 3 True False None])"
    by code_simp
  then show thesis
    using that by (auto simp: plan_off_the_worker_def sample_drive_def split: sum.splits)
qed

lemma sample_selection:
  "next_dispatches [StepDelegate 1, StepAdvanceVote 0 1, StepCastVote 1 1 0, StepCastVote 1 2 1] [] [] 3 (Suc 0) True =
     [StepDelegate 1]"
  by code_simp

lemma sample_signatures:
  "missing_signer_bundles (Inr []) [(StepDelegate 1, sample_context)]
     [ReconcileChain (Singleton 0 1) 0 [1] False None None, sample_cast, Delegate 1, Confirm 0 1 3 True False None] [] =
   Inr []"
  by code_simp

lemma default_run_simps [simp]:
  "run_dispatches default_run = 0" "run_skipped default_run = []" "run_awaiting_repoll default_run = []"
  "run_failures default_run = []" "run_repoll default_run = []"
  by (simp_all add: default_run_def)

lemma sample_first_pass:
  assumes reads: "\<forall>n. plan_off_the_worker sample_drive n = Inr (host_plan, obls)"
      "next_steps host_plan = [StepDelegate 1, StepAdvanceVote 0 1, StepCastVote 1 1 0, StepCastVote 1 2 1, StepConfirmShare 0 1 3]"
      "round_obligations obls = [ReconcileChain (Singleton 0 1) 0 [1] False None None, sample_cast, Delegate 1,
         Confirm 0 1 3 True False None]"
  obtains run w where "drive_pass sample_drive sample_drive_policy default_run drive_start = PassContinues run w"
    "StepSelected (StepDelegate 1) \<in> set (drive_events w)" "run_dispatches run = 1" "run_skipped run = [1]"
proof -
  let ?observed = "observe_plan sample_drive_policy host_plan obls default_run :: (unit, unit) Run"
  have dispatchable: "dispatchable_steps host_plan (round_obligations obls) =
      [StepDelegate 1, StepAdvanceVote 0 1, StepCastVote 1 1 0, StepCastVote 1 2 1]"
    by (simp add: dispatchable_steps_def reads share_requires_tracking_def sample_cast_def)
  have quiet: "quiesce_before_dispatch host_plan (round_obligations obls) ?observed = None"
    by (auto simp: quiesce_None dispatchable)
  have policy: "max_bundle_concurrency sample_drive_policy = 3" "max_dispatches sample_drive_policy = Suc 0"
    "failure_isolation sample_drive_policy = SkipBundle"
    by (simp_all add: sample_drive_policy_def default_drive_policy_def)
  have select: "select_steps sample_drive_policy (dispatchable_steps host_plan (round_obligations obls)) ?observed =
      ([StepDelegate 1], ?observed\<lparr>run_awaiting_repoll := []\<rparr>)"
    unfolding dispatchable by (simp add: select_steps_def policy observe_plan_def Let_def sample_selection)
  have contexts: "dispatch_contexts sample_drive n [StepDelegate 1] = [(StepDelegate 1, sample_context)]" for n
    by (simp add: dispatch_contexts_def)
  have "drive_pass sample_drive sample_drive_policy default_run drive_start =
    run_wave sample_drive sample_drive_policy [(StepDelegate 1, sample_context)] (?observed\<lparr>run_awaiting_repoll := []\<rparr>) (Suc (Suc (Suc (Suc (Suc (Suc (Suc 0)))))))
      [PlanRefreshed host_plan (run_tally ?observed)]"
    using quiet select contexts sample_signatures
    by (simp add: drive_pass_def Let_def drive_interrupted_def reads(1) dispatch_pass_def policy admit_wave_def reads(3))
  then show thesis
    using that
    by (simp add: run_wave_def run_dispatch_wave_def fold_wave_def policy Let_def settle_wave_def drive_interrupted_def observe_plan_def)
qed
lemma sample_second_pass:
  fixes run :: "(unit, unit) Run"
  assumes reads: "\<forall>n. plan_off_the_worker sample_drive n = Inr (host_plan, obls)"
      "next_steps host_plan = [StepDelegate 1, StepAdvanceVote 0 1, StepCastVote 1 1 0, StepCastVote 1 2 1, StepConfirmShare 0 1 3]"
    and run: "run_dispatches run = 1" "run_skipped run = [1]"
  obtains report w' tally where "drive_pass sample_drive sample_drive_policy run w = PassFinished report w'"
    "drive_events w' = drive_events w @ [PlanRefreshed host_plan tally]"
    "report_quiescence report = PassBudgetExhausted (next_steps host_plan)"
proof -
  have "StepAdvanceVote 0 1 \<in> set (dispatchable_steps host_plan (round_obligations obls))"
    by (simp add: dispatchable_steps_def reads(2))
  then have "quiesce_before_dispatch host_plan (round_obligations obls) (observe_plan sample_drive_policy host_plan obls run) = None"
    unfolding quiesce_None by (rule bexI [rotated]) (simp add: run)
  then show thesis
    using that run(1)
    by (simp add: drive_pass_def Let_def drive_interrupted_def reads(1) dispatch_pass_def sample_drive_policy_def)
qed

lemma sample_drive_runs:
  obtains report w before later remaining where "drive sample_drive sample_drive_policy = Inr (report, w)"
    "drive_events w = before @ StepSelected (StepDelegate 1) # later"
    "report_quiescence report = PassBudgetExhausted remaining"
proof -
  obtain host_plan obls where
    reads: "\<forall>n. plan_off_the_worker sample_drive n = Inr (host_plan, obls)"
      "next_steps host_plan = [StepDelegate 1, StepAdvanceVote 0 1, StepCastVote 1 1 0, StepCastVote 1 2 1, StepConfirmShare 0 1 3]"
      "round_obligations obls = [ReconcileChain (Singleton 0 1) 0 [1] False None None, sample_cast, Delegate 1,
         Confirm 0 1 3 True False None]"
    by (rule sample_plan)
  obtain run w where one: "drive_pass sample_drive sample_drive_policy default_run drive_start = PassContinues run w"
      "StepSelected (StepDelegate 1) \<in> set (drive_events w)"
      "run_dispatches run = 1" "run_skipped run = [1]"
    using reads by (rule sample_first_pass)
  obtain report w' tally where two: "drive_pass sample_drive sample_drive_policy run w = PassFinished report w'"
      "drive_events w' = drive_events w @ [PlanRefreshed host_plan tally]"
      "report_quiescence report = PassBudgetExhausted (next_steps host_plan)"
    using reads(1,2) one(3,4) by (rule sample_second_pass)
  have "drive sample_drive sample_drive_policy = Inr (report, w')"
    using one(1) two(1) by (simp add: drive_def drive_loop.simps [of _ _ default_run] drive_loop.simps [of _ _ run w])
  moreover obtain before later where "drive_events w = before @ StepSelected (StepDelegate 1) # later"
    using split_list [OF one(2)] by blast
  ultimately show thesis
    using that two(2,3) by simp
qed

lemma sample_drive_policy_concurrency [simp]: "0 < max_bundle_concurrency sample_drive_policy"
  by (simp add: sample_drive_policy_def default_drive_policy_def)

section \<open>Properties\<close>

text \<open>
  C7: every step a run dispatches was listed by the plan the driver itself read last before it, and is not a
  share that background tracking owns. No step of its bundle failed earlier in the run. The steps of
  one wave belong to distinct bundles, there are at most as many as the policy allows at once, and more than
  one only when failures skip bundles and every step of the wave takes a bundle lock.
\<close>

theorem dispatches_are_sound:
  assumes "drive env policy = Inr (report, w)" "0 < max_bundle_concurrency policy"
    and "drive_events w = before @ StepSelected step # later"
  shows "(\<exists>n host_plan obls. plan_off_the_worker env n = Inr (host_plan, obls) \<and> last_plan before = Some host_plan \<and>
      step \<in> set (next_steps host_plan) \<and> \<not> requires_background_tracking (round_obligations obls) step) \<and>
    step_bundle_index step \<notin> failed_bundles before \<and>
    (let wave = current_wave (before @ [StepSelected step])
     in distinct (map step_bundle_index wave) \<and> length wave \<le> max_bundle_concurrency policy \<and>
        (length wave \<le> 1 \<or>
         failure_isolation policy = SkipBundle \<and> (\<forall>s\<in>set wave. lock_scope s = ScopeBundle)))"
  using drive_end_sound [OF assms(1,2)] assms(3)
  by (simp add: end_sound_def log_sound_def selection_sound_def)

theorem dispatches_are_sound_witness:
  "\<exists>report w before later. drive sample_drive sample_drive_policy = Inr (report, w) \<and>
     drive_events w = before @ StepSelected (StepDelegate 1) # later \<and>
     step_bundle_index (StepDelegate 1) \<notin> failed_bundles before"
proof -
  obtain report w before later where run: "drive sample_drive sample_drive_policy = Inr (report, w)"
    "drive_events w = before @ StepSelected (StepDelegate 1) # later"
    by (rule sample_drive_runs)
  then show ?thesis
    using dispatches_are_sound [OF run(1) sample_drive_policy_concurrency run(2)] by blast
qed

text \<open>
  The answers that hand the round over never come with a recorded failure: a run with one reports
  its failures when nothing is left to dispatch.
\<close>

lemma handoff_without_failures:
  assumes "drive env policy = Inr (report, w)" "0 < max_bundle_concurrency policy" "is_handoff (report_quiescence report)"
  shows "report_failures report = []"
  using drive_end_sound [OF assms(1,2)] assms(3) by (simp add: end_sound_def)

text \<open>
  C10: the report of a run is supported by what the run read and did, when every stored round it reads
  is well-formed. Nothing left to do, a missing setup, an unfinished ballot, a blocked chain row or a handoff of
  shares is answered only when the reported plan says so and lists, outside the bundles the run skipped, no step but
  shares to confirm, and none at all or exactly the named ones for the first and the last of these answers. A failed run
  has a recorded failure, an answer about a chain outcome names a recorded one, and an exhausted budget means
  that exactly the allowed number of steps was dispatched with the reported plan's steps left. Every step that failed is
  among the reported failures, in dispatch order with its kind and message, and the skipped bundles are exactly the bundles of
  the failed steps, in that order, or none when failures stop the round. Plan and tally come from one read, measured against the
  first read of the run; when nothing is left to do and no bundle was skipped the tally counts no remaining obligation.
\<close>

theorem report_is_truthful:
  assumes "drive env policy = Inr (report, w)" "0 < max_bundle_concurrency policy"
    and "\<forall>n snapshot. drive_snapshot_at env n = Inr snapshot \<longrightarrow> snapshot_wf snapshot"
  shows "supported policy (drive_events w) report (report_quiescence report) \<and>
    subseq (map Some (failure_log (drive_events w))) (map failure_entry (report_failures report)) \<and>
    report_skipped_bundles report = isolated_bundles policy (drive_events w) \<and>
    (report_plan report = None \<or> read_together env policy (report_plan report) (report_tally report)) \<and>
    (report_quiescence report = NoWorkLeft \<and> report_skipped_bundles report = [] \<longrightarrow>
       remaining_obligations (report_tally report) = 0)"
proof -
  note sound = drive_end_sound [OF assms(1,2), unfolded end_sound_def]
  have "remaining_obligations (report_tally report) = 0"
    if idle: "report_quiescence report = NoWorkLeft" "report_skipped_bundles report = []"
  proof -
    obtain host_plan where host_plan: "report_plan report = Some host_plan" "next_steps host_plan = []"
      using idle sound
      by (auto simp: plan_satisfies_def leaves_shares_def admissible_steps_def split: option.splits)
    then obtain n obls baseline where read: "plan_off_the_worker env n = Inr (host_plan, obls)"
        "report_tally report = work_tally baseline obls"
      using sound by (auto simp: read_together_def)
    obtain snapshot where snapshot: "drive_snapshot_at env n = Inr snapshot"
        "classify_round (drive_planning env) snapshot (drive_proposal_ids env) = Inr obls"
        "project (drive_planning env) snapshot (drive_proposal_ids env) obls = Inr host_plan"
      using read(1) by (auto simp: plan_off_the_worker_def plan_round_classified_def and_then_eq_Inr)
    have shape: "\<forall>x\<in>set (round_obligations obls). well_shaped x"
      using classify_round_shape(1) [OF snapshot(2)] assms(3) snapshot(1) by blast
    have "set (next_steps host_plan) = (\<Union>x\<in>set (round_obligations obls). set (steps_of x))"
      by (simp add: project_steps [OF snapshot(3) shape])
    then have "\<forall>x\<in>set (round_obligations obls). steps_of x = []"
      using host_plan(2) by simp
    then have "filter is_dispatched_alone (round_obligations obls) = []"
      using shape steps_of_empty by (fastforce simp: filter_empty_conv)
    then show ?thesis
      by (simp add: read(2) work_tally_def)
  qed
  then show ?thesis
    using sound by blast
qed

theorem report_is_truthful_witness:
  "\<exists>report w remaining. drive sample_drive sample_drive_policy = Inr (report, w) \<and>
     report_quiescence report = PassBudgetExhausted remaining \<and> remaining \<noteq> [] \<and>
     supported sample_drive_policy (drive_events w) report (PassBudgetExhausted remaining)"
proof -
  obtain report w remaining where run: "drive sample_drive sample_drive_policy = Inr (report, w)"
    "report_quiescence report = PassBudgetExhausted remaining"
    by (rule sample_drive_runs)
  have "supported sample_drive_policy (drive_events w) report (report_quiescence report)"
    using report_is_truthful [OF run(1)] sample_snapshot_ok(1) by simp
  then show ?thesis
    using run by auto
qed

text \<open>
  C16: a run with a positive concurrency ends with a report and dispatches at most the steps its policy allows, when no read
  of the stored round or of the stored signatures panics, every stored round it reads has its maps in key order, and the
  vote recoveries of each round name the proposal of their own row.
\<close>

theorem drive_always_reports:
  assumes "0 < max_bundle_concurrency policy"
    and "\<forall>n. panic_free (drive_snapshot_at env n)" "\<forall>n round_id. panic_free (drive_signatures_at env n round_id)"
    and "\<forall>n snapshot. drive_snapshot_at env n = Inr snapshot \<longrightarrow> snapshot_wf snapshot \<and> own_recoveries snapshot"
  shows "\<exists>report w. drive env policy = Inr (report, w) \<and> dispatch_count (drive_events w) \<le> max_dispatches policy"
proof -
  obtain report w where run: "drive env policy = Inr (report, w)"
    using drive_loop_reports [OF _ assms(3)] panic_free_worker [OF assms(2,4)] unfolding drive_def by blast
  then show ?thesis
    using drive_end_sound [OF run assms(1)] by (simp add: end_sound_def)
qed

theorem drive_always_reports_witness:
  "\<exists>report w. drive sample_drive sample_drive_policy = Inr (report, w) \<and> dispatch_count (drive_events w) \<le> 1"
  using drive_always_reports [of sample_drive_policy sample_drive] sample_snapshot_ok(1,2)
  by (simp add: sample_drive_policy_def default_drive_policy_def)

text \<open>
  C18: an interrupted run says so. When the host's control stays cancelled or in another epoch from some reading on
  and the run makes that reading or a later one, the run ends as cancelled.
\<close>

theorem interruption_is_reported:
  assumes "drive env policy = Inr (report, w)" "0 < max_bundle_concurrency policy"
    and "\<forall>n\<ge>k. drive_interrupted env n" "k < drive_clock w"
  shows "report_quiescence report = RunCancelled"
proof (rule ccontr)
  assume "report_quiescence report \<noteq> RunCancelled"
  then obtain i where "drive_clock w = Suc i" "\<not> drive_interrupted env i"
    using drive_end_sound [OF assms(1,2)] by (auto simp: end_sound_def)
  then show False
    using assms(3,4) by auto
qed

definition cancelled_drive :: "(unit, unit) drive_env" where
  "cancelled_drive = sample_drive\<lparr>drive_cancelled_at := \<lambda>n. 1 \<le> n\<rparr>"

theorem interruption_is_reported_witness:
  "\<exists>report w. drive cancelled_drive sample_drive_policy = Inr (report, w) \<and> 1 < drive_clock w \<and>
     report_quiescence report = RunCancelled"
proof -
  have "drive cancelled_drive sample_drive_policy =
      Inr (finish_run default_run RunCancelled, \<lparr>drive_clock = 2, drive_events = []\<rparr>)"
    by (simp add: drive_def drive_loop.simps drive_pass_def drive_interrupted_def cancelled_drive_def default_run_def)
  then obtain report w where run: "drive cancelled_drive sample_drive_policy = Inr (report, w)" "1 < drive_clock w"
    by simp
  moreover have "\<forall>n\<ge>1. drive_interrupted cancelled_drive n"
    by (simp add: drive_interrupted_def cancelled_drive_def)
  ultimately show ?thesis
    using interruption_is_reported [OF run(1) sample_drive_policy_concurrency _ run(2)] by blast
qed

text \<open>
  C17: a wave is dispatched only when every step in it that needs the voter's signature for its delegation has it: the
  step's own host context signs, or it reads stored signatures and the bundle's signature is stored.
  Otherwise the pass ends without any event, and bundles it reports as unsigned are bundles the round owes such a
  signature for.
\<close>

theorem signatures_precede_dispatch:
  assumes "admit_wave env policy host_plan obligations steps run n events = result"
    and "distinct (map step_bundle_index steps)"
  shows "(\<exists>report w. result = PassFinished report w \<and> drive_events w = events \<and>
      (\<forall>bundles. report_quiescence report = NeedsDelegationSignatures bundles \<longrightarrow>
         (\<forall>b\<in>set bundles. b \<notin> set (run_skipped run) \<and>
           ((\<exists>phase tx_hash. AdvanceDelegation b False phase tx_hash \<in> set obligations) \<or>
            (\<exists>drafts prerequisite. Cast b drafts prerequisite True \<in> set obligations))))) \<or>
    (\<exists>message. result = PassPanicked message) \<or>
    (\<forall>i<length steps. needs_delegation_signer (steps ! i) \<and> step_bundle_index (steps ! i) \<notin> set (run_skipped run) \<and>
      ((\<exists>phase tx_hash. AdvanceDelegation (step_bundle_index (steps ! i)) False phase tx_hash \<in> set obligations) \<or>
       (\<exists>drafts prerequisite. Cast (step_bundle_index (steps ! i)) drafts prerequisite True \<in> set obligations)) \<longrightarrow>
      signature_ready (drive_signatures_at env (n + length steps) (plan_round_id host_plan))
        (drive_context_at env (n + i)) (step_bundle_index (steps ! i)))"
  using assms(1)
proof (cases rule: admit_wave_cases)
  case (unread error)
  then show ?thesis
    by (auto simp: finish_failed_def split: option.splits)
next
  case (unsigned bundles)
  then show ?thesis
    using missing_signer_bundles_owed(1) [OF unsigned(3)] by (simp add: required_signatures_iff)
next
  case dispatched
  have "map (step_bundle_index \<circ> fst) (dispatch_contexts env n steps) = map step_bundle_index (map snd (enumerate 0 steps))"
    by (simp only: map_map) (simp add: dispatch_contexts_def comp_def case_prod_unfold)
  then have distinct: "distinct (map (step_bundle_index \<circ> fst) (dispatch_contexts env n steps))"
    using assms(2) by simp
  have "(steps ! i, drive_context_at env (n + i)) \<in> set (dispatch_contexts env n steps)" if "i < length steps" for i
    using that by (force simp: dispatch_contexts_def in_set_enumerate_eq)
  then show ?thesis
    using missing_signer_bundles_none [OF dispatched(2) distinct] by (auto simp: required_signatures_iff)
qed simp

theorem signatures_precede_dispatch_witness:
  "\<forall>host_plan. signature_ready (Inr []) sample_context 1 \<or>
     (\<exists>report w. admit_wave sample_drive sample_drive_policy host_plan [AdvanceDelegation 1 False DelegationProved None]
        [StepAdvanceDelegation 1] default_run 3 [] = PassFinished report w \<and> drive_events w = []) \<or>
     (\<exists>message. admit_wave sample_drive sample_drive_policy host_plan [AdvanceDelegation 1 False DelegationProved None]
        [StepAdvanceDelegation 1] default_run 3 [] = PassPanicked message)"
proof
  fix host_plan
  have "distinct (map step_bundle_index [StepAdvanceDelegation 1])"
    by simp
  then show "signature_ready (Inr []) sample_context 1 \<or>
     (\<exists>report w. admit_wave sample_drive sample_drive_policy host_plan [AdvanceDelegation 1 False DelegationProved None]
        [StepAdvanceDelegation 1] default_run 3 [] = PassFinished report w \<and> drive_events w = []) \<or>
     (\<exists>message. admit_wave sample_drive sample_drive_policy host_plan [AdvanceDelegation 1 False DelegationProved None]
        [StepAdvanceDelegation 1] default_run 3 [] = PassPanicked message)"
    using signatures_precede_dispatch [of sample_drive sample_drive_policy host_plan
        "[AdvanceDelegation 1 False DelegationProved None]" "[StepAdvanceDelegation 1]" default_run 3 "[]", OF refl]
    by auto
qed

end
