(* ===== verification/Spec2Isabelle.thy ===== *)
theory Spec2Isabelle
  imports Coordinator_Safety Share_Placement Submission_Planning Drive_Properties
begin

text \<open>
  \<^bold>\<open>The program.\<close> The crate \<open>zcash_voting\<close> of librustvoting lets a wallet take part in a shielded
  vote. Its part that must not go wrong when processes die and networks lie is the submission of
  transactions to the vote chain (\<open>src/zcash_voting/src/chain_submission/\<close>): a delegation, a vote, a
  vote batch or a combined delegation and batch is derived from the stored round as a
  \<^emph>\<open>generation\<close>, admitted as one row of the table \<open>chain_submissions\<close>, posted to an endpoint under a
  reservation that is committed before the first byte leaves, reconciled with the chain until the
  transaction is confirmed or rejected, and recovered from the commitment tree when no
  transaction hash is known. This development models that lifecycle from the row transitions up
  to a whole pass of the coordinator and proves what its callers rely on. Around it stand the
  decisions about what to submit at all: the plan of a round
  (\<open>src/zcash_voting/src/round_planning/\<close>), which turns one snapshot of the stored round into the
  obligations a wallet still has and into the ordered steps its host executes, and the policy for
  helper shares (\<open>src/zcash_voting/src/share_policy/\<close>), which decides to which helpers and when the
  shares of a vote are sent. The round driver (\<open>src/zcash_voting/src/round_drive/\<close>) runs the planned
  steps until nothing is left that it may do, and tells the host why it stopped.

  \<^bold>\<open>Conventions.\<close> A \<open>Result\<close> is a sum with \<open>Inl\<close> for \<open>Err\<close>; the \<open>?\<close> operator is \<open>and_then\<close>. \<open>u64\<close> and
  the other machine integers are words and wrap or check as the source does. A Rust \<open>&str\<close> is the
  list of its scalar values (\<open>rust_str\<close>); bytes are lists of 8-bit words, and a fixed-size array
  is such a list together with a length hypothesis. Panics are values. Code of other crates is an
  argument of the definitions that use it: hex and base64 codecs, the field-canonicity test, the
  Merkle root, the JSON codecs, URL parsing, the SQL error texts, the HTTP transport, the clock,
  and the derivation of a generation from the stored round. What a theorem needs of them is a
  named hypothesis (\<open>derivation_ok\<close>, \<open>derivation_fits\<close>, \<open>pass_ok\<close>), and a concrete instance
  of it is part of each witness.

  \<^bold>\<open>Theories and sources.\<close>
  \<^item> \<open>Voting_Prelude\<close>, \<open>Voting_Text\<close>, \<open>Voting_Effects\<close>: result combinators, checked and saturating
    arithmetic, the text functions of the standard library, and programs over a world with errors,
    destructors and their weakest preconditions.
  \<^item> \<open>Submission_Result\<close> (\<open>result.rs\<close>): public states, failures, bounded diagnostics. Escaped text is
    the escape of the longest prefix that fits; a text without quotes and backslashes is kept by
    escaping it again, and any other grows or, when it no longer fits, loses its end.
  \<^item> \<open>Submission_State\<close> (\<open>state.rs\<close>): the transition function of one row. It moves exactly along the
    abstract graph of durable states; evidence of a dispatch is permanent; a confirmation by hash
    confirms the candidate; terminal rows absorb.
  \<^item> \<open>Submission_Identity\<close> (\<open>identity.rs\<close>): identities and the injective primary key.
  \<^item> \<open>Submission_Coordination\<close> (\<open>coordination.rs\<close>): process-local locks, leases, epochs and the
    in-flight registry as step relations; exclusion, exactness and freedom from deadlock.
  \<^item> \<open>Submission_Generation\<close> (\<open>generation.rs\<close>, \<open>wire.rs\<close>): what a derived generation carries.
  \<^item> \<open>Submission_Confirmation\<close> (\<open>confirmation.rs\<close>): validation of committed events.
  \<^item> \<open>Submission_Requests\<close> (\<open>store.rs\<close>): advancement requests, the durable record and its bookkeeping.
  \<^item> \<open>Sqlite_Rows\<close>, \<open>Submission_Sqlite\<close> (\<open>store/sqlite.rs\<close> and the schema): rows, constraints, triggers
    and every store operation as a transaction that can fail at begin and at commit.
  \<^item> \<open>Sqlite_Invariant\<close>, \<open>Sqlite_Operations\<close>, \<open>Store_Calls\<close>, \<open>Store_Outcomes\<close>, \<open>Store_Properties\<close>: the
    table invariant, the abstract store (a map from identities to records) each operation
    implements, runs of calls, and what a caller learns from an answer, of a failed admission in
    particular.
  \<^item> \<open>Submission_Protocol\<close> (\<open>protocol.rs\<close>, \<open>transport.rs\<close>): canonical endpoints, timing, POSTs and
    their classification, lookups over all endpoints.
  \<^item> \<open>Tree_Recovery\<close> (\<open>recovery.rs\<close>): the scan of the commitment tree for a generation's outputs.
  \<^item> \<open>Submission_Coordinator\<close> (\<open>coordinator.rs\<close>): one pass. \<open>Coordinator_Bounds\<close> counts its POSTs and
    excludes panics; \<open>Coordinator_Steps\<close> has one proof rule for each call a pass makes;
    \<open>Coordinator_Safety\<close> composes them.
  \<^item> \<open>Voting_Collections\<close>: ordered maps and loops with early return, as the standard library has them.
  \<^item> \<open>Submission_Planning\<close> (\<open>planning.rs\<close>): the transaction hashes the stored submissions of a round
    know. The map built for a whole round answers like the query for one target.
  \<^item> \<open>Share_Order\<close>, \<open>Share_Timing\<close>, \<open>Share_Placement\<close> (\<open>share_policy/\<close>): helper orders drawn from
    entropy (every order is reached, and by exactly one sequence of draws), submission times and
    tracking delays, and the balanced placement of a complete batch.
  \<^item> \<open>Round_Phases\<close> (\<open>phases.rs\<close>, \<open>round_planning/lifecycle.rs\<close>, \<open>session.rs\<close>): phases of delegations,
    votes and shares, their projection from stored columns, and the ballot against the roster.
  \<^item> \<open>Round_Recovery\<close> (\<open>vote.rs\<close>, \<open>vote_commitment.rs\<close>, \<open>delegate_and_vote_batch/authorization.rs\<close>,
    \<open>share.rs\<close>): recovery bundles, batch digests, assembly of a stored batch, helper payloads.
  \<^item> \<open>Round_Units\<close> (\<open>vote_units.rs\<close>, \<open>snapshot.rs\<close>): the snapshot and its grouping into vote units.
  \<^item> \<open>Round_Classify\<close> (\<open>classify.rs\<close>): the rule table. \<open>Round_Obligations\<close> follows its loops by one
    invariant; \<open>Round_Planning\<close> shows which casts it plans, that a delivery lists exactly the
    shares that are missing, and that no owed work is dropped.
  \<^item> \<open>Round_Projection\<close> (\<open>projection.rs\<close>): the host's plan. \<open>Round_Plan\<close> shows that its steps are the
    obligations' steps, that a step resolves to the obligation it came from and waits for the same
    delegation, and that planning does not panic when every recovery bundle names the proposal of
    its own row.
  \<^item> \<open>Drive_Decisions\<close> (\<open>round_drive/\<close>: \<open>selection.rs\<close>, \<open>signing.rs\<close>, \<open>tally.rs\<close>, \<open>quiescence.rs\<close>,
    \<open>run_ledger.rs\<close>, \<open>policy.rs\<close>; the step types of \<open>vote_work/mod.rs\<close>): the decisions of the driver.
    \<open>Drive_Loop\<close> (\<open>run_loop.rs\<close>, \<open>dispatch.rs\<close>) is one pass of its loop. \<open>Drive_Passes\<close> has the ways a
    pass can end and the loop; \<open>Drive_Properties\<close> shows that dispatches respect plan, locks,
    failures and budget, that a report is supported by what the run read and accounts for every
    failed step and skipped bundle, that an interruption is answered as one, and that no unsigned delegation is dispatched.

  \<^bold>\<open>How the parts interact.\<close> The coordinator is the only client of the store, the protocol client and
  the scan. Its state is the record \<open>world\<close>: the database, the in-flight registry, the number of
  the next reading of the environment, and the log of POSTs, which exists only in the model.
  Everything outside the pass is a function of the number of the reading: the clock, the
  cancellation flag, the host epoch, the outcome of each race between a request and an
  interruption, the fault a transaction meets, and what other passes did to the database before a
  store call. The theorems quantify over all of these functions; the lease, proved exclusive in
  \<open>Submission_Coordination\<close>, appears as the hypothesis that other passes leave the record of this
  identity alone.

  Planning reads one snapshot and writes nothing: its only inputs are the snapshot's rows and the
  roster. It shares with the submission lifecycle the durable states its phases are projected
  from, and the transaction hashes of \<open>Submission_Planning\<close>. The driver plans again before every
  wave, so its environment is again a function of the reading: the snapshot behind each plan,
  the host's control, contexts and stored signatures, and the executor's answer for a step. Its
  events are the log its theorems speak about; progress from inside a step is not in it.

  \<^bold>\<open>Interfaces.\<close> Locales state what a client needs of a component and are interpreted on the model:
  \<open>stepwise_store\<close> (runs of store calls keep the invariant and the records they may not touch),
  interpreted on the SQLite store; \<open>helper_order\<close> (an order of helpers is a permutation and exists
  whenever its entropy does), interpreted on the shuffle and on the order for resubmission; \<open>ordered_map\<close>
  (lookup after insertion, keys in order), interpreted on the association lists of
  \<open>Voting_Collections\<close>; \<open>drive_invariant\<close> (what holds at the start and across passes holds before the
  last one), interpreted on what the driver knows of the round.

  \<^bold>\<open>Bounds.\<close> Recursions are structural or have a measure; none has fuel beyond what the source counts.
  The attempt loop recurses on the attempts the policy leaves, the page loop of the scan on
  \<open>MAX_RECOVERY_LEAF_REQUESTS\<close> less the requests made, the driver's loop on the dispatches its policy
  leaves (a pass that does not end the run dispatches a step), and the first two bounds are shown to suffice: the end
  of the attempt loop is never reached, and every tree the protocol admits can be paged
  within the limit.

  \<^bold>\<open>Not modelled.\<close> The tables of the round other than \<open>chain_submissions\<close> are an abstract value
  \<open>domain\<close> that confirmation and retirement update through parameters, and reading the snapshot of
  a round is SQL over them: planning starts from the snapshot. The share-policy variants that take
  a floating-point sample depend on the rounding of that type. Proof construction,
  wallet scanning, PIR and HTTP clients, observability and the example programs call other crates
  or do I/O; so does executing a planned step, whose answer the driver takes as a parameter. The
  planning of note bundles and the wallet queries in front of it are left out. The asynchronous
  runtime is not modelled: a race is its outcome, and a wait of the driver is the number of
  signals it sees before its deadline, for deadlines the clock can represent.
\<close>

end
